(* ===== verification/Prelude.thy ===== *)
theory Prelude
  imports Complex_Main "HOL-Library.Word" "HOL-Library.Signed_Division"
begin

text \<open>
  The vocabulary every component theory shares: the outcome type of a piece of firmware
  code (a value and a new state, or the fault that stops the chip), the combinators C
  statements are written with, the C integer conversions the sources rely on, and checked
  array accesses. The collection \<open>prog_simps\<close> holds the equations that run a program
  symbolically; component theories add their own operations to it.
\<close>

named_theorems prog_simps \<open>equations that execute firmware programs symbolically\<close>

section \<open>Programs\<close>

text \<open>
  A fault ends the run of the whole firmware. \<open>Abort\<close> is \<open>abort()\<close> or a failed
  \<open>ESP_ERROR_CHECK\<close>; the others are the undefined behaviours of C the sources can reach:
  an access outside an array, a signed overflow, a null or freed pointer that is used, a
  floating-point value converted to an integer type that cannot hold it.
\<close>

datatype fault = Abort | Out_of_bounds | Signed_overflow | Null_pointer | Use_after_free | Bad_conversion

type_synonym ('s, 'a) prog = "'s \<Rightarrow> fault + 'a \<times> 's"

definition return :: "'a \<Rightarrow> ('s, 'a) prog" where
  "return a = (\<lambda>s. Inr (a, s))"

definition fail :: "fault \<Rightarrow> ('s, 'a) prog" where
  "fail f = (\<lambda>s. Inl f)"

definition bind :: "('s, 'a) prog \<Rightarrow> ('a \<Rightarrow> ('s, 'b) prog) \<Rightarrow> ('s, 'b) prog" where
  "bind m k = (\<lambda>s. case m s of Inl f \<Rightarrow> Inl f | Inr (a, s') \<Rightarrow> k a s')"

definition gets :: "('s \<Rightarrow> 'a) \<Rightarrow> ('s, 'a) prog" where
  "gets f = (\<lambda>s. Inr (f s, s))"

definition modify :: "('s \<Rightarrow> 's) \<Rightarrow> ('s, unit) prog" where
  "modify f = (\<lambda>s. Inr ((), f s))"

text \<open>A compound statement \<open>{ a; b; c; }\<close> is the list of its statements.\<close>

primrec block :: "('s, unit) prog list \<Rightarrow> ('s, unit) prog" where
  "block [] = return ()"
| "block (p # ps) = bind p (\<lambda>_. block ps)"

definition if_then :: "bool \<Rightarrow> ('s, unit) prog \<Rightarrow> ('s, unit) prog" where
  "if_then b p = (if b then p else return ())"

text \<open>\<open>for (i = 0; i < n; i++) body(i);\<close>\<close>

definition for_upto :: "nat \<Rightarrow> (nat \<Rightarrow> ('s, unit) prog) \<Rightarrow> ('s, unit) prog" where
  "for_upto n body = block (map body [0..<n])"

lemma return_run [prog_simps]: "return a s = Inr (a, s)"
  by (simp add: return_def)

lemma fail_run [prog_simps]: "fail f s = Inl f"
  by (simp add: fail_def)

lemma bind_run [prog_simps]:
  "bind m k s = (case m s of Inl f \<Rightarrow> Inl f | Inr (a, s') \<Rightarrow> k a s')"
  by (simp add: bind_def)

lemma gets_run [prog_simps]: "gets f s = Inr (f s, s)"
  by (simp add: gets_def)

lemma modify_run [prog_simps]: "modify f s = Inr ((), f s)"
  by (simp add: modify_def)

lemma block_run [prog_simps]:
  "block [] s = Inr ((), s)"
  "block (p # ps) s = (case p s of Inl f \<Rightarrow> Inl f | Inr (a, s') \<Rightarrow> block ps s')"
  by (simp_all add: return_def bind_def)

lemma if_then_run [prog_simps]: "if_then b p s = (if b then p s else Inr ((), s))"
  by (simp add: if_then_def return_def)

declare block.simps [simp del]

lemma block_append: "block (ps @ qs) = bind (block ps) (\<lambda>_. block qs)"
  by (induction ps) (auto simp: block.simps bind_def return_def fun_eq_iff split: sum.splits)

lemma block_append_run:
  "block (ps @ qs) s = (case block ps s of Inl f \<Rightarrow> Inl f | Inr (_, s') \<Rightarrow> block qs s')"
  by (simp add: block_append bind_run)

lemma for_upto_0 [simp]: "for_upto 0 body s = Inr ((), s)"
  by (simp add: for_upto_def block_run)

lemma for_upto_Suc:
  "for_upto (Suc n) body s =
     (case for_upto n body s of Inl f \<Rightarrow> Inl f | Inr (_, s') \<Rightarrow> body n s')"
  by (auto simp: for_upto_def block_append_run block_run split: sum.splits)

lemma bind_return [simp]: "bind m return = m"
  by (auto simp: bind_def return_def fun_eq_iff split: sum.splits)

lemma return_bind [simp]: "bind (return a) k = k a"
  by (simp add: bind_def return_def)

lemma bind_assoc: "bind (bind m k) h = bind m (\<lambda>a. bind (k a) h)"
  by (auto simp: bind_def fun_eq_iff split: sum.splits)

text \<open>
  \<open>runs_to p s Q\<close>: the program ends without a fault, in a result and state satisfying
  \<open>Q\<close>. This is the total-correctness triple the component proofs compose.
\<close>

definition runs_to :: "('s, 'a) prog \<Rightarrow> 's \<Rightarrow> ('a \<Rightarrow> 's \<Rightarrow> bool) \<Rightarrow> bool" where
  "runs_to p s Q = (case p s of Inl f \<Rightarrow> False | Inr (a, s') \<Rightarrow> Q a s')"

lemma runs_to_return [simp]: "runs_to (return a) s Q = Q a s"
  by (simp add: runs_to_def return_def)

lemma runs_to_bind [simp]: "runs_to (bind m k) s Q = runs_to m s (\<lambda>a s'. runs_to (k a) s' Q)"
  by (auto simp: runs_to_def bind_def split: sum.splits)

lemma runs_to_fail [simp]: "runs_to (fail f) s Q = False"
  by (simp add: runs_to_def fail_def)

lemma runs_to_gets [simp]: "runs_to (gets f) s Q = Q (f s) s"
  by (simp add: runs_to_def gets_def)

lemma runs_to_modify [simp]: "runs_to (modify f) s Q = Q () (f s)"
  by (simp add: runs_to_def modify_def)

lemma runs_to_block [simp]:
  "runs_to (block []) s Q = Q () s"
  "runs_to (block (p # ps)) s Q = runs_to p s (\<lambda>_ s'. runs_to (block ps) s' Q)"
  by (simp_all add: block.simps)

lemma runs_to_if_then [simp]: "runs_to (if_then b p) s Q = (if b then runs_to p s Q else Q () s)"
  by (simp add: if_then_def)

lemma runs_to_mono: "runs_to p s Q \<Longrightarrow> (\<And>a s'. Q a s' \<Longrightarrow> R a s') \<Longrightarrow> runs_to p s R"
  by (auto simp: runs_to_def split: sum.splits)

lemma runs_to_bindI:
  "runs_to m s R \<Longrightarrow> (\<And>a s'. R a s' \<Longrightarrow> runs_to (k a) s' Q) \<Longrightarrow> runs_to (bind m k) s Q"
  unfolding runs_to_bind by (rule runs_to_mono)

lemma runs_to_Inr: "p s = Inr (a, s') \<Longrightarrow> runs_to p s Q = Q a s'"
  by (simp add: runs_to_def)

lemma runs_to_eq: "runs_to p s (\<lambda>a t. a = b \<and> t = s') \<longleftrightarrow> p s = Inr (b, s')"
  by (auto simp: runs_to_def split: sum.splits)

section \<open>C integers\<close>

text \<open>
  \<open>int\<close> is 32 bits wide on the ESP32-C3 and its overflow is undefined: an arithmetic
  result is passed through \<open>chk_int\<close>. Unsigned types are words; a conversion to one is
  \<^const>\<open>word_of_int\<close>. Division of signed values truncates, which is \<open>sdiv\<close>.
\<close>

abbreviation INT_MAX :: int where "INT_MAX \<equiv> 2147483647"
abbreviation INT_MIN :: int where "INT_MIN \<equiv> -2147483648"

definition is_int :: "int \<Rightarrow> bool" where
  "is_int x \<longleftrightarrow> INT_MIN \<le> x \<and> x \<le> INT_MAX"

definition chk_int :: "int \<Rightarrow> ('s, int) prog" where
  "chk_int x = (if is_int x then return x else fail Signed_overflow)"

lemma chk_int_run [prog_simps]:
  "chk_int x s = (if is_int x then Inr (x, s) else Inl Signed_overflow)"
  by (simp add: chk_int_def return_def fail_def)

lemma runs_to_chk_int [simp]: "runs_to (chk_int x) s Q \<longleftrightarrow> is_int x \<and> Q x s"
  by (simp add: chk_int_def)

type_synonym u8 = "8 word"
type_synonym u16 = "16 word"
type_synonym u32 = "32 word"
type_synonym i16 = "16 word"

lemma sdiv_pos: "0 \<le> (a::int) \<Longrightarrow> 0 < b \<Longrightarrow> a sdiv b = a div b"
  by (auto simp: signed_divide_int_def sgn_if)

lemma uint_of_int_small:
  "0 \<le> x \<Longrightarrow> x < 2 ^ LENGTH('a::len) \<Longrightarrow> uint (word_of_int x :: 'a word) = x"
  by (simp add: uint_word_of_int_eq take_bit_int_eq_self)

lemma unat_of_nat_small: "n < 2 ^ LENGTH('a::len) \<Longrightarrow> unat (of_nat n :: 'a word) = n"
  by (simp add: unat_of_nat take_bit_nat_eq_self)

section \<open>Arrays\<close>

text \<open>An array is a list of its declared length; a write outside it is a fault.\<close>

definition store :: "nat \<Rightarrow> 'a \<Rightarrow> 'a list \<Rightarrow> ('s, 'a list) prog" where
  "store i v xs = (if i < length xs then return (xs[i := v]) else fail Out_of_bounds)"

lemma store_run [prog_simps]:
  "store i v xs s = (if i < length xs then Inr (xs[i := v], s) else Inl Out_of_bounds)"
  by (simp add: store_def return_def fail_def)

lemma runs_to_store [simp]:
  "runs_to (store i v xs) s Q \<longleftrightarrow> i < length xs \<and> Q (xs[i := v]) s"
  by (simp add: store_def)

text \<open>\<open>memcpy(dst + off, src, n)\<close> into an array.\<close>

definition overlay :: "nat \<Rightarrow> 'a list \<Rightarrow> 'a list \<Rightarrow> 'a list" where
  "overlay off src dst = take off dst @ src @ drop (off + length src) dst"

definition memcpy_at :: "nat \<Rightarrow> 'a list \<Rightarrow> 'a list \<Rightarrow> ('s, 'a list) prog" where
  "memcpy_at off src dst =
     (if off + length src \<le> length dst then return (overlay off src dst) else fail Out_of_bounds)"

lemma memcpy_at_run [prog_simps]:
  "memcpy_at off src dst s =
     (if off + length src \<le> length dst then Inr (overlay off src dst, s) else Inl Out_of_bounds)"
  by (simp add: memcpy_at_def return_def fail_def)

lemma length_overlay [simp]:
  "off + length src \<le> length dst \<Longrightarrow> length (overlay off src dst) = length dst"
  by (simp add: overlay_def)

lemma nth_overlay:
  "off + length src \<le> length dst \<Longrightarrow> i < length dst \<Longrightarrow>
   overlay off src dst ! i = (if off \<le> i \<and> i < off + length src then src ! (i - off) else dst ! i)"
  by (auto simp: overlay_def nth_append)

end
