(* ===== verification/CFloat.thy ===== *)
theory CFloat
  imports Prelude "HOL-Library.Log_Nat"
begin

text \<open>
  The floating-point arithmetic of the sources. A finite \<open>float\<close> or \<open>double\<close> is the
  rational number it denotes; each C operation is the exact operation followed by rounding
  to the format, to nearest with ties to even, which is what the soft-float library of the
  ESP32-C3 (a core with no floating-point unit and no fused operations) computes. Only the
  precision of the format is modelled: every value the sources compute stays far inside the
  exponent range, so no result is subnormal or overflows to infinity.
\<close>

section \<open>The binary exponent of a rational\<close>

definition ilog2 :: "rat \<Rightarrow> int" where
  "ilog2 q = (if 1 \<le> q then int (floorlog 2 (nat \<lfloor>q\<rfloor>)) - 1
              else - int (floorlog 2 (nat \<lceil>1 / q\<rceil> - 1)))"

lemma floorlog2_bounds:
  assumes "0 < n"
  shows "2 ^ (floorlog 2 n - 1) \<le> n" "n < 2 ^ floorlog 2 n" "0 < floorlog 2 n"
  using floorlog_bounds [of n 2] assms
  by (auto simp: floorlog_eq_zero_iff intro: Nat.gr0I)

lemma of_nat_pow2_le: "2 ^ k \<le> n \<Longrightarrow> (2::rat) ^ k \<le> of_nat n"
  by (metis of_nat_le_iff of_nat_numeral of_nat_power)

lemma of_nat_le_pow2: "n < 2 ^ k \<Longrightarrow> (of_nat n :: rat) + 1 \<le> 2 ^ k"
  by (metis Suc_leI of_nat_Suc of_nat_le_iff of_nat_numeral of_nat_power add.commute)

lemma ilog2_ge1:
  assumes "1 \<le> q"
  shows "2 powi ilog2 q \<le> q \<and> q < 2 powi (ilog2 q + 1)"
proof -
  define n where "n = nat \<lfloor>q\<rfloor>"
  have n: "0 < n" "of_nat n \<le> q" "q < of_nat n + 1"
    using assms by (auto simp: n_def intro: floor_less_iff [THEN iffD1]) linarith
  note b = floorlog2_bounds [OF n(1)]
  have e: "ilog2 q = int (floorlog 2 n - 1)" "ilog2 q + 1 = int (floorlog 2 n)"
    using assms b(3) by (auto simp: ilog2_def n_def of_nat_diff)
  have "(2::rat) ^ (floorlog 2 n - 1) \<le> q" "q < 2 ^ floorlog 2 n"
    using of_nat_pow2_le [OF b(1)] of_nat_le_pow2 [OF b(2)] n(2,3) by linarith+
  then show ?thesis
    unfolding e(2) unfolding e(1) by (simp only: power_int_of_nat)
qed

lemma ilog2_lt1:
  assumes "0 < q" "q < 1"
  shows "2 powi ilog2 q \<le> q \<and> q < 2 powi (ilog2 q + 1)"
proof -
  define c where "c = nat \<lceil>1 / q\<rceil>"
  have i: "1 < 1 / q" using assms by simp
  have c: "2 \<le> c" "1 / q \<le> of_nat c" "of_nat c < 1 / q + 1"
    using i by (auto simp: c_def) linarith+
  then have m: "0 < c - 1" by simp
  define k where "k = floorlog 2 (c - 1)"
  note b = floorlog2_bounds [OF m, folded k_def]
  have e: "ilog2 q = - int k"
    using assms by (simp add: ilog2_def c_def k_def)
  have "1 / q \<le> 2 ^ k"
    using of_nat_le_pow2 [OF b(2)] c(1,2) of_nat_diff [of 1 c, where 'a = rat] by linarith
  then have lo: "1 / 2 ^ k \<le> q"
    using assms by (simp add: field_simps)
  have "2 ^ (k - 1) < 1 / q"
    using of_nat_pow2_le [OF b(1)] c m by (simp add: of_nat_diff)
  then have hi: "q < 1 / 2 ^ (k - 1)"
    using assms by (simp add: field_simps)
  have k1: "- int k + 1 = - int (k - 1)" using b(3) by simp
  show ?thesis
    unfolding e k1 using lo hi by (simp add: power_int_minus field_simps)
qed

lemma ilog2_bounds: "0 < q \<Longrightarrow> 2 powi ilog2 q \<le> q \<and> q < 2 powi (ilog2 q + 1)"
  using ilog2_ge1 ilog2_lt1 by (cases "1 \<le> q") auto

lemma powi2_mono: "(2::rat) powi a \<le> 2 powi b \<longleftrightarrow> a \<le> b"
  using power_int_increasing [of a b "2::rat"] power_int_strict_increasing [of b a "2::rat"]
  by (cases "a \<le> b") auto

lemma powi2_strict_mono: "(2::rat) powi a < 2 powi b \<longleftrightarrow> a < b"
  using powi2_mono [of b a] by linarith

lemma powi2_pos [simp]: "0 < (2::rat) powi a"
  by simp

lemma ilog2_mono: "0 < x \<Longrightarrow> x \<le> y \<Longrightarrow> ilog2 x \<le> ilog2 y"
proof -
  assume a: "0 < x" "x \<le> y"
  then have "(2::rat) powi ilog2 x < 2 powi (ilog2 y + 1)"
    using ilog2_bounds [of x] ilog2_bounds [of y] by linarith
  then show ?thesis unfolding powi2_strict_mono by simp
qed

section \<open>Rounding\<close>

definition round_half_even :: "rat \<Rightarrow> int" where
  "round_half_even x =
     (let f = \<lfloor>x\<rfloor>; r = x - of_int f in
      if r < 1 / 2 then f else if 1 / 2 < r then f + 1 else if even f then f else f + 1)"

definition ulp :: "nat \<Rightarrow> rat \<Rightarrow> rat" where
  "ulp p q = 2 powi (ilog2 \<bar>q\<bar> - int p + 1)"

definition fl :: "nat \<Rightarrow> rat \<Rightarrow> rat" where
  "fl p q = (if q = 0 then 0 else of_int (round_half_even (q / ulp p q)) * ulp p q)"

abbreviation f32 :: "rat \<Rightarrow> rat" where "f32 \<equiv> fl 24"
abbreviation f64 :: "rat \<Rightarrow> rat" where "f64 \<equiv> fl 53"

lemma round_half_even_of_int [simp]: "round_half_even (of_int n) = n"
  by (simp add: round_half_even_def)

lemma round_half_even_error: "\<bar>of_int (round_half_even x) - x\<bar> \<le> 1 / 2"
proof -
  define r where "r = x - of_int \<lfloor>x\<rfloor>"
  have r: "0 \<le> r" "r < 1" by (simp_all add: r_def) linarith
  have "x = of_int \<lfloor>x\<rfloor> + r" by (simp add: r_def)
  then have "of_int (round_half_even x) - x = (if r < 1 / 2 \<or> r = 1 / 2 \<and> even \<lfloor>x\<rfloor> then - r else 1 - r)"
    by (auto simp: round_half_even_def Let_def r_def [symmetric])
  with r show ?thesis by (auto split: if_splits)
qed

lemma round_half_even_mono: "x \<le> y \<Longrightarrow> round_half_even x \<le> round_half_even y"
proof -
  assume xy: "x \<le> y"
  then have f: "\<lfloor>x\<rfloor> \<le> \<lfloor>y\<rfloor>" by (rule floor_mono)
  show ?thesis
  proof (cases "\<lfloor>x\<rfloor> = \<lfloor>y\<rfloor>")
    case True
    with xy show ?thesis by (auto simp: round_half_even_def Let_def)
  next
    case False
    with f have "\<lfloor>x\<rfloor> + 1 \<le> \<lfloor>y\<rfloor>" by simp
    then show ?thesis by (auto simp: round_half_even_def Let_def)
  qed
qed

lemma floor_minus_frac: "x \<noteq> of_int \<lfloor>x\<rfloor> \<Longrightarrow> \<lfloor>- x\<rfloor> = - \<lfloor>x\<rfloor> - (1::int)" for x :: rat
  by (rule floor_unique) (simp_all, linarith+)

lemma round_half_even_minus: "round_half_even (- x) = - round_half_even x"
proof (cases "x = of_int \<lfloor>x\<rfloor>")
  case True
  then show ?thesis by (metis of_int_minus round_half_even_of_int)
next
  case False
  show ?thesis
    unfolding round_half_even_def Let_def floor_minus_frac [OF False]
    by (auto simp: algebra_simps)
qed

lemma ulp_pos [simp]: "0 < ulp p q"
  by (simp add: ulp_def)

lemma ulp_nz [simp]: "ulp p q \<noteq> 0"
  using ulp_pos [of p q] by linarith

lemma ulp_minus [simp]: "ulp p (- q) = ulp p q"
  by (simp add: ulp_def)

lemma fl_0 [simp]: "fl p 0 = 0"
  by (simp add: fl_def)

lemma fl_minus: "fl p (- q) = - fl p q"
  by (simp add: fl_def round_half_even_minus)

lemma fl_ulp_error: "\<bar>fl p q - q\<bar> \<le> ulp p q / 2"
proof (cases "q = 0")
  case False
  have "fl p q - q = (of_int (round_half_even (q / ulp p q)) - q / ulp p q) * ulp p q"
    using False by (simp add: fl_def field_simps)
  then have "\<bar>fl p q - q\<bar> = \<bar>of_int (round_half_even (q / ulp p q)) - q / ulp p q\<bar> * ulp p q"
    using ulp_pos [of p q] by (simp add: abs_mult less_imp_le)
  also have "\<dots> \<le> 1 / 2 * ulp p q"
    by (rule mult_right_mono [OF round_half_even_error]) (simp add: less_imp_le)
  finally show ?thesis by simp
qed (simp add: less_imp_le)

lemma fl_error: "\<bar>fl p q - q\<bar> \<le> \<bar>q\<bar> / 2 ^ p"
proof (cases "q = 0")
  case False
  have "ulp p q / 2 = 2 powi ilog2 \<bar>q\<bar> / 2 ^ p"
    by (simp add: ulp_def power_int_add power_int_diff)
  also have "\<dots> \<le> \<bar>q\<bar> / 2 ^ p"
    using ilog2_bounds [of "\<bar>q\<bar>"] False by (simp add: divide_right_mono)
  finally show ?thesis using fl_ulp_error [of p q] by linarith
qed simp

section \<open>Representable values and monotonicity\<close>

lemma fl_integral:
  assumes "q / ulp p q = of_int m"
  shows "fl p q = q"
proof -
  have "round_half_even (q / ulp p q) = m" using assms by simp
  then have "of_int (round_half_even (q / ulp p q)) * ulp p q = q / ulp p q * ulp p q"
    using assms by simp
  then show ?thesis by (simp add: fl_def)
qed

lemma fl_repr_less:
  assumes "\<bar>m\<bar> < 2 ^ p"
  shows "fl p (of_int m * 2 powi k) = of_int m * 2 powi k"
proof (cases "m = 0")
  case False
  let ?q = "of_int m * 2 powi k :: rat"
  let ?e = "ilog2 \<bar>?q\<bar>"
  have "\<bar>?q\<bar> = of_int \<bar>m\<bar> * 2 powi k" by (simp add: abs_mult)
  moreover have "(of_int \<bar>m\<bar> :: rat) < 2 ^ p"
    using assms by (metis of_int_less_iff of_int_numeral of_int_power)
  ultimately have "\<bar>?q\<bar> < 2 ^ p * 2 powi k" by simp
  also have "\<dots> = 2 powi (int p + k)" by (simp add: power_int_add)
  finally have "(2::rat) powi ?e < 2 powi (int p + k)"
    using ilog2_bounds [of "\<bar>?q\<bar>"] False by simp
  then have e: "?e - int p + 1 \<le> k" unfolding powi2_strict_mono by simp
  define d where "d = nat (k - (?e - int p + 1))"
  have k: "k = (?e - int p + 1) + int d" using e by (simp add: d_def)
  have "?q / ulp p ?q = of_int m * (2 powi (k - (?e - int p + 1)))"
    unfolding ulp_def by (simp add: power_int_diff)
  also have "k - (?e - int p + 1) = int d" using k by linarith
  also have "of_int m * 2 powi int d = (of_int (m * 2 ^ d) :: rat)" by simp
  finally show ?thesis by (rule fl_integral)
qed simp

lemma fl_repr:
  assumes "0 < p" "\<bar>m\<bar> \<le> 2 ^ p"
  shows "fl p (of_int m * 2 powi k) = of_int m * 2 powi k"
proof (cases "\<bar>m\<bar> < 2 ^ p")
  case True
  then show ?thesis by (rule fl_repr_less)
next
  case False
  with assms have m: "m = sgn m * 2 ^ p" and s: "\<bar>sgn m\<bar> < (2::int) ^ p"
    by (auto simp: sgn_if abs_if one_less_power split: if_splits)
  have "of_int m * 2 powi k = of_int (sgn m) * (2::rat) powi (k + int p)"
    by (subst m) (simp add: power_int_add)
  then show ?thesis using fl_repr_less [OF s] by simp
qed

lemma fl_of_int: "0 < p \<Longrightarrow> \<bar>m\<bar> \<le> 2 ^ p \<Longrightarrow> fl p (of_int m) = of_int m"
  using fl_repr [of p m 0] by simp

lemma fl_of_nat:
  assumes "0 < p" "n \<le> 2 ^ p"
  shows "fl p (of_nat n) = of_nat n"
proof -
  have "int n \<le> int (2 ^ p)" using assms(2) by (simp only: of_nat_le_iff)
  then show ?thesis using fl_of_int [OF assms(1), of "int n"] by simp
qed

lemma fl_same_binade: "0 < x \<Longrightarrow> x \<le> y \<Longrightarrow> ilog2 x = ilog2 y \<Longrightarrow> fl p x \<le> fl p y"
proof -
  assume a: "0 < x" "x \<le> y" "ilog2 x = ilog2 y"
  then have u: "ulp p y = ulp p x" by (simp add: ulp_def)
  have "round_half_even (x / ulp p x) \<le> round_half_even (y / ulp p x)"
    by (rule round_half_even_mono) (use a in \<open>simp add: divide_right_mono less_imp_le\<close>)
  then show ?thesis
    using a u by (simp add: fl_def mult_right_mono less_imp_le)
qed

lemma fl_binade:
  assumes "0 < p" "0 < q"
  shows "2 powi ilog2 q \<le> fl p q \<and> fl p q \<le> 2 powi (ilog2 q + 1)"
proof -
  let ?e = "ilog2 q"
  have u: "ulp p q = 2 powi (?e - int p + 1)" using assms by (simp add: ulp_def)
  have lo: "2 powi ?e / ulp p q = of_int (2 ^ (p - 1))"
    and hi: "2 powi (?e + 1) / ulp p q = of_int (2 ^ p)"
    using assms(1) unfolding u
    by (auto simp: power_int_diff power_int_add field_simps of_nat_diff power_Suc [symmetric]
          simp del: power_Suc)
  have "2 powi ?e / ulp p q \<le> q / ulp p q" "q / ulp p q \<le> 2 powi (?e + 1) / ulp p q"
    using ilog2_bounds [OF assms(2)] by (auto simp: divide_right_mono less_imp_le)
  then have "round_half_even (2 powi ?e / ulp p q) \<le> round_half_even (q / ulp p q)"
    "round_half_even (q / ulp p q) \<le> round_half_even (2 powi (?e + 1) / ulp p q)"
    by (auto intro: round_half_even_mono)
  then have b: "2 ^ (p - 1) \<le> round_half_even (q / ulp p q)" "round_half_even (q / ulp p q) \<le> 2 ^ p"
    unfolding lo hi round_half_even_of_int by simp_all
  have "of_int (2 ^ (p - 1)) * ulp p q \<le> fl p q" "fl p q \<le> of_int (2 ^ p) * ulp p q"
    using b assms(2) unfolding fl_def by (auto intro!: mult_right_mono simp del: of_int_power simp: less_imp_le)
  then show ?thesis unfolding lo [symmetric] hi [symmetric] by simp
qed

lemma fl_nonneg: "0 < p \<Longrightarrow> 0 \<le> q \<Longrightarrow> 0 \<le> fl p q"
  using fl_binade [of p q] powi2_pos [of "ilog2 q"] by (cases "q = 0") (simp, linarith)

lemma fl_mono_pos:
  assumes "0 < p" "0 < x" "x \<le> y"
  shows "fl p x \<le> fl p y"
proof (cases "ilog2 x = ilog2 y")
  case True
  with assms show ?thesis by (simp add: fl_same_binade)
next
  case False
  with ilog2_mono [OF assms(2,3)] have "ilog2 x + 1 \<le> ilog2 y" by simp
  then have "(2::rat) powi (ilog2 x + 1) \<le> 2 powi ilog2 y" by (simp add: powi2_mono)
  then show ?thesis
    using fl_binade [OF assms(1,2)] fl_binade [OF assms(1), of y] assms by linarith
qed

lemma fl_mono:
  assumes "0 < p" "x \<le> y"
  shows "fl p x \<le> fl p y"
proof (cases "0 < x")
  case True
  with assms show ?thesis by (simp add: fl_mono_pos)
next
  case x: False
  show ?thesis
  proof (cases "0 \<le> y")
    case True
    have "0 \<le> fl p (- x)" using x assms(1) by (simp add: fl_nonneg)
    moreover have "0 \<le> fl p y" using True assms(1) by (simp add: fl_nonneg)
    ultimately show ?thesis by (simp add: fl_minus)
  next
    case False
    then have "fl p (- y) \<le> fl p (- x)" using assms by (simp add: fl_mono_pos)
    then show ?thesis by (simp add: fl_minus)
  qed
qed

lemma fl_pos: "0 < p \<Longrightarrow> 0 < q \<Longrightarrow> 0 < fl p q"
  using fl_binade [of p q] powi2_pos [of "ilog2 q"] by linarith

lemma fl_idem_pos:
  assumes "0 < p" "0 < q"
  shows "fl p (fl p q) = fl p q"
proof -
  define m where "m = round_half_even (q / ulp p q)"
  have u: "ulp p q = 2 powi (ilog2 q - int p + 1)" using assms by (simp add: ulp_def)
  have fl: "fl p q = of_int m * ulp p q" using assms(2) by (simp add: fl_def m_def)
  have "2 powi (ilog2 q + 1) = 2 ^ p * ulp p q"
    unfolding u by (simp add: power_int_diff power_int_add)
  then have "of_int m * ulp p q \<le> 2 ^ p * ulp p q" "0 < of_int m * ulp p q"
    using fl_binade [OF assms] fl_pos [OF assms] fl by simp_all
  then have "(of_int m :: rat) \<le> of_int (2 ^ p)" "0 < (of_int m :: rat)"
    using ulp_pos [of p q] by (simp_all add: zero_less_mult_iff)
  then have "\<bar>m\<bar> \<le> 2 ^ p" by (simp only: of_int_le_iff of_int_0_less_iff)
  then show ?thesis using fl_repr [OF assms(1), of m "ilog2 q - int p + 1"] by (simp add: fl u)
qed

lemma fl_idem: "0 < p \<Longrightarrow> fl p (fl p q) = fl p q"
  using fl_idem_pos [of p q] fl_idem_pos [of p "- q"] by (cases q "0 :: rat" rule: linorder_cases) (simp_all add: fl_minus)

lemma fl_le_of_int: "0 < p \<Longrightarrow> \<bar>m\<bar> \<le> 2 ^ p \<Longrightarrow> q \<le> of_int m \<Longrightarrow> fl p q \<le> of_int m"
  using fl_mono [of p q "of_int m"] by (simp add: fl_of_int)

lemma fl_ge_of_int: "0 < p \<Longrightarrow> \<bar>m\<bar> \<le> 2 ^ p \<Longrightarrow> of_int m \<le> q \<Longrightarrow> of_int m \<le> fl p q"
  using fl_mono [of p "of_int m" q] by (simp add: fl_of_int)

text \<open>
  A value close enough to an integer rounds to it: the error of a short computation in a
  wide format disappears when its result is stored in a narrower one.
\<close>

lemma fl_near_int:
  assumes "0 < q" "q < 2 ^ p" "\<bar>q - of_int m\<bar> * 2 ^ (p + 1) < q"
  shows "fl p q = of_int m"
proof -
  let ?u = "ulp p q"
  have b: "2 powi ilog2 q \<le> q" "q < 2 powi (ilog2 q + 1)" using ilog2_bounds assms(1) by auto
  then have "(2::rat) powi ilog2 q < 2 powi int p" using assms(2) by simp
  then have e: "ilog2 q + 1 \<le> int p" unfolding powi2_strict_mono by simp
  define d where "d = nat (int p - (ilog2 q + 1))"
  have u: "?u = 2 powi (- int d)" using e assms(1) by (simp add: ulp_def d_def algebra_simps)
  then have mu: "of_int m = of_int (m * 2 ^ d) * ?u" by (simp add: power_int_minus)
  have "?u * 2 ^ p = 2 powi (ilog2 q + 1)"
    using assms(1) by (simp add: ulp_def power_int_add power_int_diff)
  then have "q < ?u / 2 * 2 ^ (p + 1)" using b(2) by simp
  then have "\<bar>q - of_int m\<bar> * 2 ^ (p + 1) < ?u / 2 * 2 ^ (p + 1)"
    using assms(3) by (rule less_trans [rotated])
  then have "\<bar>q - of_int m\<bar> < ?u / 2"
    by (rule mult_right_less_imp_less) simp
  then have "\<bar>fl p q - of_int m\<bar> < ?u" using fl_ulp_error [of p q] by linarith
  moreover have "fl p q = of_int (round_half_even (q / ?u)) * ?u" using assms(1) by (simp add: fl_def)
  ultimately have "\<bar>of_int (round_half_even (q / ?u) - m * 2 ^ d) * ?u\<bar> < ?u"
    by (subst (asm) mu) (simp add: left_diff_distrib)
  then have "\<bar>of_int (round_half_even (q / ?u) - m * 2 ^ d)\<bar> * ?u < 1 * ?u"
    by (simp add: abs_mult less_imp_le)
  then have "\<bar>of_int (round_half_even (q / ?u) - m * 2 ^ d) :: rat\<bar> < 1"
    by (simp only: mult_less_cancel_right_pos [OF ulp_pos])
  then have "round_half_even (q / ?u) = m * 2 ^ d" by linarith
  then show ?thesis using mu assms(1) by (simp add: fl_def)
qed

section \<open>Conversions\<close>

text \<open>Conversion of a floating-point value to an integer type drops the fraction.\<close>

definition trunc_rat :: "rat \<Rightarrow> int" where
  "trunc_rat q = (if 0 \<le> q then \<lfloor>q\<rfloor> else \<lceil>q\<rceil>)"

text \<open>\<open>fmod(x, y)\<close> is exact: the remainder of the division of \<open>x\<close> by \<open>y\<close> with the quotient
  truncated.\<close>

definition fmod :: "rat \<Rightarrow> rat \<Rightarrow> rat" where
  "fmod x y = x - of_int (trunc_rat (x / y)) * y"

lemma trunc_rat_bounds: "\<bar>q\<bar> \<le> of_int n \<Longrightarrow> \<bar>trunc_rat q\<bar> \<le> n"
  by (auto simp: trunc_rat_def abs_le_iff split: if_splits) linarith+

lemma fmod_bounds: "0 \<le> x \<Longrightarrow> 0 < y \<Longrightarrow> 0 \<le> fmod x y \<and> fmod x y < y"
proof -
  assume a: "0 \<le> x" "0 < y"
  then show ?thesis
    using floor_divide_lower [of y x] floor_divide_upper [of y x]
    by (simp add: fmod_def trunc_rat_def algebra_simps)
qed

end
