(* ===== verification/Platform.thy ===== *)
theory Platform
  imports CFloat
begin

text \<open>
  What the firmware calls and does not contain: FreeRTOS, the ESP-IDF drivers and radio stacks,
  the audio pipeline of ESP-ADF, the sound analysis library, the UCP transport. None of that code is part of the repository, so it
  is a parameter: an environment \<open>E\<close> that answers each call, as any function of the calls
  made so far. The state of every program starts with the trace of those calls, and a result
  about the firmware is a statement about the answers it was given and the calls it made.
  The \<open>task_run\<close> members of the task handles are \<open>volatile\<close> and shared between tasks;
  reading and writing one is an interaction with the environment too, answered or observed
  in the trace.
\<close>

section \<open>Calls\<close>

text \<open>The tasks (and their handles), and the queues, by the global that holds them.\<close>

datatype task = Led_renderer | Led_cmds | Motor_cmds | Play_notes | Play_mp3 | Audio_cnv
  | Run_cmds | Heart_beat | App_led | Gpio_example | Ucp_server_rcv

datatype queue = Gpio_evt | Led_frames | Audio_samples

text \<open>A queue item is copied by value; a sample item is a pointer to the one static sample
  buffer, with a length.\<close>

datatype item = Frame "u8 list" | Sample_ref int

datatype rtos_call = XTaskCreate task
  | VTaskDelete
  | VTaskDelay_ms rat
  | Read_task_run task
  | Write_task_run task bool
  | XEventGroupCreate task
  | XEventGroupSetBits task
  | XEventGroupClearBits task
  | XEventGroupWaitBits task bool int
  | VEventGroupDelete task
  | XQueueCreate queue int
  | XQueueSend queue item int
  | XQueueReceive queue
  | VQueueDelete queue
  | XSemaphoreCreateMutex
  | XSemaphoreTake int
  | XSemaphoreGive

datatype gpio_call = Gpio_set_level int int
  | Gpio_config "64 word" string string int int
  | Gpio_install_isr_service int
  | Gpio_isr_handler_add int

datatype ledc_call = Ledc_timer_config int int
  | Ledc_channel_config int int int
  | Ledc_set_duty int u32
  | Ledc_update_duty int

text \<open>A symbol of the RMT peripheral: two levels with their durations in ticks (15 bits each).\<close>

type_synonym u15 = "15 word"

datatype rmt_symbol = Symbol bool u15 bool u15

datatype rmt_call = Rmt_new_tx_channel int int int int
  | Rmt_enable
  | Rmt_transmit "u8 list" int
  | Rmt_new_bytes_encoder rmt_symbol rmt_symbol bool
  | Rmt_new_copy_encoder
  | Rmt_del_encoder int
  | Rmt_encoder_reset int

datatype i2s_call = I2s_new_channel
  | I2s_channel_init_std_mode int int int int
  | I2s_channel_enable
  | I2s_channel_disable
  | I2s_channel_write_samples "int list"
  | I2s_channel_write_bytes "u8 list"

datatype heap_call = Malloc nat | Free int

text \<open>The audio pipeline of ESP-ADF.\<close>

datatype adf_call = Audio_pipeline_init
  | Mp3_decoder_init
  | Audio_element_set_read_cb
  | Raw_stream_init
  | Audio_pipeline_register string
  | Audio_pipeline_link "string list"
  | Audio_pipeline_stop
  | Audio_pipeline_wait_for_stop
  | Audio_pipeline_terminate
  | Audio_pipeline_unregister string
  | Audio_pipeline_deinit
  | Audio_element_deinit
  | Audio_pipeline_reset_ringbuffer
  | Audio_pipeline_reset_elements
  | Audio_pipeline_change_state_init
  | Audio_pipeline_run
  | Raw_stream_read nat

datatype adc_call = Adc_oneshot_new_unit int
  | Adc_oneshot_config_channel int int
  | Adc_oneshot_read int
  | Adc_oneshot_del_unit
  | Adc_cali_create_scheme_curve_fitting int int int
  | Adc_cali_raw_to_voltage int int
  | Adc_cali_delete_scheme_curve_fitting int

datatype nvs_call = Nvs_flash_init | Nvs_flash_erase

text \<open>The sound analysis library (\<open>libconvert.a\<close>) and the biquad filters of esp-dsp.\<close>

datatype cnv_call = Cnv_audio_calculate_volume int
  | Cnv_audio_get_volume
  | Cnv_audio_set_resolution_bits int

datatype wifi_mode = Mode_ap | Mode_sta

datatype auth_mode = Auth_open | Auth_wpa_wpa2_psk

datatype wifi_call = Esp_netif_init
  | Esp_event_loop_create_default
  | Esp_netif_create_default_wifi wifi_mode
  | Esp_wifi_init
  | Esp_event_handler_register string int
  | Esp_wifi_set_mode wifi_mode
  | Esp_wifi_set_config_ap string nat int string int auth_mode
  | Esp_wifi_set_config_sta "u8 list" "u8 list"
  | Esp_wifi_get_config_sta
  | Esp_wifi_start
  | Esp_wifi_connect
  | Mdns_init
  | Mdns_hostname_set string
  | Mdns_instance_name_set string
  | Mdns_service_add string string int "(string \<times> string) list"

datatype ucp_call = Ucp_init
  | Ucp_recv nat
  | Os_create_thread task
  | Ucp_get_conn_state

text \<open>An attribute of a GATT table: its UUID, permissions, maximal length and first value.\<close>

datatype gatt_attr = Attr u16 u16 nat "u8 list"

datatype ble_call = Ble_gap_set_device_name string
  | Ble_gap_config_adv_data_raw "u8 list"
  | Ble_gap_config_scan_rsp_data_raw "u8 list"
  | Ble_gap_start_advertising int int
  | Ble_gap_update_conn_params "u8 list" int int int int
  | Ble_gatts_create_attr_tab "gatt_attr list" u16 nat int
  | Ble_gatts_start_service u16
  | Ble_gatts_send_response u16 u16 u32 int "(u16 \<times> u16 \<times> u8 list) option"
  | Bt_controller_mem_release
  | Bt_controller_init
  | Bt_controller_enable
  | Bluedroid_init
  | Bluedroid_enable
  | Bluedroid_disable
  | Ble_gatts_register_callback
  | Ble_gap_register_callback
  | Ble_gatts_app_register int
  | Ble_gatt_set_local_mtu int

datatype call = Rtos rtos_call
  | Gpio gpio_call
  | Ledc ledc_call
  | Rmt rmt_call
  | I2s i2s_call
  | Heap heap_call
  | Adf adf_call
  | Adc adc_call
  | Nvs nvs_call
  | Cnv cnv_call
  | Wifi wifi_call
  | Ucp ucp_call
  | Ble ble_call

section \<open>Environments\<close>

text \<open>A C string handed to a task: the number of the allocation it lives in, and its text.\<close>

type_synonym cstr = "nat \<times> string"

text \<open>An answer is the returned code and the data written through output parameters.\<close>

type_synonym answer = "int \<times> int list"
type_synonym env = "call list \<Rightarrow> call \<Rightarrow> answer"

record world =
  trace :: "call list"

abbreviation (input) ESP_OK :: int where "ESP_OK \<equiv> 0"
abbreviation (input) ESP_FAIL :: int where "ESP_FAIL \<equiv> -1"
abbreviation (input) ESP_ERR_NO_MEM :: int where "ESP_ERR_NO_MEM \<equiv> 0x101"
abbreviation (input) ESP_ERR_INVALID_ARG :: int where "ESP_ERR_INVALID_ARG \<equiv> 0x102"
abbreviation (input) ESP_ERR_NOT_SUPPORTED :: int where "ESP_ERR_NOT_SUPPORTED \<equiv> 0x106"
abbreviation (input) ESP_ERR_TIMEOUT :: int where "ESP_ERR_TIMEOUT \<equiv> 0x107"
abbreviation (input) pdTRUE :: int where "pdTRUE \<equiv> 1"
abbreviation (input) pdPASS :: int where "pdPASS \<equiv> 1"

definition ask :: "env \<Rightarrow> call \<Rightarrow> ('a world_scheme, answer) prog" where
  "ask E c = (\<lambda>w. Inr (E (trace w) c, w\<lparr>trace := trace w @ [c]\<rparr>))"

definition call :: "env \<Rightarrow> call \<Rightarrow> ('a world_scheme, int) prog" where
  "call E c = bind (ask E c) (\<lambda>a. return (fst a))"

text \<open>A call whose result the code ignores.\<close>

definition emit :: "env \<Rightarrow> call \<Rightarrow> ('a world_scheme, unit) prog" where
  "emit E c = bind (ask E c) (\<lambda>_. return ())"

definition ESP_ERROR_CHECK :: "env \<Rightarrow> call \<Rightarrow> ('a world_scheme, unit) prog" where
  "ESP_ERROR_CHECK E c = bind (call E c) (\<lambda>r. if r = ESP_OK then return () else fail Abort)"

text \<open>\<open>vTaskDelay(pdMS_TO_TICKS(ms))\<close>, by the milliseconds asked for.\<close>

abbreviation vTaskDelay_ms :: "env \<Rightarrow> rat \<Rightarrow> ('a world_scheme, unit) prog" where
  "vTaskDelay_ms E ms \<equiv> emit E (Rtos (VTaskDelay_ms ms))"

abbreviation read_task_run :: "env \<Rightarrow> task \<Rightarrow> ('a world_scheme, bool) prog" where
  "read_task_run E h \<equiv> bind (call E (Rtos (Read_task_run h))) (\<lambda>r. return (r \<noteq> 0))"

abbreviation write_task_run :: "env \<Rightarrow> task \<Rightarrow> bool \<Rightarrow> ('a world_scheme, unit) prog" where
  "write_task_run E h b \<equiv> emit E (Rtos (Write_task_run h b))"

lemma ask_run [prog_simps]: "ask E c w = Inr (E (trace w) c, w\<lparr>trace := trace w @ [c]\<rparr>)"
  by (simp add: ask_def)

lemma call_run [prog_simps]:
  "call E c w = Inr (fst (E (trace w) c), w\<lparr>trace := trace w @ [c]\<rparr>)"
  by (simp add: call_def prog_simps)

lemma emit_run [prog_simps]: "emit E c w = Inr ((), w\<lparr>trace := trace w @ [c]\<rparr>)"
  by (simp add: emit_def prog_simps)

lemma ESP_ERROR_CHECK_run [prog_simps]:
  "ESP_ERROR_CHECK E c w =
     (if fst (E (trace w) c) = ESP_OK then Inr ((), w\<lparr>trace := trace w @ [c]\<rparr>) else Inl Abort)"
  by (simp add: ESP_ERROR_CHECK_def prog_simps)

lemma runs_to_ask [simp]: "runs_to (ask E c) w Q \<longleftrightarrow> Q (E (trace w) c) (w\<lparr>trace := trace w @ [c]\<rparr>)"
  by (simp add: runs_to_def prog_simps)

lemma runs_to_call [simp]:
  "runs_to (call E c) w Q \<longleftrightarrow> Q (fst (E (trace w) c)) (w\<lparr>trace := trace w @ [c]\<rparr>)"
  by (simp add: runs_to_def prog_simps)

lemma runs_to_emit [simp]: "runs_to (emit E c) w Q \<longleftrightarrow> Q () (w\<lparr>trace := trace w @ [c]\<rparr>)"
  by (simp add: runs_to_def prog_simps)

lemma runs_to_ESP_ERROR_CHECK [simp]:
  "runs_to (ESP_ERROR_CHECK E c) w Q \<longleftrightarrow>
     fst (E (trace w) c) = ESP_OK \<and> Q () (w\<lparr>trace := trace w @ [c]\<rparr>)"
  by (simp add: runs_to_def prog_simps)

text \<open>
  An environment accepts a call when it answers \<open>ESP_OK\<close> whatever happened before. The
  hypotheses of the component theorems are of this form, one per driver, each restricted to
  the arguments the driver documents as valid.
\<close>

definition accepts :: "env \<Rightarrow> call \<Rightarrow> bool" where
  "accepts E c \<longleftrightarrow> (\<forall>tr. fst (E tr c) = ESP_OK)"

lemma acceptsD [simp]: "accepts E c \<Longrightarrow> fst (E tr c) = ESP_OK"
  by (simp add: accepts_def)

text \<open>Nobody asks the task to stop: every look at its \<open>task_run\<close> finds it set.\<close>

definition keeps_running :: "env \<Rightarrow> task \<Rightarrow> bool" where
  "keeps_running E h \<longleftrightarrow> (\<forall>tr. fst (E tr (Rtos (Read_task_run h))) \<noteq> 0)"

lemma keeps_runningD [simp]: "keeps_running E h \<Longrightarrow> fst (E tr (Rtos (Read_task_run h))) \<noteq> 0"
  by (simp add: keeps_running_def)

text \<open>The environment in which every call succeeds with code 0 and no data.\<close>

definition env_ok :: env where
  "env_ok tr c = (0, [])"

text \<open>The same, with every task running and undisturbed.\<close>

definition env_run :: env where
  "env_run tr c = (case c of Rtos (Read_task_run h) \<Rightarrow> (1, []) | _ \<Rightarrow> (0, []))"

lemma keeps_running_env_run [simp]: "keeps_running env_run h"
  by (simp add: keeps_running_def env_run_def)

lemma accepts_env_ok [simp]: "accepts env_ok c"
  by (simp add: accepts_def env_ok_def)

text \<open>Programs that only make calls: the rest of the state is as before.\<close>

named_theorems logs_intros \<open>rules showing that a program changes nothing but the trace\<close>

definition logs_only :: "('a world_scheme, 'b) prog \<Rightarrow> bool" where
  "logs_only p \<longleftrightarrow> (\<forall>w a w'. p w = Inr (a, w') \<longrightarrow> (\<exists>cs. w' = w\<lparr>trace := trace w @ cs\<rparr>))"

lemma logs_onlyD: "logs_only p \<Longrightarrow> p w = Inr (a, w') \<Longrightarrow> \<exists>cs. w' = w\<lparr>trace := trace w @ cs\<rparr>"
  by (simp add: logs_only_def)

lemma logs_only_simple [logs_intros]:
  "logs_only (return a)" "logs_only (fail f)" "logs_only (ask E c)" "logs_only (call E c)"
  "logs_only (emit E c)" "logs_only (ESP_ERROR_CHECK E c)" "logs_only (chk_int x)"
  "logs_only (store i v xs)" "logs_only (memcpy_at off src dst)" "logs_only (gets g)"
  by (auto simp: logs_only_def prog_simps split: if_splits intro: exI [of _ "[]"])

lemma logs_only_bind [logs_intros]:
  assumes "logs_only p" "\<And>a. logs_only (k a)"
  shows "logs_only (bind p k)"
  unfolding logs_only_def
proof (intro allI impI)
  fix w a w'
  assume "bind p k w = Inr (a, w')"
  then obtain b w1 where "p w = Inr (b, w1)" "k b w1 = Inr (a, w')"
    by (auto simp: bind_run split: sum.splits)
  then show "\<exists>cs. w' = w\<lparr>trace := trace w @ cs\<rparr>"
    using logs_onlyD [OF assms(1)] logs_onlyD [OF assms(2)] by fastforce
qed

lemma logs_only_control [logs_intros]:
  "logs_only (block [])"
  "logs_only p \<Longrightarrow> logs_only (block ps) \<Longrightarrow> logs_only (block (p # ps))"
  "logs_only p \<Longrightarrow> logs_only (if_then b p)"
  by (simp_all add: block.simps logs_intros if_then_def)

lemma logs_only_if [logs_intros]:
  "(b \<Longrightarrow> logs_only p) \<Longrightarrow> (\<not> b \<Longrightarrow> logs_only q) \<Longrightarrow> logs_only (if b then p else q)"
  "(\<And>x y. logs_only (k x y)) \<Longrightarrow> logs_only (case z of (x, y) \<Rightarrow> k x y)"
  by (simp_all split: prod.splits)

lemma logs_only_map: "(\<And>i. i \<in> set is \<Longrightarrow> logs_only (body i)) \<Longrightarrow> logs_only (block (map body is))"
  by (induction "is") (auto intro: logs_intros)

lemma logs_only_for [logs_intros]: "(\<And>i. logs_only (body i)) \<Longrightarrow> logs_only (for_upto n body)"
  unfolding for_upto_def by (rule logs_only_map)

text \<open>Programs whose calls all satisfy a predicate.\<close>

named_theorems calls_intros \<open>rules bounding the calls a program makes\<close>

definition calls_only :: "(call \<Rightarrow> bool) \<Rightarrow> ('a world_scheme, 'b) prog \<Rightarrow> bool" where
  "calls_only P p \<longleftrightarrow> (\<forall>w a w'. p w = Inr (a, w') \<longrightarrow> (\<exists>cs. trace w' = trace w @ cs \<and> list_all P cs))"

lemma calls_onlyD: "calls_only P p \<Longrightarrow> p w = Inr (a, w') \<Longrightarrow> \<exists>cs. trace w' = trace w @ cs \<and> list_all P cs"
  by (simp add: calls_only_def)

lemma calls_only_silent [calls_intros]:
  "calls_only P (return a)" "calls_only P (fail flt)" "calls_only P (chk_int x)" "calls_only P (store i v xs)"
  "calls_only P (memcpy_at off src dst)" "calls_only P (gets g)"
  "(\<And>w. trace (f w) = trace w) \<Longrightarrow> calls_only P (modify f)"
  by (auto simp: calls_only_def prog_simps split: if_splits)

lemma calls_only_call [calls_intros]:
  "P c \<Longrightarrow> calls_only P (ask E c)" "P c \<Longrightarrow> calls_only P (call E c)"
  "P c \<Longrightarrow> calls_only P (emit E c)" "P c \<Longrightarrow> calls_only P (ESP_ERROR_CHECK E c)"
  by (auto simp: calls_only_def prog_simps split: if_splits)

lemma calls_only_bind [calls_intros]:
  assumes "calls_only P p" "\<And>a. calls_only P (k a)"
  shows "calls_only P (bind p k)"
  unfolding calls_only_def
proof (intro allI impI)
  fix w a w'
  assume "bind p k w = Inr (a, w')"
  then obtain b w1 where "p w = Inr (b, w1)" "k b w1 = Inr (a, w')"
    by (auto simp: bind_run split: sum.splits)
  then obtain cs ds where "trace w1 = trace w @ cs" "list_all P cs" "trace w' = trace w1 @ ds" "list_all P ds"
    using calls_onlyD [OF assms(1)] calls_onlyD [OF assms(2)] by metis
  then show "\<exists>cs. trace w' = trace w @ cs \<and> list_all P cs" by (auto intro!: exI [of _ "cs @ ds"])
qed

lemma calls_only_control [calls_intros]:
  "calls_only P (block [])"
  "calls_only P p \<Longrightarrow> calls_only P (block ps) \<Longrightarrow> calls_only P (block (p # ps))"
  "calls_only P p \<Longrightarrow> calls_only P (if_then b p)"
  by (simp_all add: block.simps calls_only_bind calls_only_silent if_then_def)

lemma calls_only_branch [calls_intros]:
  "(b \<Longrightarrow> calls_only P p) \<Longrightarrow> (\<not> b \<Longrightarrow> calls_only P q) \<Longrightarrow> calls_only P (if b then p else q)"
  "(\<And>x y. calls_only P (k x y)) \<Longrightarrow> calls_only P (case z of (x, y) \<Rightarrow> k x y)"
  "calls_only P m \<Longrightarrow> (\<And>x. calls_only P (h x)) \<Longrightarrow> calls_only P (case u of None \<Rightarrow> m | Some x \<Rightarrow> h x)"
  by (simp_all split: prod.splits option.splits)

section \<open>Task handles\<close>

text \<open>
  Four modules start and stop a task through a handle in the way the comment in
  \<open>led_strip.c\<close> describes: \<open>stop\<close> clears the event bit, resets \<open>task_run\<close> and waits for the
  bit; \<open>run\<close> stops a running task first, then sets \<open>task_run\<close> and creates the task. The
  locales state what each module's two operations do and derive what a caller can rely on.
\<close>

unbundle bit_operations_syntax

locale stoppable_task =
  fixes h :: task
    and timeout :: int
    and stop :: "env \<Rightarrow> ('a world_scheme, int) prog"
  assumes stop_eq: "stop E w =
      (if fst (E (trace w) (Rtos (Read_task_run h))) = 0
       then Inr (ESP_OK, w\<lparr>trace := trace w @ [Rtos (Read_task_run h)]\<rparr>)
       else
         let tr = trace w @ [Rtos (Read_task_run h), Rtos (XEventGroupClearBits h),
                             Rtos (Write_task_run h False)];
             c = Rtos (XEventGroupWaitBits h True timeout)
         in Inr (if fst (E tr c) AND 1 \<noteq> 0 then ESP_OK else ESP_ERR_TIMEOUT,
                 w\<lparr>trace := tr @ [c]\<rparr>))"
begin

lemma stop_idle:
  "fst (E (trace w) (Rtos (Read_task_run h))) = 0 \<Longrightarrow>
   stop E w = Inr (ESP_OK, w\<lparr>trace := trace w @ [Rtos (Read_task_run h)]\<rparr>)"
  by (simp add: stop_eq)

lemma stop_returns: "\<exists>r tr. stop E w = Inr (r, w\<lparr>trace := trace w @ tr\<rparr>) \<and> r \<in> {ESP_OK, ESP_ERR_TIMEOUT}"
  by (auto simp: stop_eq Let_def intro: exI [of _ "[a, b, c, d]" for a b c d])

text \<open>The bit is cleared before \<open>task_run\<close> is reset, so a bit set by the task's reaction to
  the reset is never lost, and nothing is created or deleted on the way.\<close>

lemma stop_handshake:
  assumes "fst (E (trace w) (Rtos (Read_task_run h))) \<noteq> 0" "stop E w = Inr (r, w')"
  shows "trace w' = trace w @ [Rtos (Read_task_run h), Rtos (XEventGroupClearBits h),
           Rtos (Write_task_run h False), Rtos (XEventGroupWaitBits h True timeout)]"
  using assms by (auto simp: stop_eq Let_def)

end

locale restartable_task = stoppable_task +
  fixes run :: "env \<Rightarrow> 'arg \<Rightarrow> ('a world_scheme, unit) prog"
    and set_arg :: "'arg \<Rightarrow> 'a world_scheme \<Rightarrow> 'a world_scheme"
  assumes set_arg_trace: "set_arg x (w\<lparr>trace := tr\<rparr>) = (set_arg x w)\<lparr>trace := tr\<rparr>"
    and run_eq: "run E x w =
      (let w1 = w\<lparr>trace := trace w @ [Rtos (Read_task_run h)]\<rparr> in
       case (if fst (E (trace w) (Rtos (Read_task_run h))) = 0 then Inr (ESP_OK, w1) else stop E w1) of
         Inl f \<Rightarrow> Inl f
       | Inr (_, w2) \<Rightarrow>
           Inr ((), (set_arg x w2)\<lparr>trace := trace w2 @ [Rtos (Write_task_run h True), Rtos (XTaskCreate h)]\<rparr>))"
begin

text \<open>\<open>run\<close> never fails and creates exactly one task, as its last action, whatever \<open>stop\<close>
  returned.\<close>

lemma run_creates:
  "\<exists>tr. run E x w = Inr ((), (set_arg x w)\<lparr>trace :=
           trace w @ tr @ [Rtos (Write_task_run h True), Rtos (XTaskCreate h)]\<rparr>) \<and>
        (\<forall>t. Rtos (XTaskCreate t) \<notin> set tr)"
  by (auto simp: run_eq stop_eq Let_def set_arg_trace
        intro: exI [of _ "[a]" for a] exI [of _ "[a, b]" for a b] exI [of _ "[a, b, c, d, e]" for a b c d e])

lemma run_idle:
  "fst (E (trace w) (Rtos (Read_task_run h))) = 0 \<Longrightarrow>
   run E x w = Inr ((), (set_arg x w)\<lparr>trace := trace w @
     [Rtos (Read_task_run h), Rtos (Write_task_run h True), Rtos (XTaskCreate h)]\<rparr>)"
  by (simp add: run_eq set_arg_trace)

text \<open>A stop that timed out does not keep a second task from being created.\<close>

lemma run_after_timeout:
  assumes "\<And>tr. fst (E tr (Rtos (Read_task_run h))) = 1"
    and "\<And>tr. fst (E tr (Rtos (XEventGroupWaitBits h True timeout))) = 0"
  shows "stop E w = Inr (ESP_ERR_TIMEOUT, w\<lparr>trace := trace w @
           [Rtos (Read_task_run h), Rtos (XEventGroupClearBits h), Rtos (Write_task_run h False),
            Rtos (XEventGroupWaitBits h True timeout)]\<rparr>)"
    and "run E x w = Inr ((), (set_arg x w)\<lparr>trace := trace w @
           [Rtos (Read_task_run h), Rtos (Read_task_run h), Rtos (XEventGroupClearBits h),
            Rtos (Write_task_run h False), Rtos (XEventGroupWaitBits h True timeout),
            Rtos (Write_task_run h True), Rtos (XTaskCreate h)]\<rparr>)"
  by (simp_all add: run_eq stop_eq Let_def set_arg_trace assms)

end

end
