(* ===== verification/Utils.thy ===== *)
theory Utils
  imports Platform
begin

text \<open>
  \<open>utils.c\<close>: the one-command parser \<open>parse_cmd\<close> of command scripts such as
  \<open>L,1;R,4;FL,1;\<close>, with the C library's \<open>atoi\<close>. A C string is the list of its characters
  before the terminating NUL. \<open>parse_cmd\<close> writes the code and a NUL into a buffer of the
  caller's size \<open>cap\<close>, which it is not told: a code that does not fit is a write outside
  the buffer.
\<close>

section \<open>The C library's atoi\<close>

definition is_space :: "char \<Rightarrow> bool" where
  "is_space c \<longleftrightarrow> c \<in> {CHR '' '', CHR 0x09, CHR 0x0A, CHR 0x0B, CHR 0x0C, CHR 0x0D}"

definition digit_val :: "char \<Rightarrow> int" where
  "digit_val c = int (of_char c) - 48"

definition is_digit :: "char \<Rightarrow> bool" where
  "is_digit c \<longleftrightarrow> 0 \<le> digit_val c \<and> digit_val c \<le> 9"

fun digits_val :: "int \<Rightarrow> string \<Rightarrow> int" where
  "digits_val acc [] = acc"
| "digits_val acc (c # cs) = (if is_digit c then digits_val (10 * acc + digit_val c) cs else acc)"

definition atoi_val :: "string \<Rightarrow> int" where
  "atoi_val s =
     (case dropWhile is_space s of
        [] \<Rightarrow> 0
      | c # cs \<Rightarrow> if c = CHR ''-'' then - digits_val 0 cs
                  else if c = CHR ''+'' then digits_val 0 cs
                  else digits_val 0 (c # cs))"

text \<open>A value that \<open>int\<close> cannot hold is undefined behaviour of \<open>atoi\<close>.\<close>

definition atoi :: "string \<Rightarrow> ('s, int) prog" where
  "atoi s = chk_int (atoi_val s)"

section \<open>parse\_cmd\<close>

text \<open>The two search loops: the index of the first occurrence, \<open>None\<close> if there is none.\<close>

fun find_pos :: "char \<Rightarrow> string \<Rightarrow> nat option" where
  "find_pos x [] = None"
| "find_pos x (c # cs) = (if c = x then Some 0 else map_option Suc (find_pos x cs))"

text \<open>\<open>None\<close> is the return value -1; \<open>Some (semicolon_pos, code, beat)\<close> the others.\<close>

definition parse_cmd :: "nat \<Rightarrow> string \<Rightarrow> ('s, (nat \<times> string \<times> int) option) prog" where
  "parse_cmd cap cmds =
     (case (find_pos CHR '','' cmds, find_pos CHR '';'' cmds) of
        (Some comma_pos, Some semicolon_pos) \<Rightarrow>
          if comma_pos = 0 \<or> semicolon_pos = 0 then return None
          else if semicolon_pos \<le> comma_pos then return None
          else if cap < comma_pos + 1 then fail Out_of_bounds
          else bind (atoi (drop (comma_pos + 1) cmds))
                 (\<lambda>beat. return (Some (semicolon_pos, take comma_pos cmds, beat)))
      | _ \<Rightarrow> return None)"

text \<open>\<open>code[0] == 'N' && code[1] == 'O'\<close>.\<close>

definition is_no_op :: "string \<Rightarrow> bool" where
  "is_no_op code = (take 2 code = ''NO'')"

text \<open>\<open>float delaytime = beatCnt * BEAT_DURATION * 1000\<close>, with \<open>BEAT_DURATION\<close> the double 0.6.\<close>

definition BEAT_DURATION :: rat where
  "BEAT_DURATION = f64 (6 / 10)"

definition beat_delay_double :: "int \<Rightarrow> rat" where
  "beat_delay_double beatCnt = f64 (f64 (of_int beatCnt * BEAT_DURATION) * 1000)"

definition beat_delay :: "int \<Rightarrow> rat" where
  "beat_delay beatCnt = f32 (beat_delay_double beatCnt)"

section \<open>Searching\<close>

lemma find_pos_Some:
  "find_pos x cs = Some i \<longleftrightarrow> i < length cs \<and> cs ! i = x \<and> x \<notin> set (take i cs)"
proof (induction cs arbitrary: i)
  case (Cons c cs)
  then show ?case by (cases i) auto
qed simp

lemma find_pos_None: "find_pos x cs = None \<longleftrightarrow> x \<notin> set cs"
  by (induction cs) auto

lemma find_pos_append [simp]:
  "x \<notin> set as \<Longrightarrow> find_pos x (as @ x # bs) = Some (length as)"
  by (induction as) auto

lemma find_pos_less: "find_pos x cs = Some i \<Longrightarrow> i < length cs"
  by (simp add: find_pos_Some)

section \<open>Decimal numbers\<close>

text \<open>The decimal text of a natural number, which \<open>atoi\<close> reads back.\<close>

fun show_nat :: "nat \<Rightarrow> string" where
  "show_nat n = (if n < 10 then [char_of (48 + n)] else show_nat (n div 10) @ [char_of (48 + n mod 10)])"

declare show_nat.simps [simp del]

lemma digit_val_char_of [simp]: "d < 10 \<Longrightarrow> digit_val (char_of (48 + d)) = int d"
  by (simp add: digit_val_def of_char_of)

lemma is_digit_char_of [simp]: "(d::nat) < 10 \<Longrightarrow> is_digit (char_of (48 + d))"
  by (simp add: is_digit_def)

lemma digits_val_append:
  "list_all is_digit ds \<Longrightarrow> digits_val acc (ds @ cs) = digits_val (digits_val acc ds) cs"
  by (induction ds arbitrary: acc) auto

lemma show_nat_digits: "list_all is_digit (show_nat n) \<and> show_nat n \<noteq> []"
proof (induction n rule: show_nat.induct)
  case (1 n)
  then show ?case by (subst (1 2) show_nat.simps) (auto simp: not_less)
qed

lemma digits_val_show_nat [simp]: "digits_val 0 (show_nat n) = int n"
proof (induction n rule: show_nat.induct)
  case (1 n)
  show ?case
  proof (cases "n < 10")
    case True
    then show ?thesis by (subst show_nat.simps) simp
  next
    case False
    with "1.IH" have ih: "digits_val 0 (show_nat (n div 10)) = int n div 10"
      by (simp add: zdiv_int)
    show ?thesis
      using False by (subst show_nat.simps)
        (simp add: digits_val_append show_nat_digits ih zmod_int)
  qed
qed

lemma is_digit_not_sign:
  "is_digit c \<Longrightarrow> \<not> is_space c" "\<not> is_digit CHR ''-''" "\<not> is_digit CHR ''+''"
  "\<not> is_digit CHR '';''" "\<not> is_digit CHR '',''"
  by (auto simp: is_digit_def digit_val_def is_space_def)

lemma atoi_val_show_nat:
  "\<not> is_digit c \<Longrightarrow> atoi_val (show_nat n @ c # rest) = int n"
proof -
  assume c: "\<not> is_digit c"
  obtain d ds where s: "show_nat n = d # ds" "is_digit d"
    using show_nat_digits [of n] by (cases "show_nat n") auto
  then have "atoi_val (show_nat n @ c # rest) = digits_val 0 (show_nat n @ c # rest)"
    using is_digit_not_sign by (auto simp: atoi_val_def)
  also have "\<dots> = digits_val (digits_val 0 (show_nat n)) (c # rest)"
    by (rule digits_val_append) (simp add: show_nat_digits)
  finally show ?thesis using c by simp
qed

section \<open>Properties of parse\_cmd\<close>

text \<open>One command as the protocol writes it, and a script of them.\<close>

definition encode_cmd :: "string \<times> nat \<Rightarrow> string" where
  "encode_cmd cb = fst cb @ CHR '','' # show_nat (snd cb) @ [CHR '';'']"

definition encode :: "(string \<times> nat) list \<Rightarrow> string" where
  "encode cbs = concat (map encode_cmd cbs)"

definition wf_cmd :: "nat \<Rightarrow> string \<times> nat \<Rightarrow> bool" where
  "wf_cmd cap cb \<longleftrightarrow> fst cb \<noteq> [] \<and> CHR '','' \<notin> set (fst cb) \<and> CHR '';'' \<notin> set (fst cb) \<and>
     length (fst cb) < cap \<and> int (snd cb) \<le> INT_MAX"

lemma encode_simps [simp]:
  "encode [] = []"
  "encode (cb # cbs) = encode_cmd cb @ encode cbs"
  by (simp_all add: encode_def)

lemma encode_cmd_nonempty [simp]: "encode_cmd cb \<noteq> []"
  by (simp add: encode_cmd_def)

lemma parse_cmd_encode:
  assumes "wf_cmd cap (code, beat)"
  shows "parse_cmd cap (encode_cmd (code, beat) @ rest) s =
    Inr (Some (length (encode_cmd (code, beat)) - 1, code, int beat), s)"
proof -
  let ?body = "code @ CHR '','' # show_nat beat"
  have semi: "CHR '';'' \<notin> set ?body"
    using assms show_nat_digits [of beat] is_digit_not_sign(4)
    by (auto simp: wf_cmd_def list_all_iff)
  have str: "encode_cmd (code, beat) @ rest = ?body @ CHR '';'' # rest"
    by (simp add: encode_cmd_def)
  have "find_pos CHR '';'' (encode_cmd (code, beat) @ rest) = Some (length ?body)"
    unfolding str by (rule find_pos_append [OF semi])
  moreover have "find_pos CHR '','' (encode_cmd (code, beat) @ rest) = Some (length code)"
    unfolding str using assms find_pos_append [of "CHR '',''" code] by (simp add: wf_cmd_def)
  moreover have "atoi_val (drop (length code + 1) (encode_cmd (code, beat) @ rest)) = int beat"
    unfolding str by (simp add: atoi_val_show_nat is_digit_not_sign)
  moreover have "take (length code) (encode_cmd (code, beat) @ rest) = code"
    unfolding str by simp
  ultimately show ?thesis
    using assms
    by (simp add: parse_cmd_def wf_cmd_def prog_simps atoi_def is_int_def encode_cmd_def)
qed

text \<open>
  The result of a successful parse: the code is the text before the first comma, it fits the
  buffer with its NUL, and the caller is moved at least one character on.
\<close>

lemma parse_cmd_Some:
  assumes "parse_cmd cap cmds s = Inr (Some (pos, code, beat), s')"
  shows "s' = s" "pos < length cmds" "cmds ! pos = CHR '';''" "0 < length code"
    "length code < cap" "length code < pos" "code = take (length code) cmds"
    "CHR '','' \<notin> set code" "is_int beat"
  using assms
  by (auto simp: parse_cmd_def prog_simps atoi_def find_pos_Some min_def split: option.splits if_splits)

lemma parse_cmd_state: "parse_cmd cap cmds s = Inr (r, s') \<Longrightarrow> s' = s"
  by (auto simp: parse_cmd_def prog_simps atoi_def split: option.splits if_splits)

lemma parse_cmd_progress:
  "parse_cmd cap cmds s = Inr (Some (pos, code, beat), s') \<Longrightarrow> length (drop (pos + 1) cmds) < length cmds"
  using parse_cmd_Some(2) by fastforce

lemma beat_delay_pos:
  assumes "0 < b" "b \<le> 27962"
  shows "beat_delay b = of_int (600 * b)"
proof -
  define c where "c = (of_int b :: rat)"
  define x where "x = f64 (c * BEAT_DURATION)"
  define q where "q = beat_delay_double b"
  have b: "1 \<le> c" "c \<le> 27962" using assms unfolding c_def by linarith+
  have B: "BEAT_DURATION = 5404319552844595 / 9007199254740992"
    by code_simp
  have "\<bar>x - c * BEAT_DURATION\<bar> \<le> c * BEAT_DURATION / 9007199254740992"
    using fl_error [of 53 "c * BEAT_DURATION"] b by (simp add: B abs_mult x_def)
  then have x: "\<bar>x - c * 6 / 10\<bar> \<le> c / 4503599627370496"
    using b unfolding B abs_le_iff by linarith
  then have xp: "x \<le> c" "0 \<le> x" using b unfolding abs_le_iff by linarith+
  have "\<bar>q - x * 1000\<bar> \<le> x * 1000 / 9007199254740992"
    using fl_error [of 53 "x * 1000"] xp
    by (simp add: q_def beat_delay_double_def abs_mult x_def c_def)
  then have q: "\<bar>q - 600 * c\<bar> \<le> c * 2000 / 4503599627370496"
    using x xp unfolding abs_le_iff by linarith
  then have qb: "599 * c \<le> q" "q \<le> 600 * c + 1 / 1000"
    using b unfolding abs_le_iff by linarith+
  have "a * 33554432 < q" if "a \<le> c * 2000 / 4503599627370496" for a
    using that qb(1) b by linarith
  from this [OF q] have "\<bar>q - 600 * c\<bar> * 33554432 < q" .
  then show ?thesis
    using fl_near_int [of q 24 "600 * b"] qb b
    by (simp add: beat_delay_def q_def c_def)
qed

lemma beat_delay_nat: "b \<le> 27962 \<Longrightarrow> beat_delay (int b) = of_nat (600 * b)"
  using beat_delay_pos [of "int b"] by (cases "b = 0") (simp_all add: beat_delay_def beat_delay_double_def)

section \<open>Script interpreters\<close>

text \<open>
  Three tasks walk a command script with the same loop: while text remains and \<open>task_run\<close>
  reads true, parse one command into a buffer of \<open>cap\<close> bytes, stop at a malformed one, move
  behind its semicolon and act on it. The locale derives what the loop does with a script
  from that equation.
\<close>

primrec exec_script ::
  "env \<Rightarrow> task \<Rightarrow> (env \<Rightarrow> string \<Rightarrow> int \<Rightarrow> ('a world_scheme, unit) prog) \<Rightarrow> (string \<times> nat) list \<Rightarrow>
   ('a world_scheme, unit) prog" where
  "exec_script E h act [] = return ()"
| "exec_script E h act (cb # cbs) =
     bind (call E (Rtos (Read_task_run h))) (\<lambda>_.
     bind (act E (fst cb) (int (snd cb))) (\<lambda>_.
     exec_script E h act cbs))"

lemma logs_only_exec_script [logs_intros]:
  "(\<And>code b. logs_only (act E code b)) \<Longrightarrow> logs_only (exec_script E h act cbs)"
  by (induction cbs) (auto intro!: logs_intros)

locale script_loop =
  fixes h :: task
    and cap :: nat
    and act :: "env \<Rightarrow> string \<Rightarrow> int \<Rightarrow> ('a world_scheme, unit) prog"
    and loop :: "env \<Rightarrow> string \<Rightarrow> ('a world_scheme, unit) prog"
  assumes loop_eq: "loop E cmds w =
      (if cmds = [] then Inr ((), w)
       else case read_task_run E h w of
         Inl f \<Rightarrow> Inl f
       | Inr (run, w1) \<Rightarrow>
           if \<not> run then Inr ((), w1)
           else (case parse_cmd cap cmds w1 of
               Inl f \<Rightarrow> Inl f
             | Inr (None, w2) \<Rightarrow> Inr ((), w2)
             | Inr (Some (pos, code, beatCnt), w2) \<Rightarrow>
                 (case act E code beatCnt w2 of
                    Inl f \<Rightarrow> Inl f
                  | Inr (_, w3) \<Rightarrow> loop E (drop (pos + 1) cmds) w3)))"
begin

lemma loop_empty: "loop E [] w = Inr ((), w)"
  by (simp add: loop_eq)

lemma loop_stopped:
  "cmds \<noteq> [] \<Longrightarrow> fst (E (trace w) (Rtos (Read_task_run h))) = 0 \<Longrightarrow>
   loop E cmds w = Inr ((), w\<lparr>trace := trace w @ [Rtos (Read_task_run h)]\<rparr>)"
  by (simp add: loop_eq [of E cmds] prog_simps)

lemma loop_malformed:
  assumes "cmds \<noteq> []" "\<And>s. parse_cmd cap cmds (s :: 'a world_scheme) = Inr (None, s)"
  shows "loop E cmds w = Inr ((), w\<lparr>trace := trace w @ [Rtos (Read_task_run h)]\<rparr>)"
  using assms by (simp add: loop_eq [of E cmds] prog_simps)

lemma loop_fault:
  assumes "cmds \<noteq> []" "fst (E (trace w) (Rtos (Read_task_run h))) \<noteq> 0"
    "\<And>s. parse_cmd cap cmds (s :: 'a world_scheme) = Inl f"
  shows "loop E cmds w = Inl f"
  using assms by (simp add: loop_eq [of E cmds] prog_simps)

lemma loop_cmd:
  assumes "wf_cmd cap (code, beat)" "keeps_running E h"
  shows "loop E (encode_cmd (code, beat) @ rest) w =
    (case act E code (int beat) (w\<lparr>trace := trace w @ [Rtos (Read_task_run h)]\<rparr>) of
       Inl f \<Rightarrow> Inl f | Inr (_, w') \<Rightarrow> loop E rest w')"
proof -
  have d: "drop (length (encode_cmd (code, beat)) - Suc 0 + 1) (encode_cmd (code, beat) @ rest) = rest"
    using encode_cmd_nonempty [of "(code, beat)"] by simp
  show ?thesis
    by (subst loop_eq)
      (auto simp: prog_simps assms parse_cmd_encode [OF assms(1)] d [simplified] split: sum.splits)
qed

text \<open>
  A script in the protocol's format is executed command by command, in order, each after one
  look at \<open>task_run\<close>; the loop then continues with whatever text follows.
\<close>

lemma loop_encode:
  assumes "list_all (wf_cmd cap) cbs" "keeps_running E h"
  shows "loop E (encode cbs @ rest) w =
    (case exec_script E h act cbs w of Inl f \<Rightarrow> Inl f | Inr (_, w') \<Rightarrow> loop E rest w')"
  using assms(1)
proof (induction cbs arbitrary: w)
  case (Cons cb cbs)
  then show ?case
    using loop_cmd [OF _ assms(2), of "fst cb" "snd cb" "encode cbs @ rest" w]
    by (auto simp: prog_simps split: sum.splits)
qed (simp add: prog_simps)

lemma loop_calls:
  assumes act: "\<And>code b. calls_only P (act E code b)" and rd: "P (Rtos (Read_task_run h))"
  shows "calls_only P (loop E cmds)"
proof (induction "length cmds" arbitrary: cmds rule: less_induct)
  case less
  have "\<exists>cs. trace w' = trace w @ cs \<and> list_all P cs" if r: "loop E cmds w = Inr (a, w')" for w a w'
  proof -
    let ?w1 = "w\<lparr>trace := trace w @ [Rtos (Read_task_run h)]\<rparr>"
    consider (stop) "w' = w \<or> w' = ?w1"
      | (go) p code beat w3 where "parse_cmd cap cmds ?w1 = Inr (Some (p, code, beat), ?w1)"
        "act E code beat ?w1 = Inr ((), w3)" "loop E (drop (p + 1) cmds) w3 = Inr (a, w')"
      using r [unfolded loop_eq [of E cmds w]]
      by (auto simp: prog_simps split: if_splits sum.splits option.splits) (metis parse_cmd_state)+
    then show ?thesis
    proof cases
      case go
      obtain ds where "trace w' = trace w3 @ ds" "list_all P ds"
        using calls_onlyD [OF less.hyps go(3)] parse_cmd_progress [OF go(1)] by blast
      moreover obtain cs where "trace w3 = trace ?w1 @ cs" "list_all P cs"
        using calls_onlyD [OF act go(2)] by blast
      ultimately show ?thesis using rd by simp
    qed (use rd in auto)
  qed
  then show ?case by (simp add: calls_only_def)
qed

lemma loop_script:
  assumes "list_all (wf_cmd cap) cbs" "keeps_running E h"
  shows "loop E (encode cbs) w = exec_script E h act cbs w"
  using loop_encode [OF assms, of "[]" w] by (auto simp: loop_empty split: sum.splits)

end

text \<open>
  What a device shows over time, read off a trace: \<open>stp\<close> is the effect of a call on the
  device, \<open>view\<close> what it then shows; every delay holds the current view for its duration.
\<close>

fun timeline :: "(call \<Rightarrow> 'p \<Rightarrow> 'p) \<Rightarrow> ('p \<Rightarrow> 'v) \<Rightarrow> 'p \<Rightarrow> call list \<Rightarrow> ('v \<times> rat) list" where
  "timeline stp view p [] = []"
| "timeline stp view p (c # cs) =
     (case c of Rtos (VTaskDelay_ms ms) \<Rightarrow> [(view p, ms)] | _ \<Rightarrow> []) @ timeline stp view (stp c p) cs"

lemma timeline_append:
  "timeline stp view p (cs @ ds) = timeline stp view p cs @ timeline stp view (fold stp cs p) ds"
  by (induction cs arbitrary: p) auto

text \<open>
  The specification of a script: what each command shows, and the view it leaves, may depend on
  the view before it.
\<close>

primrec script_spec ::
  "('v \<Rightarrow> 'c \<Rightarrow> ('v \<times> rat) list) \<Rightarrow> ('v \<Rightarrow> 'c \<Rightarrow> 'v) \<Rightarrow> 'v \<Rightarrow> 'c list \<Rightarrow> ('v \<times> rat) list" where
  "script_spec spec nxt v [] = []"
| "script_spec spec nxt v (cb # cbs) = spec v cb @ script_spec spec nxt (nxt v cb) cbs"

text \<open>
  \<open>shows stp view p0 w vs v w'\<close>: between two states the device \<open>stp\<close>, \<open>view\<close>, reset to \<open>p0\<close>,
  showed \<open>vs\<close>, and it shows \<open>v\<close> at the end.
\<close>

definition shows_from ::
  "(call \<Rightarrow> 'p \<Rightarrow> 'p) \<Rightarrow> ('p \<Rightarrow> 'v) \<Rightarrow> 'p \<Rightarrow> 'a world_scheme \<Rightarrow> ('v \<times> rat) list \<Rightarrow> 'v \<Rightarrow>
   'a world_scheme \<Rightarrow> bool" where
  "shows_from stp view p0 w vs v w' \<longleftrightarrow>
     (\<exists>cs. trace w' = trace w @ cs \<and> timeline stp view (fold stp (trace w) p0) cs = vs) \<and>
     view (fold stp (trace w') p0) = v"

lemma shows_from_trans:
  assumes "shows_from stp view p0 w vs v w'" "shows_from stp view p0 w' vs' v' w''"
  shows "shows_from stp view p0 w (vs @ vs') v' w''"
proof -
  obtain c1 c2 where "trace w' = trace w @ c1" "timeline stp view (fold stp (trace w) p0) c1 = vs"
    "trace w'' = trace w' @ c2" "timeline stp view (fold stp (trace w') p0) c2 = vs'"
    using assms by (auto simp: shows_from_def)
  then show ?thesis
    using assms(2) by (auto simp: shows_from_def timeline_append intro!: exI [of _ "c1 @ c2"])
qed

lemma shows_from_refl: "shows_from stp view p0 w [] (view (fold stp (trace w) p0)) w"
  by (simp add: shows_from_def)

lemma shows_from_delay:
  assumes "shows_from stp view p0 w vs v w'" "\<And>p. stp (Rtos (VTaskDelay_ms ms)) p = p"
  shows "shows_from stp view p0 w (vs @ [(v, ms)]) v (w'\<lparr>trace := trace w' @ [Rtos (VTaskDelay_ms ms)]\<rparr>)"
  by (rule shows_from_trans [OF assms(1)]) (use assms in \<open>simp add: shows_from_def\<close>)

text \<open>Calls that are no delays and that the device ignores show nothing.\<close>

lemma timeline_silent:
  assumes "\<And>c p. c \<in> set cs \<Longrightarrow> stp c p = p" "\<And>ms. Rtos (VTaskDelay_ms ms) \<notin> set cs"
  shows "timeline stp view p cs = [] \<and> fold stp cs p = p"
  using assms by (induction cs) (auto split: call.splits rtos_call.splits)

lemma shows_from_silent:
  assumes "shows_from stp view p0 w vs v w'"
    "\<And>c p. c \<in> set cs \<Longrightarrow> stp c p = p" "\<And>ms. Rtos (VTaskDelay_ms ms) \<notin> set cs"
  shows "shows_from stp view p0 w vs v (w'\<lparr>trace := trace w' @ cs\<rparr>)"
proof -
  have "shows_from stp view p0 w' [] v (w'\<lparr>trace := trace w' @ cs\<rparr>)"
    using assms(1) timeline_silent [of cs stp view, OF assms(2,3)] by (simp add: shows_from_def)
  from shows_from_trans [OF assms(1) this] show ?thesis by simp
qed

text \<open>The time a program spent in delays.\<close>

definition delay_of :: "call list \<Rightarrow> rat" where
  "delay_of cs = sum_list (map (\<lambda>c. case c of Rtos (VTaskDelay_ms ms) \<Rightarrow> ms | _ \<Rightarrow> 0) cs)"

lemma timeline_delay: "sum_list (map snd (timeline stp view p cs)) = delay_of cs"
  by (induction cs arbitrary: p) (auto simp: delay_of_def split: call.splits rtos_call.splits)

lemma shows_from_delay_of:
  "shows_from stp view p0 w vs v w' \<Longrightarrow> delay_of (drop (length (trace w)) (trace w')) = sum_list (map snd vs)"
  by (auto simp: shows_from_def timeline_delay [of stp view])

text \<open>
  If every command's action shows what \<open>spec\<close> says of it, a script shows the concatenation, in
  order.
\<close>

lemma exec_script_shows:
  fixes w :: "'a world_scheme" and stp :: "call \<Rightarrow> 'p \<Rightarrow> 'p"
  assumes act: "\<And>w cb. cb \<in> set cbs \<Longrightarrow>
      runs_to (act E (fst cb) (int (snd cb))) w (\<lambda>_ w'.
        let v = view (fold stp (trace w) p0) in shows_from stp view p0 w (spec v cb) (nxt v cb) w')"
    and read: "\<And>p. stp (Rtos (Read_task_run h)) p = p"
  shows "runs_to (exec_script E h act cbs) w (\<lambda>_ w'. \<exists>v.
    shows_from stp view p0 w (script_spec spec nxt (view (fold stp (trace w) p0)) cbs) v w')"
  using act
proof (induction cbs arbitrary: w)
  case Nil
  then show ?case by (auto intro: shows_from_refl)
next
  case (Cons cb cbs)
  let ?v = "view (fold stp (trace w) p0)"
  let ?w1 = "w\<lparr>trace := trace w @ [Rtos (Read_task_run h)]\<rparr>"
  have rd: "shows_from stp view p0 w [] ?v ?w1"
    by (simp add: shows_from_def read)
  have step: "runs_to (act E (fst cb) (int (snd cb))) ?w1 (\<lambda>_ w2.
      shows_from stp view p0 ?w1 (spec ?v cb) (nxt ?v cb) w2)"
    using Cons.prems [of cb ?w1] by (simp add: read Let_def)
  have rest: "runs_to (exec_script E h act cbs) w2 (\<lambda>_ w'. \<exists>v.
      shows_from stp view p0 w (script_spec spec nxt ?v (cb # cbs)) v w')"
    if w2: "shows_from stp view p0 ?w1 (spec ?v cb) (nxt ?v cb) w2" for w2
  proof (rule runs_to_mono [OF Cons.IH])
    have v2: "view (fold stp (trace w2) p0) = nxt ?v cb" using w2 by (simp add: shows_from_def)
    fix r w'
    assume "\<exists>v. shows_from stp view p0 w2
      (script_spec spec nxt (view (fold stp (trace w2) p0)) cbs) v w'"
    then obtain v where "shows_from stp view p0 w2 (script_spec spec nxt (nxt ?v cb) cbs) v w'"
      unfolding v2 by blast
    with shows_from_trans [OF shows_from_trans [OF rd w2]]
    show "\<exists>v. shows_from stp view p0 w (script_spec spec nxt ?v (cb # cbs)) v w'" by auto
  qed (use Cons.prems in auto)
  show ?case using runs_to_mono [OF step rest] by simp
qed

text \<open>A code too long for the buffer: its characters and the NUL run over the end.\<close>

lemma parse_cmd_overlong:
  assumes "CHR '','' \<notin> set code" "CHR '';'' \<notin> set code" "CHR '';'' \<in> set rest"
    "code \<noteq> []" "cap \<le> length code"
  shows "parse_cmd cap (code @ CHR '','' # rest) s = Inl Out_of_bounds"
proof -
  obtain as bs where r: "rest = as @ CHR '';'' # bs" "CHR '';'' \<notin> set as"
    using split_list_first [OF assms(3)] by blast
  have "find_pos CHR '';'' ((code @ CHR '','' # as) @ CHR '';'' # bs) = Some (length (code @ CHR '','' # as))"
    by (rule find_pos_append) (use assms r in auto)
  then have "find_pos CHR '';'' (code @ CHR '','' # rest) = Some (length code + 1 + length as)"
    by (simp add: r)
  then show ?thesis
    using assms by (simp add: parse_cmd_def prog_simps)
qed

end
