(* ===== verification/Esp_Color.thy ===== *)
theory Esp_Color
  imports Utils
begin

text \<open>
  \<open>esp_color.c\<close>: conversions between HSV and RGB colours. Integer arithmetic is done in \<open>int\<close>,
  as C promotes the narrow operands, and stored back modulo the width of the variable; the inverse
  conversion computes in double.
\<close>

record esp_color_rgb =
  col_r :: u8
  col_g :: u8
  col_b :: u8

text \<open>Hue is a 16-bit and saturation and value are 8-bit signed numbers in the source.\<close>

record esp_color_hsv =
  hsv_h :: u16
  hsv_s :: u8
  hsv_v :: u8

definition to_u16 :: "int \<Rightarrow> u16" where
  "to_u16 x = word_of_int x"

definition scale :: "u8 \<Rightarrow> u8" where
  "scale x = word_of_int (uint x * 255 sdiv 100)"

definition esp_color_hsv2rgb :: "esp_color_hsv \<Rightarrow> esp_color_rgb \<Rightarrow> ('s, int \<times> esp_color_rgb) prog" where
  "esp_color_hsv2rgb hsv rgb =
     (let hue = uint (hsv_h hsv); value = uint (hsv_v hsv); saturation = uint (hsv_s hsv);
          hi = (hue sdiv 60) mod 6;
          F = uint (to_u16 (100 * hue sdiv 60 - 100 * hi));
          P = to_u16 (value * (100 - saturation) sdiv 100)
      in
      bind (chk_int (value * (10000 - F * saturation))) (\<lambda>q. let Q = to_u16 (q sdiv 10000) in
      bind (chk_int (value * (10000 - saturation * (100 - F)))) (\<lambda>t. let T = to_u16 (t sdiv 10000);
          v = hsv_v hsv;
          out = (\<lambda>red green blue. return (ESP_OK, \<lparr>col_r = scale red, col_g = scale green, col_b = scale blue\<rparr>))
        in
        if hi = 0 then out v (ucast T) (ucast P)
        else if hi = 1 then out (ucast Q) v (ucast P)
        else if hi = 2 then out (ucast P) v (ucast T)
        else if hi = 3 then out (ucast P) (ucast Q) v
        else if hi = 4 then out (ucast T) (ucast P) v
        else if hi = 5 then out v (ucast P) (ucast Q)
        else return (ESP_FAIL, rgb))))"

text \<open>\<open>(int)(x + 0.5)\<close> in double.\<close>

definition round_int :: "rat \<Rightarrow> int" where
  "round_int x = trunc_rat (f64 (x + 1 / 2))"

definition esp_color_rgb2hsv :: "esp_color_rgb \<Rightarrow> int \<times> esp_color_hsv" where
  "esp_color_rgb2hsv rgb =
     (let red = uint (col_r rgb); green = uint (col_g rgb); blue = uint (col_b rgb);
          m_max = max red (max green blue);
          m_min = min red (min green blue);
          m_delta = of_int (m_max - m_min) :: rat;
          value = f64 (of_int m_max / 255);
          saturation = (if m_delta = 0 then 0 else f64 (m_delta / of_int m_max));
          hue = (if m_delta = 0 then 0
                 else let hue = (if red = m_max then f64 (of_int (green - blue) / m_delta)
                            else if green = m_max then f64 (2 + f64 (of_int (blue - red) / m_delta))
                            else f64 (4 + f64 (of_int (red - green) / m_delta)));
                          hue = f64 (hue * 60)
                      in if hue < 0 then f64 (hue + 360) else hue)
      in (ESP_OK, \<lparr>hsv_h = word_of_int (round_int hue), hsv_s = word_of_int (round_int (f64 (saturation * 100))),
                  hsv_v = word_of_int (round_int (f64 (value * 100)))\<rparr>))"

unbundle bit_operations_syntax

definition esp_color_code2rgb :: "u32 \<Rightarrow> int \<times> esp_color_rgb" where
  "esp_color_code2rgb colorcode =
     (ESP_OK, \<lparr>col_r = ucast (drop_bit 16 colorcode AND 0xFF), col_g = ucast (drop_bit 8 colorcode AND 0xFF),
              col_b = ucast (drop_bit 0 colorcode AND 0xFF)\<rparr>)"

text \<open>The static variable \<open>hue\<close> of \<open>esp_color_update_rainbow\<close> is the state.\<close>

definition esp_color_update_rainbow :: "esp_color_rgb \<Rightarrow> (u16, int \<times> esp_color_rgb) prog" where
  "esp_color_update_rainbow color =
     bind (gets (\<lambda>hue. hue)) (\<lambda>hue.
     let hue = (if hue \<ge> 3600 then 0 else hue) in
     bind (if hue mod 10 = 0
           then esp_color_hsv2rgb \<lparr>hsv_h = hue div 10, hsv_s = 100, hsv_v = 30\<rparr> color
           else return (ESP_OK, color)) (\<lambda>(_, color).
     bind (modify (\<lambda>_. hue + 1)) (\<lambda>_. return (ESP_OK, color))))"

section \<open>From HSV\<close>

text \<open>The conversion on the documented ranges, in natural numbers.\<close>

definition hsv_levels :: "nat \<Rightarrow> nat \<Rightarrow> nat \<Rightarrow> nat \<times> nat \<times> nat" where
  "hsv_levels h s v =
     (let f = 100 * h div 60 - 100 * (h div 60);
          p = v * (100 - s) div 100;
          q = v * (10000 - f * s) div 10000;
          t = v * (10000 - s * (100 - f)) div 10000
      in if h div 60 = 0 then (v, t, p) else if h div 60 = 1 then (q, v, p)
         else if h div 60 = 2 then (p, v, t) else if h div 60 = 3 then (p, q, v)
         else if h div 60 = 4 then (t, p, v) else (v, p, q))"

lemma sdiv_nat: "0 < k \<Longrightarrow> int a sdiv int k = int (a div k)"
  by (simp add: sdiv_pos zdiv_int)

lemma scale_of_nat: "n \<le> 100 \<Longrightarrow> scale (of_nat n) = of_nat (n * 255 div 100)"
  using sdiv_nat [of 100 "n * 255"] uint_of_int_small [of "int n", where 'a = 8]
  by (simp add: scale_def)

lemma byte_of_u16: "(ucast (to_u16 (int n)) :: u8) = of_nat n"
  by (rule bit_word_eqI) (simp add: to_u16_def bit_simps)

lemma hue_fraction:
  fixes h :: nat
  defines "f \<equiv> 100 * h div 60 - 100 * (h div 60)"
  shows "100 * (h div 60) \<le> 100 * h div 60" "f \<le> 99"
proof -
  have "100 * (h div 60) * 60 \<le> 100 * h" by simp
  then show "100 * (h div 60) \<le> 100 * h div 60" by (simp add: less_eq_div_iff_mult_less_eq)
  have "h < 60 * (h div 60) + 60" using dividend_less_times_div [of 60 h] by simp
  then have "100 * h < (100 * (h div 60) + 100) * 60" by simp
  then have "100 * h div 60 < 100 * (h div 60) + 100" by (simp add: div_less_iff_less_mult)
  then show "f \<le> 99" by (simp add: f_def)
qed

lemma scaled_le: "v * (n - k) div n \<le> (v :: nat)"
  using div_le_mono [of "v * (n - k)" "v * n" n] by (cases "n = 0") simp_all

lemma hsv_levels_le: "hsv_levels h s v = (r, g, b) \<Longrightarrow> r \<le> v \<and> g \<le> v \<and> b \<le> v"
  by (auto simp: hsv_levels_def Let_def intro: scaled_le split: if_splits)

lemma esp_color_hsv2rgb_run:
  assumes "h < 360" "s \<le> 100" "v \<le> 100"
  shows "esp_color_hsv2rgb \<lparr>hsv_h = of_nat h, hsv_s = of_nat s, hsv_v = of_nat v\<rparr> rgb st =
    (let (r, g, b) = hsv_levels h s v
     in Inr ((ESP_OK, \<lparr>col_r = of_nat (r * 255 div 100), col_g = of_nat (g * 255 div 100),
                       col_b = of_nat (b * 255 div 100)\<rparr>), st))"
proof -
  define i where "i = h div 60"
  define f where "f = 100 * h div 60 - 100 * i"
  have f: "100 * i \<le> 100 * h div 60" "f \<le> 99" unfolding f_def i_def by (rule hue_fraction)+
  have i: "i < 6" using assms(1) by (simp add: i_def less_mult_imp_div_less)
  define p where "p = v * (100 - s) div 100"
  define q where "q = v * (10000 - f * s) div 10000"
  define t where "t = v * (10000 - s * (100 - f)) div 10000"
  have u: "uint (of_nat h :: u16) = int h" "uint (of_nat s :: u8) = int s" "uint (of_nat v :: u8) = int v"
    using assms uint_of_int_small [of "int h", where 'a = 16] uint_of_int_small [of "int s", where 'a = 8]
      uint_of_int_small [of "int v", where 'a = 8] by simp_all
  have hi: "int h sdiv 60 mod 6 = int i" using sdiv_nat [of 60 h] i by (simp add: i_def)
  have "100 * int h sdiv 60 - 100 * int i = int f"
    using sdiv_nat [of 60 "100 * h"] f(1) by (simp add: f_def of_nat_diff)
  then have F: "uint (to_u16 (100 * int h sdiv 60 - 100 * int i)) = int f"
    using uint_of_int_small [of "int f", where 'a = 16] f(2) by (simp add: to_u16_def)
  have P: "int v * (100 - int s) sdiv 100 = int p"
    using sdiv_nat [of 100 "v * (100 - s)"] assms(2) by (simp add: p_def of_nat_diff)
  have fs: "f * s \<le> 10000" using mult_le_mono [OF f(2) assms(2)] by simp
  have sf: "s * (100 - f) \<le> 10000" using mult_le_mono [OF assms(2), of "100 - f" 100] by simp
  have Q: "int v * (10000 - int f * int s) = int (v * (10000 - f * s))" using fs by (simp add: of_nat_diff)
  have T: "int v * (10000 - int s * (100 - int f)) = int (v * (10000 - s * (100 - f)))"
    using sf f(2) by (simp add: of_nat_diff)
  have le: "v * (10000 - k) \<le> 100 * 10000" for k using mult_le_mono [OF assms(3), of "10000 - k" 10000] by simp
  have int: "is_int (int (v * (10000 - k)))" for k using le [of k] by (simp add: is_int_def del: of_nat_mult)
  have Q': "int (v * (10000 - f * s)) sdiv 10000 = int q" "int (v * (10000 - s * (100 - f))) sdiv 10000 = int t"
    using sdiv_nat [of 10000] by (simp_all add: q_def t_def del: of_nat_mult)
  define qq where "qq = int (v * (10000 - f * s))"
  define tt where "tt = int (v * (10000 - s * (100 - f)))"
  have qt: "is_int qq" "is_int tt" "qq sdiv 10000 = int q" "tt sdiv 10000 = int t"
    unfolding qq_def tt_def by (rule int Q')+
  have lv: "hsv_levels h s v =
      (if i = 0 then (v, t, p) else if i = 1 then (q, v, p) else if i = 2 then (p, v, t)
       else if i = 3 then (p, q, v) else if i = 4 then (t, p, v) else (v, p, q))"
    by (simp only: hsv_levels_def Let_def i_def f_def p_def q_def t_def)
  have b: "p \<le> 100" "q \<le> 100" "t \<le> 100"
    using div_le_mono [of "v * (100 - s)" "100 * 100" 100] mult_le_mono [OF assms(3), of "100 - s" 100]
      div_le_mono [OF le [of "f * s"], of 10000] div_le_mono [OF le [of "s * (100 - f)"], of 10000]
    by (simp_all add: p_def q_def t_def)
  have k: "i = 5" if "i \<noteq> 0" "i \<noteq> 1" "i \<noteq> 2" "i \<noteq> 3" "i \<noteq> 4" using that i by simp
  show ?thesis
    unfolding esp_color_hsv2rgb_def esp_color_hsv.select_convs u hi Let_def F P Q T lv
      qq_def [symmetric] tt_def [symmetric]
    using k by (auto simp: prog_simps qt byte_of_u16 scale_of_nat b assms)
qed

text \<open>
  On the documented ranges (hue below 360, saturation and value up to 100)
  \<open>esp_color_hsv2rgb\<close> succeeds without overflow and delivers, per component, 255/100 of a level
  between zero and the value, the components following the sector of the hue; nothing wraps.
\<close>

theorem esp_color_hsv2rgb_levels:
  assumes "h < 360" "s \<le> 100" "v \<le> 100"
  shows "runs_to (esp_color_hsv2rgb \<lparr>hsv_h = of_nat h, hsv_s = of_nat s, hsv_v = of_nat v\<rparr> rgb) st (\<lambda>(ret, c) st'.
    st' = st \<and> ret = ESP_OK \<and>
    (\<exists>r g b. hsv_levels h s v = (r, g, b) \<and> r \<le> v \<and> g \<le> v \<and> b \<le> v \<and>
      unat (col_r c) = r * 255 div 100 \<and> unat (col_g c) = g * 255 div 100 \<and> unat (col_b c) = b * 255 div 100))"
proof -
  obtain r g b where l: "hsv_levels h s v = (r, g, b)" by (cases "hsv_levels h s v")
  note le = hsv_levels_le [OF l]
  have "unat (of_nat (x * 255 div 100) :: u8) = x * 255 div 100" if "x \<le> v" for x
    by (rule unat_of_nat_small) (use div_le_mono [of "x * 255" "25500" 100] that assms(3) in simp)
  then show ?thesis
    using esp_color_hsv2rgb_run [OF assms, of rgb st] l le by (simp add: runs_to_def)
qed

theorem esp_color_hsv2rgb_levels_witness:
  "runs_to (esp_color_hsv2rgb \<lparr>hsv_h = 90, hsv_s = 100, hsv_v = 30\<rparr> \<lparr>col_r = 0, col_g = 0, col_b = 0\<rparr>) ()
     (\<lambda>(ret, c) st'. ret = ESP_OK \<and> (unat (col_r c), unat (col_g c), unat (col_b c)) = (38, 76, 0))"
proof -
  have "hsv_levels 90 100 30 = (15, 30, 0)" by (simp add: hsv_levels_def)
  then show ?thesis
    using esp_color_hsv2rgb_levels [of 90 100 30 "\<lparr>col_r = 0, col_g = 0, col_b = 0\<rparr>" "()"]
    by (simp add: runs_to_def split: sum.splits prod.splits)
qed

section \<open>To HSV\<close>

lemma round_int_bounds:
  assumes "0 \<le> x" "x \<le> of_int n" "0 \<le> n" "n \<le> 1000"
  shows "0 \<le> round_int x" "round_int x \<le> n"
proof -
  have "0 \<le> f64 (x + 1 / 2)" using assms by (simp add: fl_nonneg)
  then show "0 \<le> round_int x" by (simp add: round_int_def trunc_rat_def)
  have "\<bar>f64 (x + 1 / 2) - (x + 1 / 2)\<bar> \<le> \<bar>x + 1 / 2\<bar> / 2 ^ 53" by (rule fl_error)
  moreover have "\<bar>x + 1 / 2\<bar> \<le> 2 ^ 10" using assms by simp
  ultimately have "f64 (x + 1 / 2) < of_int (n + 1)" using assms(2) by (simp add: abs_if split: if_splits)
  then show "round_int x \<le> n"
    unfolding round_int_def trunc_rat_def using \<open>0 \<le> f64 (x + 1 / 2)\<close> by (simp add: floor_le_iff)
qed

lemma f64_between:
  assumes "of_int a \<le> x" "x \<le> of_int b" "\<bar>a\<bar> \<le> 2 ^ 53" "\<bar>b\<bar> \<le> 2 ^ 53"
  shows "of_int a \<le> f64 x" "f64 x \<le> of_int b"
  using assms by (auto intro: fl_ge_of_int fl_le_of_int)

lemma unit_ratio:
  assumes "\<bar>a\<bar> \<le> d" "0 < (d :: int)"
  shows "-1 \<le> f64 (of_int a / of_int d)" "f64 (of_int a / of_int d) \<le> 1"
proof -
  have "of_int a \<le> (of_int d :: rat)" "- of_int d \<le> (of_int a :: rat)" using assms by linarith+
  then have "-1 \<le> of_int a / (of_int d :: rat)" "of_int a / (of_int d :: rat) \<le> 1"
    using assms(2) by (simp_all add: field_simps)
  then show "-1 \<le> f64 (of_int a / of_int d)" "f64 (of_int a / of_int d) \<le> 1"
    using f64_between [of "-1" "of_int a / of_int d" 1] by simp_all
qed

lemma unat_word_of_int_le:
  "0 \<le> k \<Longrightarrow> k \<le> int n \<Longrightarrow> n < 2 ^ LENGTH('l::len) \<Longrightarrow> unat (word_of_int k :: 'l word) \<le> n"
  using unat_of_nat_small [of "nat k", where 'a = 'l] by (cases k) simp_all

lemma percent_bounds:
  assumes "0 \<le> x" "x \<le> 1"
  shows "0 \<le> round_int (f64 (x * 100)) \<and> round_int (f64 (x * 100)) \<le> 100"
  using f64_between [of 0 "x * 100" 100] round_int_bounds [of "f64 (x * 100)" 100] assms by simp

lemma hue_bounds:
  assumes "-1 \<le> x" "x \<le> 5"
  shows "let hue = f64 (x * 60); hue = (if hue < 0 then f64 (hue + 360) else hue)
    in 0 \<le> round_int hue \<and> round_int hue \<le> 360"
proof -
  define y where "y = f64 (x * 60)"
  have y: "-60 \<le> y" "y \<le> 300" using f64_between [of "-60" "x * 60" 300] assms by (simp_all add: y_def)
  have z: "0 \<le> f64 (y + 360)" "f64 (y + 360) \<le> 360" if "y < 0"
    using f64_between [of 0 "y + 360" 360] y that by simp_all
  show ?thesis
    using round_int_bounds [of "if y < 0 then f64 (y + 360) else y" 360] y z
    by (simp add: y_def [symmetric] Let_def)
qed

text \<open>
  \<open>esp_color_rgb2hsv\<close> keeps its results in range: for every colour the hue is between 0 and
  360 and saturation and value are percentages, in spite of all the roundings in double.
\<close>

theorem esp_color_rgb2hsv_ranges:
  "\<exists>hsv. esp_color_rgb2hsv rgb = (ESP_OK, hsv) \<and> unat (hsv_h hsv) \<le> 360 \<and> unat (hsv_s hsv) \<le> 100 \<and> unat (hsv_v hsv) \<le> 100"
proof -
  define r g b where "r = uint (col_r rgb)" and "g = uint (col_g rgb)" and "b = uint (col_b rgb)"
  define mx mn where "mx = max r (max g b)" and "mn = min r (min g b)"
  have nn: "0 \<le> r" "0 \<le> g" "0 \<le> b" "r < 256" "g < 256" "b < 256"
    using uint_lt2p [of "col_r rgb"] uint_lt2p [of "col_g rgb"] uint_lt2p [of "col_b rgb"] by (simp_all add: r_def g_def b_def)
  have mm: "0 \<le> mn" "mn \<le> mx" "mx \<le> 255" "\<bar>g - b\<bar> \<le> mx - mn" "\<bar>b - r\<bar> \<le> mx - mn" "\<bar>r - g\<bar> \<le> mx - mn"
    using nn by (auto simp: mx_def mn_def)
  define x where "x = (if r = mx then f64 (of_int (g - b) / of_int (mx - mn))
      else if g = mx then f64 (2 + f64 (of_int (b - r) / of_int (mx - mn)))
      else f64 (4 + f64 (of_int (r - g) / of_int (mx - mn))))"
  define hue where "hue = (if mx - mn = 0 then 0 else
      let hue = f64 (x * 60) in if hue < 0 then f64 (hue + 360) else hue)"
  define sat where "sat = (if mx - mn = 0 then 0 else f64 (of_int (mx - mn) / of_int mx))"
  define val where "val = f64 (of_int mx / 255)"
  have x: "-1 \<le> x" "x \<le> 5" if "mx - mn \<noteq> 0"
  proof -
    have d: "0 < mx - mn" using that mm(2) by simp
    note u = unit_ratio [OF mm(4) d] unit_ratio [OF mm(5) d] unit_ratio [OF mm(6) d]
    show "-1 \<le> x" "x \<le> 5"
      using u f64_between [of 1 "2 + f64 (of_int (b - r) / of_int (mx - mn))" 3]
        f64_between [of 3 "4 + f64 (of_int (r - g) / of_int (mx - mn))" 5]
      by (simp_all add: x_def)
  qed
  have h: "0 \<le> round_int hue \<and> round_int hue \<le> 360"
    using hue_bounds [OF x] round_int_bounds [of 0 360] by (simp add: hue_def Let_def)
  have "0 \<le> sat \<and> sat \<le> 1"
  proof (cases "mx - mn = 0")
    case False
    then have "\<bar>mx - mn\<bar> \<le> mx" "0 < mx" using mm by auto
    then show ?thesis using unit_ratio(2) [of "mx - mn" mx] mm False
      by (simp add: sat_def fl_nonneg)
  qed (simp add: sat_def)
  then have s: "0 \<le> round_int (f64 (sat * 100)) \<and> round_int (f64 (sat * 100)) \<le> 100" by (simp add: percent_bounds)
  have "0 \<le> val \<and> val \<le> 1" using unit_ratio(2) [of mx 255] mm by (simp add: val_def fl_nonneg)
  then have v: "0 \<le> round_int (f64 (val * 100)) \<and> round_int (f64 (val * 100)) \<le> 100" by (simp add: percent_bounds)
  have "esp_color_rgb2hsv rgb = (ESP_OK, \<lparr>hsv_h = word_of_int (round_int hue),
      hsv_s = word_of_int (round_int (f64 (sat * 100))), hsv_v = word_of_int (round_int (f64 (val * 100)))\<rparr>)"
    unfolding esp_color_rgb2hsv_def Let_def r_def [symmetric] g_def [symmetric] b_def [symmetric]
      mx_def [symmetric] mn_def [symmetric] hue_def sat_def val_def x_def
    by (simp only: of_int_eq_0_iff)
  then show ?thesis using h s v by (simp add: unat_word_of_int_le)
qed

text \<open>
  The two conversions do not fit together at the top of the hue range: \<open>esp_color_rgb2hsv\<close>
  rounds the almost red colour (255, 0, 1) to hue 360, and \<open>esp_color_hsv2rgb\<close>, which reduces the
  sector modulo six but not the hue, turns that hue into the yellow (255, 224, 0).
\<close>

theorem esp_color_hue_360:
  "esp_color_rgb2hsv \<lparr>col_r = 255, col_g = 0, col_b = 1\<rparr> = (ESP_OK, \<lparr>hsv_h = 360, hsv_s = 100, hsv_v = 100\<rparr>) \<and>
   esp_color_hsv2rgb \<lparr>hsv_h = 360, hsv_s = 100, hsv_v = 100\<rparr> rgb st = Inr ((ESP_OK, \<lparr>col_r = 255, col_g = 224, col_b = 0\<rparr>), st)"
proof
  define x y z where "x = f64 (- (1 / 255))" and "y = f64 (x * 60)" and "z = f64 (y + 360)"
  have x: "\<bar>x - (- (1 / 255))\<bar> \<le> \<bar>- (1 / 255)\<bar> / 2 ^ 53" unfolding x_def by (rule fl_error)
  have xb: "-1 / 254 \<le> x" "x \<le> -1 / 256" using x unfolding abs_le_iff by simp_all
  have y: "\<bar>y - x * 60\<bar> \<le> \<bar>x * 60\<bar> / 2 ^ 53" unfolding y_def by (rule fl_error)
  have yb: "-1 / 2 + 1 / 4 \<le> y" "y < 0" using y xb unfolding abs_le_iff by (simp_all add: abs_mult abs_if)
  have z: "\<bar>z - (y + 360)\<bar> \<le> \<bar>y + 360\<bar> / 2 ^ 53" unfolding z_def by (rule fl_error)
  have zb: "359 + 1 / 2 + 1 / 8 \<le> z" "z \<le> 360 + 1 / 8" using z yb unfolding abs_le_iff by (simp_all add: abs_if)
  have "\<bar>f64 (z + 1 / 2) - (z + 1 / 2)\<bar> \<le> \<bar>z + 1 / 2\<bar> / 2 ^ 53" by (rule fl_error)
  then have "360 \<le> f64 (z + 1 / 2)" "f64 (z + 1 / 2) < 361"
    using zb unfolding abs_le_iff by (simp_all add: abs_if)
  then have "\<lfloor>f64 (z + 1 / 2)\<rfloor> = 360" by linarith
  then have h: "round_int z = 360" using \<open>360 \<le> f64 (z + 1 / 2)\<close> by (simp add: round_int_def trunc_rat_def)
  have one: "f64 1 = 1" "f64 100 = 100" using fl_of_int [of 53 1] fl_of_int [of 53 100] by simp_all
  have h100: "round_int 100 = 100" by code_simp
  show "esp_color_rgb2hsv \<lparr>col_r = 255, col_g = 0, col_b = 1\<rparr> = (ESP_OK, \<lparr>hsv_h = 360, hsv_s = 100, hsv_v = 100\<rparr>)"
    using yb(2) h by (simp add: esp_color_rgb2hsv_def x_def [symmetric] y_def [symmetric] z_def [symmetric] one h100 Let_def)
  show "esp_color_hsv2rgb \<lparr>hsv_h = 360, hsv_s = 100, hsv_v = 100\<rparr> rgb st = Inr ((ESP_OK, \<lparr>col_r = 255, col_g = 224, col_b = 0\<rparr>), st)"
    by (simp add: esp_color_hsv2rgb_def prog_simps is_int_def to_u16_def scale_def signed_divide_int_def)
qed

section \<open>Codes and the rainbow\<close>

text \<open>
  \<open>esp_color_code2rgb\<close> reads back the 24-bit code of any colour.
\<close>

theorem esp_color_code2rgb_roundtrip:
  "esp_color_code2rgb (push_bit 16 (ucast r) OR push_bit 8 (ucast g) OR ucast b) =
     (ESP_OK, \<lparr>col_r = r, col_g = g, col_b = b\<rparr>)"
proof -
  have m: "(0xFF :: u32) = mask 8" by (simp add: mask_eq_exp_minus_1)
  have "ucast (drop_bit 16 (push_bit 16 (ucast r) OR push_bit 8 (ucast g) OR ucast b :: u32) AND mask 8) = r"
    "ucast (drop_bit 8 (push_bit 16 (ucast r) OR push_bit 8 (ucast g) OR ucast b :: u32) AND mask 8) = g"
    "ucast (drop_bit 0 (push_bit 16 (ucast r) OR push_bit 8 (ucast g) OR ucast b :: u32) AND mask 8) = b"
    by (rule bit_word_eqI; auto simp: bit_simps dest: bit_imp_le_length)+
  then show ?thesis by (simp add: esp_color_code2rgb_def m)
qed

text \<open>\<open>n\<close> calls of the rainbow.\<close>

primrec rainbow :: "nat \<Rightarrow> esp_color_rgb \<Rightarrow> (u16, esp_color_rgb) prog" where
  "rainbow 0 c = return c"
| "rainbow (Suc n) c = bind (rainbow n c) (\<lambda>c. bind (esp_color_update_rainbow c) (\<lambda>(_, c). return c))"

lemma rainbow_step:
  assumes "unat hue \<le> 3600"
  shows "runs_to (esp_color_update_rainbow c) hue (\<lambda>(ret, c') hue'. ret = ESP_OK \<and>
    unat hue' = unat hue mod 3600 + 1 \<and>
    (unat hue mod 10 = 0 \<longrightarrow>
       (\<exists>r g b. hsv_levels (unat hue mod 3600 div 10) 100 30 = (r, g, b) \<and>
          c' = \<lparr>col_r = of_nat (r * 255 div 100), col_g = of_nat (g * 255 div 100), col_b = of_nat (b * 255 div 100)\<rparr>)) \<and>
    (unat hue mod 10 \<noteq> 0 \<longrightarrow> c' = c))"
proof -
  define k where "k = unat hue mod 3600"
  have k: "k < 3600" by (simp add: k_def)
  have hue: "(if 3600 \<le> hue then 0 else hue) = (of_nat k :: u16)"
  proof (cases "3600 \<le> hue")
    case True
    then have "unat hue = 3600" using assms by (simp add: word_le_nat_alt)
    then show ?thesis using True by (simp add: k_def)
  next
    case False
    then have "unat hue < 3600" by (simp add: word_le_nat_alt)
    then show ?thesis using False by (simp add: k_def)
  qed
  have m10: "unat hue mod 10 = k mod 10" unfolding k_def by (simp add: mod_mod_cancel)
  have uk: "unat (of_nat k :: u16) = k" using k by (simp add: unat_of_nat_small)
  have "unat ((of_nat k :: u16) mod 10) = k mod 10" by (simp add: unat_mod_distrib uk)
  then have z: "(of_nat k :: u16) mod 10 = 0 \<longleftrightarrow> k mod 10 = 0" by (simp add: unat_eq_zero [symmetric])
  have dv: "(of_nat k :: u16) div 10 = of_nat (k div 10)"
    using unat_of_nat_small [of "k div 10", where 'a = 16] k by (simp add: word_unat_eq_iff unat_div_distrib uk)
  have "unat (of_nat (k + 1) :: u16) = k + 1" using k by (intro unat_of_nat_small) simp
  then have suc: "unat ((of_nat k :: u16) + 1) = k + 1" by (simp add: add.commute)
  have "k div 10 < 360" using k by simp
  from esp_color_hsv2rgb_run [OF this, of 100 30 c hue]
  have hsv: "esp_color_hsv2rgb \<lparr>hsv_h = of_nat (k div 10), hsv_s = 100, hsv_v = 30\<rparr> c hue =
    (let (r, g, b) = hsv_levels (k div 10) 100 30
     in Inr ((ESP_OK, \<lparr>col_r = of_nat (r * 255 div 100), col_g = of_nat (g * 255 div 100),
                       col_b = of_nat (b * 255 div 100)\<rparr>), hue))" by simp
  obtain r g b where l: "hsv_levels (k div 10) 100 30 = (r, g, b)" by (cases "hsv_levels (k div 10) 100 30")
  show ?thesis
    unfolding m10 k_def [symmetric]
    by (simp add: runs_to_def esp_color_update_rainbow_def prog_simps Let_def hue z dv hsv l suc)
qed

text \<open>
  The rainbow is periodic and stays in range: after any number of calls the static hue counts
  the calls since the last wrap at 3600, so every conversion it makes is one of the 360 hues of the
  documented range, and no call fails.
\<close>

theorem rainbow_period:
  "runs_to (rainbow n c) 0 (\<lambda>_ hue. unat hue = (if n = 0 then 0 else (n - 1) mod 3600 + 1))"
proof (induction n)
  case (Suc n)
  have step: "runs_to (esp_color_update_rainbow c') hue (\<lambda>_ hue'. unat hue' = n mod 3600 + 1)"
    if "unat hue = (if n = 0 then 0 else (n - 1) mod 3600 + 1)" for c' hue
  proof -
    have le: "unat hue \<le> 3600" using that by (simp add: Suc_le_eq)
    have "unat hue mod 3600 = n mod 3600"
      using that by (cases n) (simp_all add: mod_Suc)
    then show ?thesis by (intro runs_to_mono [OF rainbow_step [OF le]]) auto
  qed
  have "runs_to (rainbow n c) 0 (\<lambda>c' hue. runs_to (esp_color_update_rainbow c') hue (\<lambda>_ hue'. unat hue' = n mod 3600 + 1))"
    by (rule runs_to_mono [OF Suc.IH]) (rule step)
  then show ?case by (simp add: split_beta)
qed simp

end
