(* ===== verification/Network.thy ===== *)
theory Network
  imports Platform
begin

text \<open>
  \<open>my_wifi.c\<close>, the start of the UCP server in \<open>my_ucp.c\<close>, and the status byte of \<open>bt_gatts.c\<close> that
  the station mode sets. The WiFi stack, mDNS and UCP are part of the environment. The constants of
  the event identifiers are those of ESP-IDF's \<open>esp_wifi_types.h\<close>, which the handlers only compare.
\<close>

record car_vars = world +
  car_status :: u8

definition car_set_wifi_config_status :: "bool \<Rightarrow> ('a car_vars_scheme, unit) prog" where
  "car_set_wifi_config_status is_config =
     modify (\<lambda>w. w\<lparr>car_status := (if is_config then car_status w OR 1 else car_status w AND NOT 1)\<rparr>)"

section \<open>Access point\<close>

definition my_ucp_init :: "env \<Rightarrow> ('a world_scheme, int) prog" where
  "my_ucp_init E =
     bind (call E (Ucp Ucp_init)) (\<lambda>ret.
     if ret \<noteq> 0 then return (-1)
     else bind (call E (Ucp (Os_create_thread Ucp_server_rcv))) (\<lambda>ret.
     if ret \<noteq> 0 then return (-1) else return 0))"

datatype wifi_event = AP_STACONNECTED | AP_STADISCONNECTED | AP_START
  | STA_START | STA_DISCONNECTED | STA_CONNECTED | WIFI_OTHER

datatype net_event = WIFI_EVENT wifi_event | IP_EVENT_STA_GOT_IP | IP_OTHER

definition wifi_event_handler :: "env \<Rightarrow> wifi_event \<Rightarrow> ('a world_scheme, unit) prog" where
  "wifi_event_handler E event_id =
     (case event_id of AP_START \<Rightarrow> bind (my_ucp_init E) (\<lambda>_. return ()) | _ \<Rightarrow> return ())"

definition MY_WIFI_SSID :: string where "MY_WIFI_SSID = ''my_car''"
definition MY_WIFI_PASS :: string where "MY_WIFI_PASS = ''11111111''"
abbreviation (input) MY_WIFI_CHANNEL :: int where "MY_WIFI_CHANNEL \<equiv> 1"
abbreviation (input) MY_STA_CONN :: int where "MY_STA_CONN \<equiv> 4"

abbreviation (input) ESP_EVENT_ANY_ID :: int where "ESP_EVENT_ANY_ID \<equiv> -1"

definition wifi_init_softap :: "env \<Rightarrow> ('a world_scheme, unit) prog" where
  "wifi_init_softap E =
     (let authmode = (if length MY_WIFI_PASS = 0 then Auth_open else Auth_wpa_wpa2_psk) in block
     [ESP_ERROR_CHECK E (Wifi Esp_netif_init),
      ESP_ERROR_CHECK E (Wifi Esp_event_loop_create_default),
      emit E (Wifi (Esp_netif_create_default_wifi Mode_ap)),
      ESP_ERROR_CHECK E (Wifi Esp_wifi_init),
      ESP_ERROR_CHECK E (Wifi (Esp_event_handler_register ''WIFI_EVENT'' ESP_EVENT_ANY_ID)),
      ESP_ERROR_CHECK E (Wifi (Esp_wifi_set_mode Mode_ap)),
      ESP_ERROR_CHECK E (Wifi (Esp_wifi_set_config_ap MY_WIFI_SSID (length MY_WIFI_SSID) MY_WIFI_CHANNEL
         MY_WIFI_PASS MY_STA_CONN authmode)),
      ESP_ERROR_CHECK E (Wifi Esp_wifi_start)])"

section \<open>Station\<close>

definition initialise_mdns :: "env \<Rightarrow> ('a world_scheme, unit) prog" where
  "initialise_mdns E = block
     [emit E (Wifi Mdns_init),
      emit E (Wifi (Mdns_hostname_set ''smartcar'')),
      emit E (Wifi (Mdns_instance_name_set ''smart car service'')),
      ESP_ERROR_CHECK E (Wifi (Mdns_service_add ''_car'' ''_udp'' 9000 [(''company'', ''Jiansoft'')]))]"

definition station_event_handler :: "env \<Rightarrow> net_event \<Rightarrow> ('a world_scheme, unit) prog" where
  "station_event_handler E event =
     (case event of
        WIFI_EVENT STA_START \<Rightarrow> emit E (Wifi Esp_wifi_connect)
      | WIFI_EVENT STA_DISCONNECTED \<Rightarrow> emit E (Wifi Esp_wifi_connect)
      | _ \<Rightarrow> return ())"

text \<open>\<open>esp_wifi_get_config\<close> answers the stored SSID; a NUL or nothing there is no configuration.\<close>

definition wifi_init_sta :: "env \<Rightarrow> ('a car_vars_scheme, unit) prog" where
  "wifi_init_sta E =
     bind (block
     [ESP_ERROR_CHECK E (Wifi Esp_netif_init),
      ESP_ERROR_CHECK E (Wifi Esp_event_loop_create_default),
      initialise_mdns E,
      emit E (Wifi (Esp_netif_create_default_wifi Mode_sta)),
      ESP_ERROR_CHECK E (Wifi Esp_wifi_init),
      ESP_ERROR_CHECK E (Wifi (Esp_event_handler_register ''WIFI_EVENT'' ESP_EVENT_ANY_ID)),
      ESP_ERROR_CHECK E (Wifi (Esp_event_handler_register ''IP_EVENT'' 0)),
      ESP_ERROR_CHECK E (Wifi (Esp_wifi_set_mode Mode_sta))]) (\<lambda>_.
     bind (ask E (Wifi Esp_wifi_get_config_sta)) (\<lambda>(ret, d).
     if ret \<noteq> ESP_OK then fail Abort
     else
       let ssid0 = (case d of [] \<Rightarrow> 0 | c # _ \<Rightarrow> c) in
       if ssid0 \<noteq> 0 then block
         [car_set_wifi_config_status True,
          ESP_ERROR_CHECK E (Wifi Esp_wifi_start)]
       else return ()))"

text \<open>The two \<open>memcpy\<close> read 32 and 64 bytes from the caller's arrays.\<close>

definition wifi_set_config_and_start :: "env \<Rightarrow> u8 list \<Rightarrow> u8 list \<Rightarrow> ('a world_scheme, unit) prog" where
  "wifi_set_config_and_start E ssid passwd =
     (if length ssid < 32 \<or> length passwd < 64 then fail Out_of_bounds
      else block
        [ESP_ERROR_CHECK E (Wifi (Esp_wifi_set_config_sta (take 32 ssid) (take 64 passwd))),
         ESP_ERROR_CHECK E (Wifi Esp_wifi_start)])"

end
