(* ===== verification/Bt_Gatts.thy ===== *)
theory Bt_Gatts
  imports Network
begin

text \<open>
  \<open>bt_gatts.c\<close>: the GATT server that receives the WiFi credentials. The Bluetooth stack calls the
  two event handlers; its events are data types here, with the members of the parameter union the
  handlers read. The bytes of a freshly allocated buffer are unknown, which is \<open>None\<close>.
\<close>

section \<open>Tables and state\<close>

datatype gatt_idx = IDX_SVC | IDX_CHAR_A | IDX_CHAR_VAL_A | IDX_CHAR_CFG_A | IDX_CHAR_B | IDX_CHAR_VAL_B
  | IDX_CHAR_C | IDX_CHAR_VAL_C

fun idx_num :: "gatt_idx \<Rightarrow> nat" where
  "idx_num IDX_SVC = 0"
| "idx_num IDX_CHAR_A = 1"
| "idx_num IDX_CHAR_VAL_A = 2"
| "idx_num IDX_CHAR_CFG_A = 3"
| "idx_num IDX_CHAR_B = 4"
| "idx_num IDX_CHAR_VAL_B = 5"
| "idx_num IDX_CHAR_C = 6"
| "idx_num IDX_CHAR_VAL_C = 7"

abbreviation (input) HRS_IDX_NB :: nat where "HRS_IDX_NB \<equiv> 8"
abbreviation (input) PREPARE_BUF_MAX_SIZE :: nat where "PREPARE_BUF_MAX_SIZE \<equiv> 1024"
abbreviation (input) GATTS_DEMO_CHAR_VAL_LEN_MAX :: nat where "GATTS_DEMO_CHAR_VAL_LEN_MAX \<equiv> 500"
abbreviation (input) ADV_CONFIG_FLAG :: u8 where "ADV_CONFIG_FLAG \<equiv> 1"
abbreviation (input) SCAN_RSP_CONFIG_FLAG :: u8 where "SCAN_RSP_CONFIG_FLAG \<equiv> 2"
abbreviation (input) ESP_GATT_IF_NONE :: u16 where "ESP_GATT_IF_NONE \<equiv> 0xff"

abbreviation (input) ESP_GATT_OK :: int where "ESP_GATT_OK \<equiv> 0"
abbreviation (input) ESP_GATT_INVALID_OFFSET :: int where "ESP_GATT_INVALID_OFFSET \<equiv> 0x07"
abbreviation (input) ESP_GATT_INVALID_ATTR_LEN :: int where "ESP_GATT_INVALID_ATTR_LEN \<equiv> 0x0d"
abbreviation (input) ESP_GATT_NO_RESOURCES :: int where "ESP_GATT_NO_RESOURCES \<equiv> 0x80"

text \<open>\<open>raw_adv_data\<close> and \<open>raw_scan_rsp_data\<close>.\<close>

definition raw_adv_data :: "u8 list" where
  "raw_adv_data = [0x02, 0x01, 0x06, 0x02, 0x0a, 0xeb, 0x03, 0x03, 0xFF, 0xC3, 0x0a, 0x09,
     77, 85, 83, 73, 67, 95, 67, 65, 82]"

definition raw_scan_rsp_data :: "u8 list" where
  "raw_scan_rsp_data = [0x02, 0x01, 0x06, 0x02, 0x0a, 0xeb, 0x03, 0x03, 0xFF, 0xC3]"

text \<open>Permissions: read is bit 0, write bit 4. Properties: read bit 1, write bit 3, notify bit 4.\<close>

definition gatt_db :: "gatt_attr list" where
  "gatt_db =
     [Attr 0x2800 0x01 2 [0xFF, 0xC3],
      Attr 0x2803 0x01 1 [0x1a],
      Attr 0xFF01 0x11 GATTS_DEMO_CHAR_VAL_LEN_MAX [0x11, 0x22, 0x33, 0x44],
      Attr 0x2902 0x11 2 [0x00, 0x00],
      Attr 0x2803 0x01 1 [0x02],
      Attr 0xFF02 0x11 GATTS_DEMO_CHAR_VAL_LEN_MAX [0],
      Attr 0x2803 0x01 1 [0x08],
      Attr 0xFF03 0x11 GATTS_DEMO_CHAR_VAL_LEN_MAX [0x11, 0x22, 0x33, 0x44]]"

text \<open>The table holds the current status byte as the first value of characteristic B.\<close>

definition gatt_db_now :: "u8 \<Rightarrow> gatt_attr list" where
  "gatt_db_now status = gatt_db[idx_num IDX_CHAR_VAL_B := Attr 0xFF02 0x11 GATTS_DEMO_CHAR_VAL_LEN_MAX [status]]"

record ble_vars = car_vars +
  adv_config_done :: u8
  heart_rate_handle_table :: "u16 list"
  prepare_buf :: "(int \<times> u8 option list) option"
  prepare_len :: int
  profile_gatts_if :: u16

section \<open>GAP events\<close>

datatype gap_event = Adv_data_raw_set_complete | Scan_rsp_data_raw_set_complete
  | Adv_start_complete int | Adv_stop_complete int | Update_conn_params | Gap_other

text \<open>\<open>esp_ble_gap_start_advertising(&adv_params)\<close>\<close>

definition start_advertising :: "env \<Rightarrow> ('a world_scheme, unit) prog" where
  "start_advertising E = emit E (Ble (Ble_gap_start_advertising 0x20 0x40))"

definition clear_adv_flag :: "env \<Rightarrow> u8 \<Rightarrow> ('a ble_vars_scheme, unit) prog" where
  "clear_adv_flag E flag = block
     [modify (\<lambda>w. w\<lparr>adv_config_done := adv_config_done w AND NOT flag\<rparr>),
      bind (gets adv_config_done) (\<lambda>d. if_then (d = 0) (start_advertising E))]"

definition gap_event_handler :: "env \<Rightarrow> gap_event \<Rightarrow> ('a ble_vars_scheme, unit) prog" where
  "gap_event_handler E event =
     (case event of
        Adv_data_raw_set_complete \<Rightarrow> clear_adv_flag E ADV_CONFIG_FLAG
      | Scan_rsp_data_raw_set_complete \<Rightarrow> clear_adv_flag E SCAN_RSP_CONFIG_FLAG
      | _ \<Rightarrow> return ())"

section \<open>Long writes\<close>

record write_param =
  w_conn_id :: u16
  w_trans_id :: u32
  w_handle :: u16
  w_offset :: u16
  w_need_rsp :: bool
  w_is_prep :: bool
  w_value :: "u8 list"

text \<open>
  The response is built in an allocated structure whose value array has room for \<open>max_attr\<close> bytes
  (\<open>ESP_GATT_MAX_ATTR_LEN\<close> of the Bluetooth stack) beside eight bytes of other members.
\<close>

definition send_prepare_response :: "nat \<Rightarrow> env \<Rightarrow> u16 \<Rightarrow> write_param \<Rightarrow> int \<Rightarrow> ('a world_scheme, unit) prog" where
  "send_prepare_response max_attr E gatts_if param status =
     bind (call E (Heap (Malloc (max_attr + 8)))) (\<lambda>gatt_rsp.
     if gatt_rsp = 0 then return ()
     else if max_attr < length (w_value param) then fail Out_of_bounds
     else block
       [emit E (Ble (Ble_gatts_send_response gatts_if (w_conn_id param) (w_trans_id param) status
          (Some (w_handle param, w_offset param, w_value param)))),
        emit E (Heap (Free gatt_rsp))])"

definition prepare_status :: "env \<Rightarrow> write_param \<Rightarrow> ('a ble_vars_scheme, int) prog" where
  "prepare_status E param =
     bind (gets prepare_buf) (\<lambda>buf.
     case buf of
       None \<Rightarrow>
         bind (call E (Heap (Malloc PREPARE_BUF_MAX_SIZE))) (\<lambda>p.
         bind (modify (\<lambda>w. w\<lparr>prepare_buf := (if p = 0 then None else Some (p, replicate PREPARE_BUF_MAX_SIZE None)),
                 prepare_len := 0\<rparr>)) (\<lambda>_.
         return (if p = 0 then ESP_GATT_NO_RESOURCES else ESP_GATT_OK)))
     | Some _ \<Rightarrow>
         return (if unat (w_offset param) > PREPARE_BUF_MAX_SIZE then ESP_GATT_INVALID_OFFSET
                 else if unat (w_offset param) + length (w_value param) > PREPARE_BUF_MAX_SIZE
                 then ESP_GATT_INVALID_ATTR_LEN
                 else ESP_GATT_OK))"

definition example_prepare_write_event_env :: "nat \<Rightarrow> env \<Rightarrow> u16 \<Rightarrow> write_param \<Rightarrow> ('a ble_vars_scheme, unit) prog" where
  "example_prepare_write_event_env max_attr E gatts_if param =
     bind (prepare_status E param) (\<lambda>status.
     bind (if_then (w_need_rsp param) (send_prepare_response max_attr E gatts_if param status)) (\<lambda>_.
     if status \<noteq> ESP_GATT_OK then return ()
     else bind (gets (\<lambda>w. (prepare_buf w, prepare_len w))) (\<lambda>(buf, plen).
       case buf of
         None \<Rightarrow> fail Null_pointer
       | Some (p, bytes) \<Rightarrow>
           bind (memcpy_at (unat (w_offset param)) (map Some (w_value param)) bytes) (\<lambda>bytes.
           bind (chk_int (plen + int (length (w_value param)))) (\<lambda>plen.
           modify (\<lambda>w. w\<lparr>prepare_buf := Some (p, bytes), prepare_len := plen\<rparr>))))))"

text \<open>The bytes that are only logged are not modelled; the buffer is released in any case.\<close>

definition example_exec_write_event_env :: "env \<Rightarrow> ('a ble_vars_scheme, unit) prog" where
  "example_exec_write_event_env E =
     bind (gets prepare_buf) (\<lambda>buf. block
       [case buf of
          None \<Rightarrow> return ()
        | Some (p, _) \<Rightarrow> block [emit E (Heap (Free p)), modify (\<lambda>w. w\<lparr>prepare_buf := None\<rparr>)],
        modify (\<lambda>w. w\<lparr>prepare_len := 0\<rparr>)])"

section \<open>Credentials\<close>

text \<open>The search for the newline; the length of the value if there is none.\<close>

fun split_pos :: "u8 list \<Rightarrow> nat" where
  "split_pos [] = 0"
| "split_pos (c # cs) = (if c = 10 then 0 else Suc (split_pos cs))"

definition gatts_handle_CHAR_VAL_C_write :: "env \<Rightarrow> u8 list \<Rightarrow> ('a world_scheme, unit) prog" where
  "gatts_handle_CHAR_VAL_C_write E val =
     (let split_idx = split_pos val in
      if split_idx = 0 \<or> split_idx \<ge> length val \<or> split_idx > 32 then return ()
      else
        bind (memcpy_at 0 (take split_idx val) (replicate 33 0)) (\<lambda>ssid.
        bind (memcpy_at 0 (drop (split_idx + 1) val) (replicate 65 0)) (\<lambda>passwd.
        wifi_set_config_and_start E ssid passwd)))"

section \<open>GATT events\<close>

datatype gatts_event = Reg_evt int
  | Write_evt write_param
  | Exec_write_evt
  | Connect_evt "u8 list"
  | Disconnect_evt
  | Creat_attr_tab_evt int nat "u16 list"
  | Gatts_other

definition gatts_profile_event_handler :: "nat \<Rightarrow> env \<Rightarrow> gatts_event \<Rightarrow> u16 \<Rightarrow> ('a ble_vars_scheme, unit) prog" where
  "gatts_profile_event_handler max_attr E event gatts_if =
     (case event of
        Reg_evt _ \<Rightarrow> bind (gets car_status) (\<lambda>status. block
          [emit E (Ble (Ble_gap_set_device_name ''ESP_GATTS_DEMO'')),
           emit E (Ble (Ble_gap_config_adv_data_raw raw_adv_data)),
           modify (\<lambda>w. w\<lparr>adv_config_done := adv_config_done w OR ADV_CONFIG_FLAG\<rparr>),
           emit E (Ble (Ble_gap_config_scan_rsp_data_raw raw_scan_rsp_data)),
           modify (\<lambda>w. w\<lparr>adv_config_done := adv_config_done w OR SCAN_RSP_CONFIG_FLAG\<rparr>),
           emit E (Ble (Ble_gatts_create_attr_tab (gatt_db_now status) gatts_if HRS_IDX_NB 0))])
      | Write_evt param \<Rightarrow>
          if \<not> w_is_prep param then bind (gets heart_rate_handle_table) (\<lambda>tab. block
            [if_then (tab ! idx_num IDX_CHAR_VAL_C = w_handle param)
               (gatts_handle_CHAR_VAL_C_write E (w_value param)),
             if_then (w_need_rsp param)
               (emit E (Ble (Ble_gatts_send_response gatts_if (w_conn_id param) (w_trans_id param) ESP_GATT_OK None)))])
          else example_prepare_write_event_env max_attr E gatts_if param
      | Exec_write_evt \<Rightarrow> example_exec_write_event_env E
      | Connect_evt bda \<Rightarrow> emit E (Ble (Ble_gap_update_conn_params bda 0x10 0x20 0 400))
      | Disconnect_evt \<Rightarrow> start_advertising E
      | Creat_attr_tab_evt status num_handle handles \<Rightarrow>
          if status \<noteq> ESP_GATT_OK then return ()
          else if num_handle \<noteq> HRS_IDX_NB then return ()
          else if length handles < HRS_IDX_NB then fail Out_of_bounds
          else block
            [modify (\<lambda>w. w\<lparr>heart_rate_handle_table := take HRS_IDX_NB handles\<rparr>),
             emit E (Ble (Ble_gatts_start_service (handles ! idx_num IDX_SVC)))]
      | Gatts_other \<Rightarrow> return ())"

definition gatts_event_handler :: "nat \<Rightarrow> env \<Rightarrow> gatts_event \<Rightarrow> u16 \<Rightarrow> ('a ble_vars_scheme, unit) prog" where
  "gatts_event_handler max_attr E event gatts_if =
     bind (case event of
        Reg_evt status \<Rightarrow>
          if status = ESP_GATT_OK
          then bind (modify (\<lambda>w. w\<lparr>profile_gatts_if := gatts_if\<rparr>)) (\<lambda>_. return True)
          else return False
      | _ \<Rightarrow> return True) (\<lambda>go.
     if \<not> go then return ()
     else bind (gets profile_gatts_if) (\<lambda>pif.
       if_then (gatts_if = ESP_GATT_IF_NONE \<or> gatts_if = pif)
         (gatts_profile_event_handler max_attr E event gatts_if)))"

section \<open>Start and stop\<close>

text \<open>Each call's failure is logged and ends the function.\<close>

primrec until_error :: "env \<Rightarrow> call list \<Rightarrow> ('a world_scheme, bool) prog" where
  "until_error E [] = return True"
| "until_error E (c # cs) = bind (call E c) (\<lambda>ret. if ret \<noteq> 0 then return False else until_error E cs)"

definition bt_gatts_init_and_run :: "env \<Rightarrow> ('a world_scheme, unit) prog" where
  "bt_gatts_init_and_run E =
     bind (ESP_ERROR_CHECK E (Ble Bt_controller_mem_release)) (\<lambda>_.
     bind (until_error E
       [Ble Bt_controller_init, Ble Bt_controller_enable, Ble Bluedroid_init, Ble Bluedroid_enable,
        Ble Ble_gatts_register_callback, Ble Ble_gap_register_callback, Ble (Ble_gatts_app_register 0x55)]) (\<lambda>ok.
     if_then ok (emit E (Ble (Ble_gatt_set_local_mtu 500)))))"

definition bt_disable :: "env \<Rightarrow> ('a world_scheme, unit) prog" where
  "bt_disable E = emit E (Ble Bluedroid_disable)"

section \<open>Long writes are reassembled\<close>

text \<open>The prepared writes of one long write, each starting where the one before ended.\<close>

fun consecutive :: "nat \<Rightarrow> write_param list \<Rightarrow> bool" where
  "consecutive off [] = True"
| "consecutive off (p # ps) = (unat (w_offset p) = off \<and> consecutive (off + length (w_value p)) ps)"

definition filled :: "u8 list \<Rightarrow> u8 option list" where
  "filled xs = map Some xs @ replicate (PREPARE_BUF_MAX_SIZE - length xs) None"

definition mallocs_succeed :: "env \<Rightarrow> bool" where
  "mallocs_succeed E \<longleftrightarrow> (\<forall>tr n. fst (E tr (Heap (Malloc n))) \<noteq> 0)"

definition fits_response :: "nat \<Rightarrow> write_param \<Rightarrow> bool" where
  "fits_response max_attr p \<longleftrightarrow> (w_need_rsp p \<longrightarrow> length (w_value p) \<le> max_attr)"

lemma overlay_filled:
  "length xs + length ys \<le> PREPARE_BUF_MAX_SIZE \<Longrightarrow> overlay (length xs) (map Some ys) (filled xs) = filled (xs @ ys)"
  by (simp add: overlay_def filled_def)

lemma runs_to_memcpy_at [simp]:
  "runs_to (memcpy_at off src dst) s Q \<longleftrightarrow> off + length src \<le> length dst \<and> Q (overlay off src dst) s"
  by (simp add: runs_to_def prog_simps)

lemma runs_to_send_prepare_response:
  assumes "length (w_value p) \<le> max_attr" "\<And>tr. Q () (w\<lparr>trace := tr\<rparr>)"
  shows "runs_to (send_prepare_response max_attr E gif p st) w Q"
  using assms by (simp add: send_prepare_response_def)

lemma prepare_next:
  assumes "prepare_buf w = Some (q, filled xs)" "prepare_len w = int (length xs)"
    and "unat (w_offset p) = length xs" "length xs + length (w_value p) \<le> PREPARE_BUF_MAX_SIZE" "fits_response m p"
  shows "runs_to (example_prepare_write_event_env m E gif p) w (\<lambda>_ w'.
    prepare_buf w' = Some (q, filled (xs @ w_value p)) \<and> prepare_len w' = int (length (xs @ w_value p)))"
proof -
  have l: "length xs + length (w_value p) \<le> length (filled xs)" using assms(4) by (simp add: filled_def)
  show ?thesis
    using assms l
    by (auto simp: example_prepare_write_event_env_def prepare_status_def overlay_filled is_int_def fits_response_def
        intro!: runs_to_send_prepare_response)
qed

lemma prepare_first:
  assumes "prepare_buf w = None" "mallocs_succeed E"
    and "unat (w_offset p) = 0" "length (w_value p) \<le> PREPARE_BUF_MAX_SIZE" "fits_response m p"
  shows "runs_to (example_prepare_write_event_env m E gif p) w (\<lambda>_ w'. \<exists>q.
    prepare_buf w' = Some (q, filled (w_value p)) \<and> prepare_len w' = int (length (w_value p)))"
proof -
  have "overlay 0 (map Some ys) (replicate 1024 None) = filled ys" if "length ys \<le> 1024" for ys :: "u8 list"
    using overlay_filled [of "[]" ys] that by (simp add: filled_def)
  then show ?thesis
    using assms
    by (auto simp: example_prepare_write_event_env_def prepare_status_def is_int_def fits_response_def
        mallocs_succeed_def intro!: runs_to_send_prepare_response)
qed

lemma prepare_rest:
  assumes "prepare_buf w = Some (q, filled xs)" "prepare_len w = int (length xs)" "consecutive (length xs) ps"
    and "length xs + length (concat (map w_value ps)) \<le> PREPARE_BUF_MAX_SIZE" "list_all (fits_response m) ps"
  shows "runs_to (block (map (example_prepare_write_event_env m E gif) ps)) w (\<lambda>_ w'.
    prepare_buf w' = Some (q, filled (xs @ concat (map w_value ps))) \<and>
    prepare_len w' = int (length (xs @ concat (map w_value ps))))"
  using assms
proof (induction ps arbitrary: w xs)
  case (Cons p ps)
  have n: "runs_to (example_prepare_write_event_env m E gif p) w (\<lambda>_ w'.
    prepare_buf w' = Some (q, filled (xs @ w_value p)) \<and> prepare_len w' = int (length (xs @ w_value p)))"
    by (rule prepare_next) (use Cons.prems in auto)
  show ?case
    unfolding list.map runs_to_block
    by (rule runs_to_mono [OF n], rule runs_to_mono [OF Cons.IH [of _ "xs @ w_value p"]]) (use Cons.prems in auto)
qed simp

text \<open>
  C37. A long write is reassembled: prepared writes that follow each other without a gap and fit the
  buffer of 1024 bytes, on a server with no long write pending and with memory available, leave the
  buffer with exactly the concatenation of their values and the length with its size, whether or
  not the client wants responses.
\<close>

theorem long_write_reassembled:
  assumes "prepare_buf w = None" "mallocs_succeed E" "ps \<noteq> []" "consecutive 0 ps"
    and "length (concat (map w_value ps)) \<le> 1024" "list_all (fits_response m) ps"
  shows "runs_to (block (map (example_prepare_write_event_env m E gif) ps)) w (\<lambda>_ w'. \<exists>q.
    prepare_buf w' = Some (q, filled (concat (map w_value ps))) \<and>
    prepare_len w' = int (length (concat (map w_value ps))))"
proof (cases ps)
  case (Cons p ps')
  have f: "runs_to (example_prepare_write_event_env m E gif p) w (\<lambda>_ w'. \<exists>q.
    prepare_buf w' = Some (q, filled (w_value p)) \<and> prepare_len w' = int (length (w_value p)))"
    by (rule prepare_first) (use assms Cons in auto)
  show ?thesis
    unfolding Cons list.map runs_to_block
  proof (rule runs_to_mono [OF f], elim exE conjE)
    fix w1 q
    assume "prepare_buf w1 = Some (q, filled (w_value p))" "prepare_len w1 = int (length (w_value p))"
    then have "runs_to (block (map (example_prepare_write_event_env m E gif) ps')) w1 (\<lambda>_ w'.
      prepare_buf w' = Some (q, filled (w_value p @ concat (map w_value ps'))) \<and>
      prepare_len w' = int (length (w_value p @ concat (map w_value ps'))))"
      by (rule prepare_rest) (use assms Cons in auto)
    then show "runs_to (block (map (example_prepare_write_event_env m E gif) ps')) w1 (\<lambda>_ w'. \<exists>q.
      prepare_buf w' = Some (q, filled (concat (w_value p # map w_value ps'))) \<and>
      prepare_len w' = int (length (concat (w_value p # map w_value ps'))))"
      by (rule runs_to_mono) auto
  qed
qed (use assms in simp)

definition ble0 :: ble_vars where
  "ble0 = \<lparr>trace = [], car_status = 0, adv_config_done = 0, heart_rate_handle_table = replicate 8 0,
     prepare_buf = None, prepare_len = 0, profile_gatts_if = 0xff\<rparr>"

definition env_heap :: env where
  "env_heap tr c = (case c of Heap (Malloc n) \<Rightarrow> (4096, []) | _ \<Rightarrow> (0, []))"

definition prep :: "u16 \<Rightarrow> u8 list \<Rightarrow> write_param" where
  "prep off v = \<lparr>w_conn_id = 0, w_trans_id = 1, w_handle = 42, w_offset = off, w_need_rsp = True,
     w_is_prep = True, w_value = v\<rparr>"

theorem long_write_reassembled_witness:
  "runs_to (block (map (example_prepare_write_event_env 512 env_heap 3) [prep 0 [1, 2, 3], prep 3 [4, 5]])) ble0
     (\<lambda>_ w'. \<exists>q. prepare_buf w' = Some (q, filled [1, 2, 3, 4, 5]) \<and> prepare_len w' = 5)"
  using long_write_reassembled [of ble0 env_heap "[prep 0 [1, 2, 3], prep 3 [4, 5]]" 512 3]
  by (simp add: ble0_def prep_def mallocs_succeed_def env_heap_def fits_response_def)

text \<open>
  The bounds check of a prepared write is missing for the first one. Without a response to
  send, a write that does not fit the buffer is dropped without any effect when a long write is
  pending, but as the first of a long write it is copied past the end of the new buffer.
\<close>

theorem first_prepared_write_unchecked:
  assumes "unat (w_offset p) + length (w_value p) > 1024" "\<not> w_need_rsp p" "mallocs_succeed E"
  shows "(prepare_buf w = None \<longrightarrow> example_prepare_write_event_env m E gif p w = Inl Out_of_bounds) \<and>
    (prepare_buf w \<noteq> None \<longrightarrow> example_prepare_write_event_env m E gif p w = Inr ((), w))"
  using assms
  by (auto simp: example_prepare_write_event_env_def prepare_status_def prog_simps mallocs_succeed_def)

theorem first_prepared_write_unchecked_witness:
  "example_prepare_write_event_env 512 env_heap 3 ((prep 1020 [1, 2, 3, 4, 5])\<lparr>w_need_rsp := False\<rparr>) ble0 =
     Inl Out_of_bounds"
  using first_prepared_write_unchecked [of "(prep 1020 [1, 2, 3, 4, 5])\<lparr>w_need_rsp := False\<rparr>" env_heap ble0 512 3]
  by (simp add: prep_def mallocs_succeed_def env_heap_def ble0_def)

section \<open>Credentials reach the WiFi configuration\<close>

lemma split_pos_newline: "10 \<notin> set ssid \<Longrightarrow> split_pos (ssid @ 10 # pass) = length ssid"
  by (induction ssid) auto

lemma overlay_front: "length xs \<le> n \<Longrightarrow> overlay 0 xs (replicate n c) = xs @ replicate (n - length xs) c"
  by (simp add: overlay_def)

definition padded :: "nat \<Rightarrow> u8 list \<Rightarrow> u8 list" where
  "padded n xs = take n (xs @ replicate n 0)"

text \<open>
  Credentials written to characteristic C as SSID, newline, password become the station
  configuration, each padded with NULs to its field, and the station is started; this holds for
  every SSID of 1 to 32 bytes without a newline and every password of up to 64 bytes.
\<close>

theorem credentials_configure_station:
  assumes "10 \<notin> set ssid" "ssid \<noteq> []" "length ssid \<le> 32" "length pass \<le> 64"
    and "\<And>s p. accepts E (Wifi (Esp_wifi_set_config_sta s p))" "accepts E (Wifi Esp_wifi_start)"
  shows "gatts_handle_CHAR_VAL_C_write E (ssid @ 10 # pass) w = Inr ((), w\<lparr>trace := trace w @
    [Wifi (Esp_wifi_set_config_sta (padded 32 ssid) (padded 64 pass)), Wifi Esp_wifi_start]\<rparr>)"
proof -
  have "overlay 0 ssid (replicate 33 0) = ssid @ replicate (33 - length ssid) 0"
    "overlay 0 pass (replicate 65 0) = pass @ replicate (65 - length pass) 0"
    using assms by (simp_all add: overlay_front)
  then show ?thesis
    using assms
    by (simp add: gatts_handle_CHAR_VAL_C_write_def split_pos_newline prog_simps wifi_set_config_and_start_def
        padded_def min_def)
qed

theorem credentials_configure_station_witness:
  "gatts_handle_CHAR_VAL_C_write env_ok [104, 111, 109, 101, 10, 49, 50, 51] ble0 = Inr ((), ble0\<lparr>trace :=
    [Wifi (Esp_wifi_set_config_sta (padded 32 [104, 111, 109, 101]) (padded 64 [49, 50, 51])), Wifi Esp_wifi_start]\<rparr>)"
  using credentials_configure_station [of "[104, 111, 109, 101]" "[49, 50, 51]" env_ok ble0]
  by (simp add: ble0_def)

text \<open>
  Only the SSID's length is checked: a password of more than 65 bytes, which the
  characteristic's limit of 500 bytes allows, overruns the array on the stack.
\<close>

theorem credentials_overrun:
  assumes "10 \<notin> set ssid" "ssid \<noteq> []" "length ssid \<le> 32" "65 < length pass"
  shows "gatts_handle_CHAR_VAL_C_write E (ssid @ 10 # pass) w = Inl Out_of_bounds"
  using assms by (simp add: gatts_handle_CHAR_VAL_C_write_def split_pos_newline prog_simps)

theorem credentials_overrun_witness:
  "gatts_handle_CHAR_VAL_C_write env_ok ([104, 10] @ replicate 66 49) ble0 = Inl Out_of_bounds"
  using credentials_overrun [of "[104]" "replicate 66 49" env_ok ble0] by simp

section \<open>Memory of the server\<close>

text \<open>The net number of allocations of a stretch of calls, by the answers they got.\<close>

fun live_from :: "env \<Rightarrow> call list \<Rightarrow> call list \<Rightarrow> int" where
  "live_from E tr [] = 0"
| "live_from E tr (c # cs) =
     (case c of
        Heap (Malloc n) \<Rightarrow> if fst (E tr c) \<noteq> 0 then 1 else 0
      | Heap (Free p) \<Rightarrow> - 1
      | _ \<Rightarrow> 0) + live_from E (tr @ [c]) cs"

lemma live_from_append: "live_from E tr (cs @ ds) = live_from E tr cs + live_from E (tr @ cs) ds"
  by (induction cs arbitrary: tr) auto

definition held :: "'a ble_vars_scheme \<Rightarrow> int" where
  "held w = (if prepare_buf w = None then 0 else 1)"

definition ble_inv :: "'a ble_vars_scheme \<Rightarrow> bool" where
  "ble_inv w \<longleftrightarrow> length (heart_rate_handle_table w) = HRS_IDX_NB \<and>
     (\<forall>p bs. prepare_buf w = Some (p, bs) \<longrightarrow> p \<noteq> 0 \<and> length bs = PREPARE_BUF_MAX_SIZE) \<and>
     (prepare_buf w = None \<longrightarrow> prepare_len w = 0)"

text \<open>A program that keeps the invariant and frees what it does not hold.\<close>

named_theorems tracked_intros \<open>rules for programs that account for their memory\<close>

definition tracked :: "env \<Rightarrow> ('a ble_vars_scheme, 'b) prog \<Rightarrow> bool" where
  "tracked E p \<longleftrightarrow> (\<forall>w a w'. ble_inv w \<longrightarrow> p w = Inr (a, w') \<longrightarrow> ble_inv w' \<and>
     (\<exists>cs. trace w' = trace w @ cs \<and> live_from E (trace w) cs = held w' - held w))"

lemma trackedD:
  assumes "tracked E p" "ble_inv w" "p w = Inr (a, w')"
  obtains cs where "ble_inv w'" "trace w' = trace w @ cs" "live_from E (trace w) cs = held w' - held w"
  using assms unfolding tracked_def by blast

lemma ble_inv_trace [simp]: "ble_inv (w\<lparr>trace := tr\<rparr>) = ble_inv w" "held (w\<lparr>trace := tr\<rparr>) = held w"
  by (simp_all add: ble_inv_def held_def)

lemma tracked_bind [tracked_intros]:
  assumes "tracked E p" "\<And>a. tracked E (k a)"
  shows "tracked E (bind p k)"
  unfolding tracked_def
proof (intro allI impI)
  fix w a w'
  assume i: "ble_inv w" and "bind p k w = Inr (a, w')"
  then obtain b w1 where r: "p w = Inr (b, w1)" "k b w1 = Inr (a, w')"
    by (auto simp: bind_run split: sum.splits)
  from trackedD [OF assms(1) i r(1)] obtain cs where
    c: "ble_inv w1" "trace w1 = trace w @ cs" "live_from E (trace w) cs = held w1 - held w" .
  from trackedD [OF assms(2) c(1) r(2)] obtain ds where
    "ble_inv w'" "trace w' = trace w1 @ ds" "live_from E (trace w1) ds = held w' - held w1" .
  then show "ble_inv w' \<and> (\<exists>cs. trace w' = trace w @ cs \<and> live_from E (trace w) cs = held w' - held w)"
    using c by (auto simp: live_from_append intro!: exI [of _ "cs @ ds"])
qed

definition heap_call_free :: "call \<Rightarrow> bool" where
  "heap_call_free c = (case c of Heap _ \<Rightarrow> False | _ \<Rightarrow> True)"

lemma live_from_free: "list_all heap_call_free cs \<Longrightarrow> live_from E tr cs = 0"
  by (induction cs arbitrary: tr) (auto simp: heap_call_free_def split: call.splits)

lemma tracked_simple [tracked_intros]:
  "tracked E (return a)" "tracked E (fail flt)" "tracked E (gets g)" "tracked E (chk_int x)"
  "heap_call_free c \<Longrightarrow> tracked E (emit E c)" "heap_call_free c \<Longrightarrow> tracked E (ESP_ERROR_CHECK E c)"
  by (auto simp: tracked_def prog_simps heap_call_free_def split: call.splits if_splits)

lemma tracked_modify:
  assumes "\<And>w. ble_inv w \<Longrightarrow> ble_inv (f w)" "\<And>w. held (f w) = held w" "\<And>w. trace (f w) = trace w"
  shows "tracked E (modify f)"
  using assms by (simp add: tracked_def prog_simps)

lemma tracked_control [tracked_intros]:
  "tracked E (block [])"
  "tracked E p \<Longrightarrow> tracked E (block ps) \<Longrightarrow> tracked E (block (p # ps))"
  "tracked E p \<Longrightarrow> tracked E (if_then b p)"
  by (simp_all add: block.simps tracked_bind tracked_simple if_then_def)

lemma tracked_if [tracked_intros]:
  "(b \<Longrightarrow> tracked E p) \<Longrightarrow> (\<not> b \<Longrightarrow> tracked E q) \<Longrightarrow> tracked E (if b then p else q)"
  by simp

lemma tracked_silent:
  assumes "logs_only p" "calls_only heap_call_free p"
  shows "tracked E p"
  unfolding tracked_def
proof (intro allI impI)
  fix w a w'
  assume "ble_inv w" and r: "p w = Inr (a, w')"
  obtain cs ds where "w' = w\<lparr>trace := trace w @ cs\<rparr>" "trace w' = trace w @ ds" "list_all heap_call_free ds"
    using logs_onlyD [OF assms(1) r] calls_onlyD [OF assms(2) r] by blast
  with \<open>ble_inv w\<close> show "ble_inv w' \<and> (\<exists>cs. trace w' = trace w @ cs \<and> live_from E (trace w) cs = held w' - held w)"
    by (auto simp: live_from_free)
qed

lemma tracked_credentials [tracked_intros]: "tracked E (gatts_handle_CHAR_VAL_C_write E val)"
  unfolding gatts_handle_CHAR_VAL_C_write_def wifi_set_config_and_start_def Let_def
  by (intro tracked_silent logs_intros calls_intros) (simp_all add: heap_call_free_def)

lemma tracked_response [tracked_intros]: "tracked E (send_prepare_response m E gif p st)"
  by (auto simp: tracked_def send_prepare_response_def prog_simps split: if_splits)

lemma tracked_prepare_status [tracked_intros]: "tracked E (prepare_status E p)"
  unfolding prepare_status_def tracked_def
  by (auto simp: prog_simps ble_inv_def held_def split: option.splits if_splits)

lemma tracked_prepare [tracked_intros]: "tracked E (example_prepare_write_event_env m E gif p)"
proof -
  have "tracked E (bind (gets (\<lambda>w. (prepare_buf w, prepare_len w))) (\<lambda>(buf, plen).
       case buf of
         None \<Rightarrow> fail Null_pointer
       | Some (q, bytes) \<Rightarrow>
           bind (memcpy_at off src bytes) (\<lambda>bytes.
           bind (chk_int (plen + n)) (\<lambda>plen.
           modify (\<lambda>w. w\<lparr>prepare_buf := Some (q, bytes), prepare_len := plen\<rparr>)))))" for off src n
    by (auto simp: tracked_def prog_simps ble_inv_def held_def split: option.splits if_splits)
  then show ?thesis
    unfolding example_prepare_write_event_env_def
    by (intro tracked_bind [OF tracked_prepare_status] tracked_bind [OF tracked_control(3) [OF tracked_response]]
        tracked_if tracked_simple(1))
qed

lemma tracked_exec [tracked_intros]: "tracked E (example_exec_write_event_env E)"
  by (auto simp: tracked_def example_exec_write_event_env_def prog_simps ble_inv_def held_def split: option.splits)

lemma tracked_advertising [tracked_intros]:
  "tracked E (start_advertising E)" "tracked E (clear_adv_flag E flag)"
  "tracked E (modify (\<lambda>w. w\<lparr>adv_config_done := adv_config_done w OR x\<rparr>))"
  "tracked E (modify (\<lambda>w. w\<lparr>profile_gatts_if := y\<rparr>))"
  unfolding start_advertising_def clear_adv_flag_def
  by (intro tracked_intros tracked_modify; simp add: ble_inv_def held_def heap_call_free_def)+

lemma tracked_gatts [tracked_intros]: "tracked E (gatts_event_handler m E event gif)"
proof -
  have t: "tracked E (modify (\<lambda>w. w\<lparr>heart_rate_handle_table := take 8 hs\<rparr>))" if "8 \<le> length hs" for hs
    using that by (intro tracked_modify) (simp_all add: ble_inv_def held_def)
  have "tracked E (gatts_profile_event_handler m E event gif)"
    unfolding gatts_profile_event_handler_def
    by (cases event) (auto intro!: tracked_intros t simp: heap_call_free_def)
  then show ?thesis
    unfolding gatts_event_handler_def by (cases event) (auto intro!: tracked_intros)
qed

lemma tracked_gap [tracked_intros]: "tracked E (gap_event_handler E event)"
  unfolding gap_event_handler_def by (cases event) (auto intro!: tracked_intros)

text \<open>The events the stack delivers, one after another.\<close>

datatype ble_event = Gap gap_event | Gatts gatts_event u16

primrec ble_handler :: "nat \<Rightarrow> env \<Rightarrow> ble_event \<Rightarrow> ('a ble_vars_scheme, unit) prog" where
  "ble_handler m E (Gap e) = gap_event_handler E e"
| "ble_handler m E (Gatts e gif) = gatts_event_handler m E e gif"

lemma tracked_handler: "tracked E (ble_handler m E e)"
  by (cases e) (simp_all add: tracked_gap tracked_gatts)

lemma tracked_events: "tracked E (block (map (ble_handler m E) evs))"
  by (induction evs) (simp_all add: tracked_control tracked_handler)



end
