(* ===== verification/Drv8833.thy ===== *)
theory Drv8833
  imports Utils
begin

text \<open>
  \<open>drv8833_pwm.c\<close>, with the enable pins of \<open>my_gpio.c\<close> it drives: the two motors behind
  the DRV8833 bridge, the one-command table, the script task and its handle. A motor is a
  pair of LEDC channels; what the bridge sees is read off the trace of LEDC and GPIO calls.
\<close>

unbundle bit_operations_syntax

section \<open>State and pins\<close>

record motor_vars = world +
  g_is_motorA_run :: u32
  g_is_motorB_run :: u32
  motor_args :: cstr

definition DRV8833_ENABLE_IO :: int where "DRV8833_ENABLE_IO = 3"
definition MAX98357_ENABLE_IO :: int where "MAX98357_ENABLE_IO = 21"

definition gpio_enable_drv8833 :: "env \<Rightarrow> ('a world_scheme, unit) prog" where
  "gpio_enable_drv8833 E = emit E (Gpio (Gpio_set_level DRV8833_ENABLE_IO 1))"

definition gpio_disable_drv8833 :: "env \<Rightarrow> ('a world_scheme, unit) prog" where
  "gpio_disable_drv8833 E = emit E (Gpio (Gpio_set_level DRV8833_ENABLE_IO 0))"

definition gpio_enable_max98357 :: "env \<Rightarrow> ('a world_scheme, unit) prog" where
  "gpio_enable_max98357 E = emit E (Gpio (Gpio_set_level MAX98357_ENABLE_IO 1))"

definition gpio_disable_max98357 :: "env \<Rightarrow> ('a world_scheme, unit) prog" where
  "gpio_disable_max98357 E = emit E (Gpio (Gpio_set_level MAX98357_ENABLE_IO 0))"

section \<open>Motors\<close>

abbreviation (input) set_duty :: "env \<Rightarrow> int \<Rightarrow> u32 \<Rightarrow> ('a world_scheme, unit) prog" where
  "set_duty E ch d \<equiv> ESP_ERROR_CHECK E (Ledc (Ledc_set_duty ch d))"

abbreviation (input) update_duty :: "env \<Rightarrow> int \<Rightarrow> ('a world_scheme, unit) prog" where
  "update_duty E ch \<equiv> ESP_ERROR_CHECK E (Ledc (Ledc_update_duty ch))"

text \<open>Timer 0 at 100 Hz with a 10-bit duty; channels 0 to 3 on the pins AIN1, AIN2, BIN1, BIN2.\<close>

definition pwm_init :: "env \<Rightarrow> ('a world_scheme, unit) prog" where
  "pwm_init E = block
     [ESP_ERROR_CHECK E (Ledc (Ledc_timer_config 10 100)),
      block (map (\<lambda>(ch, pin). ESP_ERROR_CHECK E (Ledc (Ledc_channel_config ch pin 0)))
               [(0, 5), (1, 4), (2, 7), (3, 6)]),
      emit E (Rtos (XEventGroupCreate Motor_cmds))]"

definition is_motor_run :: "('a motor_vars_scheme, u32) prog" where
  "is_motor_run = gets (\<lambda>w. g_is_motorA_run w OR g_is_motorB_run w)"

definition drv8833_motorA_run :: "env \<Rightarrow> int \<Rightarrow> int \<Rightarrow> ('a motor_vars_scheme, unit) prog" where
  "drv8833_motorA_run E speed direction =
     bind (chk_int (speed * 1024)) (\<lambda>p.
     let duty = word_of_int (p sdiv 100) in
     block
       [if 0 \<le> direction then block [set_duty E 0 duty, set_duty E 1 0]
        else block [set_duty E 0 0, set_duty E 1 duty],
        update_duty E 0,
        update_duty E 1,
        if speed \<noteq> 0 then modify (\<lambda>w. w\<lparr>g_is_motorA_run := 1\<rparr>)
        else modify (\<lambda>w. w\<lparr>g_is_motorA_run := 0\<rparr>)])"

definition drv8833_motorA_stop :: "env \<Rightarrow> ('a motor_vars_scheme, unit) prog" where
  "drv8833_motorA_stop E = block
     [set_duty E 0 1024, set_duty E 1 1024, update_duty E 0, update_duty E 1,
      modify (\<lambda>w. w\<lparr>g_is_motorA_run := 0\<rparr>)]"

definition drv8833_motorB_run :: "env \<Rightarrow> int \<Rightarrow> int \<Rightarrow> ('a motor_vars_scheme, unit) prog" where
  "drv8833_motorB_run E speed direction =
     bind (chk_int (speed * 1024)) (\<lambda>p.
     let duty = word_of_int (p sdiv 100) in
     block
       [if 0 \<le> direction then block [set_duty E 2 duty, set_duty E 3 0]
        else block [set_duty E 2 0, set_duty E 3 duty],
        update_duty E 2,
        update_duty E 3,
        if speed \<noteq> 0 then modify (\<lambda>w. w\<lparr>g_is_motorB_run := 1\<rparr>)
        else modify (\<lambda>w. w\<lparr>g_is_motorB_run := 0\<rparr>)])"

definition drv8833_motorB_stop :: "env \<Rightarrow> ('a motor_vars_scheme, unit) prog" where
  "drv8833_motorB_stop E = block
     [set_duty E 2 1024, set_duty E 3 1024, update_duty E 2, update_duty E 3,
      modify (\<lambda>w. w\<lparr>g_is_motorB_run := 0\<rparr>)]"

definition car_forward :: "env \<Rightarrow> int \<Rightarrow> int \<Rightarrow> ('a motor_vars_scheme, unit) prog" where
  "car_forward E speed1 speed2 = block
     [gpio_enable_drv8833 E, drv8833_motorA_run E speed1 1, drv8833_motorB_run E speed2 1]"

definition car_back :: "env \<Rightarrow> int \<Rightarrow> int \<Rightarrow> ('a motor_vars_scheme, unit) prog" where
  "car_back E speed1 speed2 = block
     [gpio_enable_drv8833 E, drv8833_motorA_run E speed1 (-1), drv8833_motorB_run E speed2 (-1)]"

definition car_stop :: "env \<Rightarrow> ('a motor_vars_scheme, unit) prog" where
  "car_stop E = block [drv8833_motorA_stop E, drv8833_motorB_stop E, gpio_disable_drv8833 E]"

definition motor_run_one_cmd :: "env \<Rightarrow> string \<Rightarrow> ('a motor_vars_scheme, int) prog" where
  "motor_run_one_cmd E cmd =
     bind (if cmd = ''F'' then car_forward E 100 100
           else if cmd = ''B'' then car_back E 100 100
           else if cmd = ''L'' then block
             [gpio_enable_drv8833 E, drv8833_motorA_run E 75 (-1), drv8833_motorB_run E 75 1]
           else if cmd = ''R'' then block
             [gpio_enable_drv8833 E, drv8833_motorA_run E 75 1, drv8833_motorB_run E 75 (-1)]
           else if cmd = ''FL'' then car_forward E 50 100
           else if cmd = ''FR'' then car_forward E 100 50
           else if cmd = ''BL'' then car_back E 50 100
           else if cmd = ''BR'' then car_back E 100 50
           else car_forward E 100 100)
       (\<lambda>_. return ESP_OK)"

section \<open>The script task and its handle\<close>

text \<open>
  One turn of the loop consumes a command, so the loop ends on the length of the remaining
  text. \<open>handle->task_run\<close> is read each turn.
\<close>

function motor_cmds_loop :: "env \<Rightarrow> string \<Rightarrow> ('a motor_vars_scheme, unit) prog" where
  "motor_cmds_loop E cmds w =
     (if cmds = [] then Inr ((), w)
      else case read_task_run E Motor_cmds w of
        Inl f \<Rightarrow> Inl f
      | Inr (run, w1) \<Rightarrow>
          if \<not> run then Inr ((), w1)
          else (case parse_cmd 16 cmds w1 of
              Inl f \<Rightarrow> Inl f
            | Inr (None, w2) \<Rightarrow> Inr ((), w2)
            | Inr (Some (pos, code, beatCnt), w2) \<Rightarrow>
                (case block
                   [if is_no_op code then car_stop E
                    else bind (motor_run_one_cmd E code) (\<lambda>_. return ()),
                    vTaskDelay_ms E (beat_delay beatCnt)] w2 of
                   Inl f \<Rightarrow> Inl f
                 | Inr (_, w3) \<Rightarrow> motor_cmds_loop E (drop (pos + 1) cmds) w3)))"
  by pat_completeness auto
termination
  by (relation "measure (\<lambda>(E, cmds, w). length cmds)") (auto dest!: parse_cmd_Some(2))

declare motor_cmds_loop.simps [simp del]

definition motor_run_cmds_task :: "env \<Rightarrow> ('a motor_vars_scheme, unit) prog" where
  "motor_run_cmds_task E =
     bind (gets motor_args) (\<lambda>args. block
     [motor_cmds_loop E (snd args),
      car_stop E,
      write_task_run E Motor_cmds False,
      emit E (Rtos (XEventGroupSetBits Motor_cmds)),
      emit E (Rtos VTaskDelete)])"

text \<open>The wait asks for BIT0 with clear-on-exit and a 5000 ms timeout; the answer is the bits.\<close>

definition motor_run_cmds_wait_for_stop :: "env \<Rightarrow> ('a world_scheme, int) prog" where
  "motor_run_cmds_wait_for_stop E =
     bind (call E (Rtos (XEventGroupWaitBits Motor_cmds True 5000)))
       (\<lambda>uxBits. return (if uxBits AND 1 \<noteq> 0 then ESP_OK else ESP_ERR_TIMEOUT))"

definition motor_run_cmds_stop :: "env \<Rightarrow> ('a world_scheme, int) prog" where
  "motor_run_cmds_stop E =
     bind (read_task_run E Motor_cmds) (\<lambda>run.
       if \<not> run then return ESP_OK
       else bind (block
              [emit E (Rtos (XEventGroupClearBits Motor_cmds)),
               write_task_run E Motor_cmds False])
            (\<lambda>_. motor_run_cmds_wait_for_stop E))"

definition motor_run_cmds :: "env \<Rightarrow> cstr \<Rightarrow> ('a motor_vars_scheme, unit) prog" where
  "motor_run_cmds E str =
     bind (read_task_run E Motor_cmds) (\<lambda>run.
     block
       [if run then bind (motor_run_cmds_stop E) (\<lambda>_. return ()) else return (),
        write_task_run E Motor_cmds True,
        modify (\<lambda>w. w\<lparr>motor_args := str\<rparr>),
        emit E (Rtos (XTaskCreate Motor_cmds))])"

interpretation motor_task: stoppable_task Motor_cmds 5000 motor_run_cmds_stop
  by unfold_locales
    (simp add: motor_run_cmds_stop_def motor_run_cmds_wait_for_stop_def prog_simps Let_def)

interpretation motor_task: restartable_task Motor_cmds 5000 motor_run_cmds_stop motor_run_cmds
  "\<lambda>x w. w\<lparr>motor_args := x\<rparr>"
  by unfold_locales
    (auto simp: motor_run_cmds_def prog_simps Let_def split: sum.splits)

section \<open>What the bridge sees\<close>

text \<open>
  The documented effect of the driver calls on the pins: \<open>ledc_set_duty\<close> stages a duty for a
  channel, \<open>ledc_update_duty\<close> makes the staged duty the output, \<open>gpio_set_level\<close> sets a pin.
\<close>

record pins =
  staged :: "int \<Rightarrow> u32"
  duty :: "int \<Rightarrow> u32"
  level :: "int \<Rightarrow> int"

definition reset_pins :: pins where
  "reset_pins = \<lparr>staged = (\<lambda>_. 0), duty = (\<lambda>_. 0), level = (\<lambda>_. 0)\<rparr>"

fun pin_step :: "call \<Rightarrow> pins \<Rightarrow> pins" where
  "pin_step (Ledc (Ledc_set_duty ch d)) p = p\<lparr>staged := (staged p)(ch := d)\<rparr>"
| "pin_step (Ledc (Ledc_update_duty ch)) p = p\<lparr>duty := (duty p)(ch := staged p ch)\<rparr>"
| "pin_step (Gpio (Gpio_set_level pin l)) p = p\<lparr>level := (level p)(pin := l)\<rparr>"
| "pin_step _ p = p"

definition pins_of :: "call list \<Rightarrow> pins" where
  "pins_of tr = fold pin_step tr reset_pins"

lemma pins_of_append: "pins_of (tr @ cs) = fold pin_step cs (pins_of tr)"
  by (simp add: pins_of_def)

text \<open>The truth table of one half of the DRV8833: both inputs low let the motor coast, both
  at full duty brake it, one of them drives it in that direction.\<close>

datatype drive = Coast | Brake | Forward u32 | Reverse u32 | Mixed

definition drive_of :: "u32 \<Rightarrow> u32 \<Rightarrow> drive" where
  "drive_of d1 d2 =
     (if d1 = 0 \<and> d2 = 0 then Coast
      else if d1 = 1024 \<and> d2 = 1024 then Brake
      else if d2 = 0 then Forward d1
      else if d1 = 0 then Reverse d2
      else Mixed)"

definition motorA_drive :: "pins \<Rightarrow> drive" where
  "motorA_drive p = drive_of (duty p 0) (duty p 1)"

definition motorB_drive :: "pins \<Rightarrow> drive" where
  "motorB_drive p = drive_of (duty p 2) (duty p 3)"

definition bridge_enabled :: "pins \<Rightarrow> bool" where
  "bridge_enabled p \<longleftrightarrow> level p DRV8833_ENABLE_IO = 1"

text \<open>The LEDC driver as documented: a duty of at most \<open>2 ^ 10\<close> on a configured channel is
  accepted.\<close>

definition ledc_ok :: "env \<Rightarrow> bool" where
  "ledc_ok E \<longleftrightarrow>
     (\<forall>ch d. 0 \<le> ch \<and> ch < 4 \<and> d \<le> 1024 \<longrightarrow> accepts E (Ledc (Ledc_set_duty ch d))) \<and>
     (\<forall>ch. 0 \<le> ch \<and> ch < 4 \<longrightarrow> accepts E (Ledc (Ledc_update_duty ch)))"

lemma ledc_okD [simp]:
  "ledc_ok E \<Longrightarrow> 0 \<le> ch \<Longrightarrow> ch < 4 \<Longrightarrow> d \<le> 1024 \<Longrightarrow> fst (E tr (Ledc (Ledc_set_duty ch d))) = 0"
  "ledc_ok E \<Longrightarrow> 0 \<le> ch \<Longrightarrow> ch < 4 \<Longrightarrow> fst (E tr (Ledc (Ledc_update_duty ch))) = 0"
  by (simp_all add: ledc_ok_def)

lemma ledc_ok_env_ok [simp]: "ledc_ok env_ok" "ledc_ok env_run"
  by (simp_all add: ledc_ok_def accepts_def env_run_def env_ok_def)

section \<open>Duties\<close>

text \<open>The duty a speed in percent stands for.\<close>

definition duty_of_speed :: "int \<Rightarrow> u32" where
  "duty_of_speed speed = word_of_int (speed * 1024 sdiv 100)"

lemma duty_of_speed_uint:
  assumes "0 \<le> speed" "speed \<le> 100"
  shows "uint (duty_of_speed speed) = speed * 1024 div 100" "duty_of_speed speed \<le> 1024"
    "duty_of_speed speed = 0 \<longleftrightarrow> speed = 0" "is_int (speed * 1024)"
proof -
  have b: "0 \<le> speed * 1024 div 100" "speed * 1024 div 100 \<le> 1024" using assms by auto
  have e: "speed * 1024 sdiv 100 = speed * 1024 div 100" using assms by (simp add: sdiv_pos)
  show u: "uint (duty_of_speed speed) = speed * 1024 div 100"
    unfolding duty_of_speed_def e by (rule uint_of_int_small) (use b in auto)
  show "duty_of_speed speed \<le> 1024" using u b by (simp add: word_le_def)
  have "duty_of_speed speed = 0 \<longleftrightarrow> uint (duty_of_speed speed) = 0" by (simp only: uint_0_iff)
  then show "duty_of_speed speed = 0 \<longleftrightarrow> speed = 0" unfolding u using assms by auto
  show "is_int (speed * 1024)" using assms by (simp add: is_int_def)
qed

section \<open>One motor\<close>

text \<open>
  Both motors follow the same law, on their own channels and flag. The locale holds it, with
  the drive a run or a stop leaves the half bridge in.
\<close>

locale half_bridge =
  fixes run :: "env \<Rightarrow> int \<Rightarrow> int \<Rightarrow> ('a motor_vars_scheme, unit) prog"
    and stop :: "env \<Rightarrow> ('a motor_vars_scheme, unit) prog"
    and ch1 ch2 :: int
    and set_flag :: "u32 \<Rightarrow> 'a motor_vars_scheme \<Rightarrow> 'a motor_vars_scheme"
  assumes chs: "ch1 \<noteq> ch2"
    and set_flag_trace: "trace (set_flag v w) = trace w"
    and run_eq: "ledc_ok E \<Longrightarrow> 0 \<le> speed \<Longrightarrow> speed \<le> 100 \<Longrightarrow>
      run E speed dir w = Inr ((), set_flag (if speed \<noteq> 0 then 1 else 0) (w\<lparr>trace := trace w @
        [Ledc (Ledc_set_duty ch1 (if 0 \<le> dir then duty_of_speed speed else 0)),
         Ledc (Ledc_set_duty ch2 (if 0 \<le> dir then 0 else duty_of_speed speed)),
         Ledc (Ledc_update_duty ch1), Ledc (Ledc_update_duty ch2)]\<rparr>))"
    and stop_eq: "ledc_ok E \<Longrightarrow>
      stop E w = Inr ((), set_flag 0 (w\<lparr>trace := trace w @
        [Ledc (Ledc_set_duty ch1 1024), Ledc (Ledc_set_duty ch2 1024),
         Ledc (Ledc_update_duty ch1), Ledc (Ledc_update_duty ch2)]\<rparr>))"
begin

lemma run_drive:
  assumes "ledc_ok E" "0 \<le> speed" "speed \<le> 100"
  shows "runs_to (run E speed dir) w (\<lambda>_ w'. let p = pins_of (trace w') in
    drive_of (duty p ch1) (duty p ch2) =
      (if speed = 0 then Coast
       else if 0 \<le> dir then Forward (duty_of_speed speed) else Reverse (duty_of_speed speed)) \<and>
    (\<forall>ch. ch \<noteq> ch1 \<longrightarrow> ch \<noteq> ch2 \<longrightarrow> duty p ch = duty (pins_of (trace w)) ch) \<and>
    level p = level (pins_of (trace w)))"
  using chs duty_of_speed_uint(3) [OF assms(2,3)]
  by (auto simp: runs_to_def run_eq [OF assms] set_flag_trace pins_of_append Let_def drive_of_def)

lemma stop_drive:
  assumes "ledc_ok E"
  shows "runs_to (stop E) w (\<lambda>_ w'. let p = pins_of (trace w') in
    drive_of (duty p ch1) (duty p ch2) = Brake \<and>
    (\<forall>ch. ch \<noteq> ch1 \<longrightarrow> ch \<noteq> ch2 \<longrightarrow> duty p ch = duty (pins_of (trace w)) ch) \<and>
    level p = level (pins_of (trace w)))"
  using chs
  by (auto simp: runs_to_def stop_eq [OF assms] set_flag_trace pins_of_append Let_def drive_of_def)

end

lemma duty_of_speed_fold: "word_of_int (speed * 1024 sdiv 100) = duty_of_speed speed"
  by (simp add: duty_of_speed_def)

interpretation motorA: half_bridge drv8833_motorA_run drv8833_motorA_stop 0 1
  "\<lambda>v w. w\<lparr>g_is_motorA_run := v\<rparr>"
  by unfold_locales
    (simp_all add: drv8833_motorA_run_def drv8833_motorA_stop_def prog_simps Let_def
       duty_of_speed_fold duty_of_speed_uint)

interpretation motorB: half_bridge drv8833_motorB_run drv8833_motorB_stop 2 3
  "\<lambda>v w. w\<lparr>g_is_motorB_run := v\<rparr>"
  by unfold_locales
    (simp_all add: drv8833_motorB_run_def drv8833_motorB_stop_def prog_simps Let_def
       duty_of_speed_fold duty_of_speed_uint)

section \<open>Commands\<close>

text \<open>What a command code stands for: the drives of motor A and motor B.\<close>

definition cmd_drives :: "string \<Rightarrow> drive \<times> drive" where
  "cmd_drives cmd =
     (if cmd = ''B'' then (Reverse 1024, Reverse 1024)
      else if cmd = ''L'' then (Reverse 768, Forward 768)
      else if cmd = ''R'' then (Forward 768, Reverse 768)
      else if cmd = ''FL'' then (Forward 512, Forward 1024)
      else if cmd = ''FR'' then (Forward 1024, Forward 512)
      else if cmd = ''BL'' then (Reverse 512, Reverse 1024)
      else if cmd = ''BR'' then (Reverse 1024, Reverse 512)
      else (Forward 1024, Forward 1024))"

definition bridge_view :: "pins \<Rightarrow> drive \<times> drive \<times> bool" where
  "bridge_view p = (motorA_drive p, motorB_drive p, bridge_enabled p)"

lemma duty_of_speed_values [simp]:
  "duty_of_speed 100 = 1024" "duty_of_speed 75 = 768" "duty_of_speed 50 = 512"
  by (simp_all add: duty_of_speed_def signed_divide_int_def)

lemmas bridge_simps = pins_of_append bridge_view_def motorA_drive_def motorB_drive_def
  bridge_enabled_def drive_of_def

lemmas motor_ops = car_forward_def car_back_def car_stop_def gpio_enable_drv8833_def
  gpio_disable_drv8833_def motorA.run_eq motorA.stop_eq motorB.run_eq motorB.stop_eq

lemma runs_to_runA [simp]:
  assumes "ledc_ok E" "0 \<le> speed" "speed \<le> 100"
  shows "runs_to (drv8833_motorA_run E speed dir) w Q \<longleftrightarrow> Q () (w\<lparr>trace := trace w @
        [Ledc (Ledc_set_duty 0 (if 0 \<le> dir then duty_of_speed speed else 0)),
         Ledc (Ledc_set_duty 1 (if 0 \<le> dir then 0 else duty_of_speed speed)),
         Ledc (Ledc_update_duty 0), Ledc (Ledc_update_duty 1)],
         g_is_motorA_run := (if speed \<noteq> 0 then 1 else 0)\<rparr>)"
  by (simp add: runs_to_def motorA.run_eq assms)

lemma runs_to_runB [simp]:
  assumes "ledc_ok E" "0 \<le> speed" "speed \<le> 100"
  shows "runs_to (drv8833_motorB_run E speed dir) w Q \<longleftrightarrow> Q () (w\<lparr>trace := trace w @
        [Ledc (Ledc_set_duty 2 (if 0 \<le> dir then duty_of_speed speed else 0)),
         Ledc (Ledc_set_duty 3 (if 0 \<le> dir then 0 else duty_of_speed speed)),
         Ledc (Ledc_update_duty 2), Ledc (Ledc_update_duty 3)],
         g_is_motorB_run := (if speed \<noteq> 0 then 1 else 0)\<rparr>)"
  by (simp add: runs_to_def motorB.run_eq assms)

lemma runs_to_stopA [simp]:
  "ledc_ok E \<Longrightarrow> runs_to (drv8833_motorA_stop E) w Q \<longleftrightarrow> Q () (w\<lparr>trace := trace w @
     [Ledc (Ledc_set_duty 0 1024), Ledc (Ledc_set_duty 1 1024),
      Ledc (Ledc_update_duty 0), Ledc (Ledc_update_duty 1)], g_is_motorA_run := 0\<rparr>)"
  by (simp add: runs_to_def motorA.stop_eq)

lemma runs_to_stopB [simp]:
  "ledc_ok E \<Longrightarrow> runs_to (drv8833_motorB_stop E) w Q \<longleftrightarrow> Q () (w\<lparr>trace := trace w @
     [Ledc (Ledc_set_duty 2 1024), Ledc (Ledc_set_duty 3 1024),
      Ledc (Ledc_update_duty 2), Ledc (Ledc_update_duty 3)], g_is_motorB_run := 0\<rparr>)"
  by (simp add: runs_to_def motorB.stop_eq)

text \<open>
  The bridge as a client sees it over time: at every delay, the drives and the enable pin it
  holds, and for how long. The effect of an operation adds the run flags.
\<close>

abbreviation bridge_shows ::
  "'a world_scheme \<Rightarrow> ((drive \<times> drive \<times> bool) \<times> rat) list \<Rightarrow> drive \<times> drive \<times> bool \<Rightarrow>
   'a world_scheme \<Rightarrow> bool" where
  "bridge_shows \<equiv> shows_from pin_step bridge_view reset_pins"

definition motor_effect ::
  "'a motor_vars_scheme \<Rightarrow> drive \<times> drive \<times> bool \<Rightarrow> u32 \<Rightarrow> 'a motor_vars_scheme \<Rightarrow> bool" where
  "motor_effect w v flag w' \<longleftrightarrow> bridge_shows w [] v w' \<and>
     g_is_motorA_run w' = flag \<and> g_is_motorB_run w' = flag"

lemmas effect_simps = motor_effect_def shows_from_def pins_of_def [symmetric] bridge_simps

lemma motor_run_one_cmd_effect:
  assumes "ledc_ok E"
  shows "runs_to (motor_run_one_cmd E cmd) w (\<lambda>r w'. r = ESP_OK \<and>
    motor_effect w (fst (cmd_drives cmd), snd (cmd_drives cmd), True) 1 w')"
  unfolding motor_run_one_cmd_def cmd_drives_def
  by (simp add: assms motor_ops effect_simps)

lemma car_stop_effect:
  assumes "ledc_ok E"
  shows "runs_to (car_stop E) w (\<lambda>_ w'. motor_effect w (Brake, Brake, False) 0 w')"
  by (simp add: assms motor_ops effect_simps)

section \<open>Scripts\<close>

definition motor_act :: "env \<Rightarrow> string \<Rightarrow> int \<Rightarrow> ('a motor_vars_scheme, unit) prog" where
  "motor_act E code beatCnt = block
     [if is_no_op code then car_stop E else bind (motor_run_one_cmd E code) (\<lambda>_. return ()),
      vTaskDelay_ms E (beat_delay beatCnt)]"

interpretation motor_script: script_loop Motor_cmds 16 motor_act motor_cmds_loop
  by unfold_locales (subst motor_cmds_loop.simps, simp only: motor_act_def)

text \<open>The schedule a script asks for: each command's drives, held 600 ms per beat; \<open>NO\<close> brakes
  with the bridge disabled.\<close>

definition motor_step :: "string \<times> nat \<Rightarrow> (drive \<times> drive \<times> bool) \<times> rat" where
  "motor_step cb =
     (if is_no_op (fst cb) then (Brake, Brake, False)
      else (fst (cmd_drives (fst cb)), snd (cmd_drives (fst cb)), True),
      of_nat (600 * snd cb))"

lemma motor_act_shows:
  assumes "ledc_ok E" "b \<le> 27962"
  shows "runs_to (motor_act E code (int b)) w (\<lambda>_ w'.
    bridge_shows w [motor_step (code, b)] (fst (motor_step (code, b))) w')"
proof (cases "is_no_op code")
  case True
  then show ?thesis
    using car_stop_effect [OF assms(1), of w]
    by (auto simp: motor_act_def motor_step_def beat_delay_nat [OF assms(2)] motor_effect_def
        dest: shows_from_delay [of _ _ _ _ "[]"] elim!: runs_to_mono)
next
  case False
  then show ?thesis
    using motor_run_one_cmd_effect [OF assms(1), of code w]
    by (auto simp: motor_act_def motor_step_def beat_delay_nat [OF assms(2)] motor_effect_def
        dest: shows_from_delay [of _ _ _ _ "[]"] elim!: runs_to_mono)
qed

lemma script_spec_motor:
  "script_spec (\<lambda>_ cb. [motor_step cb]) (\<lambda>_ cb. fst (motor_step cb)) v cbs = map motor_step cbs"
  by (induction cbs arbitrary: v) auto

lemma motor_loop_shows:
  assumes "ledc_ok E" "keeps_running E Motor_cmds"
    "list_all (wf_cmd 16) cbs" "list_all (\<lambda>cb. snd cb \<le> 27962) cbs"
  shows "runs_to (motor_cmds_loop E (encode cbs)) w (\<lambda>_ w'. \<exists>v. bridge_shows w (map motor_step cbs) v w')"
proof -
  have "runs_to (motor_act E (fst cb) (int (snd cb))) w (\<lambda>_ w'.
      bridge_shows w [motor_step cb] (fst (motor_step cb)) w')"
    if "cb \<in> set cbs" for cb and w :: "'a motor_vars_scheme"
    using motor_act_shows [OF assms(1), of "snd cb" "fst cb" w] that assms(4) by (auto simp: list_all_iff)
  then have "runs_to (exec_script E Motor_cmds motor_act cbs) w (\<lambda>_ w'. \<exists>v.
      bridge_shows w (map motor_step cbs) v w')"
    using exec_script_shows [where act = motor_act and stp = pin_step and view = bridge_view
        and ?p0.0 = reset_pins and spec = "\<lambda>_ cb. [motor_step cb]" and nxt = "\<lambda>_ cb. fst (motor_step cb)"
        and cbs = cbs and E = E and h = Motor_cmds and w = w]
    by (simp add: script_spec_motor Let_def)
  then show ?thesis
    by (simp add: runs_to_def motor_script.loop_script [OF assms(3,2)])
qed

lemma motor_task_shows:
  assumes "ledc_ok E" "keeps_running E Motor_cmds"
    and "list_all (wf_cmd 16) cbs" "list_all (\<lambda>cb. snd cb \<le> 27962) cbs"
    and "snd (motor_args w) = encode cbs"
  shows "runs_to (motor_run_cmds_task E) w (\<lambda>_ w'.
    bridge_shows w (map motor_step cbs) (Brake, Brake, False) w' \<and>
    g_is_motorA_run w' = 0 \<and> g_is_motorB_run w' = 0 \<and>
    (\<exists>cs. trace w' = cs @ [Rtos (Write_task_run Motor_cmds False),
       Rtos (XEventGroupSetBits Motor_cmds), Rtos VTaskDelete]))"
proof -
  have stop: "runs_to (car_stop E) w1 (\<lambda>_ w'. bridge_shows w (map motor_step cbs) (Brake, Brake, False) w' \<and>
      g_is_motorA_run w' = 0 \<and> g_is_motorB_run w' = 0)"
    if "bridge_shows w (map motor_step cbs) v w1" for v and w1 :: "'a motor_vars_scheme"
  proof (rule runs_to_mono [OF car_stop_effect [OF assms(1)]])
    fix r and w' :: "'a motor_vars_scheme"
    assume "motor_effect w1 (Brake, Brake, False) 0 w'"
    then show "bridge_shows w (map motor_step cbs) (Brake, Brake, False) w' \<and>
      g_is_motorA_run w' = 0 \<and> g_is_motorB_run w' = 0"
      using shows_from_trans [OF that, of "[]"] by (simp add: motor_effect_def)
  qed
  have "runs_to (motor_cmds_loop E (encode cbs)) w (\<lambda>_ w1. runs_to (car_stop E) w1 (\<lambda>_ w'.
      bridge_shows w (map motor_step cbs) (Brake, Brake, False) w' \<and>
      g_is_motorA_run w' = 0 \<and> g_is_motorB_run w' = 0))"
    by (rule runs_to_mono [OF motor_loop_shows [OF assms(1-4)]]) (use stop in blast)
  then show ?thesis
    unfolding motor_run_cmds_task_def
    by (simp add: assms(5), elim runs_to_mono) (auto intro!: shows_from_silent)
qed

text \<open>
  C7. The motor task carries out its script. For every script in the protocol's format (codes
  that fit the 16-byte buffer, beats up to 27962, beyond which 600 ms per beat is no longer
  exact in single precision), with a driver that accepts documented duties and nobody asking
  for a stop, the task ends without a fault; what the bridge showed over time is exactly the
  script's schedule; it ends braked with the bridge disabled and both run flags clear, having
  reset \<open>task_run\<close> and then set its stop bit.
\<close>

theorem motor_task_runs_script:
  assumes "ledc_ok E" "keeps_running E Motor_cmds"
    and "list_all (wf_cmd 16) cbs" "list_all (\<lambda>cb. snd cb \<le> 27962) cbs"
    and "snd (motor_args w) = encode cbs"
  shows "runs_to (motor_run_cmds_task E) w (\<lambda>_ w'.
    bridge_shows w (map motor_step cbs) (Brake, Brake, False) w' \<and>
    g_is_motorA_run w' = 0 \<and> g_is_motorB_run w' = 0 \<and>
    (\<exists>cs. trace w' = cs @ [Rtos (Write_task_run Motor_cmds False),
       Rtos (XEventGroupSetBits Motor_cmds), Rtos VTaskDelete]))"
  by (rule motor_task_shows [OF assms])

definition motor_w0 :: motor_vars where
  "motor_w0 = \<lparr>trace = [], g_is_motorA_run = 0, g_is_motorB_run = 0, motor_args = (0, ''FL,2;NO,1;'')\<rparr>"

theorem motor_task_runs_script_witness:
  "runs_to (motor_run_cmds_task env_run) motor_w0 (\<lambda>_ w'.
    bridge_shows motor_w0 [((Forward 512, Forward 1024, True), 1200), ((Brake, Brake, False), 600)]
      (Brake, Brake, False) w' \<and>
    g_is_motorA_run w' = 0 \<and> g_is_motorB_run w' = 0 \<and>
    (\<exists>cs. trace w' = cs @ [Rtos (Write_task_run Motor_cmds False),
       Rtos (XEventGroupSetBits Motor_cmds), Rtos VTaskDelete]))"
proof -
  let ?cbs = "[(''FL'', 2), (''NO'', 1)] :: (string \<times> nat) list"
  have args: "snd (motor_args motor_w0) = encode ?cbs" by code_simp
  have wf: "list_all (wf_cmd 16) ?cbs" "list_all (\<lambda>cb. snd cb \<le> 27962) ?cbs"
    by (simp_all add: wf_cmd_def)
  have steps: "map motor_step ?cbs = [((Forward 512, Forward 1024, True), 1200), ((Brake, Brake, False), 600)]"
    by (simp add: motor_step_def is_no_op_def cmd_drives_def)
  show ?thesis
    using motor_task_runs_script [OF ledc_ok_env_ok(2) keeps_running_env_run wf args]
    unfolding steps .
qed

section \<open>The run flags\<close>

definition is_driving :: "drive \<Rightarrow> bool" where
  "is_driving d = (case d of Forward _ \<Rightarrow> True | Reverse _ \<Rightarrow> True | _ \<Rightarrow> False)"

text \<open>The states the exported motor operations lead to, in any order, with speeds in percent.\<close>

inductive motor_reachable :: "env \<Rightarrow> motor_vars \<Rightarrow> bool" for E where
  init: "trace w = [] \<Longrightarrow> g_is_motorA_run w = 0 \<Longrightarrow> g_is_motorB_run w = 0 \<Longrightarrow> motor_reachable E w"
| runA: "motor_reachable E w \<Longrightarrow> 0 \<le> speed \<Longrightarrow> speed \<le> 100 \<Longrightarrow>
    drv8833_motorA_run E speed dir w = Inr (u, w') \<Longrightarrow> motor_reachable E w'"
| runB: "motor_reachable E w \<Longrightarrow> 0 \<le> speed \<Longrightarrow> speed \<le> 100 \<Longrightarrow>
    drv8833_motorB_run E speed dir w = Inr (u, w') \<Longrightarrow> motor_reachable E w'"
| stopA: "motor_reachable E w \<Longrightarrow> drv8833_motorA_stop E w = Inr (u, w') \<Longrightarrow> motor_reachable E w'"
| stopB: "motor_reachable E w \<Longrightarrow> drv8833_motorB_stop E w = Inr (u, w') \<Longrightarrow> motor_reachable E w'"
| car: "motor_reachable E w \<Longrightarrow> car_stop E w = Inr (u, w') \<Longrightarrow> motor_reachable E w'"
| cmd: "motor_reachable E w \<Longrightarrow> motor_run_one_cmd E code w = Inr (r, w') \<Longrightarrow> motor_reachable E w'"
| other: "motor_reachable E w \<Longrightarrow> motor_reachable E (w\<lparr>trace := trace w @ [Rtos c]\<rparr>)"

definition motor_inv :: "'a motor_vars_scheme \<Rightarrow> bool" where
  "motor_inv w \<longleftrightarrow>
     g_is_motorA_run w = (if is_driving (motorA_drive (pins_of (trace w))) then 1 else 0) \<and>
     g_is_motorB_run w = (if is_driving (motorB_drive (pins_of (trace w))) then 1 else 0)"

lemma is_driving_simps [simp]:
  "is_driving (drive_of d 0) \<longleftrightarrow> d \<noteq> 0"
  "is_driving (drive_of 0 d) \<longleftrightarrow> d \<noteq> 0"
  "\<not> is_driving (drive_of 1024 1024)"
  by (auto simp: is_driving_def drive_of_def)

lemma cmd_drives_driving: "is_driving (fst (cmd_drives c))" "is_driving (snd (cmd_drives c))"
  by (simp_all add: cmd_drives_def is_driving_def)

lemma motor_effect_inv:
  assumes "motor_effect w (a, b, e) (if d then 1 else 0) w'" "is_driving a = d" "is_driving b = d"
  shows "motor_inv w'"
  using assms by (auto simp: motor_effect_def motor_inv_def bridge_view_def shows_from_def pins_of_def)

lemma motor_reachable_inv:
  assumes "motor_reachable E w" "ledc_ok E"
  shows "motor_inv w"
  using assms
proof (induction rule: motor_reachable.induct)
  case (runA w speed dir u w')
  then show ?case
    using duty_of_speed_uint(3) [of speed]
    by (cases "0 \<le> dir") (auto simp: motorA.run_eq motor_inv_def pins_of_append motorA_drive_def motorB_drive_def)
next
  case (runB w speed dir u w')
  then show ?case
    using duty_of_speed_uint(3) [of speed]
    by (cases "0 \<le> dir") (auto simp: motorB.run_eq motor_inv_def pins_of_append motorA_drive_def motorB_drive_def)
next
  case (car w u w')
  then have "motor_effect w (Brake, Brake, False) 0 w'"
    using car_stop_effect [of E w] by (simp add: runs_to_Inr)
  then show ?case using motor_effect_inv [of w Brake Brake False False] by (simp add: is_driving_def)
next
  case (cmd w code r w')
  then have "motor_effect w (fst (cmd_drives code), snd (cmd_drives code), True) 1 w'"
    using motor_run_one_cmd_effect [of E code w] by (simp add: runs_to_Inr)
  then show ?case
    using motor_effect_inv [of w _ _ True True] by (simp add: cmd_drives_driving)
next
  case (init w)
  then show ?case
    by (simp add: motor_inv_def pins_of_def reset_pins_def motorA_drive_def motorB_drive_def)
qed (auto simp: motorA.stop_eq motorB.stop_eq motor_inv_def pins_of_append motorA_drive_def motorB_drive_def)

text \<open>
  The run flags tell the truth: after any sequence of motor operations with speeds of 0 to
  100 percent, \<open>is_motor_run\<close> returns a non-zero value exactly when one of the half bridges is
  driving its motor (a braked or coasting motor does not count).
\<close>

theorem is_motor_run_iff_driving:
  assumes "motor_reachable E w" "ledc_ok E"
  shows "runs_to is_motor_run w (\<lambda>r w'. w' = w \<and>
    (r \<noteq> 0 \<longleftrightarrow> is_driving (motorA_drive (pins_of (trace w))) \<or> is_driving (motorB_drive (pins_of (trace w)))))"
  using motor_reachable_inv [OF assms] by (auto simp: is_motor_run_def motor_inv_def)

theorem is_motor_run_iff_driving_witness:
  "\<exists>w. motor_reachable env_ok w \<and> motorA_drive (pins_of (trace w)) = Forward 614 \<and>
     runs_to is_motor_run w (\<lambda>r w'. w' = w \<and> r \<noteq> 0)"
proof -
  let ?w = "motor_w0\<lparr>trace := [Ledc (Ledc_set_duty 0 614), Ledc (Ledc_set_duty 1 0),
    Ledc (Ledc_update_duty 0), Ledc (Ledc_update_duty 1)], g_is_motorA_run := 1\<rparr>"
  have "motor_reachable env_ok motor_w0"
    by (rule motor_reachable.init) (simp_all add: motor_w0_def)
  moreover have "drv8833_motorA_run env_ok 60 1 motor_w0 = Inr ((), ?w)"
    by (simp add: motorA.run_eq duty_of_speed_def signed_divide_int_def motor_w0_def)
  ultimately have r: "motor_reachable env_ok ?w"
    by (elim motor_reachable.runA [of env_ok motor_w0 60 1]) simp_all
  have d: "motorA_drive (pins_of (trace ?w)) = Forward 614"
    by (simp add: bridge_simps pins_of_def reset_pins_def)
  have "runs_to is_motor_run ?w (\<lambda>r w'. w' = ?w \<and> r \<noteq> 0)"
    by (rule runs_to_mono [OF is_motor_run_iff_driving [OF r ledc_ok_env_ok(1)]])
      (auto simp: d [simplified] is_driving_def)
  with r d show ?thesis by blast
qed

text \<open>
  Speeds are not checked: a speed whose product with 1024 leaves the range of \<open>int\<close> is a
  signed overflow in \<open>drv8833_motorA_run\<close>, before any driver call is made.
\<close>

theorem motor_speed_overflow:
  "drv8833_motorA_run E 2097152 dir w = Inl Signed_overflow \<and>
   drv8833_motorB_run E (-2097153) dir w = Inl Signed_overflow"
  by (simp add: drv8833_motorA_run_def drv8833_motorB_run_def prog_simps is_int_def)

end
