(* ===== verification/Run_Cmds.thy ===== *)
theory Run_Cmds
  imports Drv8833
begin

text \<open>
  The part of \<open>handle_message.c\<close> the LED script task calls back into: the flag
  \<open>run_cmds_is_run\<close> of a combined run and the callback that starts the next round.
\<close>

record run_vars = motor_vars +
  run_cmds_is_run :: u8

definition run_cmds_create_task :: "env \<Rightarrow> ('a run_vars_scheme, unit) prog" where
  "run_cmds_create_task E = emit E (Rtos (XTaskCreate Run_cmds))"

definition run_cmds_one_time_cb :: "env \<Rightarrow> ('a run_vars_scheme, unit) prog" where
  "run_cmds_one_time_cb E =
     bind (gets run_cmds_is_run) (\<lambda>running.
       if running = 0 then return () else run_cmds_create_task E)"

lemma run_cmds_one_time_cb_run [prog_simps]:
  "run_cmds_one_time_cb E w =
     Inr ((), if run_cmds_is_run w = 0 then w else w\<lparr>trace := trace w @ [Rtos (XTaskCreate Run_cmds)]\<rparr>)"
  by (simp add: run_cmds_one_time_cb_def run_cmds_create_task_def prog_simps)

end
