(* ===== verification/Led_Encoder.thy ===== *)
theory Led_Encoder
  imports Utils
begin

text \<open>
  \<open>led_strip_encoder.c\<close>: the RMT encoder that turns a frame into WS2812 pulses followed by a
  reset code. The byte and copy encoders of the RMT driver are parameters: functions on a channel
  state that append symbols to the channel's output, with the documented protocol of completion
  and memory-full flags as hypotheses.
\<close>

section \<open>The encoder\<close>

record led_strip_encoder =
  enc_ptr :: int
  bytes_encoder :: int
  copy_encoder :: int
  enc_state :: int
  bit0_code :: rmt_symbol
  bit1_code :: rmt_symbol
  reset_code :: rmt_symbol

abbreviation (input) RMT_ENCODING_COMPLETE :: u32 where "RMT_ENCODING_COMPLETE \<equiv> 1"
abbreviation (input) RMT_ENCODING_MEM_FULL :: u32 where "RMT_ENCODING_MEM_FULL \<equiv> 2"

unbundle bit_operations_syntax

text \<open>The switch with its fall-through; \<open>be\<close> and \<open>ce\<close> are the \<open>encode\<close> functions of the two
  encoders: the number of symbols written, the session state, the channel afterwards.\<close>

definition encode_reset ::
  "(rmt_symbol \<Rightarrow> 'c \<Rightarrow> nat \<times> u32 \<times> 'c) \<Rightarrow> led_strip_encoder \<Rightarrow> nat \<Rightarrow> 'c \<Rightarrow>
   nat \<times> u32 \<times> led_strip_encoder \<times> 'c" where
  "encode_reset ce enc encoded_symbols c =
     (let (n, session_state, c) = ce (reset_code enc) c;
          encoded_symbols = encoded_symbols + n;
          done = (session_state AND RMT_ENCODING_COMPLETE \<noteq> 0);
          enc = (if done then enc\<lparr>enc_state := 0\<rparr> else enc);
          state = (if done then RMT_ENCODING_COMPLETE else 0);
          state = (if session_state AND RMT_ENCODING_MEM_FULL \<noteq> 0 then state OR RMT_ENCODING_MEM_FULL else state)
      in (encoded_symbols, state, enc, c))"

definition rmt_encode_led_strip ::
  "(u8 list \<Rightarrow> 'c \<Rightarrow> nat \<times> u32 \<times> 'c) \<Rightarrow> (rmt_symbol \<Rightarrow> 'c \<Rightarrow> nat \<times> u32 \<times> 'c) \<Rightarrow>
   led_strip_encoder \<Rightarrow> u8 list \<Rightarrow> 'c \<Rightarrow> nat \<times> u32 \<times> led_strip_encoder \<times> 'c" where
  "rmt_encode_led_strip be ce enc primary_data c =
     (if enc_state enc = 0 then
        (let (n, session_state, c) = be primary_data c;
             enc = (if session_state AND RMT_ENCODING_COMPLETE \<noteq> 0 then enc\<lparr>enc_state := 1\<rparr> else enc)
         in if session_state AND RMT_ENCODING_MEM_FULL \<noteq> 0 then (n, RMT_ENCODING_MEM_FULL, enc, c)
            else encode_reset ce enc n c)
      else if enc_state enc = 1 then encode_reset ce enc 0 c
      else (0, 0, enc, c))"

definition rmt_del_led_strip_encoder :: "env \<Rightarrow> led_strip_encoder \<Rightarrow> ('a world_scheme, int) prog" where
  "rmt_del_led_strip_encoder E enc =
     bind (block
       [emit E (Rmt (Rmt_del_encoder (bytes_encoder enc))),
        emit E (Rmt (Rmt_del_encoder (copy_encoder enc))),
        emit E (Heap (Free (enc_ptr enc)))]) (\<lambda>_. return ESP_OK)"

definition rmt_led_strip_encoder_reset ::
  "env \<Rightarrow> led_strip_encoder \<Rightarrow> ('a world_scheme, int \<times> led_strip_encoder) prog" where
  "rmt_led_strip_encoder_reset E enc =
     bind (block
       [emit E (Rmt (Rmt_encoder_reset (bytes_encoder enc))),
        emit E (Rmt (Rmt_encoder_reset (copy_encoder enc)))])
       (\<lambda>_. return (ESP_OK, enc\<lparr>enc_state := 0\<rparr>))"

text \<open>\<open>0.3 * config->resolution / 1000000\<close> in double, converted to a 15-bit field.\<close>

definition ticks :: "rat \<Rightarrow> u32 \<Rightarrow> ('s, u15) prog" where
  "ticks us resolution =
     (let q = f64 (f64 (f64 us * of_nat (unat resolution)) / 1000000)
      in if q < 2 ^ 15 then return (word_of_int (trunc_rat q)) else fail Bad_conversion)"

definition handle_of :: "answer \<Rightarrow> int" where
  "handle_of a = (case snd a of [] \<Rightarrow> 0 | h # _ \<Rightarrow> h)"

text \<open>
  The constructor with its error exits. \<open>config\<close> is \<open>None\<close> for a null pointer and \<open>ret_ok\<close> tells
  whether \<open>ret_encoder\<close> is not null. A zeroed block holds null encoder handles until each is
  created.
\<close>

definition rmt_new_led_strip_encoder ::
  "env \<Rightarrow> u32 option \<Rightarrow> bool \<Rightarrow> ('a world_scheme, int \<times> led_strip_encoder option) prog" where
  "rmt_new_led_strip_encoder E config ret_ok =
     (case (config, ret_ok) of
        (Some resolution, True) \<Rightarrow>
          bind (call E (Heap (Malloc 28))) (\<lambda>p.
          if p = 0 then return (ESP_ERR_NO_MEM, None)
          else
            bind (ticks (3 / 10) resolution) (\<lambda>short. bind (ticks (9 / 10) resolution) (\<lambda>long.
            let bit0 = Symbol True short False long;
                bit1 = Symbol True long False short
            in
            bind (ask E (Rmt (Rmt_new_bytes_encoder bit0 bit1 True))) (\<lambda>a.
            if fst a \<noteq> ESP_OK then bind (emit E (Heap (Free p))) (\<lambda>_. return (fst a, None))
            else let bytes = handle_of a in
            bind (ask E (Rmt Rmt_new_copy_encoder)) (\<lambda>b.
            if fst b \<noteq> ESP_OK then
              bind (block
                [if_then (bytes \<noteq> 0) (emit E (Rmt (Rmt_del_encoder bytes))),
                 emit E (Heap (Free p))]) (\<lambda>_. return (fst b, None))
            else
              let reset_ticks = ucast (resolution div 1000000 * 50 div 2) :: u15 in
              return (ESP_OK, Some
                \<lparr>enc_ptr = p, bytes_encoder = bytes, copy_encoder = handle_of b, enc_state = 0,
                 bit0_code = bit0, bit1_code = bit1,
                 reset_code = Symbol False reset_ticks False reset_ticks\<rparr>))))))
      | _ \<Rightarrow> return (ESP_ERR_INVALID_ARG, None))"

section \<open>The encoders of the driver\<close>

text \<open>The pulses of a byte, most significant bit first.\<close>

definition byte_symbols :: "rmt_symbol \<Rightarrow> rmt_symbol \<Rightarrow> u8 \<Rightarrow> rmt_symbol list" where
  "byte_symbols s0 s1 b = map (\<lambda>i. if bit b (7 - i) then s1 else s0) [0..<8]"

definition symbols_of :: "rmt_symbol \<Rightarrow> rmt_symbol \<Rightarrow> u8 list \<Rightarrow> rmt_symbol list" where
  "symbols_of s0 s1 data = concat (map (byte_symbols s0 s1) data)"

text \<open>
  A channel carries what was written to it so far (\<open>ch_out\<close>), the room left in its memory (\<open>ch_avail\<close>)
  and how far the byte encoder's session is (\<open>ch_pos\<close>). A call of the byte encoder writes as many of
  the next symbols as there is room for; it reports completion exactly when the session's last
  symbol is written, and then starts afresh; a session that does not complete reports a full
  memory. The copy encoder writes its one symbol or reports a full memory.
\<close>

record 'c channel_view =
  ch_out :: "'c \<Rightarrow> rmt_symbol list"
  ch_pos :: "'c \<Rightarrow> nat"
  ch_avail :: "'c \<Rightarrow> nat"

definition bytes_encoder_ok ::
  "rmt_symbol \<Rightarrow> rmt_symbol \<Rightarrow> 'c channel_view \<Rightarrow> (u8 list \<Rightarrow> 'c \<Rightarrow> nat \<times> u32 \<times> 'c) \<Rightarrow> bool" where
  "bytes_encoder_ok s0 s1 V be \<longleftrightarrow>
     (\<forall>data c. let rest = drop (ch_pos V c) (symbols_of s0 s1 data) in
        (case be data c of (n, ss, c') \<Rightarrow>
           n = min (ch_avail V c) (length rest) \<and>
           ch_out V c' = ch_out V c @ take n rest \<and>
           ch_avail V c' = ch_avail V c - n \<and>
           ch_pos V c' = (if n = length rest then 0 else ch_pos V c + n) \<and>
           (ss AND 1 \<noteq> 0 \<longleftrightarrow> n = length rest) \<and>
           (n < length rest \<longrightarrow> ss AND 2 \<noteq> 0)))"

definition copy_encoder_ok :: "'c channel_view \<Rightarrow> (rmt_symbol \<Rightarrow> 'c \<Rightarrow> nat \<times> u32 \<times> 'c) \<Rightarrow> bool" where
  "copy_encoder_ok V ce \<longleftrightarrow>
     (\<forall>sym c. case ce sym c of (n, ss, c') \<Rightarrow>
        n = min (ch_avail V c) 1 \<and>
        ch_out V c' = ch_out V c @ replicate n sym \<and>
        ch_avail V c' = ch_avail V c - n \<and> ch_pos V c' = ch_pos V c \<and>
        (ss AND 1 \<noteq> 0 \<longleftrightarrow> n = 1) \<and> (n = 0 \<longrightarrow> ss AND 2 \<noteq> 0))"

text \<open>Between two calls the driver sends symbols off and so makes room.\<close>

definition refill_ok :: "'c channel_view \<Rightarrow> ('c \<Rightarrow> 'c) \<Rightarrow> bool" where
  "refill_ok V refill \<longleftrightarrow>
     (\<forall>c. ch_out V (refill c) = ch_out V c \<and> ch_pos V (refill c) = ch_pos V c \<and> 0 < ch_avail V (refill c))"

text \<open>The driver calls the encoder until it reports completion.\<close>

primrec encode_calls ::
  "nat \<Rightarrow> (u8 list \<Rightarrow> 'c \<Rightarrow> nat \<times> u32 \<times> 'c) \<Rightarrow> (rmt_symbol \<Rightarrow> 'c \<Rightarrow> nat \<times> u32 \<times> 'c) \<Rightarrow> ('c \<Rightarrow> 'c) \<Rightarrow>
   led_strip_encoder \<Rightarrow> u8 list \<Rightarrow> 'c \<Rightarrow> (nat \<times> led_strip_encoder \<times> 'c) option" where
  "encode_calls 0 be ce refill enc data c = None"
| "encode_calls (Suc k) be ce refill enc data c =
     (case rmt_encode_led_strip be ce enc data c of (n, state, enc, c) \<Rightarrow>
        if state AND RMT_ENCODING_COMPLETE \<noteq> 0 then Some (n, enc, c)
        else map_option (\<lambda>(m, r). (n + m, r)) (encode_calls k be ce refill enc data (refill c)))"

section \<open>The pulse train\<close>

text \<open>One call, in the three situations the state machine meets.\<close>

lemma flag_simps [simp]:
  "(1 :: u32) AND 1 \<noteq> 0" "(2 :: u32) AND 1 = 0" "((1 :: u32) OR 2) AND 1 \<noteq> 0" "((0 :: u32) OR 2) AND 1 = 0"
  by code_simp+

lemma encode_reset_result:
  assumes "copy_encoder_ok V ce" "encode_reset ce enc m c = (n, state, enc', c')"
  shows "if 0 < ch_avail V c
    then n = m + 1 \<and> state AND 1 \<noteq> 0 \<and> enc' = enc\<lparr>enc_state := 0\<rparr> \<and>
      ch_out V c' = ch_out V c @ [reset_code enc] \<and> ch_pos V c' = ch_pos V c
    else n = m \<and> state AND 1 = 0 \<and> enc' = enc \<and> ch_out V c' = ch_out V c \<and> ch_pos V c' = ch_pos V c"
proof -
  obtain k ss d where ce: "ce (reset_code enc) c = (k, ss, d)" by (cases "ce (reset_code enc) c")
  then have "k = min (ch_avail V c) 1 \<and> ch_out V d = ch_out V c @ replicate k (reset_code enc) \<and>
      ch_pos V d = ch_pos V c \<and> (ss AND 1 \<noteq> 0 \<longleftrightarrow> k = 1)"
    using assms(1) by (auto simp: copy_encoder_ok_def dest!: spec [of _ "reset_code enc"] spec [of _ c])
  then show ?thesis
    using assms(2) ce by (cases "ch_avail V c") (auto simp: encode_reset_def Let_def split: if_splits)
qed

lemma encode_bytes_result:
  assumes "bytes_encoder_ok s0 s1 V be" "enc_state enc = 0"
    and "be data c = (n, ss, d)" "rest = drop (ch_pos V c) (symbols_of s0 s1 data)"
  shows "n = min (ch_avail V c) (length rest)" "ch_out V d = ch_out V c @ take n rest"
    "ch_pos V d = (if n = length rest then 0 else ch_pos V c + n)"
    "rmt_encode_led_strip be ce enc data c =
      (let enc = (if n = length rest then enc\<lparr>enc_state := 1\<rparr> else enc)
       in if ss AND 2 \<noteq> 0 then (n, 2, enc, d) else encode_reset ce enc n d)"
    "n < length rest \<Longrightarrow> ss AND 2 \<noteq> 0" "ch_avail V d = ch_avail V c - n"
proof -
  have *: "n = min (ch_avail V c) (length rest) \<and> ch_out V d = ch_out V c @ take n rest \<and> ch_avail V d = ch_avail V c - n \<and>
      ch_pos V d = (if n = length rest then 0 else ch_pos V c + n) \<and> (ss AND 1 \<noteq> 0 \<longleftrightarrow> n = length rest) \<and>
      (n < length rest \<longrightarrow> ss AND 2 \<noteq> 0)"
    using assms(1) [unfolded bytes_encoder_ok_def Let_def, THEN spec [of _ data], THEN spec [of _ c]]
    unfolding assms(3,4) prod.case .
  then show "n = min (ch_avail V c) (length rest)" "ch_out V d = ch_out V c @ take n rest"
    "ch_pos V d = (if n = length rest then 0 else ch_pos V c + n)" "n < length rest \<Longrightarrow> ss AND 2 \<noteq> 0"
    "ch_avail V d = ch_avail V c - n" by blast+
  have "ss AND 1 \<noteq> 0 \<longleftrightarrow> n = length rest" using * by blast
  then show "rmt_encode_led_strip be ce enc data c =
      (let enc = (if n = length rest then enc\<lparr>enc_state := 1\<rparr> else enc)
       in if ss AND 2 \<noteq> 0 then (n, 2, enc, d) else encode_reset ce enc n d)"
    by (simp only: rmt_encode_led_strip_def assms(2,3) simp_thms if_True Let_def prod.case)
qed

lemma encode_calls_reset:
  assumes "copy_encoder_ok V ce" "refill_ok V refill" "enc_state enc = 1" "0 < ch_avail V c"
  shows "\<exists>c'. encode_calls (Suc k) be ce refill enc data c = Some (1, enc\<lparr>enc_state := 0\<rparr>, c') \<and>
    ch_out V c' = ch_out V c @ [reset_code enc] \<and> ch_pos V c' = ch_pos V c"
proof -
  obtain n st enc' c' where r: "encode_reset ce enc 0 c = (n, st, enc', c')" by (cases "encode_reset ce enc 0 c")
  then show ?thesis
    using encode_reset_result [OF assms(1) r] assms(3,4) by (simp add: rmt_encode_led_strip_def)
qed

lemma encode_calls_bytes:
  assumes ok: "bytes_encoder_ok s0 s1 V be" "copy_encoder_ok V ce" "refill_ok V refill"
    and enc: "enc_state enc = 0" and ch_room: "0 < ch_avail V c"
    and fuel: "length (drop (ch_pos V c) (symbols_of s0 s1 data)) + 2 \<le> fuel"
  shows "\<exists>c'. encode_calls fuel be ce refill enc data c =
      Some (length (drop (ch_pos V c) (symbols_of s0 s1 data)) + 1, enc, c') \<and>
    ch_out V c' = ch_out V c @ drop (ch_pos V c) (symbols_of s0 s1 data) @ [reset_code enc] \<and> ch_pos V c' = 0"
  using ch_room fuel
proof (induction fuel arbitrary: c)
  case (Suc fuel)
  obtain n ss d where be: "be data c = (n, ss, d)" by (cases "be data c")
  define rest where "rest = drop (ch_pos V c) (symbols_of s0 s1 data)"
  note r = encode_bytes_result [OF ok(1) enc be rest_def]
  have rf: "ch_out V (refill e) = ch_out V e" "ch_pos V (refill e) = ch_pos V e" "0 < ch_avail V (refill e)" for e
    using ok(3) by (simp_all add: refill_ok_def)
  obtain k where fuel: "fuel = Suc k" using Suc.prems(2) by (cases fuel) simp_all
  let ?enc1 = "enc\<lparr>enc_state := 1\<rparr>"
  have idle: "enc\<lparr>enc_state := 0\<rparr> = enc" using enc by simp
  have reset: "\<exists>c'. encode_calls fuel be ce refill ?enc1 data (refill e) = Some (1, enc, c') \<and>
      ch_out V c' = ch_out V e @ [reset_code enc] \<and> ch_pos V c' = ch_pos V e" for e
    using encode_calls_reset [OF ok(2,3), of ?enc1 "refill e" k be data] rf [of e] enc by (simp add: fuel idle)
  show ?case
  proof (cases "n = length rest")
    case True
    then have d: "ch_out V d = ch_out V c @ rest" "ch_pos V d = 0" using r by simp_all
    show ?thesis
    proof (cases "ss AND 2 = 0")
      case False
      then have "rmt_encode_led_strip be ce enc data c = (n, 2, ?enc1, d)" using r(4) True by simp
      then show ?thesis using reset [of d] d True by (auto simp: rest_def [symmetric])
    next
      case full: True
      obtain m st enc' e where e: "encode_reset ce ?enc1 n d = (m, st, enc', e)"
        by (cases "encode_reset ce ?enc1 n d")
      then have "rmt_encode_led_strip be ce enc data c = (m, st, enc', e)" using r(4) True full by simp
      then show ?thesis
        using encode_reset_result [OF ok(2) e] reset [of e] d True idle
        by (cases "0 < ch_avail V d") (auto simp: rest_def [symmetric])
    qed
  next
    case False
    then have n: "n < length rest" "0 < n" using r(1) Suc.prems(1) by auto
    then have step: "rmt_encode_led_strip be ce enc data c = (n, 2, enc, d)" using r(4,5) False by simp
    have rest': "drop (ch_pos V (refill d)) (symbols_of s0 s1 data) = drop n rest"
      using r(3) False rf by (simp add: rest_def add.commute)
    have "\<exists>c'. encode_calls fuel be ce refill enc data (refill d) = Some (length (drop n rest) + 1, enc, c') \<and>
        ch_out V c' = ch_out V (refill d) @ drop n rest @ [reset_code enc] \<and> ch_pos V c' = 0"
      using Suc.IH [of "refill d"] rf(3) Suc.prems(2) n unfolding rest' rest_def [symmetric] by simp
    then show ?thesis
      using step r(2) rf n by (auto simp: rest_def [symmetric])
  qed
qed simp

text \<open>
  C33. Whatever room the channel has at each call, as long as the driver makes some between calls,
  a frame leaves the encoder as exactly its bits, most significant first, followed by one reset
  code, in at most as many calls as there are symbols plus one; the reported numbers of symbols
  add up, and the encoder is back in its initial state, ready for the next frame.
\<close>

theorem led_encoder_pulse_train:
  assumes "bytes_encoder_ok s0 s1 V be" "copy_encoder_ok V ce" "refill_ok V refill"
    and "enc_state enc = 0" "ch_pos V c = 0" "0 < ch_avail V c" "8 * length data + 2 \<le> fuel"
  shows "\<exists>c'. encode_calls fuel be ce refill enc data c = Some (8 * length data + 1, enc, c') \<and>
    ch_out V c' = ch_out V c @ symbols_of s0 s1 data @ [reset_code enc] \<and> ch_pos V c' = 0"
proof -
  have "length (symbols_of s0 s1 data) = 8 * length data"
    by (induction data) (simp_all add: symbols_of_def byte_symbols_def)
  then show ?thesis
    using encode_calls_bytes [OF assms(1-4,6), of data fuel] assms(5,7) by simp
qed

text \<open>A channel with room for a few symbols between refills.\<close>

record chan =
  ch_written :: "rmt_symbol list"
  ch_progress :: nat
  ch_room :: nat

definition chan_view :: "chan channel_view" where
  "chan_view = \<lparr>ch_out = ch_written, ch_pos = ch_progress, ch_avail = ch_room\<rparr>"

definition chan_bytes :: "rmt_symbol \<Rightarrow> rmt_symbol \<Rightarrow> u8 list \<Rightarrow> chan \<Rightarrow> nat \<times> u32 \<times> chan" where
  "chan_bytes s0 s1 data c =
     (let rest = drop (ch_progress c) (symbols_of s0 s1 data); n = min (ch_room c) (length rest)
      in (n, if n = length rest then 1 else 2,
          \<lparr>ch_written = ch_written c @ take n rest, ch_progress = (if n = length rest then 0 else ch_progress c + n),
           ch_room = ch_room c - n\<rparr>))"

definition chan_copy :: "rmt_symbol \<Rightarrow> chan \<Rightarrow> nat \<times> u32 \<times> chan" where
  "chan_copy s c =
     (let n = min (ch_room c) 1
      in (n, if n = 1 then 1 else 2, c\<lparr>ch_written := ch_written c @ replicate n s, ch_room := ch_room c - n\<rparr>))"

lemma chan_ok:
  "bytes_encoder_ok s0 s1 chan_view (chan_bytes s0 s1)" "copy_encoder_ok chan_view chan_copy"
  "refill_ok chan_view (\<lambda>c. c\<lparr>ch_room := 5\<rparr>)"
  by (auto simp: bytes_encoder_ok_def copy_encoder_ok_def refill_ok_def chan_view_def chan_bytes_def
      chan_copy_def Let_def)

definition enc0 :: led_strip_encoder where
  "enc0 = \<lparr>enc_ptr = 1, bytes_encoder = 2, copy_encoder = 3, enc_state = 0,
     bit0_code = Symbol True 3 False 9, bit1_code = Symbol True 9 False 3,
     reset_code = Symbol False 250 False 250\<rparr>"

theorem led_encoder_pulse_train_witness:
  "\<exists>c'. encode_calls 18 (chan_bytes (bit0_code enc0) (bit1_code enc0)) chan_copy (\<lambda>c. c\<lparr>ch_room := 5\<rparr>) enc0 [0x33, 0]
      \<lparr>ch_written = [], ch_progress = 0, ch_room = 3\<rparr> = Some (17, enc0, c') \<and>
    ch_written c' = symbols_of (bit0_code enc0) (bit1_code enc0) [0x33, 0] @ [reset_code enc0]"
  using led_encoder_pulse_train [OF chan_ok, of enc0 "\<lparr>ch_written = [], ch_progress = 0, ch_room = 3\<rparr>" "[0x33, 0]" 18
      "bit0_code enc0" "bit1_code enc0"]
  by (auto simp: chan_view_def enc0_def)

section \<open>Construction\<close>

lemma ticks_10MHz [simp]:
  "ticks (3 / 10) 10000000 s = Inr (3, s)" "ticks (9 / 10) 10000000 s = Inr (9, s)"
proof -
  have c: "f64 (3 / 10) = 5404319552844595 / 18014398509481984" "f64 (9 / 10) = 8106479329266893 / 9007199254740992"
    by code_simp+
  have "f64 (f64 (3 / 10) * 10000000) = of_int 3000000" "f64 (f64 (9 / 10) * 10000000) = of_int 9000000"
    unfolding c by (rule fl_near_int; simp)+
  moreover have "f64 (of_int 3) = of_int 3" "f64 (of_int 9) = of_int 9"
    by (rule fl_of_int; simp)+
  ultimately have "f64 (f64 (f64 (3 / 10) * 10000000) / 1000000) = 3" "f64 (f64 (f64 (9 / 10) * 10000000) / 1000000) = 9"
    by simp_all
  then show "ticks (3 / 10) 10000000 s = Inr (3, s)" "ticks (9 / 10) 10000000 s = Inr (9, s)"
    by (simp_all add: ticks_def prog_simps trunc_rat_def)
qed

text \<open>
  \<open>rmt_new_led_strip_encoder\<close> at the 10 MHz the firmware asks for: either every step succeeds
  and the new encoder has the WS2812 pulses (0.3 and 0.9 microseconds, a reset of twice 25) in its
  initial state, or it returns the error of the step that failed, no encoder, and has released in
  the right order exactly what it had acquired before.
\<close>

theorem new_led_strip_encoder_no_leak:
  defines "b \<equiv> Rmt (Rmt_new_bytes_encoder (Symbol True 3 False 9) (Symbol True 9 False 3) True)"
    and "cp \<equiv> Rmt Rmt_new_copy_encoder" and "m \<equiv> Heap (Malloc 28)"
  shows "rmt_new_led_strip_encoder E (Some 10000000) True w =
    (let p = fst (E (trace w) m); rb = E (trace w @ [m]) b; rc = E (trace w @ [m, b]) cp in
     if p = 0 then Inr ((ESP_ERR_NO_MEM, None), w\<lparr>trace := trace w @ [m]\<rparr>)
     else if fst rb \<noteq> ESP_OK then Inr ((fst rb, None), w\<lparr>trace := trace w @ [m, b, Heap (Free p)]\<rparr>)
     else if fst rc \<noteq> ESP_OK then Inr ((fst rc, None), w\<lparr>trace := trace w @ [m, b, cp] @
        (if handle_of rb \<noteq> 0 then [Rmt (Rmt_del_encoder (handle_of rb))] else []) @ [Heap (Free p)]\<rparr>)
     else Inr ((ESP_OK, Some (enc0\<lparr>enc_ptr := p, bytes_encoder := handle_of rb, copy_encoder := handle_of rc\<rparr>)),
        w\<lparr>trace := trace w @ [m, b, cp]\<rparr>))"
  by (simp add: rmt_new_led_strip_encoder_def prog_simps Let_def b_def cp_def m_def enc0_def)

end
