(* ===== verification/Led_Strip.thy ===== *)
theory Led_Strip
  imports Run_Cmds Led_Encoder
begin

text \<open>
  \<open>led_strip.c\<close>: building frames for the four WS2812 LEDs and queueing them, the blink and
  chase animations, the renderer task that sends frames to the RMT peripheral, the LED script
  task and its handle. A frame is the twelve bytes \<open>G R B\<close> per LED.
\<close>

section \<open>State\<close>

record led_vars = run_vars +
  led_strip_pixels :: "u8 list"
  led_encoder :: "led_strip_encoder option"
  led_args :: cstr

abbreviation (input) EXAMPLE_LED_NUMBERS :: nat where "EXAMPLE_LED_NUMBERS \<equiv> 4"

section \<open>Frames\<close>

text \<open>\<open>pixels[i * 3 + 0] = a; pixels[i * 3 + 1] = b; pixels[i * 3 + 2] = c;\<close>\<close>

definition put_pixel :: "nat \<Rightarrow> u8 \<Rightarrow> u8 \<Rightarrow> u8 \<Rightarrow> u8 list \<Rightarrow> ('s, u8 list) prog" where
  "put_pixel i a b c px =
     bind (store (i * 3) a px) (\<lambda>px. bind (store (i * 3 + 1) b px) (\<lambda>px. store (i * 3 + 2) c px))"

text \<open>A loop over indices that updates an array.\<close>

primrec fold_prog :: "('i \<Rightarrow> 'x \<Rightarrow> ('s, 'x) prog) \<Rightarrow> 'i list \<Rightarrow> 'x \<Rightarrow> ('s, 'x) prog" where
  "fold_prog f [] x = return x"
| "fold_prog f (i # is) x = bind (f i x) (fold_prog f is)"

text \<open>A frame on the stack. Where the code leaves it uninitialised every byte is written before
  the frame is used, so its first contents do not matter.\<close>

definition blank_frame :: "u8 list" where
  "blank_frame = replicate (EXAMPLE_LED_NUMBERS * 3) 0"

definition led_strip_fill_data :: "env \<Rightarrow> u8 list \<Rightarrow> ('a world_scheme, int) prog" where
  "led_strip_fill_data E data =
     bind (call E (Rtos (XQueueSend Led_frames (Frame data) 1)))
       (\<lambda>r. return (if r \<noteq> pdPASS then ESP_FAIL else ESP_OK))"

definition led_one_color :: "env \<Rightarrow> u8 \<Rightarrow> u8 \<Rightarrow> u8 \<Rightarrow> ('a world_scheme, unit) prog" where
  "led_one_color E r g b =
     bind (fold_prog (\<lambda>i. put_pixel i g r b) [0..<EXAMPLE_LED_NUMBERS] blank_frame) (\<lambda>data.
     bind (led_strip_fill_data E data) (\<lambda>_. return ()))"

definition led_one_color2 :: "env \<Rightarrow> u8 \<Rightarrow> u8 \<Rightarrow> u8 \<Rightarrow> u8 \<Rightarrow> ('a world_scheme, unit) prog" where
  "led_one_color2 E r g b num =
     (let n = (if num > 4 then 4 else unat num) in
      bind (fold_prog (\<lambda>i. put_pixel i g r b) [0..<n] blank_frame) (\<lambda>data.
      bind (fold_prog (\<lambda>i. put_pixel i 0 0 0) [n..<EXAMPLE_LED_NUMBERS] data) (\<lambda>data.
      bind (led_strip_fill_data E data) (\<lambda>_. return ()))))"

section \<open>Colours\<close>

text \<open>Conversion of a \<open>float\<close> to \<open>uint32_t\<close>.\<close>

definition to_u32 :: "rat \<Rightarrow> ('s, u32) prog" where
  "to_u32 q = (if - 1 < q \<and> q < 2 ^ 32 then return (word_of_int (trunc_rat q)) else fail Bad_conversion)"

text \<open>The constant \<open>2.55f\<close>.\<close>

definition f2_55 :: rat where
  "f2_55 = f32 (255 / 100)"

definition led_strip_hsv2rgb :: "u32 \<Rightarrow> u32 \<Rightarrow> u32 \<Rightarrow> ('s, u32 \<times> u32 \<times> u32) prog" where
  "led_strip_hsv2rgb h0 s v =
     (let h = h0 mod 360 in
      bind (to_u32 (f32 (f32 (of_nat (unat v)) * f2_55))) (\<lambda>rgb_max.
      bind (to_u32 (f32 (f32 (of_nat (unat (rgb_max * (100 - s)))) / 100))) (\<lambda>rgb_min.
      let i = h div 60;
          diff = h mod 60;
          rgb_adj = (rgb_max - rgb_min) * diff div 60
      in return
        (if i = 0 then (rgb_max, rgb_min + rgb_adj, rgb_min)
         else if i = 1 then (rgb_max - rgb_adj, rgb_max, rgb_min)
         else if i = 2 then (rgb_min, rgb_max, rgb_min + rgb_adj)
         else if i = 3 then (rgb_min, rgb_max - rgb_adj, rgb_max)
         else if i = 4 then (rgb_min + rgb_adj, rgb_min, rgb_max)
         else (rgb_max, rgb_min, rgb_max - rgb_adj)))))"

section \<open>Animations\<close>

text \<open>One LED of one chase round. The third assignment writes index \<open>i * 3 + 1\<close> again.\<close>

definition led_chase_step :: "env \<Rightarrow> u16 \<Rightarrow> nat \<Rightarrow> u8 list \<Rightarrow> ('a world_scheme, u8 list) prog" where
  "led_chase_step E start_rgb i data =
     (let hue = (word_of_int (int (i * 360 div EXAMPLE_LED_NUMBERS) + uint start_rgb) :: u16) in
      bind (led_strip_hsv2rgb (ucast hue) 100 100) (\<lambda>(red, green, blue).
      bind (store (i * 3 + 0) (ucast green) data) (\<lambda>data.
      bind (store (i * 3 + 1) (ucast red) data) (\<lambda>data.
      bind (store (i * 3 + 1) (ucast blue) data) (\<lambda>data.
      bind (led_strip_fill_data E data) (\<lambda>_.
      bind (vTaskDelay_ms E 75) (\<lambda>_.
      bind (led_strip_fill_data E blank_frame) (\<lambda>_.
      bind (vTaskDelay_ms E 75) (\<lambda>_.
      return blank_frame)))))))))"

primrec led_chase_rounds :: "nat \<Rightarrow> env \<Rightarrow> u16 \<Rightarrow> u8 list \<Rightarrow> ('a world_scheme, unit) prog" where
  "led_chase_rounds 0 E start_rgb data = return ()"
| "led_chase_rounds (Suc n) E start_rgb data =
     bind (fold_prog (led_chase_step E start_rgb) [0..<EXAMPLE_LED_NUMBERS] data)
       (\<lambda>data. led_chase_rounds n E (start_rgb + 50) data)"

definition led_chase :: "env \<Rightarrow> int \<Rightarrow> ('a world_scheme, unit) prog" where
  "led_chase E beatCnt = led_chase_rounds (nat beatCnt) E 0 blank_frame"

definition led_on :: "env \<Rightarrow> ('a world_scheme, unit) prog" where
  "led_on E = led_one_color E 5 5 5"

definition led_off :: "env \<Rightarrow> ('a world_scheme, unit) prog" where
  "led_off E = led_one_color E 0 0 0"

definition led_blink :: "env \<Rightarrow> u8 \<Rightarrow> u8 \<Rightarrow> u8 \<Rightarrow> int \<Rightarrow> ('a world_scheme, unit) prog" where
  "led_blink E r g b count = for_upto (nat count) (\<lambda>_. block
     [led_one_color E r g b, vTaskDelay_ms E 50, led_one_color E 0 0 0, vTaskDelay_ms E 50])"

definition led_blink2 :: "env \<Rightarrow> u8 \<Rightarrow> u8 \<Rightarrow> u8 \<Rightarrow> ('a world_scheme, unit) prog" where
  "led_blink2 E r g b = block
     [led_one_color E r g b, vTaskDelay_ms E 500, led_one_color E 0 0 0, vTaskDelay_ms E 500]"

section \<open>The renderer\<close>

definition led_strip_renderer_run :: "env \<Rightarrow> ('a world_scheme, int) prog" where
  "led_strip_renderer_run E =
     bind (block [write_task_run E Led_renderer True, emit E (Rtos (XTaskCreate Led_renderer))])
       (\<lambda>_. return ESP_OK)"

definition led_strip_init :: "env \<Rightarrow> ('a led_vars_scheme, unit) prog" where
  "led_strip_init E = block
     [ESP_ERROR_CHECK E (Rmt (Rmt_new_tx_channel 20 10000000 64 4)),
      bind (rmt_new_led_strip_encoder E (Some 10000000) True) (\<lambda>(r, enc).
        if r = ESP_OK then modify (\<lambda>w. w\<lparr>led_encoder := enc\<rparr>) else fail Abort),
      ESP_ERROR_CHECK E (Rmt Rmt_enable),
      emit E (Rtos (XQueueCreate Led_frames 3)),
      emit E (Rtos (XEventGroupCreate Led_renderer)),
      emit E (Rtos (XEventGroupCreate Led_cmds)),
      bind (led_strip_renderer_run E) (\<lambda>_. return ()),
      led_on E]"

text \<open>
  The loop of the renderer runs until \<open>task_run\<close> reads false, which may be never: it takes a
  bound on the number of turns, and the result says whether the loop was left.
\<close>

definition renderer_turn :: "env \<Rightarrow> ('a led_vars_scheme, unit) prog" where
  "renderer_turn E =
     bind (ask E (Rtos (XQueueReceive Led_frames))) (\<lambda>(r, frame).
       if r = pdTRUE then block
         [modify (\<lambda>w. w\<lparr>led_strip_pixels := map word_of_int frame\<rparr>),
          bind (gets led_strip_pixels) (\<lambda>px. ESP_ERROR_CHECK E (Rmt (Rmt_transmit px 0)))]
       else return ())"

primrec renderer_loop :: "nat \<Rightarrow> env \<Rightarrow> ('a led_vars_scheme, bool) prog" where
  "renderer_loop 0 E = return False"
| "renderer_loop (Suc n) E =
     bind (read_task_run E Led_renderer) (\<lambda>run.
       if \<not> run then return True
       else bind (renderer_turn E) (\<lambda>_. renderer_loop n E))"

definition led_strip_renderer_task :: "nat \<Rightarrow> env \<Rightarrow> ('a led_vars_scheme, bool) prog" where
  "led_strip_renderer_task n E =
     bind (renderer_loop n E) (\<lambda>left.
       if left then bind (block
              [emit E (Rtos (XEventGroupSetBits Led_renderer)), emit E (Rtos VTaskDelete)])
            (\<lambda>_. return True)
       else return False)"

definition led_strip_renderer_wait_for_stop :: "env \<Rightarrow> ('a world_scheme, int) prog" where
  "led_strip_renderer_wait_for_stop E =
     bind (call E (Rtos (XEventGroupWaitBits Led_renderer False 8000)))
       (\<lambda>uxBits. return (if uxBits AND 1 \<noteq> 0 then ESP_OK else ESP_ERR_TIMEOUT))"

definition led_strip_renderer_stop :: "env \<Rightarrow> ('a world_scheme, int) prog" where
  "led_strip_renderer_stop E =
     bind (write_task_run E Led_renderer False) (\<lambda>_. led_strip_renderer_wait_for_stop E)"

section \<open>LED scripts\<close>

definition led_cmd2data :: "env \<Rightarrow> string \<Rightarrow> int \<Rightarrow> ('a world_scheme, int) prog" where
  "led_cmd2data E cmd beatCnt =
     (if cmd = ''R'' then bind (led_one_color E 0x33 0 0) (\<lambda>_. return 0)
      else if cmd = ''G'' then bind (led_one_color E 0 0x33 0) (\<lambda>_. return 0)
      else if cmd = ''B'' then bind (led_one_color E 0 0 0x33) (\<lambda>_. return 0)
      else if cmd = ''RB'' then
        bind (chk_int (6 * beatCnt)) (\<lambda>n. bind (led_blink E 0x33 0 0 n) (\<lambda>_. return 1))
      else if cmd = ''GB'' then
        bind (chk_int (6 * beatCnt)) (\<lambda>n. bind (led_blink E 0 0x33 0 n) (\<lambda>_. return 1))
      else if cmd = ''BB'' then
        bind (chk_int (6 * beatCnt)) (\<lambda>n. bind (led_blink E 0 0 0x33 n) (\<lambda>_. return 1))
      else if cmd = ''Chase'' then bind (led_chase E beatCnt) (\<lambda>_. return 1)
      else if cmd = ''OFF'' then bind (led_off E) (\<lambda>_. return 0)
      else bind (led_one_color E 0x33 0x33 0x33) (\<lambda>_. return 0))"

text \<open>What the loop body does with one parsed command.\<close>

definition led_act :: "env \<Rightarrow> string \<Rightarrow> int \<Rightarrow> ('a world_scheme, unit) prog" where
  "led_act E code beatCnt =
     (let delaytime = beat_delay beatCnt in
      if is_no_op code then vTaskDelay_ms E delaytime
      else bind (led_cmd2data E code beatCnt) (\<lambda>ret.
        if ret = 0 then vTaskDelay_ms E delaytime else return ()))"

function led_cmds_loop :: "env \<Rightarrow> string \<Rightarrow> ('a world_scheme, unit) prog" where
  "led_cmds_loop E cmds w =
     (if cmds = [] then Inr ((), w)
      else case read_task_run E Led_cmds w of
        Inl f \<Rightarrow> Inl f
      | Inr (run, w1) \<Rightarrow>
          if \<not> run then Inr ((), w1)
          else (case parse_cmd 16 cmds w1 of
              Inl f \<Rightarrow> Inl f
            | Inr (None, w2) \<Rightarrow> Inr ((), w2)
            | Inr (Some (pos, code, beatCnt), w2) \<Rightarrow>
                (case led_act E code beatCnt w2 of
                   Inl f \<Rightarrow> Inl f
                 | Inr (_, w3) \<Rightarrow> led_cmds_loop E (drop (pos + 1) cmds) w3)))"
  by pat_completeness auto
termination
  by (relation "measure (\<lambda>(E, cmds, w). length cmds)") (auto dest!: parse_cmd_Some(2))

declare led_cmds_loop.simps [simp del]

definition led_run_cmds_task :: "env \<Rightarrow> ('a led_vars_scheme, unit) prog" where
  "led_run_cmds_task E =
     bind (gets led_args) (\<lambda>args.
     bind (led_cmds_loop E (snd args)) (\<lambda>_.
     bind (led_on E) (\<lambda>_.
     bind (read_task_run E Led_cmds) (\<lambda>run. block
       [if run then block [write_task_run E Led_cmds False, run_cmds_one_time_cb E] else return (),
        emit E (Rtos (XEventGroupSetBits Led_cmds)),
        emit E (Rtos VTaskDelete)]))))"

definition led_run_cmds_wait_for_stop :: "env \<Rightarrow> ('a world_scheme, int) prog" where
  "led_run_cmds_wait_for_stop E =
     bind (call E (Rtos (XEventGroupWaitBits Led_cmds True 5000)))
       (\<lambda>uxBits. return (if uxBits AND 1 \<noteq> 0 then ESP_OK else ESP_ERR_TIMEOUT))"

definition led_run_cmds_stop :: "env \<Rightarrow> ('a world_scheme, int) prog" where
  "led_run_cmds_stop E =
     bind (read_task_run E Led_cmds) (\<lambda>run.
       if \<not> run then return ESP_OK
       else bind (block
              [emit E (Rtos (XEventGroupClearBits Led_cmds)), write_task_run E Led_cmds False])
            (\<lambda>_. led_run_cmds_wait_for_stop E))"

definition led_run_cmds :: "env \<Rightarrow> cstr \<Rightarrow> ('a led_vars_scheme, unit) prog" where
  "led_run_cmds E str =
     bind (read_task_run E Led_cmds) (\<lambda>run.
     block
       [if run then bind (led_run_cmds_stop E) (\<lambda>_. return ()) else return (),
        write_task_run E Led_cmds True,
        modify (\<lambda>w. w\<lparr>led_args := str\<rparr>),
        emit E (Rtos (XTaskCreate Led_cmds))])"

interpretation led_task: stoppable_task Led_cmds 5000 led_run_cmds_stop
  by unfold_locales
    (simp add: led_run_cmds_stop_def led_run_cmds_wait_for_stop_def prog_simps Let_def)

interpretation led_task: restartable_task Led_cmds 5000 led_run_cmds_stop led_run_cmds
  "\<lambda>x w. w\<lparr>led_args := x\<rparr>"
  by unfold_locales
    (auto simp: led_run_cmds_def prog_simps Let_def split: sum.splits)

interpretation led_script: script_loop Led_cmds 16 led_act led_cmds_loop
  by unfold_locales (subst led_cmds_loop.simps, rule refl)

section \<open>The contents of frames\<close>

text \<open>All four LEDs in one colour; the first \<open>n\<close> in it and the others dark.\<close>

definition solid :: "u8 \<Rightarrow> u8 \<Rightarrow> u8 \<Rightarrow> u8 list" where
  "solid r g b = concat (replicate 4 [g, r, b])"

definition bar :: "u8 \<Rightarrow> u8 \<Rightarrow> u8 \<Rightarrow> nat \<Rightarrow> u8 list" where
  "bar r g b n = concat (replicate (min n 4) [g, r, b] @ replicate (4 - n) [0, 0, 0])"

lemma upt_4:
  "[0..<4] = [0, 1, 2, 3 :: nat]" "[0..<3] = [0, 1, 2 :: nat]" "[0..<2] = [0, 1 :: nat]" "[0..<1] = [0 :: nat]"
  "[1..<4] = [1, 2, 3 :: nat]" "[2..<4] = [2, 3 :: nat]" "[3..<4] = [3 :: nat]"
  by code_simp+

lemma fold_prog_run [prog_simps]:
  "fold_prog f [] x s = Inr (x, s)"
  "fold_prog f (i # is) x s = (case f i x s of Inl e \<Rightarrow> Inl e | Inr (x', s') \<Rightarrow> fold_prog f is x' s')"
  by (simp_all add: prog_simps)

declare fold_prog.simps [simp del]

lemma logs_only_fold_prog [logs_intros]:
  "(\<And>i x. logs_only (f i x)) \<Longrightarrow> logs_only (fold_prog f is x)"
  by (induction "is" arbitrary: x) (auto simp: fold_prog.simps intro!: logs_intros)

lemma blank_frame_eq: "blank_frame = solid 0 0 0"
  by code_simp

lemma length_blank_frame [simp]: "length blank_frame = 12"
  by code_simp

lemma fill_data_run [prog_simps]:
  "led_strip_fill_data E data w =
     Inr (if fst (E (trace w) (Rtos (XQueueSend Led_frames (Frame data) 1))) = pdPASS then ESP_OK else ESP_FAIL,
          w\<lparr>trace := trace w @ [Rtos (XQueueSend Led_frames (Frame data) 1)]\<rparr>)"
  by (simp add: led_strip_fill_data_def prog_simps)

lemma put_pixels_run:
  "fold_prog (\<lambda>i. put_pixel i g r b) [0..<4] blank_frame s = Inr (solid r g b, s)"
  by (simp add: upt_4 prog_simps put_pixel_def blank_frame_def solid_def numeral_eq_Suc)

abbreviation (input) Send_frame :: "u8 list \<Rightarrow> call" where
  "Send_frame d \<equiv> Rtos (XQueueSend Led_frames (Frame d) 1)"

lemma led_one_color_run [prog_simps]:
  "led_one_color E r g b w = Inr ((), w\<lparr>trace := trace w @ [Send_frame (solid r g b)]\<rparr>)"
  by (simp add: led_one_color_def prog_simps put_pixels_run)

lemma led_on_off_run [prog_simps]:
  "led_on E w = Inr ((), w\<lparr>trace := trace w @ [Send_frame (solid 5 5 5)]\<rparr>)"
  "led_off E w = Inr ((), w\<lparr>trace := trace w @ [Send_frame (solid 0 0 0)]\<rparr>)"
  by (simp_all add: led_on_def led_off_def prog_simps)

text \<open>
  \<open>led_one_color2\<close> offers the renderer one frame whose first \<open>num\<close> LEDs have the colour and
  whose other LEDs are dark; a \<open>num\<close> above four counts as four. It never writes outside the
  frame.
\<close>

theorem led_one_color2_bar:
  "led_one_color2 E r g b num w = Inr ((), w\<lparr>trace := trace w @ [Send_frame (bar r g b (unat num))]\<rparr>)"
proof -
  have *: "fold_prog (\<lambda>i. put_pixel i g r b) [0..<n] blank_frame s =
      Inr (bar r g b n, s) \<and>
      fold_prog (\<lambda>i. put_pixel i 0 0 0) [n..<4] (bar r g b n) s = Inr (bar r g b n, s)"
    if "n \<in> {0, 1, 2, 3, 4}" for n and s :: "'a world_scheme"
    using that unfolding insert_iff empty_iff
    by (elim disjE) (simp_all only: upt_4 upt_conv_Nil put_pixel_def blank_frame_def bar_def,
        simp_all add: prog_simps put_pixel_def numeral_eq_Suc)
  have big: "bar r g b n = bar r g b 4" if "4 \<le> n" for n
    using that by (simp add: bar_def)
  show ?thesis
  proof (cases "num > 4")
    case True
    then have "4 \<le> unat num" by (simp add: word_less_nat_alt)
    from big [OF this] show ?thesis using True * [of 4] by (simp add: led_one_color2_def prog_simps)
  next
    case False
    then have "unat num \<in> {0, 1, 2, 3, 4}" by (auto simp: word_less_nat_alt not_less)
    from * [OF this] show ?thesis using False by (simp add: led_one_color2_def prog_simps Let_def)
  qed
qed

section \<open>The colour wheel\<close>

lemma f32_f2_55 [simp]: "f32 (100 * f2_55) = 255"
  by code_simp

lemma to_u32_ok:
  assumes "0 \<le> q" "q \<le> 255"
  shows "to_u32 q s = Inr (word_of_int (trunc_rat q), s)" "0 \<le> trunc_rat q"
    "of_int (trunc_rat q) \<le> q"
  using assms by (auto simp: to_u32_def prog_simps trunc_rat_def)

text \<open>What a hue, saturation and value convert to, with natural numbers.\<close>

definition wheel :: "nat \<Rightarrow> nat \<Rightarrow> nat \<Rightarrow> nat \<times> nat \<times> nat" where
  "wheel h mx mn =
     (let i = h mod 360 div 60; adj = (mx - mn) * (h mod 60) div 60
      in if i = 0 then (mx, mn + adj, mn)
         else if i = 1 then (mx - adj, mx, mn)
         else if i = 2 then (mn, mx, mn + adj)
         else if i = 3 then (mn, mx - adj, mx)
         else if i = 4 then (mn + adj, mn, mx)
         else (mx, mn, mx - adj))"

definition value_max :: "nat \<Rightarrow> nat" where
  "value_max v = nat (trunc_rat (f32 (of_nat v * f2_55)))"

definition value_min :: "nat \<Rightarrow> nat \<Rightarrow> nat" where
  "value_min s mx = nat (trunc_rat (f32 (of_nat (mx * (100 - s)) / 100)))"

lemma value_full: "value_max 100 = 255" "value_min 100 255 = 0"
  by (simp_all add: value_max_def value_min_def trunc_rat_def)

lemma value_max_le: "v \<le> 100 \<Longrightarrow> value_max v \<le> 255 \<and> 0 \<le> f32 (of_nat v * f2_55) \<and>
   f32 (of_nat v * f2_55) \<le> 255"
proof -
  assume v: "v \<le> 100"
  have p: "0 \<le> f2_55" by code_simp
  have "(of_nat v :: rat) * f2_55 \<le> 100 * f2_55"
    by (rule mult_right_mono) (use v p in \<open>simp_all\<close>)
  from fl_mono [OF _ this, of 24] have a: "f32 (of_nat v * f2_55) \<le> 255" by simp
  have b: "0 \<le> f32 (of_nat v * f2_55)" using p by (simp add: fl_nonneg)
  then show ?thesis using a to_u32_ok(3) [OF b a] unfolding value_max_def by linarith
qed

lemma value_min_le:
  assumes "mx \<le> 255"
  shows "value_min s mx \<le> mx \<and> 0 \<le> f32 (of_nat (mx * (100 - s)) / 100) \<and>
    f32 (of_nat (mx * (100 - s)) / 100) \<le> 255"
proof -
  have n: "mx * (100 - s) \<le> mx * 100" by simp
  have "(of_nat (mx * (100 - s)) :: rat) \<le> of_nat (mx * 100)" using n by (simp only: of_nat_le_iff)
  then have "(of_nat (mx * (100 - s)) :: rat) / 100 \<le> of_int (int mx)" by simp
  then have a: "f32 (of_nat (mx * (100 - s)) / 100) \<le> of_int (int mx)"
    by (rule fl_le_of_int [rotated 2]) (use assms in auto)
  have b: "0 \<le> f32 (of_nat (mx * (100 - s)) / 100)" by (simp add: fl_nonneg)
  have c: "f32 (of_nat (mx * (100 - s)) / 100) \<le> 255"
    by (rule order_trans [OF a]) (use assms in simp)
  show ?thesis using a b c to_u32_ok(3) [OF b c] unfolding value_min_def by auto
qed

lemma of_nat_u32_ops:
  assumes "a < 2 ^ 32" "b < 2 ^ 32"
  shows "(of_nat a :: u32) div of_nat b = of_nat (a div b)"
    "(of_nat a :: u32) mod of_nat b = of_nat (a mod b)"
    "(of_nat a :: u32) = of_nat b \<longleftrightarrow> a = b"
  using assms
  by (simp_all add: word_unat_eq_iff unat_div_distrib unat_mod_distrib unat_of_nat take_bit_nat_eq_self
      div_le_dividend [THEN le_less_trans] mod_less_eq_dividend [THEN le_less_trans])

lemma led_strip_hsv2rgb_run:
  assumes "s \<le> 100" "v \<le> 100"
  shows "led_strip_hsv2rgb h s v st =
    (let mx = value_max (unat v); mn = value_min (unat s) mx; (r, g, b) = wheel (unat h) mx mn
     in Inr ((of_nat r, of_nat g, of_nat b), st))"
proof -
  define mx where "mx = value_max (unat v)"
  define mn where "mn = value_min (unat s) mx"
  have nv: "unat v \<le> 100" "unat s \<le> 100" using assms by (simp_all add: word_le_nat_alt)
  note mx = value_max_le [OF nv(1), folded mx_def]
  note mn = value_min_le [OF conjunct1 [OF mx], of "unat s", folded mn_def]
  have v32: "f32 (of_nat (unat v)) = of_nat (unat v)"
    by (rule fl_of_nat) (use nv in simp_all)
  have w1: "(word_of_int (trunc_rat (f32 (of_nat (unat v) * f2_55))) :: u32) = of_nat mx"
    using to_u32_ok(2) mx by (simp add: mx_def value_max_def)
  have s1: "100 - s = of_nat (100 - unat s)"
    using nv by (simp add: of_nat_diff)
  have le: "mx * (100 - unat s) \<le> 255 * 100"
    by (rule mult_le_mono) (use mx in auto)
  have "unat (of_nat mx * (100 - s)) = mx * (100 - unat s)"
    unfolding s1 of_nat_mult [symmetric] by (rule unat_of_nat_small) (use le in simp)
  then have u: "f32 (of_nat (unat (of_nat mx * (100 - s)))) = of_nat (mx * (100 - unat s))"
    using fl_of_nat [of 24 "mx * (100 - unat s)"] le by (simp del: of_nat_mult)
  have w2: "(word_of_int (trunc_rat (f32 (of_nat (mx * (100 - unat s)) / 100))) :: u32) = of_nat mn"
    using to_u32_ok(2) mn by (simp add: mn_def value_min_def)
  define d where "d = mx - mn"
  have d: "(of_nat mx :: u32) - of_nat mn = of_nat d" using mn by (simp add: d_def of_nat_diff)
  have "d * (unat h mod 60) \<le> 255 * 60"
    by (rule mult_le_mono) (use mx in \<open>auto simp: d_def intro: less_imp_le\<close>)
  then have adj: "of_nat d * (of_nat (unat h mod 60) :: u32) div 60 = of_nat (d * (unat h mod 60) div 60)"
    using of_nat_u32_ops(1) [of "d * (unat h mod 60)" 60] by simp
  have "d * (unat h mod 60) \<le> d * 60" by (intro mult_le_mono2) (simp add: less_imp_le)
  then have dle: "d * (unat h mod 60) div 60 \<le> d" using div_le_mono [of _ "d * 60" 60] by simp
  have h: "h mod 360 = of_nat (unat h mod 360)" "h mod 360 mod 60 = of_nat (unat h mod 60)"
    "h mod 360 div 60 = of_nat (unat h mod 360 div 60)"
    using of_nat_u32_ops [of "unat h mod 360" 60] of_nat_u32_ops(2) [of "unat h" 360]
      unsigned_less [of h, where ?'a = nat]
    by (simp_all add: mod_mod_cancel)
  have i: "(of_nat (unat h mod 360 div 60) :: u32) = of_nat k \<longleftrightarrow> unat h mod 360 div 60 = k" if "k < 6" for k
    by (rule of_nat_u32_ops) (use that in \<open>simp_all add: less_mult_imp_div_less\<close>)
  define k where "k = unat h mod 360 div 60"
  define a where "a = d * (unat h mod 60) div 60"
  have i5: "of_nat k = (0 :: u32) \<longleftrightarrow> k = 0" "of_nat k = (1 :: u32) \<longleftrightarrow> k = 1" "of_nat k = (2 :: u32) \<longleftrightarrow> k = 2"
    "of_nat k = (3 :: u32) \<longleftrightarrow> k = 3" "of_nat k = (4 :: u32) \<longleftrightarrow> k = 4"
    using i [of 0] i [of 1] i [of 2] i [of 3] i [of 4] by (simp_all add: k_def)
  have wh: "wheel (unat h) mx mn =
     (if k = 0 then (mx, mn + a, mn)
      else if k = 1 then (mx - a, mx, mn)
      else if k = 2 then (mn, mx, mn + a)
      else if k = 3 then (mn, mx - a, mx)
      else if k = 4 then (mn + a, mn, mx)
      else (mx, mn, mx - a))"
    by (simp only: wheel_def Let_def k_def a_def d_def)
  have ma: "(of_nat (mx - a) :: u32) = of_nat mx - of_nat a"
    by (rule of_nat_diff) (use dle in \<open>simp add: a_def d_def\<close>)
  have c1: "to_u32 (f32 (f32 (of_nat (unat v)) * f2_55)) st = Inr (of_nat mx, st)"
    by (simp only: v32 to_u32_ok(1) [OF mx [THEN conjunct2, THEN conjunct1] mx [THEN conjunct2, THEN conjunct2]] w1)
  have c2: "to_u32 (f32 (f32 (of_nat (unat (of_nat mx * (100 - s)))) / 100)) st = Inr (of_nat mn, st)"
    by (simp only: u to_u32_ok(1) [OF mn [THEN conjunct2, THEN conjunct1] mn [THEN conjunct2, THEN conjunct2]] w2)
  have "led_strip_hsv2rgb h s v st =
      (let (r, g, b) = wheel (unat h) mx mn in Inr ((of_nat r, of_nat g, of_nat b), st))"
    unfolding led_strip_hsv2rgb_def
    by (simp only: Let_def bind_run c1 c2 sum.case prod.case return_run h(2,3) d adj
        k_def [symmetric] a_def [symmetric] i5 wh)
      (simp add: ma)
  then show ?thesis by (simp add: Let_def mx_def mn_def)
qed

lemma wheel_range:
  assumes "mn \<le> mx" "wheel h mx mn = (r, g, b)"
  shows "Max {r, g, b} = mx" "Min {r, g, b} = mn" "r \<le> mx" "g \<le> mx" "b \<le> mx"
proof -
  define adj where "adj = (mx - mn) * (h mod 60) div 60"
  define i where "i = h mod 360 div 60"
  have "(mx - mn) * (h mod 60) \<le> (mx - mn) * 60" by (intro mult_le_mono2) (simp add: less_imp_le)
  then have "adj \<le> mx - mn" using div_le_mono [of _ "(mx - mn) * 60" 60] by (simp add: adj_def)
  then have adj: "mn + adj \<le> mx" using assms(1) by simp
  have "(r, g, b) =
     (if i = 0 then (mx, mn + adj, mn)
      else if i = 1 then (mx - adj, mx, mn)
      else if i = 2 then (mn, mx, mn + adj)
      else if i = 3 then (mn, mx - adj, mx)
      else if i = 4 then (mn + adj, mn, mx)
      else (mx, mn, mx - adj))"
    unfolding assms(2) [symmetric] by (simp only: wheel_def Let_def adj_def i_def)
  then show "Max {r, g, b} = mx" "Min {r, g, b} = mn" "r \<le> mx" "g \<le> mx" "b \<le> mx"
    using assms(1) adj by (simp_all split: if_splits)
qed

text \<open>
  For a saturation and a value of at most 100, whatever the hue, \<open>led_strip_hsv2rgb\<close> returns
  (no conversion is undefined, no subtraction wraps) the point of the colour wheel for that hue
  between \<open>rgb_min\<close> and \<open>rgb_max\<close>: all three components lie between the two, both bounds are
  attained, and they fit the bytes of a frame.
\<close>

theorem led_strip_hsv2rgb_bounds:
  assumes "s \<le> 100" "v \<le> 100"
  shows "runs_to (led_strip_hsv2rgb h s v) st (\<lambda>(r, g, b) st'. st' = st \<and>
    (let mx = value_max (unat v); mn = value_min (unat s) mx in
      (unat r, unat g, unat b) = wheel (unat h) mx mn \<and>
      mn \<le> mx \<and> mx \<le> 255 \<and>
      Max {unat r, unat g, unat b} = mx \<and> Min {unat r, unat g, unat b} = mn))"
proof -
  define mx where "mx = value_max (unat v)"
  define mn where "mn = value_min (unat s) mx"
  have mx: "mx \<le> 255" using value_max_le [of "unat v"] assms by (simp add: mx_def word_le_nat_alt)
  have mn: "mn \<le> mx" using value_min_le [OF mx] by (simp add: mn_def)
  obtain r g b where w: "wheel (unat h) mx mn = (r, g, b)" by (cases "wheel (unat h) mx mn")
  note rgb = wheel_range [OF mn w]
  then have "unat (of_nat r :: u32) = r" "unat (of_nat g :: u32) = g" "unat (of_nat b :: u32) = b"
    using mx by (simp_all add: unat_of_nat_small)
  then show ?thesis
    using led_strip_hsv2rgb_run [OF assms, of h st] rgb mx mn
    by (simp add: runs_to_def Let_def mx_def [symmetric] mn_def [symmetric] w)
qed

theorem led_strip_hsv2rgb_bounds_witness:
  "runs_to (led_strip_hsv2rgb 390 100 100) () (\<lambda>(r, g, b) st'. st' = () \<and> (unat r, unat g, unat b) = (255, 127, 0))"
proof -
  have "wheel 390 255 0 = (255, 127, 0)" by (simp add: wheel_def)
  with value_full show ?thesis
    by (intro runs_to_mono [OF led_strip_hsv2rgb_bounds [of 100 100 390 "()"]]) (clarsimp simp: Let_def)+
qed

end
