(* ===== verification/Led_Script.thy ===== *)
theory Led_Script
  imports Led_Strip
begin

text \<open>
  What the LED operations show over time: solid frames, blinking, the chase, and the script task
  of \<open>led_strip.c\<close>, whose schedule a script determines.
\<close>

section \<open>What the strip is asked to show\<close>

text \<open>The frame offered to the renderer last, dark before the first.\<close>

fun frame_step :: "call \<Rightarrow> u8 list \<Rightarrow> u8 list" where
  "frame_step (Rtos (XQueueSend Led_frames (Frame d) _)) p = d"
| "frame_step _ p = p"

abbreviation frame_of :: "'a world_scheme \<Rightarrow> u8 list" where
  "frame_of w \<equiv> fold frame_step (trace w) blank_frame"

abbreviation strip_shows ::
  "'a world_scheme \<Rightarrow> (u8 list \<times> rat) list \<Rightarrow> u8 list \<Rightarrow> 'a world_scheme \<Rightarrow> bool" where
  "strip_shows \<equiv> shows_from frame_step (\<lambda>d. d) blank_frame"

lemma led_one_color_shows:
  "runs_to (led_one_color E r g b) w (\<lambda>_ w'. strip_shows w [] (solid r g b) w')"
  by (simp add: runs_to_def prog_simps shows_from_def)

definition blink_spec :: "u8 list \<Rightarrow> nat \<Rightarrow> (u8 list \<times> rat) list" where
  "blink_spec d n = concat (replicate n [(d, 50), (solid 0 0 0, 50)])"

lemma blink_turn_shows:
  "runs_to (block [led_one_color E r g b, vTaskDelay_ms E 50, led_one_color E 0 0 0, vTaskDelay_ms E 50]) w
     (\<lambda>_ w'. strip_shows w [(solid r g b, 50), (solid 0 0 0, 50)] (solid 0 0 0) w')"
  by (simp add: runs_to_def prog_simps shows_from_def)

text \<open>A loop whose every turn shows something shows the concatenation.\<close>

lemma for_upto_shows:
  assumes "\<And>i w. i < n \<Longrightarrow> runs_to (body i) w (\<lambda>_ w'. shows_from stp view p0 w (vs i) (v i) w')" "0 < n"
  shows "runs_to (for_upto n body) w (\<lambda>_ w'. shows_from stp view p0 w (concat (map vs [0..<n])) (v (n - 1)) w')"
  using assms
proof (induction n)
  case (Suc n)
  have b: "runs_to (body n) w1 (\<lambda>_ w'. shows_from stp view p0 w1 (vs n) (v n) w')" for w1
    using Suc.prems(1) by simp
  show ?case
  proof (cases "n = 0")
    case True
    then show ?thesis using b [of w] by (simp add: runs_to_def for_upto_Suc)
  next
    case False
    then have "runs_to (for_upto n body) w (\<lambda>_ w1. shows_from stp view p0 w (concat (map vs [0..<n])) (v (n - 1)) w1)"
      using Suc by simp
    then have "runs_to (for_upto n body) w (\<lambda>_ w1. runs_to (body n) w1 (\<lambda>_ w'.
        shows_from stp view p0 w (concat (map vs [0..<n]) @ vs n) (v n) w'))"
      by (rule runs_to_mono) (rule runs_to_mono [OF b], erule shows_from_trans)
    then show ?thesis by (auto simp: runs_to_def for_upto_Suc split: sum.splits)
  qed
qed simp

lemma led_blink_shows:
  assumes "0 < n"
  shows "runs_to (led_blink E r g b (int n)) w (\<lambda>_ w'. strip_shows w (blink_spec (solid r g b) n) (solid 0 0 0) w')"
proof -
  have "map (\<lambda>_. x) [0..<n] = replicate n x" for x :: "(u8 list \<times> rat) list"
    by (simp add: map_replicate_const)
  then show ?thesis
    using for_upto_shows [OF blink_turn_shows [of E r g b] assms, of w] by (simp add: led_blink_def blink_spec_def)
qed

text \<open>
  The frame of LED \<open>i\<close> in round \<open>j\<close> of a chase: byte \<open>3 i\<close> holds the green component of the hue,
  byte \<open>3 i + 1\<close>, where the strip expects red, the blue one, and every other byte is zero.
\<close>

definition chase_hue :: "u16 \<Rightarrow> nat \<Rightarrow> nat" where
  "chase_hue start i = unat (word_of_int (int (i * 90) + uint start) :: u16)"

definition chase_frame :: "u16 \<Rightarrow> nat \<Rightarrow> u8 list" where
  "chase_frame start i =
     (case wheel (chase_hue start i) 255 0 of (r, g, b) \<Rightarrow>
        blank_frame[i * 3 := of_nat g, i * 3 + 1 := of_nat b])"

definition chase_round :: "u16 \<Rightarrow> (u8 list \<times> rat) list" where
  "chase_round start = concat (map (\<lambda>i. [(chase_frame start i, 75), (blank_frame, 75)]) [0..<4])"

lemma led_chase_step_run:
  assumes "i < 4"
  shows "led_chase_step E start i blank_frame w = Inr (blank_frame, w\<lparr>trace := trace w @
    [Send_frame (chase_frame start i), Rtos (VTaskDelay_ms 75), Send_frame blank_frame, Rtos (VTaskDelay_ms 75)]\<rparr>)"
proof -
  define hue where "hue = (word_of_int (int (i * 90) + uint start) :: u16)"
  obtain r g b where wh: "wheel (unat hue) 255 0 = (r, g, b)" by (cases "wheel (unat hue) 255 0")
  have "unat hue < 2 ^ 32" using unsigned_less [of hue, where ?'a = nat] by simp
  then have "unat (ucast hue :: u32) = unat hue" by (simp add: unsigned_ucast_eq take_bit_nat_eq_self)
  then have hsv: "led_strip_hsv2rgb (ucast hue) 100 100 s = Inr ((of_nat r, of_nat g, of_nat b), s)"
    for s :: "'a world_scheme"
    using led_strip_hsv2rgb_run [of 100 100 "ucast hue" s] by (simp add: value_full wh)
  have f: "chase_frame start i = blank_frame[i * 3 := of_nat g, i * 3 + 1 := of_nat b]"
    using wh by (simp add: chase_frame_def chase_hue_def hue_def)
  have h: "(word_of_int (int (i * 360 div 4) + uint start) :: u16) = hue" by (simp add: hue_def)
  have uc: "(ucast (of_nat n :: u32) :: u8) = of_nat n" for n
    by (rule bit_word_eqI) (simp add: bit_simps)
  show ?thesis
    unfolding led_chase_step_def h Let_def
    using assms by (simp add: prog_simps hsv f uc)
qed

lemma led_chase_round_run:
  "fold_prog (led_chase_step E start) [0..<4] blank_frame w = Inr (blank_frame, w\<lparr>trace := trace w @
     concat (map (\<lambda>i. [Send_frame (chase_frame start i), Rtos (VTaskDelay_ms 75),
       Send_frame blank_frame, Rtos (VTaskDelay_ms 75)]) [0..<4])\<rparr>)"
  by (simp add: upt_4 prog_simps led_chase_step_run)

primrec chase_spec :: "nat \<Rightarrow> u16 \<Rightarrow> (u8 list \<times> rat) list" where
  "chase_spec 0 start = []"
| "chase_spec (Suc n) start = chase_round start @ chase_spec n (start + 50)"

lemma led_chase_rounds_shows:
  "runs_to (led_chase_rounds n E start blank_frame) w (\<lambda>_ w'.
     strip_shows w (chase_spec n start) (if n = 0 then frame_of w else blank_frame) w')"
proof (induction n arbitrary: start w)
  case 0
  then show ?case by (simp add: shows_from_def)
next
  case (Suc n)
  define w1 where "w1 = w\<lparr>trace := trace w @
     concat (map (\<lambda>i. [Send_frame (chase_frame start i), Rtos (VTaskDelay_ms 75),
       Send_frame blank_frame, Rtos (VTaskDelay_ms 75)]) [0..<4])\<rparr>"
  have s: "strip_shows w (chase_round start) blank_frame w1"
    by (simp add: shows_from_def w1_def chase_round_def upt_4)
  have "runs_to (led_chase_rounds n E (start + 50) blank_frame) w1 (\<lambda>_ w'.
      strip_shows w (chase_spec (Suc n) start) blank_frame w')"
  proof (rule runs_to_mono [OF Suc.IH])
    fix r w'
    assume "strip_shows w1 (chase_spec n (start + 50)) (if n = 0 then frame_of w1 else blank_frame) w'"
    moreover have "frame_of w1 = blank_frame" using s by (simp add: shows_from_def)
    ultimately have "strip_shows w1 (chase_spec n (start + 50)) blank_frame w'" by (simp split: if_splits)
    from shows_from_trans [OF s this] show "strip_shows w (chase_spec (Suc n) start) blank_frame w'" by simp
  qed
  then show ?case
    by (simp add: runs_to_Inr [OF led_chase_round_run] w1_def)
qed

section \<open>Scripts\<close>

text \<open>What one command shows after a frame \<open>v\<close>, and the frame it leaves.\<close>

definition led_color :: "string \<Rightarrow> u8 list" where
  "led_color code =
     (if code = ''R'' \<or> code = ''RB'' then solid 0x33 0 0
      else if code = ''G'' \<or> code = ''GB'' then solid 0 0x33 0
      else if code = ''B'' \<or> code = ''BB'' then solid 0 0 0x33
      else if code = ''OFF'' then solid 0 0 0
      else solid 0x33 0x33 0x33)"

definition led_blinks :: "string \<Rightarrow> bool" where
  "led_blinks code \<longleftrightarrow> code \<in> {''RB'', ''GB'', ''BB''}"

definition led_spec :: "u8 list \<Rightarrow> string \<times> nat \<Rightarrow> (u8 list \<times> rat) list" where
  "led_spec v cb =
     (if is_no_op (fst cb) then [(v, of_nat (600 * snd cb))]
      else if led_blinks (fst cb) then blink_spec (led_color (fst cb)) (6 * snd cb)
      else if fst cb = ''Chase'' then chase_spec (snd cb) 0
      else [(led_color (fst cb), of_nat (600 * snd cb))])"

definition led_leaves :: "u8 list \<Rightarrow> string \<times> nat \<Rightarrow> u8 list" where
  "led_leaves v cb =
     (if is_no_op (fst cb) then v
      else if led_blinks (fst cb) \<or> fst cb = ''Chase'' then if snd cb = 0 then v else blank_frame
      else led_color (fst cb))"

lemma led_act_shows:
  assumes "b \<le> 27962"
  shows "runs_to (led_act E code (int b)) w (\<lambda>_ w'.
    strip_shows w (led_spec (frame_of w) (code, b)) (led_leaves (frame_of w) (code, b)) w')"
proof -
  note d = beat_delay_nat [OF assms]
  have color: "runs_to (bind (led_one_color E r g bl) (\<lambda>_. vTaskDelay_ms E (of_nat (600 * b)))) w (\<lambda>_ w'.
      strip_shows w [(solid r g bl, of_nat (600 * b))] (solid r g bl) w')" for r g bl
    by (simp add: runs_to_def prog_simps shows_from_def)
  have blink: "is_int (6 * int b) \<and> runs_to (led_blink E r g bl (6 * int b)) w (\<lambda>_ w'.
      strip_shows w (blink_spec (solid r g bl) (6 * b)) (if b = 0 then frame_of w else blank_frame) w')" for r g bl
  proof (cases "b = 0")
    case True
    then show ?thesis by (simp add: led_blink_def runs_to_def blink_spec_def shows_from_def is_int_def)
  next
    case False
    then show ?thesis
      using led_blink_shows [of "6 * b" E r g bl w] assms by (simp add: is_int_def blank_frame_eq)
  qed
  have chase: "runs_to (led_chase E (int b)) w (\<lambda>_ w'.
      strip_shows w (chase_spec b 0) (if b = 0 then frame_of w else blank_frame) w')"
    using led_chase_rounds_shows [of b E 0 w] by (simp add: led_chase_def)
  note specs = led_spec_def led_leaves_def led_color_def led_blinks_def
  show ?thesis
  proof (cases "is_no_op code")
    case True
    then show ?thesis by (simp add: led_act_def d specs shows_from_def)
  next
    case False
    then show ?thesis
      using color blink chase
      by (simp add: led_act_def led_cmd2data_def led_off_def Let_def d specs)
  qed
qed

lemma logs_only_led [logs_intros]:
  "logs_only (led_one_color E r g b)" "logs_only (led_blink E r g b n)" "logs_only (led_chase E m)"
proof -
  show "logs_only (led_one_color E r g b)" for r g b
    by (auto simp: logs_only_def prog_simps)
  then show "logs_only (led_blink E r g b n)" unfolding led_blink_def by (intro logs_intros)
  have "logs_only (to_u32 q)" for q by (simp add: to_u32_def logs_intros)
  then have "logs_only (led_strip_hsv2rgb h s v)" for h s v
    unfolding led_strip_hsv2rgb_def Let_def by (intro logs_intros)
  then have "logs_only (led_chase_step E start i d)" for start i d
    unfolding led_chase_step_def led_strip_fill_data_def Let_def by (intro logs_intros)
  then have "logs_only (led_chase_rounds k E start d)" for k start d
    by (induction k arbitrary: start d) (auto intro!: logs_intros)
  then show "logs_only (led_chase E m)" by (simp add: led_chase_def)
qed

lemma logs_only_led_act: "logs_only (led_act E code b)"
  unfolding led_act_def led_cmd2data_def led_off_def Let_def by (intro logs_intros)

lemma led_loop_shows:
  fixes w :: "'a world_scheme"
  assumes "keeps_running E Led_cmds" "list_all (wf_cmd 16) cbs" "list_all (\<lambda>cb. snd cb \<le> 27962) cbs"
  shows "runs_to (led_cmds_loop E (encode cbs)) w (\<lambda>_ w'. \<exists>v.
    strip_shows w (script_spec led_spec led_leaves (frame_of w) cbs) v w') \<and>
    logs_only (led_cmds_loop E (encode cbs) :: ('a world_scheme, unit) prog)"
proof -
  have "runs_to (led_act E (fst cb) (int (snd cb))) w (\<lambda>_ w'.
      let v = frame_of w in strip_shows w (led_spec v cb) (led_leaves v cb) w')"
    if "cb \<in> set cbs" for cb and w :: "'a world_scheme"
    using led_act_shows [of "snd cb" E "fst cb" w] that assms(3)
    by (simp add: list_all_iff Let_def)
  from exec_script_shows [where stp = frame_step and view = "\<lambda>d. d" and h = Led_cmds and ?p0.0 = blank_frame
      and spec = led_spec and nxt = led_leaves and w = w and act = led_act and E = E and cbs = cbs, OF this]
  have "runs_to (exec_script E Led_cmds led_act cbs) w (\<lambda>_ w'. \<exists>v.
      strip_shows w (script_spec led_spec led_leaves (frame_of w) cbs) v w')" by simp
  moreover have eq: "(led_cmds_loop E (encode cbs) :: ('a world_scheme, unit) prog) = exec_script E Led_cmds led_act cbs"
    using led_script.loop_script [OF assms(2,1)] by (rule ext)
  ultimately show ?thesis unfolding eq by (auto intro: logs_intros logs_only_led_act)
qed

lemma led_task_shows:
  assumes "keeps_running E Led_cmds"
    and "list_all (wf_cmd 16) cbs" "list_all (\<lambda>cb. snd cb \<le> 27962) cbs"
    and "snd (led_args w) = encode cbs"
  shows "runs_to (led_run_cmds_task E) w (\<lambda>_ w'.
    strip_shows w (script_spec led_spec led_leaves (frame_of w) cbs) (solid 5 5 5) w' \<and>
    (\<exists>cs. trace w' = cs @ [Rtos (Write_task_run Led_cmds False)] @
       (if run_cmds_is_run w = 0 then [] else [Rtos (XTaskCreate Run_cmds)]) @
       [Rtos (XEventGroupSetBits Led_cmds), Rtos VTaskDelete]))"
proof -
  obtain w1 v where loop: "led_cmds_loop E (encode cbs) w = Inr ((), w1)"
    "strip_shows w (script_spec led_spec led_leaves (frame_of w) cbs) v w1"
    using led_loop_shows [OF assms(1-3), of w] by (auto simp: runs_to_def split: sum.splits)
  then obtain cs where w1: "w1 = w\<lparr>trace := trace w @ cs\<rparr>"
    using logs_onlyD [OF conjunct2 [OF led_loop_shows [OF assms(1-3)]] loop(1)] by auto
  define cs1 where "cs1 = [Send_frame (solid 5 5 5), Rtos (Read_task_run Led_cmds)]"
  define cs2 where "cs2 = Rtos (Write_task_run Led_cmds False) #
    (if run_cmds_is_run w = 0 then [] else [Rtos (XTaskCreate Run_cmds)]) @
    [Rtos (XEventGroupSetBits Led_cmds), Rtos VTaskDelete]"
  have "strip_shows w1 [] (solid 5 5 5) (w1\<lparr>trace := trace w1 @ cs1\<rparr>)"
    by (simp add: shows_from_def cs1_def)
  from shows_from_trans [OF loop(2) this]
  have "strip_shows w (script_spec led_spec led_leaves (frame_of w) cbs) (solid 5 5 5)
      (w1\<lparr>trace := trace w1 @ cs1\<rparr>)" by simp
  moreover have "\<And>c p. c \<in> set cs2 \<Longrightarrow> frame_step c p = p" "\<And>ms. Rtos (VTaskDelay_ms ms) \<notin> set cs2"
    by (auto simp: cs2_def split: if_splits)
  ultimately
  have "strip_shows w (script_spec led_spec led_leaves (frame_of w) cbs) (solid 5 5 5)
      (w1\<lparr>trace := trace w1 @ cs1 @ cs2\<rparr>)"
    using shows_from_silent [where cs = cs2] by fastforce
  moreover have "led_run_cmds_task E w = Inr ((), w1\<lparr>trace := trace w1 @ cs1 @ cs2\<rparr>)"
    by (simp add: led_run_cmds_task_def prog_simps assms(1,4) loop(1) cs1_def cs2_def w1)
  ultimately show ?thesis by (simp add: runs_to_def cs2_def)
qed


definition led_w0 :: led_vars where
  "led_w0 = \<lparr>trace = [], g_is_motorA_run = 0, g_is_motorB_run = 0, motor_args = (0, ''FL,4;''),
     run_cmds_is_run = 1, led_strip_pixels = blank_frame, led_encoder = None, led_args = (0, ''R,2;NO,1;GB,1;'')\<rparr>"

lemma led_w0_script:
  fixes cbs :: "(string \<times> nat) list"
  defines "cbs \<equiv> [(''R'', 2), (''NO'', 1), (''GB'', 1)]"
  shows "snd (led_args led_w0) = encode cbs" "list_all (wf_cmd 16) cbs" "list_all (\<lambda>cb. snd cb \<le> 27962) cbs"
proof -
  show "snd (led_args led_w0) = encode cbs" unfolding cbs_def by code_simp
qed (simp_all add: cbs_def wf_cmd_def)


section \<open>Keeping time\<close>

lemma chase_spec_duration: "sum_list (map snd (chase_spec n start)) = of_nat (600 * n)"
  by (induction n arbitrary: start) (simp_all add: chase_round_def upt_4)

lemma blink_spec_duration: "sum_list (map snd (blink_spec d n)) = of_nat (100 * n)"
  by (induction n) (simp_all add: blink_spec_def)

lemma led_spec_duration: "sum_list (map snd (led_spec v cb)) = of_nat (600 * snd cb)"
  by (simp add: led_spec_def chase_spec_duration blink_spec_duration)

lemma led_script_duration:
  "sum_list (map snd (script_spec led_spec led_leaves v cbs)) = of_nat (600 * sum_list (map snd cbs))"
  by (induction cbs arbitrary: v) (simp_all add: led_spec_duration algebra_simps)

lemma motor_script_duration:
  "sum_list (map snd (map motor_step cbs)) = of_nat (600 * sum_list (map snd cbs))"
  by (induction cbs) (simp_all add: motor_step_def algebra_simps)



section \<open>The chase\<close>

text \<open>
  The chase does not show the hues it computes. The red component of every step is
  overwritten by the blue one and the blue byte of the LED is never written: the step for a pure
  red LED offers a completely dark frame, although \<open>led_strip_hsv2rgb\<close> delivers full red.
\<close>

theorem led_chase_loses_red:
  "led_strip_hsv2rgb 0 100 100 st = Inr ((255, 0, 0), st) \<and>
   led_chase_step E 0 0 blank_frame w = Inr (blank_frame, w\<lparr>trace := trace w @
     [Send_frame (replicate 12 0), Rtos (VTaskDelay_ms 75), Send_frame (replicate 12 0), Rtos (VTaskDelay_ms 75)]\<rparr>)"
proof -
  have w: "wheel 0 255 0 = (255, 0, 0)" by (simp add: wheel_def)
  have b: "blank_frame = replicate 12 0" by (simp add: blank_frame_def)
  have f: "chase_frame 0 0 = blank_frame"
    by (simp add: chase_frame_def chase_hue_def w) (simp add: blank_frame_def numeral_eq_Suc)
  show ?thesis
    using led_strip_hsv2rgb_run [of 100 100 0 st] led_chase_step_run [of 0 E 0 w]
    by (simp add: value_full w f b)
qed

section \<open>The renderer\<close>

text \<open>The frames a run received from the queue, and those it transmitted.\<close>

fun received :: "env \<Rightarrow> call list \<Rightarrow> call list \<Rightarrow> u8 list list" where
  "received E tr [] = []"
| "received E tr (c # cs) =
     (if c = Rtos (XQueueReceive Led_frames) \<and> fst (E tr c) = pdTRUE then [map word_of_int (snd (E tr c))] else []) @
     received E (tr @ [c]) cs"

fun transmitted :: "call list \<Rightarrow> u8 list list" where
  "transmitted [] = []"
| "transmitted (c # cs) = (case c of Rmt (Rmt_transmit px _) \<Rightarrow> [px] | _ \<Rightarrow> []) @ transmitted cs"

lemma received_append: "received E tr (cs @ ds) = received E tr cs @ received E (tr @ cs) ds"
  by (induction cs arbitrary: tr) simp_all

lemma transmitted_append: "transmitted (cs @ ds) = transmitted cs @ transmitted ds"
  by (induction cs) simp_all

definition renders :: "env \<Rightarrow> 'a led_vars_scheme \<Rightarrow> 'a led_vars_scheme \<Rightarrow> bool" where
  "renders E w w' \<longleftrightarrow> (\<exists>cs. trace w' = trace w @ cs \<and> transmitted cs = received E (trace w) cs)"

lemma renders_trans: "renders E w w1 \<Longrightarrow> renders E w1 w2 \<Longrightarrow> renders E w w2"
  by (fastforce simp: renders_def received_append transmitted_append)

text \<open>The last call was a look at \<open>task_run\<close> that found it reset.\<close>

definition saw_stop :: "env \<Rightarrow> call list \<Rightarrow> bool" where
  "saw_stop E tr \<longleftrightarrow> tr \<noteq> [] \<and> last tr = Rtos (Read_task_run Led_renderer) \<and> fst (E (butlast tr) (last tr)) = 0"

lemma renderer_turn_renders:
  assumes "\<And>px. accepts E (Rmt (Rmt_transmit px 0))"
  shows "runs_to (renderer_turn E) w (\<lambda>_ w'. renders E w w')"
  using assms by (simp add: renderer_turn_def split_beta renders_def)

lemma renderer_loop_renders:
  assumes "\<And>px. accepts E (Rmt (Rmt_transmit px 0))"
  shows "runs_to (renderer_loop n E) w (\<lambda>left w'. renders E w w' \<and>
    (left \<longrightarrow> saw_stop E (trace w')))"
proof (induction n arbitrary: w)
  case 0
  then show ?case by (simp add: renders_def)
next
  case (Suc n)
  let ?w1 = "w\<lparr>trace := trace w @ [Rtos (Read_task_run Led_renderer)]\<rparr>"
  have r: "renders E w ?w1" by (simp add: renders_def)
  show ?case
  proof (cases "fst (E (trace w) (Rtos (Read_task_run Led_renderer))) = 0")
    case True
    then show ?thesis using r by (simp add: saw_stop_def)
  next
    case False
    have "runs_to (renderer_turn E) ?w1 (\<lambda>_ w2. runs_to (renderer_loop n E) w2 (\<lambda>left w'. renders E w w' \<and>
      (left \<longrightarrow> saw_stop E (trace w'))))"
      by (rule runs_to_mono [OF renderer_turn_renders [OF assms]], rule runs_to_mono [OF Suc.IH])
        (use renders_trans [OF r] renders_trans in blast)
    with False show ?thesis by simp
  qed
qed


text \<open>A queue that delivers one frame of four red LEDs, and a stop request after the first turn.\<close>

definition env_one_frame :: env where
  "env_one_frame tr c =
     (case c of
        Rtos (XQueueReceive Led_frames) \<Rightarrow> (1, concat (replicate 4 [0, 51, 0]))
      | Rtos (Read_task_run Led_renderer) \<Rightarrow> (if tr = [] then 1 else 0, [])
      | _ \<Rightarrow> (0, []))"


end
