(* ===== verification/Play_Mp3.thy ===== *)
theory Play_Mp3
  imports Led_Script
begin

text \<open>
  \<open>my_play_mp3.c\<close>: choosing one of the seven MP3 files linked into the firmware, feeding it to the
  decoder, and starting and stopping the audio pipeline. The contents of the files are a parameter
  (\<open>files\<close>, a list of seven byte lists); the pipeline is part of the environment.
\<close>

record mp3_vars = led_vars +
  marker_pos :: int
  marker_file :: nat
  next_music_file :: int

abbreviation (input) AEL_IO_DONE :: int where "AEL_IO_DONE \<equiv> -2"

text \<open>The start and end pointers of the marker are those of the file with the index stored here; an
  index outside the two tables is an access out of bounds.\<close>

definition set_next_file_marker :: "int \<Rightarrow> ('a mp3_vars_scheme, unit) prog" where
  "set_next_file_marker fileid0 =
     bind (if fileid0 = 0xF then
             bind (gets next_music_file) (\<lambda>n.
             bind (chk_int (n + 1)) (\<lambda>n.
             let n = (if n > 6 then 2 else n) in
             bind (modify (\<lambda>w. w\<lparr>next_music_file := n\<rparr>)) (\<lambda>_. return n)))
           else return fileid0) (\<lambda>fileid.
     let fileid = (if fileid < 0 \<or> fileid \<ge> 7 then 0 else fileid) in
     if 0 \<le> fileid \<and> fileid < 7
     then modify (\<lambda>w. w\<lparr>marker_file := nat fileid, marker_pos := 0\<rparr>)
     else fail Out_of_bounds)"

text \<open>The callback of the decoder: the bytes copied to its buffer, and the returned count.\<close>

definition mp3_music_read_cb :: "u8 list list \<Rightarrow> int \<Rightarrow> ('a mp3_vars_scheme, u8 list \<times> int) prog" where
  "mp3_music_read_cb files len =
     bind (gets (\<lambda>w. (files ! marker_file w, marker_pos w))) (\<lambda>(file, fpos).
     bind (chk_int (int (length file) - fpos)) (\<lambda>read_size.
     if read_size = 0 then return ([], AEL_IO_DONE)
     else
       let read_size = (if len < read_size then len else read_size) in
       if read_size < 0 \<or> fpos < 0 \<or> int (length file) < fpos + read_size then fail Out_of_bounds
       else
         bind (chk_int (fpos + read_size)) (\<lambda>fpos'.
         bind (modify (\<lambda>w. w\<lparr>marker_pos := fpos'\<rparr>)) (\<lambda>_.
         return (take (nat read_size) (drop (nat fpos) file), read_size)))))"

definition play_mp3_init :: "env \<Rightarrow> ('a world_scheme, unit) prog" where
  "play_mp3_init E =
     bind (call E (Adf Audio_pipeline_init)) (\<lambda>g_pipeline.
     if g_pipeline = 0 then fail Abort
     else block
       [emit E (Adf Mp3_decoder_init),
        emit E (Adf Audio_element_set_read_cb),
        emit E (Adf Raw_stream_init),
        emit E (Adf (Audio_pipeline_register ''mp3'')),
        emit E (Adf (Audio_pipeline_register ''raw'')),
        emit E (Adf (Audio_pipeline_link [''mp3'', ''raw'']))])"

definition play_mp3_deinit :: "env \<Rightarrow> ('a world_scheme, unit) prog" where
  "play_mp3_deinit E = block
     [emit E (Adf Audio_pipeline_stop),
      emit E (Adf Audio_pipeline_wait_for_stop),
      emit E (Adf Audio_pipeline_terminate),
      emit E (Adf (Audio_pipeline_unregister ''mp3'')),
      emit E (Adf (Audio_pipeline_unregister ''raw'')),
      emit E (Adf Audio_pipeline_deinit),
      emit E (Adf Audio_element_deinit)]"

definition play_mp3_start_pipeline :: "env \<Rightarrow> int \<Rightarrow> ('a mp3_vars_scheme, unit) prog" where
  "play_mp3_start_pipeline E fileid = block
     [emit E (Adf Audio_pipeline_stop),
      emit E (Adf Audio_pipeline_wait_for_stop),
      emit E (Adf Audio_pipeline_terminate),
      emit E (Adf Audio_pipeline_reset_ringbuffer),
      emit E (Adf Audio_pipeline_reset_elements),
      emit E (Adf Audio_pipeline_change_state_init),
      set_next_file_marker fileid,
      emit E (Adf Audio_pipeline_run)]"

text \<open>\<open>raw_stream_read\<close> answers the number of bytes, or an error below or equal to zero, and the bytes.\<close>

definition play_mp3_read_buffer :: "env \<Rightarrow> nat \<Rightarrow> ('a world_scheme, int \<times> u8 list) prog" where
  "play_mp3_read_buffer E buff_size =
     bind (ask E (Adf (Raw_stream_read buff_size))) (\<lambda>(r, d). return (r, map word_of_int d))"

section \<open>Selecting a file\<close>

text \<open>The static counter before any call is 1, and afterwards a music file's index or still 1.\<close>

definition playlist_inv :: "'a mp3_vars_scheme \<Rightarrow> bool" where
  "playlist_inv w \<longleftrightarrow> 1 \<le> next_music_file w \<and> next_music_file w \<le> 6"

definition next_song :: "int \<Rightarrow> int" where
  "next_song n = (if n = 6 then 2 else n + 1)"

text \<open>
  Whatever number a message asks for, a file is selected from its beginning and no table is
  read out of bounds: 0 to 6 select that file, 15 the next song, any other number file 0. The
  position in the playlist stays within 1 to 6 and only 15 moves it.
\<close>

theorem set_next_file_marker_selects:
  assumes "playlist_inv w"
  shows "runs_to (set_next_file_marker fileid) w (\<lambda>_ w'. playlist_inv w' \<and> marker_pos w' = 0 \<and>
    trace w' = trace w \<and>
    marker_file w' = (if fileid = 15 then nat (next_song (next_music_file w))
                      else if 0 \<le> fileid \<and> fileid \<le> 6 then nat fileid else 0) \<and>
    next_music_file w' = (if fileid = 15 then next_song (next_music_file w) else next_music_file w))"
  using assms
  by (auto simp: set_next_file_marker_def playlist_inv_def next_song_def is_int_def Let_def)

text \<open>\<open>n\<close> times \<open>play next music\<close>.\<close>

primrec next_songs :: "nat \<Rightarrow> ('a mp3_vars_scheme, nat list) prog" where
  "next_songs 0 = return []"
| "next_songs (Suc n) = bind (next_songs n) (\<lambda>l. bind (set_next_file_marker 15) (\<lambda>_.
     bind (gets marker_file) (\<lambda>f. return (l @ [f]))))"

lemma set_next_15:
  assumes "playlist_inv w"
  shows "set_next_file_marker 15 w = Inr ((), w\<lparr>next_music_file := next_song (next_music_file w),
     marker_file := nat (next_song (next_music_file w)), marker_pos := 0\<rparr>)"
  using assms by (auto simp: set_next_file_marker_def playlist_inv_def next_song_def prog_simps is_int_def Let_def)

text \<open>
  Asking for the next song plays the five music files in rotation, files 2 to 6, starting with
  file 2 after power-up; the two effect sounds are never part of it.
\<close>

theorem next_songs_rotate:
  assumes "next_music_file w = 1"
  shows "runs_to (next_songs n) w (\<lambda>l _. l = map (\<lambda>i. 2 + i mod 5) [0..<n])"
proof -
  have "runs_to (next_songs n) w (\<lambda>l w'. l = map (\<lambda>i. 2 + i mod 5) [0..<n] \<and>
      next_music_file w' = (if n = 0 then 1 else int (2 + (n - 1) mod 5)))"
  proof (induction n)
    case (Suc n)
    have step: "runs_to (bind (set_next_file_marker 15) (\<lambda>_. bind (gets marker_file) (\<lambda>f. return (l @ [f])))) w1
        (\<lambda>l w'. l = map (\<lambda>i. 2 + i mod 5) [0..<Suc n] \<and> next_music_file w' = int (2 + n mod 5))"
      if l: "l = map (\<lambda>i. 2 + i mod 5) [0..<n] \<and> next_music_file w1 = (if n = 0 then 1 else int (2 + (n - 1) mod 5))"
      for l and w1 :: "'a mp3_vars_scheme"
    proof -
      have "(n - 1) mod 5 < 5" by simp
      then have inv: "playlist_inv w1" using l by (auto simp: playlist_inv_def)
      have "next_song (next_music_file w1) = int (2 + n mod 5)"
        using l by (cases n) (auto simp: next_song_def mod_Suc)
      then show ?thesis using l by (simp add: runs_to_def prog_simps set_next_15 [OF inv] nat_add_distrib nat_mod_distrib)
    qed
    show ?case unfolding next_songs.simps by (rule runs_to_bindI [OF Suc.IH]) (use step in simp)
  qed (simp add: assms)
  then show ?thesis by (rule runs_to_mono) simp
qed

section \<open>Feeding the decoder\<close>

primrec mp3_reads :: "u8 list list \<Rightarrow> int list \<Rightarrow> ('a mp3_vars_scheme, u8 list) prog" where
  "mp3_reads files [] = return []"
| "mp3_reads files (l # ls) =
     bind (mp3_music_read_cb files l) (\<lambda>(d, _). bind (mp3_reads files ls) (\<lambda>ds. return (d @ ds)))"

lemma mp3_music_read_cb_run:
  assumes "marker_pos w = int p" "p \<le> length (files ! marker_file w)"
    "int (length (files ! marker_file w)) \<le> INT_MAX" "0 < len"
  shows "mp3_music_read_cb files len w =
    (let rest = drop p (files ! marker_file w); d = take (nat len) rest
     in if rest = [] then Inr (([], AEL_IO_DONE), w)
        else Inr ((d, int (length d)), w\<lparr>marker_pos := int (p + length d)\<rparr>))"
proof (cases "length (files ! marker_file w) = p")
  case True
  then show ?thesis using assms by (simp add: mp3_music_read_cb_def prog_simps is_int_def)
next
  case False
  define n where "n = length (files ! marker_file w)"
  have n: "p < n" "int n \<le> INT_MAX" using False assms by (simp_all add: n_def)
  have len: "int (length (take (nat len) (drop p (files ! marker_file w)))) = min len (int n - int p)"
    using assms(4) n by (simp add: n_def [symmetric] min_def of_nat_diff) arith
  have rs: "(if len < int n - int p then len else int n - int p) = min len (int n - int p)" by (simp add: min_def)
  have k: "0 < min len (int n - int p)" "int p + min len (int n - int p) \<le> int n"
    "is_int (int n - int p)" "is_int (int p + min len (int n - int p))"
    using n assms(4) by (auto simp: min_def is_int_def)
  have t: "take (nat (min len (int n - int p))) (drop p (files ! marker_file w)) = take (nat len) (drop p (files ! marker_file w))"
    using n(1) by (cases "len \<le> int n - int p") (simp_all add: min_def n_def [symmetric])
  show ?thesis
    unfolding mp3_music_read_cb_def
    using n k t len by (simp add: prog_simps assms(1) n_def [symmetric] rs Let_def not_less)
qed

text \<open>
  C34. The decoder is fed the selected file: however it sizes its reads, the bytes delivered, put
  together, are the file from the current position on, each byte once and in order; when the file
  is used up every further read reports the end of input.
\<close>

theorem mp3_reads_stream:
  assumes "marker_pos w = int p" "p \<le> length (files ! marker_file w)"
    "int (length (files ! marker_file w)) \<le> INT_MAX" "list_all (\<lambda>l. 0 < l) lens"
  shows "runs_to (mp3_reads files lens) w (\<lambda>ds w'.
    ds = take (nat (sum_list lens)) (drop p (files ! marker_file w)) \<and>
    (nat (sum_list lens) \<ge> length (files ! marker_file w) - p \<longrightarrow>
       mp3_music_read_cb files 1 w' = Inr (([], AEL_IO_DONE), w')))"
  using assms
proof (induction lens arbitrary: w p)
  case Nil
  then show ?case using mp3_music_read_cb_run [of w p files 1] by simp
next
  case (Cons l ls)
  define rest where "rest = drop p (files ! marker_file w)"
  define d where "d = take (nat l) rest"
  define w1 where "w1 = (if rest = [] then w else w\<lparr>marker_pos := int (p + length d)\<rparr>)"
  have l: "0 < l" "0 \<le> sum_list ls"
    using Cons.prems(4) by (auto simp: list_all_iff intro!: sum_list_nonneg)
  then have s: "nat (l + sum_list ls) = nat l + nat (sum_list ls)" by (simp add: nat_add_distrib)
  have run: "\<exists>c. mp3_music_read_cb files l w = Inr ((d, c), w1)"
    using mp3_music_read_cb_run [OF Cons.prems(1-3) l(1)] by (auto simp: rest_def d_def w1_def Let_def)
  have w1: "marker_pos w1 = int (p + length d)" "marker_file w1 = marker_file w"
    using Cons.prems(1) by (auto simp: w1_def d_def)
  have le: "p + length d \<le> length (files ! marker_file w)" using Cons.prems(2) by (auto simp: d_def rest_def)
  have dr: "drop (p + length d) (files ! marker_file w) = drop (nat l) rest"
    by (cases "nat l \<le> length rest") (simp_all add: d_def rest_def add.commute min_def)
  note ih = Cons.IH [of w1 "p + length d", unfolded w1(2), OF w1(1) le Cons.prems(3)]
  have "runs_to (mp3_reads files ls) w1 (\<lambda>ds w'.
      d @ ds = take (nat (sum_list (l # ls))) rest \<and>
      (nat (sum_list (l # ls)) \<ge> length (files ! marker_file w) - p \<longrightarrow>
         mp3_music_read_cb files 1 w' = Inr (([], AEL_IO_DONE), w')))"
  proof (rule runs_to_mono [OF ih])
    show "list_all (\<lambda>l. 0 < l) ls" using Cons.prems(4) by simp
  next
    fix ds w'
    assume "ds = take (nat (sum_list ls)) (drop (p + length d) (files ! marker_file w)) \<and>
      (nat (sum_list ls) \<ge> length (files ! marker_file w) - (p + length d) \<longrightarrow>
         mp3_music_read_cb files 1 w' = Inr (([], AEL_IO_DONE), w'))"
    then show "d @ ds = take (nat (sum_list (l # ls))) rest \<and>
      (nat (sum_list (l # ls)) \<ge> length (files ! marker_file w) - p \<longrightarrow>
         mp3_music_read_cb files 1 w' = Inr (([], AEL_IO_DONE), w'))"
      unfolding dr by (auto simp: s take_add d_def rest_def)
  qed
  then show ?case using run by (auto simp: runs_to_def bind_run return_run rest_def split: sum.splits)
qed

definition mp3_w0 :: mp3_vars where
  "mp3_w0 = led_vars.extend led_w0 \<lparr>marker_pos = 0, marker_file = 1, next_music_file = 1\<rparr>"

theorem set_next_file_marker_selects_witness:
  "runs_to (set_next_file_marker 15) mp3_w0 (\<lambda>_ w'. marker_file w' = 2) \<and>
   runs_to (set_next_file_marker (-7)) mp3_w0 (\<lambda>_ w'. marker_file w' = 0)"
proof -
  have "playlist_inv mp3_w0" by (simp add: playlist_inv_def mp3_w0_def led_vars.defs)
  note sel = set_next_file_marker_selects [OF this]
  have "next_music_file mp3_w0 = 1" by (simp add: mp3_w0_def led_vars.defs)
  then show ?thesis
    by (intro conjI runs_to_mono [OF sel [of 15]] runs_to_mono [OF sel [of "-7"]]) (simp_all add: next_song_def)
qed

theorem next_songs_rotate_witness:
  "runs_to (next_songs 7) mp3_w0 (\<lambda>l _. l = [2, 3, 4, 5, 6, 2, 3])"
proof -
  have m: "map (\<lambda>i. 2 + i mod 5) [0..<7] = [2, 3, 4, 5, 6, 2, 3 :: nat]" by code_simp
  have "next_music_file mp3_w0 = 1" by (simp add: mp3_w0_def led_vars.defs)
  from next_songs_rotate [OF this, of 7] show ?thesis unfolding m .
qed

definition files0 :: "u8 list list" where
  "files0 = [[], [1, 2, 3, 4, 5]]"

theorem mp3_reads_stream_witness:
  "runs_to (mp3_reads files0 [2, 2, 2]) mp3_w0 (\<lambda>ds w'. ds = [1, 2, 3, 4, 5])"
  by (rule runs_to_mono [OF mp3_reads_stream [of mp3_w0 0 files0 "[2, 2, 2]"]])
    (simp_all add: mp3_w0_def led_vars.defs files0_def)

end
