(* ===== verification/Synth.thy ===== *)
theory Synth
  imports Utils
begin

text \<open>
  The pure functions of \<open>sound.c\<close>: interpolation, the ADSR envelope, one sample of the sawtooth and
  the note tables. \<open>float\<close> values are rationals rounded to single precision after each operation,
  intermediate \<open>double\<close> values to double precision.
\<close>

section \<open>The synthesiser\<close>

definition lerp :: "rat \<Rightarrow> rat \<Rightarrow> rat \<Rightarrow> rat \<Rightarrow> rat \<Rightarrow> rat" where
  "lerp x x1 x2 y1 y2 = f32 (y1 + f32 (f32 (f32 (x - x1) * f32 (y2 - y1)) / f32 (x2 - x1)))"

definition attackTime :: rat where "attackTime = f32 (1 / 100)"
definition decayTime :: rat where "decayTime = f32 (1 / 10)"
definition sustainGain :: rat where "sustainGain = f32 (8 / 10)"
definition releaseTime :: rat where "releaseTime = f32 (1 / 10)"

definition adsr :: "rat \<Rightarrow> rat \<Rightarrow> rat \<Rightarrow> rat" where
  "adsr sample t duration =
     (if t < attackTime then f32 (sample * lerp t 0 attackTime 0 1)
      else if t < f32 (attackTime + decayTime)
      then f32 (sample * lerp t attackTime (f32 (attackTime + decayTime)) 1 sustainGain)
      else if t < f32 (duration - releaseTime) then f32 (sample * sustainGain)
      else f32 (sample * lerp t (f32 (duration - releaseTime)) duration sustainGain 0))"

text \<open>The value of one tick; \<open>None\<close> is a conversion to \<open>int16_t\<close> that it cannot hold.\<close>

definition saw_out :: "rat \<Rightarrow> rat \<Rightarrow> rat \<Rightarrow> rat \<Rightarrow> int option" where
  "saw_out freq inv_freq duration t =
     (let md = f32 (fmod (f64 (t + f64 (inv_freq / 2))) inv_freq);
          out = f32 (f64 (f64 (f64 (2 * freq) * md) - 1));
          x = trunc_rat (f32 (5000 * adsr out t duration))
      in if -32768 \<le> x \<and> x \<le> 32767 then Some x else None)"

definition g_note_normal :: "rat list" where
  "g_note_normal = map f32 [261626/1000, 293665/1000, 329628/1000, 349228/1000, 391995/1000, 440, 493883/1000]"

definition g_note_high :: "rat list" where
  "g_note_high = map f32 [523251/1000, 58733/100, 659255/1000, 698456/1000, 783991/1000, 880, 987767/1000]"

definition g_note_low :: "rat list" where
  "g_note_low = map f32 [130813/1000, 146832/1000, 164814/1000, 174614/1000, 195998/1000, 220, 246942/1000]"

text \<open>The characters of a label; reading on is reading its NUL.\<close>

definition char_at :: "string \<Rightarrow> nat \<Rightarrow> int" where
  "char_at s i = (if i < length s then int (of_char (s ! i)) else 0)"

definition note_to_freq :: "string \<Rightarrow> rat" where
  "note_to_freq note =
     (let (idx, notes_table) =
        (if char_at note 0 = 46 then (char_at note 1 - 49, g_note_low)
         else (char_at note 0 - 49, if char_at note 1 = 46 then g_note_high else g_note_normal))
      in if 0 \<le> idx \<and> idx < 7 then notes_table ! nat idx else 0)"

section \<open>The envelope\<close>

lemma f32_unit: "0 \<le> x \<Longrightarrow> x \<le> 1 \<Longrightarrow> 0 \<le> f32 x \<and> f32 x \<le> 1"
  using fl_le_of_int [of 24 1 x] fl_nonneg [of 24 x] by simp

lemma f32_minus_unit: "-1 \<le> x \<Longrightarrow> x \<le> 0 \<Longrightarrow> -1 \<le> f32 x \<and> f32 x \<le> 0"
  using f32_unit [of "- x"] by (simp add: fl_minus)

text \<open>The interpolated slope: a step \<open>x\<close> of at most \<open>w\<close>, times a rise of at most one, over \<open>w\<close>.\<close>

lemma slope_bounds:
  assumes "0 \<le> x" "x \<le> w" "0 < w" "f32 w = w" "-1 \<le> y" "y \<le> 0"
  shows "-1 \<le> f32 (f32 (x * y) / w) \<and> f32 (f32 (x * y) / w) \<le> 0"
proof -
  have "x * y \<le> 0" using assms by (simp add: mult_nonneg_nonpos)
  then have a: "f32 (x * y) \<le> 0" using fl_le_of_int [of 24 0 "x * y"] by simp
  have "x * (- y) \<le> w * 1" by (rule mult_mono) (use assms in auto)
  then have "- w \<le> x * y" by simp
  then have "f32 (- w) \<le> f32 (x * y)" by (rule fl_mono [rotated]) simp
  then have b: "- w \<le> f32 (x * y)" using assms(4) by (simp add: fl_minus)
  have "-1 \<le> f32 (x * y) / w" "f32 (x * y) / w \<le> 0"
    using a b assms(3) by (simp_all add: field_simps divide_nonpos_pos)
  then show ?thesis by (rule f32_minus_unit)
qed

lemma envelope_consts:
  "0 < attackTime" "f32 attackTime = attackTime" "attackTime < f32 (attackTime + decayTime)"
  "0 \<le> sustainGain" "sustainGain \<le> 1" "f32 (sustainGain - 1) = sustainGain - 1" "f32 (- sustainGain) = - sustainGain"
proof -
  show "f32 attackTime = attackTime" by (simp add: attackTime_def fl_idem)
  show "f32 (- sustainGain) = - sustainGain" by (simp add: sustainGain_def fl_idem fl_minus)
  show "0 < attackTime" "attackTime < f32 (attackTime + decayTime)" "0 \<le> sustainGain" "sustainGain \<le> 1"
    "f32 (sustainGain - 1) = sustainGain - 1"
    by code_simp+
qed

text \<open>The factor the envelope applies to a sample.\<close>

definition gain :: "rat \<Rightarrow> rat \<Rightarrow> rat" where
  "gain t duration =
     (if t < attackTime then lerp t 0 attackTime 0 1
      else if t < f32 (attackTime + decayTime) then lerp t attackTime (f32 (attackTime + decayTime)) 1 sustainGain
      else if t < f32 (duration - releaseTime) then sustainGain
      else lerp t (f32 (duration - releaseTime)) duration sustainGain 0)"

lemma adsr_gain: "adsr sample t duration = f32 (sample * gain t duration)"
  by (simp add: adsr_def gain_def)

lemma gain_bounds:
  assumes "0 \<le> t" "t < duration"
  shows "\<bar>gain t duration\<bar> \<le> 1"
proof -
  note c = envelope_consts
  consider (attack) "t < attackTime"
    | (decay) "attackTime \<le> t" "t < f32 (attackTime + decayTime)"
    | (sustain) "f32 (attackTime + decayTime) \<le> t" "t < f32 (duration - releaseTime)"
    | (release) "f32 (attackTime + decayTime) \<le> t" "f32 (duration - releaseTime) \<le> t"
    using c(3) by (cases "t < attackTime"; cases "t < f32 (attackTime + decayTime)";
        cases "t < f32 (duration - releaseTime)") (auto simp: not_less)
  then show ?thesis
  proof cases
    case attack
    have one: "f32 1 = 1" using fl_of_int [of 24 1] by simp
    have "f32 t \<le> attackTime" using fl_mono [of 24 t attackTime] attack c(2) by simp
    moreover have "0 \<le> f32 t" using assms(1) by (simp add: fl_nonneg)
    ultimately have r: "0 \<le> f32 t / attackTime" "f32 t / attackTime \<le> 1" using c(1) by simp_all
    have "gain t duration = f32 (f32 (f32 t / attackTime))"
      using attack by (simp add: gain_def lerp_def one fl_idem c(2))
    then show ?thesis using f32_unit [OF r] by (simp add: fl_idem)
  next
    case decay
    define w where "w = f32 (f32 (attackTime + decayTime) - attackTime)"
    have w: "0 < w" "f32 w = w" using c(3) by (simp_all add: w_def fl_pos fl_idem)
    have x: "0 \<le> f32 (t - attackTime)" "f32 (t - attackTime) \<le> w"
      using decay fl_mono [of 24 "t - attackTime"] by (simp_all add: w_def fl_nonneg)
    note s = slope_bounds [OF x w, of "sustainGain - 1"]
    have "gain t duration = f32 (1 + f32 (f32 (f32 (t - attackTime) * (sustainGain - 1)) / w))"
      using decay by (simp add: gain_def lerp_def c(6) w_def)
    then show ?thesis using s f32_unit [of "1 + f32 (f32 (f32 (t - attackTime) * (sustainGain - 1)) / w)"] c by simp
  next
    case sustain
    then show ?thesis using c by (simp add: gain_def)
  next
    case release
    let ?s = "f32 (duration - releaseTime)"
    define w where "w = f32 (duration - ?s)"
    have w: "0 < w" "f32 w = w" using release assms(2) by (simp_all add: w_def fl_pos fl_idem)
    have x: "0 \<le> f32 (t - ?s)" "f32 (t - ?s) \<le> w"
      using release assms(2) fl_mono [of 24 "t - ?s" "duration - ?s"] by (simp_all add: w_def fl_nonneg)
    define q where "q = f32 (f32 (f32 (t - ?s) * (- sustainGain)) / w)"
    have q: "-1 \<le> q" "q \<le> 0" using slope_bounds [OF x w, of "- sustainGain"] c by (simp_all add: q_def)
    have g: "gain t duration = f32 (sustainGain + q)"
      using release c(3) by (simp add: gain_def lerp_def c(7) w_def q_def)
    have "-1 \<le> sustainGain + q" "sustainGain + q \<le> 1" using q c by linarith+
    then show ?thesis
      unfolding g using fl_ge_of_int [of 24 "-1" "sustainGain + q"] fl_le_of_int [of 24 1 "sustainGain + q"]
      by (simp add: abs_le_iff)
  qed
qed

section \<open>One sample\<close>

definition inv_freq :: "rat \<Rightarrow> rat" where
  "inv_freq freq = f32 (f64 (1 / freq))"

lemma inv_freq_bounds:
  assumes "0 < freq"
  shows "0 < inv_freq freq" "freq * inv_freq freq \<le> 1 + 1 / 10 ^ 7" "f32 (inv_freq freq) = inv_freq freq"
proof -
  define i where "i = f64 (1 / freq)"
  have i: "0 < i" using assms by (simp add: i_def fl_pos)
  then show "0 < inv_freq freq" by (simp add: inv_freq_def i_def [symmetric] fl_pos)
  have "\<bar>i - 1 / freq\<bar> \<le> 1 / freq / 2 ^ 53" using fl_error [of 53 "1 / freq"] assms by (simp add: i_def)
  then have "i \<le> 1 / freq * (1 + 1 / 2 ^ 53)" unfolding abs_le_iff by (simp add: field_simps)
  then have fi: "freq * i \<le> 1 + 1 / 2 ^ 53" using assms by (simp add: field_simps)
  have "\<bar>inv_freq freq - i\<bar> \<le> i / 2 ^ 24"
    using fl_error [of 24 i] i by (simp add: inv_freq_def i_def [symmetric])
  then have "inv_freq freq \<le> i * (1 + 1 / 2 ^ 24)" unfolding abs_le_iff by (simp add: field_simps)
  then have "freq * inv_freq freq \<le> freq * (i * (1 + 1 / 2 ^ 24))" using assms by (simp add: mult_left_mono)
  also have "\<dots> = freq * i * (1 + 1 / 2 ^ 24)" by (simp add: algebra_simps)
  also have "\<dots> \<le> (1 + 1 / 2 ^ 53) * (1 + 1 / 2 ^ 24)" by (rule mult_right_mono [OF fi]) simp
  also have "\<dots> \<le> 1 + 1 / 10 ^ 7" by simp
  finally show "freq * inv_freq freq \<le> 1 + 1 / 10 ^ 7" .
  show "f32 (inv_freq freq) = inv_freq freq" by (simp add: inv_freq_def fl_idem)
qed

lemma fl_small_error: "\<bar>x\<bar> \<le> b \<Longrightarrow> \<bar>fl p x - x\<bar> \<le> b / 2 ^ p"
  using fl_error [of p x] divide_right_mono [of "\<bar>x\<bar>" b "2 ^ p"] by simp

lemma saw_raw_bounds:
  assumes "0 < freq" "0 \<le> md" "md \<le> inv_freq freq"
  shows "\<bar>f32 (f64 (f64 (f64 (2 * freq) * md) - 1))\<bar> \<le> 1 + 1 / 10 ^ 6"
proof -
  define f where "f = f64 (2 * freq)"
  have "\<bar>f - 2 * freq\<bar> \<le> 2 * freq / 2 ^ 53" using fl_error [of 53 "2 * freq"] assms(1) by (simp add: f_def)
  then have f: "0 \<le> f" "f \<le> 2 * freq * (1 + 1 / 2 ^ 53)"
    using assms(1) unfolding abs_le_iff by (simp_all add: f_def fl_nonneg field_simps)
  have "f * md \<le> 2 * freq * (1 + 1 / 2 ^ 53) * inv_freq freq"
    by (rule mult_mono) (use f assms in auto)
  also have "\<dots> = 2 * (1 + 1 / 2 ^ 53) * (freq * inv_freq freq)" by simp
  also have "\<dots> \<le> 2 * (1 + 1 / 2 ^ 53) * (1 + 1 / 10 ^ 7)"
    by (rule mult_left_mono) (use inv_freq_bounds(2) [OF assms(1)] in auto)
  also have "\<dots> \<le> 2 + 3 / 10 ^ 7" by simp
  finally have fm: "0 \<le> f * md" "f * md \<le> 2 + 3 / 10 ^ 7" using f assms(2) by simp_all
  define g where "g = f64 (f * md)"
  have g: "\<bar>g - f * md\<bar> \<le> 3 / 2 ^ 53" unfolding g_def by (rule fl_small_error) (use fm in simp)
  have g0: "0 \<le> g" using fm by (simp add: g_def fl_nonneg)
  define h where "h = f64 (g - 1)"
  have "\<bar>h - (g - 1)\<bar> \<le> 3 / 2 ^ 53"
    unfolding h_def by (rule fl_small_error) (use g g0 fm in \<open>simp add: abs_if split: if_splits\<close>)
  then have h1: "h \<le> 1 + 4 / 10 ^ 7" using g fm unfolding abs_le_iff by simp
  have h2: "-1 \<le> h" using fl_ge_of_int [of 53 "-1" "g - 1"] g0 by (simp add: h_def)
  have "\<bar>f32 h - h\<bar> \<le> (1 + 4 / 10 ^ 7) / 2 ^ 24" by (rule fl_small_error) (use h1 h2 in \<open>simp add: abs_le_iff\<close>)
  then have "f32 h \<le> 1 + 1 / 10 ^ 6" using h1 unfolding abs_le_iff by simp
  moreover have "-1 \<le> f32 h" using fl_ge_of_int [of 24 "-1" h] h2 by simp
  ultimately show ?thesis by (simp add: h_def g_def f_def abs_le_iff)
qed

text \<open>
  No tick of a note overflows its sample: for every positive frequency and every time within
  the note the sawtooth, after envelope and all roundings, is a 16-bit sample of magnitude at most
  5000.
\<close>

lemma saw_out_bounds:
  assumes "0 < freq" "0 \<le> t" "t < duration"
  shows "\<exists>x. saw_out freq (inv_freq freq) duration t = Some x \<and> \<bar>x\<bar> \<le> 5000"
proof -
  define i where "i = inv_freq freq"
  note i = inv_freq_bounds [OF assms(1), folded i_def]
  define md where "md = f32 (fmod (f64 (t + f64 (i / 2))) i)"
  have "0 \<le> f64 (t + f64 (i / 2))" using assms(2) i(1) by (simp add: fl_nonneg)
  then have "0 \<le> fmod (f64 (t + f64 (i / 2))) i \<and> fmod (f64 (t + f64 (i / 2))) i < i"
    using i(1) by (rule fmod_bounds)
  then have md: "0 \<le> md" "md \<le> i"
    using fl_mono [of 24 "fmod (f64 (t + f64 (i / 2))) i" i] i(3) by (simp_all add: md_def fl_nonneg)
  define out where "out = f32 (f64 (f64 (f64 (2 * freq) * md) - 1))"
  have out: "\<bar>out\<bar> \<le> 1 + 1 / 10 ^ 6"
    unfolding out_def by (rule saw_raw_bounds) (use assms(1) md i_def in auto)
  define a where "a = out * gain t duration"
  have "\<bar>a\<bar> \<le> (1 + 1 / 10 ^ 6) * 1"
    unfolding a_def abs_mult by (rule mult_mono) (use out gain_bounds [OF assms(2,3)] in auto)
  then have a: "\<bar>a\<bar> \<le> 1 + 1 / 10 ^ 6" by simp
  have b: "\<bar>f32 a\<bar> \<le> 1 + 2 / 10 ^ 6"
    using fl_small_error [OF a, of 24] a by (simp add: abs_if split: if_splits)
  then have "\<bar>5000 * f32 a\<bar> \<le> 5001" by (simp add: abs_mult)
  from fl_small_error [OF this, of 24] have "\<bar>f32 (5000 * f32 a)\<bar> < 5001" using b by (simp add: abs_if split: if_splits)
  then have "\<bar>trunc_rat (f32 (5000 * f32 a))\<bar> \<le> 5000" by (auto simp: trunc_rat_def abs_if split: if_splits) linarith+
  moreover have "saw_out freq i duration t = (let x = trunc_rat (f32 (5000 * f32 a)) in
      if -32768 \<le> x \<and> x \<le> 32767 then Some x else None)"
    by (simp only: saw_out_def Let_def adsr_gain md_def [symmetric] out_def [symmetric] a_def [symmetric])
  ultimately show ?thesis by (auto simp: i_def Let_def)
qed

section \<open>Notes\<close>

lemma note_tables_range:
  "list_all (\<lambda>f. 130 < f \<and> f < 988) (g_note_low @ g_note_normal @ g_note_high)"
  by code_simp

lemma note_to_freq_range: "note_to_freq label = 0 \<or> 130 < note_to_freq label \<and> note_to_freq label < 988"
proof -
  have l: "length g_note_low = 7" "length g_note_normal = 7" "length g_note_high = 7"
    by (simp_all add: g_note_low_def g_note_normal_def g_note_high_def)
  have "130 < t ! nat i \<and> t ! nat i < 988"
    if "t \<in> {g_note_low, g_note_normal, g_note_high}" "0 \<le> i" "i < 7" for t i
  proof -
    have "t ! nat i \<in> set t" using that l by (intro nth_mem) auto
    then show ?thesis using that(1) note_tables_range by (auto simp: list_all_iff)
  qed
  then show ?thesis unfolding note_to_freq_def Let_def by auto
qed

text \<open>The time of a tick and the length of a note of \<open>b\<close> beats, as the code computes them.\<close>

definition tick_time :: "int \<Rightarrow> rat" where
  "tick_time i = f32 (f32 (of_int i) / 16000)"

definition note_duration :: "int \<Rightarrow> rat" where
  "note_duration b = f32 (f64 (f32 (of_int b) * BEAT_DURATION))"

lemma tick_time_bounds:
  assumes "0 \<le> i" "i \<le> 16000000"
  shows "\<bar>tick_time i - of_int i / 16000\<bar> \<le> of_int i / 16000 / 2 ^ 24" "0 \<le> tick_time i"
proof -
  have "f32 (of_int i) = of_int i" by (rule fl_of_int) (use assms in auto)
  then show "\<bar>tick_time i - of_int i / 16000\<bar> \<le> of_int i / 16000 / 2 ^ 24" "0 \<le> tick_time i"
    using fl_error [of 24 "of_int i / 16000"] assms by (simp_all add: tick_time_def fl_nonneg)
qed

lemma tick_time_mono: "i \<le> j \<Longrightarrow> tick_time i \<le> tick_time j"
  unfolding tick_time_def by (intro fl_mono divide_right_mono) simp_all

lemma note_duration_bounds:
  assumes "0 < b" "b \<le> 800"
  shows "\<bar>note_duration b - of_int b * 6 / 10\<bar> \<le> of_int b / 2 ^ 24"
proof -
  define c where "c = (of_int b :: rat)"
  define x where "x = f64 (c * BEAT_DURATION)"
  have c: "1 \<le> c" "c \<le> 800" using assms unfolding c_def by linarith+
  have B: "BEAT_DURATION = 5404319552844595 / 9007199254740992" by code_simp
  have f: "f32 (of_int b) = c" unfolding c_def by (rule fl_of_int) (use assms in auto)
  have "\<bar>x - c * BEAT_DURATION\<bar> \<le> c * BEAT_DURATION / 9007199254740992"
    using fl_error [of 53 "c * BEAT_DURATION"] c by (simp add: B abs_mult x_def)
  then have x: "\<bar>x - c * 6 / 10\<bar> \<le> c / 4503599627370496" using c unfolding B abs_le_iff by linarith
  then have xp: "0 \<le> x" "x \<le> c * 7 / 10" using c unfolding abs_le_iff by linarith+
  have "\<bar>f32 x - x\<bar> \<le> x / 16777216" using fl_error [of 24 x] xp by simp
  then have "\<bar>f32 x - c * 6 / 10\<bar> \<le> c / 16777216" using x xp c unfolding abs_le_iff by linarith
  then show ?thesis by (simp add: note_duration_def f x_def c_def)
qed

definition note_len :: "int \<Rightarrow> int" where
  "note_len b = (if note_duration b \<le> tick_time (9600 * b) then 9600 * b else 9600 * b + 1)"

text \<open>
  A note keeps the beat: a note of 1 to 600 beats ends after 9600 samples per beat, which is
  600 ms at 16 kHz, or after one sample more, whatever the rounding of time and duration in single
  precision; every earlier tick is within the note.
\<close>

lemma note_length:
  assumes "0 < b" "b \<le> 600" "0 \<le> i"
  shows "note_len b \<in> {9600 * b, 9600 * b + 1} \<and> (tick_time i < note_duration b \<longleftrightarrow> i < note_len b)"
proof -
  define c where "c = (of_int b :: rat)"
  have c: "1 \<le> c" "c \<le> 600" using assms unfolding c_def by linarith+
  have d: "c * 6 / 10 - c / 16777216 \<le> note_duration b" "note_duration b \<le> c * 6 / 10 + c / 16777216"
    using note_duration_bounds [of b] assms unfolding c_def abs_le_iff by simp_all
  have n: "of_int (9600 * b - 1) = 9600 * c - 1" "of_int (9600 * b + 1) = 9600 * c + 1" by (simp_all add: c_def)
  have t: "tick_time (9600 * b - 1) - (9600 * c - 1) / 16000 \<le> (9600 * c - 1) / 16000 / 16777216"
    "(9600 * c + 1) / 16000 - tick_time (9600 * b + 1) \<le> (9600 * c + 1) / 16000 / 16777216"
    using tick_time_bounds(1) [of "9600 * b - 1"] tick_time_bounds(1) [of "9600 * b + 1"] assms(1,2)
    unfolding n abs_le_iff by simp_all
  have lo: "tick_time (9600 * b - 1) < note_duration b" using t(1) d(1) c
    unfolding diff_divide_distrib add_divide_distrib by linarith
  have hi: "note_duration b \<le> tick_time (9600 * b + 1)" using t(2) d(2) c
    unfolding diff_divide_distrib add_divide_distrib by linarith
  have "tick_time i < note_duration b \<longleftrightarrow> i < note_len b"
  proof (cases "i \<le> 9600 * b - 1")
    case True
    then show ?thesis using tick_time_mono [OF True] lo by (auto simp: note_len_def)
  next
    case False
    show ?thesis
    proof (cases "i = 9600 * b")
      case True
      then show ?thesis by (auto simp: note_len_def)
    next
      case f: False
      then have "9600 * b + 1 \<le> i" using False by simp
      then show ?thesis using tick_time_mono [of "9600 * b + 1" i] hi by (auto simp: note_len_def)
    qed
  qed
  then show ?thesis by (simp add: note_len_def)
qed

end
