(* ===== verification/Sound.thy ===== *)
theory Sound
  imports Play_Mp3 Synth
begin

text \<open>
  \<open>sound.c\<close> without its pure functions: the ticks of a note, the task that plays a note script,
  the task that plays an MP3 file, their handles and the initialisation of the I2S channel. Both tasks use one static buffer, the notes task
  as 800 samples and the MP3 task as bytes; each holds the I2S mutex while it does, so the two views
  are separate here.
\<close>

section \<open>State\<close>

record sound_vars = mp3_vars +
  g_sample_rate :: rat
  g_freq :: rat
  g_inv_freq :: rat
  g_tick_idx :: int
  g_duration :: rat
  g_i2s_data_buffer :: "int list"
  notes_args :: cstr
  mp3_fileid :: int
  g_data_listen_cb :: bool

abbreviation (input) BUFF_SIZE :: nat where "BUFF_SIZE \<equiv> 800"
abbreviation (input) READ_LEN :: nat where "READ_LEN \<equiv> 1024"

section \<open>Ticks\<close>

definition saw_reset :: "rat \<Rightarrow> rat \<Rightarrow> ('a sound_vars_scheme, unit) prog" where
  "saw_reset freq beat_cnt = modify (\<lambda>w. w\<lparr>g_sample_rate := 16000, g_freq := freq,
     g_inv_freq := f32 (f64 (1 / freq)), g_tick_idx := 0, g_duration := f32 (f64 (beat_cnt * BEAT_DURATION))\<rparr>)"

text \<open>\<open>saw_tick\<close> returns \<open>None\<close> for its result 0 and the stored sample for its result 1.\<close>

definition saw_tick :: "('a sound_vars_scheme, int option) prog" where
  "saw_tick =
     bind (gets (\<lambda>w. w)) (\<lambda>w.
     let t = f32 (f32 (of_int (g_tick_idx w)) / g_sample_rate w) in
     if t \<ge> g_duration w then return None
     else (case saw_out (g_freq w) (g_inv_freq w) (g_duration w) t of
         None \<Rightarrow> fail Bad_conversion
       | Some tick_out \<Rightarrow>
           bind (chk_int (g_tick_idx w + 1)) (\<lambda>i.
           bind (modify (\<lambda>w. w\<lparr>g_tick_idx := i\<rparr>)) (\<lambda>_. return (Some tick_out)))))"

section \<open>The notes task\<close>

text \<open>The inner loop that fills the buffer: \<open>k\<close> is \<open>BUFF_SIZE - bf_size\<close>. The results are
  \<open>bf_size\<close> and \<open>tick_ret\<close>.\<close>

primrec fill_notes :: "nat \<Rightarrow> env \<Rightarrow> nat \<Rightarrow> bool \<Rightarrow> ('a sound_vars_scheme, nat \<times> bool) prog" where
  "fill_notes 0 E bf_size tick_ret = return (bf_size, tick_ret)"
| "fill_notes (Suc k) E bf_size tick_ret =
     bind (read_task_run E Play_notes) (\<lambda>run.
     if \<not> run then return (bf_size, tick_ret)
     else bind saw_tick (\<lambda>r.
       case r of
         None \<Rightarrow> return (bf_size, False)
       | Some v \<Rightarrow>
           bind (gets g_i2s_data_buffer) (\<lambda>buf.
           bind (store bf_size v buf) (\<lambda>buf.
           bind (modify (\<lambda>w. w\<lparr>g_i2s_data_buffer := buf\<rparr>)) (\<lambda>_.
           fill_notes k E (bf_size + 1) True)))))"

text \<open>A write to the I2S channel as both tasks do it: an error or a write of nothing aborts.\<close>

definition i2s_write :: "env \<Rightarrow> call \<Rightarrow> ('a world_scheme, int) prog" where
  "i2s_write E c =
     bind (ask E c) (\<lambda>(ret, d).
     let bytes_write = (case d of [] \<Rightarrow> 0 | n # _ \<Rightarrow> n) in
     if ret \<noteq> ESP_OK then fail Abort
     else if bytes_write > 0 then return bytes_write
     else fail Abort)"

lemma i2s_write_run [prog_simps]:
  "i2s_write E c w =
     (let a = E (trace w) c; n = (case snd a of [] \<Rightarrow> 0 | n # _ \<Rightarrow> n)
      in if fst a = ESP_OK \<and> 0 < n then Inr (n, w\<lparr>trace := trace w @ [c]\<rparr>) else Inl Abort)"
  by (simp add: i2s_write_def prog_simps Let_def split_beta)

lemma fill_notes_ticks:
  assumes "fill_notes k E bf tick w = Inr ((bf', tick'), w')"
  shows "g_tick_idx w' = g_tick_idx w + int bf' - int bf \<and> bf \<le> bf' \<and> (bf < bf' \<longrightarrow> g_tick_idx w' \<le> INT_MAX)"
  using assms
proof (induction k arbitrary: bf tick w)
  case (Suc k)
  show ?case
    using Suc.prems
    by (auto simp: prog_simps saw_tick_def Let_def is_int_def dest!: Suc.IH split: if_splits option.splits sum.splits)
qed (simp add: prog_simps)

text \<open>
  The loop \<open>while (tick_ret)\<close>. Every turn that goes on advances \<open>g_tick_idx\<close>, which is an \<open>int\<close>, so
  the loop ends.
\<close>

function note_loop :: "env \<Rightarrow> ('a sound_vars_scheme, unit) prog" where
  "note_loop E w =
     (case fill_notes BUFF_SIZE E 0 True w of
        Inl f \<Rightarrow> Inl f
      | Inr ((bf_size, tick_ret), w1) \<Rightarrow>
          if bf_size = 0 then Inr ((), w1)
          else (case read_task_run E Play_notes w1 of
              Inl f \<Rightarrow> Inl f
            | Inr (run, w2) \<Rightarrow>
                if \<not> run then Inr ((), w2)
                else (case i2s_write E (I2s (I2s_channel_write_samples (take bf_size (g_i2s_data_buffer w2)))) w2 of
                    Inl f \<Rightarrow> Inl f
                  | Inr (_, w3) \<Rightarrow> if tick_ret then note_loop E w3 else Inr ((), w3))))"
  by pat_completeness auto
termination
  by (relation "measure (\<lambda>(E, w). nat (INT_MAX - g_tick_idx w))")
    (auto simp: prog_simps Let_def dest!: fill_notes_ticks split: if_splits)

declare note_loop.simps [simp del]

definition notes_act :: "env \<Rightarrow> string \<Rightarrow> int \<Rightarrow> ('a sound_vars_scheme, unit) prog" where
  "notes_act E label beatCnt =
     (if is_no_op label then vTaskDelay_ms E (beat_delay_double beatCnt)
      else
        let freq = note_to_freq label in
        if freq = 0 then vTaskDelay_ms E (beat_delay_double beatCnt)
        else block
          [saw_reset freq (f32 (of_int beatCnt)),
           ESP_ERROR_CHECK E (I2s I2s_channel_enable),
           note_loop E,
           ESP_ERROR_CHECK E (I2s I2s_channel_disable)])"

text \<open>\<open>label\<close> has room for four characters.\<close>

function notes_loop :: "env \<Rightarrow> string \<Rightarrow> ('a sound_vars_scheme, unit) prog" where
  "notes_loop E notes w =
     (if notes = [] then Inr ((), w)
      else case read_task_run E Play_notes w of
        Inl f \<Rightarrow> Inl f
      | Inr (run, w1) \<Rightarrow>
          if \<not> run then Inr ((), w1)
          else (case parse_cmd 4 notes w1 of
              Inl f \<Rightarrow> Inl f
            | Inr (None, w2) \<Rightarrow> Inr ((), w2)
            | Inr (Some (pos, label, beatCnt), w2) \<Rightarrow>
                (case notes_act E label beatCnt w2 of
                   Inl f \<Rightarrow> Inl f
                 | Inr (_, w3) \<Rightarrow> notes_loop E (drop (pos + 1) notes) w3)))"
  by pat_completeness auto
termination
  by (relation "measure (\<lambda>(E, notes, w). length notes)") (auto dest!: parse_cmd_Some(2))

declare notes_loop.simps [simp del]

definition play_notes_task :: "env \<Rightarrow> ('a sound_vars_scheme, unit) prog" where
  "play_notes_task E =
     bind (call E (Rtos (XSemaphoreTake 0))) (\<lambda>ret.
     if ret \<noteq> pdTRUE then emit E (Rtos VTaskDelete)
     else bind (gets notes_args) (\<lambda>args. block
       [notes_loop E (snd args),
        emit E (Rtos XSemaphoreGive),
        write_task_run E Play_notes False,
        emit E (Rtos (XEventGroupSetBits Play_notes)),
        emit E (Rtos VTaskDelete)]))"

definition play_notes_wait_for_stop :: "env \<Rightarrow> ('a world_scheme, int) prog" where
  "play_notes_wait_for_stop E =
     bind (call E (Rtos (XEventGroupWaitBits Play_notes True 5000)))
       (\<lambda>uxBits. return (if uxBits AND 1 \<noteq> 0 then ESP_OK else ESP_ERR_TIMEOUT))"

definition play_notes_stop :: "env \<Rightarrow> ('a world_scheme, int) prog" where
  "play_notes_stop E =
     bind (read_task_run E Play_notes) (\<lambda>run.
       if \<not> run then return ESP_OK
       else bind (block
              [emit E (Rtos (XEventGroupClearBits Play_notes)), write_task_run E Play_notes False])
            (\<lambda>_. play_notes_wait_for_stop E))"

definition play_notes_run :: "env \<Rightarrow> cstr \<Rightarrow> ('a sound_vars_scheme, unit) prog" where
  "play_notes_run E str =
     bind (read_task_run E Play_notes) (\<lambda>run.
     block
       [if run then bind (play_notes_stop E) (\<lambda>_. return ()) else return (),
        write_task_run E Play_notes True,
        modify (\<lambda>w. w\<lparr>notes_args := str\<rparr>),
        emit E (Rtos (XTaskCreate Play_notes))])"

definition play_notes_init :: "env \<Rightarrow> ('a world_scheme, unit) prog" where
  "play_notes_init E = emit E (Rtos (XEventGroupCreate Play_notes))"

interpretation notes_task: stoppable_task Play_notes 5000 play_notes_stop
  by unfold_locales
    (simp add: play_notes_stop_def play_notes_wait_for_stop_def prog_simps Let_def)

interpretation notes_task: restartable_task Play_notes 5000 play_notes_stop play_notes_run
  "\<lambda>x w. w\<lparr>notes_args := x\<rparr>"
  by unfold_locales
    (auto simp: play_notes_run_def prog_simps Let_def split: sum.splits)

interpretation notes_script: script_loop Play_notes 4 notes_act notes_loop
  by unfold_locales (subst notes_loop.simps, rule refl)

section \<open>The MP3 task\<close>

definition is_sound_play_run :: "env \<Rightarrow> ('a world_scheme, bool) prog" where
  "is_sound_play_run E = read_task_run E Play_mp3"

text \<open>
  The loop of the MP3 task ends when the pipeline has no more data or the task is asked to stop;
  \<open>n\<close> bounds its turns and the result tells whether it was left. \<open>cb\<close> is the registered listener.
\<close>

primrec mp3_loop ::
  "nat \<Rightarrow> env \<Rightarrow> (env \<Rightarrow> u8 list \<Rightarrow> int \<Rightarrow> ('a sound_vars_scheme, unit) prog) \<Rightarrow> ('a sound_vars_scheme, bool) prog" where
  "mp3_loop 0 E cb = return False"
| "mp3_loop (Suc n) E cb =
     bind (read_task_run E Play_mp3) (\<lambda>run.
     if \<not> run then return True
     else bind (play_mp3_read_buffer E READ_LEN) (\<lambda>(read_len, raw_buffer).
       if read_len \<le> 0 then return True
       else bind (gets g_data_listen_cb) (\<lambda>listen.
         bind (if_then listen (cb E raw_buffer read_len)) (\<lambda>_.
         bind (i2s_write E (I2s (I2s_channel_write_bytes (take (nat read_len) raw_buffer)))) (\<lambda>_.
         mp3_loop n E cb)))))"

definition sound_play_mp3_task ::
  "nat \<Rightarrow> env \<Rightarrow> (env \<Rightarrow> u8 list \<Rightarrow> int \<Rightarrow> ('a sound_vars_scheme, unit) prog) \<Rightarrow> ('a sound_vars_scheme, bool) prog" where
  "sound_play_mp3_task n E cb =
     bind (call E (Rtos (XSemaphoreTake 0))) (\<lambda>ret.
     bind (if ret \<noteq> pdTRUE then bind (write_task_run E Play_mp3 False) (\<lambda>_. return True)
           else
             bind (gets mp3_fileid) (\<lambda>fileid.
             bind (block [play_mp3_start_pipeline E fileid, ESP_ERROR_CHECK E (I2s I2s_channel_enable)]) (\<lambda>_.
             bind (mp3_loop n E cb) (\<lambda>left.
             if \<not> left then return False
             else bind (block
               [write_task_run E Play_mp3 False,
                ESP_ERROR_CHECK E (I2s I2s_channel_disable),
                emit E (Rtos XSemaphoreGive)]) (\<lambda>_. return True)))))
       (\<lambda>left. if \<not> left then return False
         else bind (block
           [emit E (Rtos (XEventGroupSetBits Play_mp3)), emit E (Rtos VTaskDelete)]) (\<lambda>_. return True)))"

definition sound_play_mp3_wait_for_stop :: "env \<Rightarrow> ('a world_scheme, int) prog" where
  "sound_play_mp3_wait_for_stop E =
     bind (call E (Rtos (XEventGroupWaitBits Play_mp3 True 500)))
       (\<lambda>uxBits. return (if uxBits AND 1 \<noteq> 0 then ESP_OK else ESP_ERR_TIMEOUT))"

definition sound_play_mp3_stop :: "env \<Rightarrow> ('a world_scheme, int) prog" where
  "sound_play_mp3_stop E =
     bind (read_task_run E Play_mp3) (\<lambda>run.
       if \<not> run then return ESP_OK
       else bind (block
              [emit E (Rtos (XEventGroupClearBits Play_mp3)), write_task_run E Play_mp3 False])
            (\<lambda>_. sound_play_mp3_wait_for_stop E))"

definition sound_play_mp3_run :: "env \<Rightarrow> int \<Rightarrow> ('a sound_vars_scheme, unit) prog" where
  "sound_play_mp3_run E fileid =
     bind (read_task_run E Play_mp3) (\<lambda>run.
     block
       [if run then bind (sound_play_mp3_stop E) (\<lambda>_. return ()) else return (),
        write_task_run E Play_mp3 True,
        modify (\<lambda>w. w\<lparr>mp3_fileid := fileid\<rparr>),
        emit E (Rtos (XTaskCreate Play_mp3))])"

definition sound_play_mp3_init :: "env \<Rightarrow> ('a world_scheme, unit) prog" where
  "sound_play_mp3_init E = emit E (Rtos (XEventGroupCreate Play_mp3))"

interpretation mp3_task: stoppable_task Play_mp3 500 sound_play_mp3_stop
  by unfold_locales
    (simp add: sound_play_mp3_stop_def sound_play_mp3_wait_for_stop_def prog_simps Let_def)

interpretation mp3_task: restartable_task Play_mp3 500 sound_play_mp3_stop sound_play_mp3_run
  "\<lambda>x w. w\<lparr>mp3_fileid := x\<rparr>"
  by unfold_locales
    (auto simp: sound_play_mp3_run_def prog_simps Let_def split: sum.splits)

section \<open>Initialisation\<close>

text \<open>16 kHz, bit clock, word select and data out on GPIO 9, 8 and 10.\<close>

definition i2s_example_init_std_simplex :: "env \<Rightarrow> ('a world_scheme, unit) prog" where
  "i2s_example_init_std_simplex E = block
     [ESP_ERROR_CHECK E (I2s I2s_new_channel),
      ESP_ERROR_CHECK E (I2s (I2s_channel_init_std_mode 16000 9 8 10))]"

definition sound_init :: "env \<Rightarrow> ('a world_scheme, unit) prog" where
  "sound_init E = block
     [i2s_example_init_std_simplex E,
      bind (call E (Rtos XSemaphoreCreateMutex)) (\<lambda>g_i2s_mutex.
        if g_i2s_mutex = 0 then fail Abort else return ()),
      sound_play_mp3_init E,
      play_notes_init E]"

definition sound_register_data_listen_cb :: "('a sound_vars_scheme, unit) prog" where
  "sound_register_data_listen_cb = modify (\<lambda>w. w\<lparr>g_data_listen_cb := True\<rparr>)"

section \<open>What a note sounds like\<close>

text \<open>The samples a trace hands to the I2S channel, and the samples of a note.\<close>

definition samples_of :: "call list \<Rightarrow> int list" where
  "samples_of cs = concat (map (\<lambda>c. case c of I2s (I2s_channel_write_samples xs) \<Rightarrow> xs | _ \<Rightarrow> []) cs)"

lemma samples_of_simps [simp]:
  "samples_of [] = []"
  "samples_of (cs @ ds) = samples_of cs @ samples_of ds"
  "samples_of (I2s (I2s_channel_write_samples xs) # cs) = xs @ samples_of cs"
  "samples_of (Rtos r # cs) = samples_of cs"
  by (simp_all add: samples_of_def)

definition note_wave :: "rat \<Rightarrow> int \<Rightarrow> nat \<Rightarrow> int" where
  "note_wave freq b i = the (saw_out freq (inv_freq freq) (note_duration b) (tick_time (int i)))"

text \<open>The I2S driver takes every buffer of samples it is given and says how many bytes it took.\<close>

definition i2s_takes :: "env \<Rightarrow> bool" where
  "i2s_takes E \<longleftrightarrow> (\<forall>tr xs. xs \<noteq> [] \<longrightarrow> (\<exists>n ns. E tr (I2s (I2s_channel_write_samples xs)) = (ESP_OK, n # ns) \<and> 0 < n))"

definition in_note :: "rat \<Rightarrow> int \<Rightarrow> nat \<Rightarrow> 'a sound_vars_scheme \<Rightarrow> bool" where
  "in_note freq b i w \<longleftrightarrow> g_sample_rate w = 16000 \<and> g_freq w = freq \<and> g_inv_freq w = inv_freq freq \<and>
     g_tick_idx w = int i \<and> g_duration w = note_duration b \<and> length (g_i2s_data_buffer w) = BUFF_SIZE"

lemma in_note_trace [simp]: "in_note freq b i (w\<lparr>trace := tr\<rparr>) = in_note freq b i w"
  by (simp add: in_note_def)

lemma saw_tick_in_note:
  assumes "in_note freq b i w" "0 < freq" "0 < b" "b \<le> 600"
  shows "saw_tick w = (if int i < note_len b
    then Inr (Some (note_wave freq b i), w\<lparr>g_tick_idx := int (Suc i)\<rparr>) else Inr (None, w))"
proof -
  have t: "f32 (f32 (of_int (g_tick_idx w)) / g_sample_rate w) = tick_time (int i)" "g_duration w = note_duration b"
    using assms(1) by (simp_all add: in_note_def tick_time_def)
  note l = note_length [of b "int i", OF assms(3,4)]
  show ?thesis
  proof (cases "int i < note_len b")
    case True
    moreover have "0 \<le> tick_time (int i)" by (simp add: tick_time_def fl_nonneg)
    ultimately obtain x where "saw_out freq (inv_freq freq) (note_duration b) (tick_time (int i)) = Some x"
      using saw_out_bounds [OF assms(2), of "tick_time (int i)" "note_duration b"] l by auto
    moreover have "is_int (int i + 1)" using True l assms(3,4) by (auto simp: is_int_def)
    ultimately show ?thesis
      using True l assms(1)
      by (simp add: saw_tick_def prog_simps Let_def note_wave_def in_note_def not_le tick_time_def)
  next
    case False
    then show ?thesis using l by (simp add: saw_tick_def prog_simps Let_def t not_less del: of_int_of_nat_eq)
  qed
qed

lemma fill_notes_in_note:
  assumes "in_note freq b i w" "int i \<le> note_len b" "0 < freq" "0 < b" "b \<le> 600" "keeps_running E Play_notes"
    "bf + k = BUFF_SIZE"
  shows "runs_to (fill_notes k E bf tick) w (\<lambda>(bf', tick') w'.
    let m = min k (nat (note_len b) - i) in
    bf' = bf + m \<and> in_note freq b (i + m) w' \<and> (m < k \<longrightarrow> \<not> tick') \<and> (m = k \<longrightarrow> tick' = (tick \<or> 0 < k)) \<and>
    (\<exists>cs. trace w' = trace w @ cs \<and> samples_of cs = []) \<and>
    take bf' (g_i2s_data_buffer w') = take bf (g_i2s_data_buffer w) @ map (note_wave freq b) [i..<i + m])"
  using assms(1,2,7)
proof (induction k arbitrary: bf tick i w)
  case 0
  then show ?case by (auto intro: exI [of _ "[]"])
next
  case (Suc k)
  let ?w = "w\<lparr>trace := trace w @ [Rtos (Read_task_run Play_notes)]\<rparr>"
  have tick: "saw_tick ?w = (if int i < note_len b
    then Inr (Some (note_wave freq b i), ?w\<lparr>g_tick_idx := int (Suc i)\<rparr>) else Inr (None, ?w))"
    by (rule saw_tick_in_note) (use Suc.prems assms in simp_all)
  show ?case
  proof (cases "int i < note_len b")
    case False
    then have "nat (note_len b) - i = 0" using Suc.prems by simp
    then show ?thesis
      using Suc.prems False assms(6) by (simp add: runs_to_Inr [where p = saw_tick, OF tick [simplified False if_False]] Let_def)
  next
    case True
    let ?w' = "?w\<lparr>g_tick_idx := int (Suc i),
      g_i2s_data_buffer := (g_i2s_data_buffer w)[bf := note_wave freq b i]\<rparr>"
    have len: "bf < length (g_i2s_data_buffer w)" using Suc.prems by (simp add: in_note_def)
    have ih: "runs_to (fill_notes k E (bf + 1) True) ?w' (\<lambda>(bf', tick') w''.
      let m = min k (nat (note_len b) - Suc i) in
      bf' = bf + 1 + m \<and> in_note freq b (Suc i + m) w'' \<and> (m < k \<longrightarrow> \<not> tick') \<and> (m = k \<longrightarrow> tick' = (True \<or> 0 < k)) \<and>
      (\<exists>cs. trace w'' = trace ?w' @ cs \<and> samples_of cs = []) \<and>
      take bf' (g_i2s_data_buffer w'') = take (bf + 1) (g_i2s_data_buffer ?w') @ map (note_wave freq b) [Suc i..<Suc i + m])"
      by (rule Suc.IH) (use Suc.prems True in \<open>simp_all add: in_note_def\<close>)
    have m: "min (Suc k) (nat (note_len b) - i) = Suc (min k (nat (note_len b) - Suc i))" using True by simp
    have buf: "take (Suc bf) ((g_i2s_data_buffer w)[bf := note_wave freq b i]) =
        take bf (g_i2s_data_buffer w) @ [note_wave freq b i]"
      using len by (simp add: take_Suc_conv_app_nth)
    have "runs_to (fill_notes (Suc k) E bf tick) w Q = runs_to (fill_notes k E (bf + 1) True) ?w' Q" for Q
      using assms(6) len by (simp add: runs_to_Inr [where p = saw_tick, OF tick [simplified True if_True]])
    then show ?thesis
      by (simp only:) (rule runs_to_mono [OF ih], auto simp: m Let_def buf upt_rec [of i])
  qed
qed

lemma note_loop_bind:
  "note_loop E = bind (fill_notes BUFF_SIZE E 0 True) (\<lambda>(bf_size, tick_ret).
     if bf_size = 0 then return ()
     else bind (read_task_run E Play_notes) (\<lambda>run.
       if \<not> run then return ()
       else bind (gets g_i2s_data_buffer) (\<lambda>buf.
         bind (i2s_write E (I2s (I2s_channel_write_samples (take bf_size buf)))) (\<lambda>_.
         if tick_ret then note_loop E else return ()))))"
  by (rule ext, subst note_loop.simps) (auto simp: prog_simps split: sum.splits)

lemma runs_to_i2s_write:
  "i2s_takes E \<Longrightarrow> xs \<noteq> [] \<Longrightarrow> runs_to (i2s_write E (I2s (I2s_channel_write_samples xs))) w Q \<longleftrightarrow>
     (\<exists>n>0. \<exists>ns. E (trace w) (I2s (I2s_channel_write_samples xs)) = (ESP_OK, n # ns) \<and>
       Q n (w\<lparr>trace := trace w @ [I2s (I2s_channel_write_samples xs)]\<rparr>))"
  unfolding i2s_takes_def by (auto simp: i2s_write_run runs_to_def Let_def dest!: spec [of _ "trace w"] spec [of _ xs])

lemma note_loop_in_note:
  fixes w :: "'a sound_vars_scheme"
  assumes "in_note freq b i w" "int i \<le> note_len b" "0 < freq" "0 < b" "b \<le> 600"
    "keeps_running E Play_notes" "i2s_takes E"
  shows "runs_to (note_loop E) w (\<lambda>_ w'. \<exists>cs. trace w' = trace w @ cs \<and>
    samples_of cs = map (note_wave freq b) [i..<nat (note_len b)])"
  using assms(1,2)
proof (induction "nat (note_len b) - i" arbitrary: i w rule: less_induct)
  case less
  define m where "m = min BUFF_SIZE (nat (note_len b) - i)"
  have fill: "runs_to (fill_notes BUFF_SIZE E 0 True) w (\<lambda>(bf', tick') w'.
    bf' = m \<and> in_note freq b (i + m) w' \<and> (m < BUFF_SIZE \<longrightarrow> \<not> tick') \<and> (m = BUFF_SIZE \<longrightarrow> tick') \<and>
    (\<exists>cs. trace w' = trace w @ cs \<and> samples_of cs = []) \<and>
    take bf' (g_i2s_data_buffer w') = map (note_wave freq b) [i..<i + m])"
    using fill_notes_in_note [OF less.prems assms(3-6), of 0 BUFF_SIZE True]
    by (simp add: m_def Let_def split_beta)
  have im: "i + m \<le> nat (note_len b)" "m < BUFF_SIZE \<Longrightarrow> i + m = nat (note_len b)"
    using less.prems by (auto simp: m_def)
  show ?case
  proof (subst note_loop_bind, rule runs_to_bindI [OF fill], clarify)
    fix tick cs and w1 :: "'a sound_vars_scheme"
    assume n: "in_note freq b (i + m) w1" "m < BUFF_SIZE \<longrightarrow> \<not> tick" "m = BUFF_SIZE \<longrightarrow> tick"
      and tr: "trace w1 = trace w @ cs" "samples_of cs = []"
      and buf: "take m (g_i2s_data_buffer w1) = map (note_wave freq b) [i..<i + m]"
    let ?c = "I2s (I2s_channel_write_samples (map (note_wave freq b) [i..<i + m]))"
    let ?w2 = "w1\<lparr>trace := (trace w1 @ [Rtos (Read_task_run Play_notes)]) @ [?c]\<rparr>"
    have upt: "[i..<i + m] @ [i + m..<nat (note_len b)] = [i..<nat (note_len b)]"
      using upt_add_eq_append [of i "i + m" "nat (note_len b) - (i + m)"] im(1) by simp
    then have M: "map (note_wave freq b) [i..<i + m] @ map (note_wave freq b) [i + m..<nat (note_len b)] =
        map (note_wave freq b) [i..<nat (note_len b)]" by (simp only: map_append [symmetric])
    have next_turn: "runs_to (note_loop E) ?w2 (\<lambda>_ w'. \<exists>ds. trace w' = trace ?w2 @ ds \<and>
        samples_of ds = map (note_wave freq b) [i + m..<nat (note_len b)])" if "m = BUFF_SIZE"
      by (rule less.hyps) (use n(1) im(1) that in auto)
    have rest: "runs_to (if tick then note_loop E else return ()) ?w2 (\<lambda>_ w'. \<exists>ds. trace w' = trace w @ ds \<and>
        samples_of ds = map (note_wave freq b) [i..<nat (note_len b)])"
    proof (cases "m = BUFF_SIZE")
      case True
      have shift: "\<exists>es. trace w' = trace w @ es \<and> samples_of es = map (note_wave freq b) [i..<nat (note_len b)]"
        if "trace w' = trace ?w2 @ ds" "samples_of ds = map (note_wave freq b) [i + m..<nat (note_len b)]"
        for w' :: "'a sound_vars_scheme" and ds
        using that M tr by (intro exI [of _ "cs @ [Rtos (Read_task_run Play_notes), ?c] @ ds"]) simp
      have tick using n(3) True by simp
      then show ?thesis
        by (simp only: if_True) (rule runs_to_mono [OF next_turn [OF True]], elim exE conjE, rule shift)
    next
      case False
      then have "m < BUFF_SIZE" by (simp add: m_def)
      then show ?thesis using n(2) im(2) by (simp add: tr)
    qed
    have "\<exists>k ks. E (trace w1 @ [Rtos (Read_task_run Play_notes)]) ?c = (ESP_OK, k # ks) \<and> 0 < k" if "0 < m"
      using assms(7) that by (simp add: i2s_takes_def)
    with rest show "runs_to (if m = 0 then return () else bind (read_task_run E Play_notes) (\<lambda>run.
       if \<not> run then return () else bind (gets g_i2s_data_buffer) (\<lambda>buf.
         bind (i2s_write E (I2s (I2s_channel_write_samples (take m buf)))) (\<lambda>_.
         if tick then note_loop E else return ())))) w1
      (\<lambda>_ w'. \<exists>cs. trace w' = trace w @ cs \<and> samples_of cs = map (note_wave freq b) [i..<nat (note_len b)])"
      using assms(6,7) im n(2) tr by (auto simp: runs_to_i2s_write buf)
  qed
qed

text \<open>
  C36. A note is played in full and within range: for a label that names a note and 1 to 600
  beats, with nobody stopping the task and the driver taking every buffer, the channel is enabled,
  the samples handed to it, over all buffers of 800, are the sawtooth's ticks 0, 1, 2, ... in order
  and nothing else, each of magnitude at most 5000, 9600 or one more per note of one beat (600 ms at
  16 kHz) and in proportion for longer ones, and the channel is disabled. No step faults.
\<close>

theorem notes_act_samples:
  assumes "\<not> is_no_op label" "note_to_freq label \<noteq> 0" "0 < b" "b \<le> 600"
    and "keeps_running E Play_notes" "i2s_takes E" "accepts E (I2s I2s_channel_enable)" "accepts E (I2s I2s_channel_disable)"
    and "length (g_i2s_data_buffer w) = 800"
  shows "runs_to (notes_act E label b) w (\<lambda>_ w'. \<exists>cs xs.
    trace w' = trace w @ [I2s I2s_channel_enable] @ cs @ [I2s I2s_channel_disable] \<and>
    samples_of cs = xs \<and> xs = map (note_wave (note_to_freq label) b) [0..<length xs] \<and>
    int (length xs) \<in> {9600 * b, 9600 * b + 1} \<and> list_all (\<lambda>x. \<bar>x\<bar> \<le> 5000) xs)"
proof -
  let ?f = "note_to_freq label"
  have f: "0 < ?f" using note_to_freq_range [of label] assms(2) by auto
  let ?w0 = "w\<lparr>g_sample_rate := 16000, g_freq := ?f, g_inv_freq := inv_freq ?f, g_tick_idx := 0,
    g_duration := note_duration b, trace := trace w @ [I2s I2s_channel_enable]\<rparr>"
  have len: "note_len b \<in> {9600 * b, 9600 * b + 1}" using note_length [of b 0] assms(3,4) by simp
  have "in_note ?f b 0 ?w0" using assms(9) by (simp add: in_note_def)
  from note_loop_in_note [OF this _ f assms(3-6)] len
  have L: "runs_to (note_loop E) ?w0 (\<lambda>_ w'. \<exists>cs. trace w' = trace ?w0 @ cs \<and>
    samples_of cs = map (note_wave ?f b) [0..<nat (note_len b)])" using assms(3) by auto
  have "\<bar>note_wave ?f b i\<bar> \<le> 5000" if "i < nat (note_len b)" for i
  proof -
    have "tick_time (int i) < note_duration b" using note_length [of b "int i"] assms(3,4) that by auto
    moreover have "0 \<le> tick_time (int i)" by (simp add: tick_time_def fl_nonneg)
    ultimately show ?thesis
      using saw_out_bounds [OF f, of "tick_time (int i)" "note_duration b"] by (auto simp: note_wave_def)
  qed
  then have all: "list_all (\<lambda>x. \<bar>x\<bar> \<le> 5000) (map (note_wave ?f b) [0..<nat (note_len b)])"
    by (auto simp: list_all_iff)
  have "runs_to (notes_act E label b) w Q = runs_to (note_loop E) ?w0 (\<lambda>_ w'.
      Q () (w'\<lparr>trace := trace w' @ [I2s I2s_channel_disable]\<rparr>))" for Q
    using assms by (simp add: notes_act_def saw_reset_def inv_freq_def note_duration_def Let_def)
  then show ?thesis
    using len all assms(3) by (simp only:) (rule runs_to_mono [OF L], auto)
qed

definition env_player :: env where
  "env_player tr c = (case c of Rtos (Read_task_run h) \<Rightarrow> (1, [])
     | I2s (I2s_channel_write_samples xs) \<Rightarrow> (0, [int (2 * length xs)]) | _ \<Rightarrow> (0, []))"


lemma i2s_takes_env_player [simp]: "i2s_takes env_player"
  by (simp add: i2s_takes_def env_player_def)

definition sound0 :: sound_vars where
  "sound0 = \<lparr>trace = [], g_is_motorA_run = 0, g_is_motorB_run = 0, motor_args = (0, []), run_cmds_is_run = 0,
     led_strip_pixels = replicate 12 0, led_encoder = None, led_args = (0, []),
     marker_pos = 0, marker_file = 0, next_music_file = 1,
     g_sample_rate = 0, g_freq = 0, g_inv_freq = 0, g_tick_idx = 0, g_duration = 0,
     g_i2s_data_buffer = replicate 800 0, notes_args = (0, []), mp3_fileid = 0, g_data_listen_cb = False\<rparr>"

theorem notes_act_samples_witness:
  "runs_to (notes_act env_player ''.3'' 2) sound0 (\<lambda>_ w'. \<exists>cs xs.
    trace w' = [I2s I2s_channel_enable] @ cs @ [I2s I2s_channel_disable] \<and>
    samples_of cs = xs \<and> xs = map (note_wave (f32 (164814/1000)) 2) [0..<length xs] \<and>
    int (length xs) \<in> {19200, 19201} \<and> list_all (\<lambda>x. \<bar>x\<bar> \<le> 5000) xs)"
proof -
  have n: "\<not> is_no_op ''.3''" "note_to_freq ''.3'' = f32 (164814/1000)" "f32 (164814/1000) \<noteq> 0"
    by (simp add: is_no_op_def) (simp add: note_to_freq_def char_at_def g_note_low_def, code_simp)
  have e: "keeps_running env_player Play_notes" "accepts env_player (I2s I2s_channel_enable)"
    "accepts env_player (I2s I2s_channel_disable)"
    by (simp_all add: keeps_running_def accepts_def env_player_def)
  have z: "length (g_i2s_data_buffer sound0) = 800" "trace sound0 = []" by (simp_all add: sound0_def)
  show ?thesis
    using notes_act_samples [of "''.3''" 2 env_player sound0] n e z by (simp del: ex_simps)
qed

section \<open>The I2S mutex\<close>

definition no_mutex_call :: "call \<Rightarrow> bool" where
  "no_mutex_call c \<longleftrightarrow> c \<noteq> Rtos XSemaphoreGive \<and> (\<forall>t. c \<noteq> Rtos (XSemaphoreTake t))"

lemma calls_only_i2s_write [calls_intros]: "P c \<Longrightarrow> calls_only P (i2s_write E c)"
  unfolding i2s_write_def Let_def by (intro calls_intros)

lemma calls_only_saw_tick [calls_intros]: "calls_only P saw_tick"
  unfolding saw_tick_def Let_def by (intro calls_intros) simp_all

lemma calls_only_fill_notes [calls_intros]:
  "P (Rtos (Read_task_run Play_notes)) \<Longrightarrow> calls_only P (fill_notes k E bf tick)"
  by (induction k arbitrary: bf tick) (auto intro!: calls_intros)

lemma note_loop_no_mutex: "note_loop E w = Inr (a, w') \<Longrightarrow> \<exists>cs. trace w' = trace w @ cs \<and> list_all no_mutex_call cs"
proof (induction E w rule: note_loop.induct)
  case (1 E w)
  have c: "calls_only no_mutex_call (fill_notes BUFF_SIZE E 0 True)"
    by (intro calls_intros) (simp add: no_mutex_call_def)
  obtain bf tick w1 where f: "fill_notes BUFF_SIZE E 0 True w = Inr ((bf, tick), w1)"
    using "1.prems" by (subst (asm) note_loop.simps) (auto split: sum.splits)
  obtain cs where cs: "trace w1 = trace w @ cs" "list_all no_mutex_call cs" using calls_onlyD [OF c f] by blast
  let ?w2 = "w1\<lparr>trace := trace w1 @ [Rtos (Read_task_run Play_notes)]\<rparr>"
  let ?c = "I2s (I2s_channel_write_samples (take bf (g_i2s_data_buffer ?w2)))"
  let ?w3 = "w1\<lparr>trace := trace w1 @ [Rtos (Read_task_run Play_notes), ?c]\<rparr>"
  have nm: "no_mutex_call (Rtos (Read_task_run Play_notes))" "no_mutex_call ?c" by (simp_all add: no_mutex_call_def)
  consider "w' = w1" | "w' = ?w2" | "w' = ?w3"
    | "bf \<noteq> 0" "tick" "read_task_run E Play_notes w1 = Inr (True, ?w2)"
      "\<exists>r. i2s_write E ?c ?w2 = Inr (r, ?w3)" "note_loop E ?w3 = Inr (a, w')"
    using "1.prems" by (subst (asm) note_loop.simps) (auto simp: f prog_simps Let_def split: if_splits)
  then show ?case
  proof cases
    case 4
    then obtain r where r: "i2s_write E ?c ?w2 = Inr (r, ?w3)" by blast
    obtain ds where "trace w' = trace ?w3 @ ds" "list_all no_mutex_call ds"
      using "1.IH" [OF f refl refl _ 4(3) refl _ r refl 4(2,5)] 4(1) by auto
    then show ?thesis using cs nm by simp
  qed (use cs nm in auto)
qed

lemma no_mutex_call_simps [simp]:
  "\<not> no_mutex_call (Rtos XSemaphoreGive)" "\<not> no_mutex_call (Rtos (XSemaphoreTake t))"
  "no_mutex_call (Rtos (Write_task_run h b))" "no_mutex_call (Rtos (XEventGroupSetBits h))"
  "no_mutex_call (Rtos (Read_task_run h))" "no_mutex_call (Rtos VTaskDelete)" "no_mutex_call (I2s c)" "no_mutex_call (Adf f)"
  by (simp_all add: no_mutex_call_def)

lemma calls_only_notes_act: "calls_only no_mutex_call (notes_act E label b)"
proof -
  have "calls_only no_mutex_call (note_loop E)" by (simp add: calls_only_def note_loop_no_mutex)
  then show ?thesis
    unfolding notes_act_def saw_reset_def Let_def by (auto intro!: calls_intros simp: no_mutex_call_def)
qed

lemma calls_only_mp3_loop:
  assumes "\<And>buf n. calls_only no_mutex_call (cb E buf n)"
  shows "calls_only no_mutex_call (mp3_loop k E cb)"
  by (induction k) (auto intro!: calls_intros assms simp: play_mp3_read_buffer_def)

text \<open>The mutex calls of a trace.\<close>

definition mutex_calls :: "call list \<Rightarrow> call list" where
  "mutex_calls = filter (\<lambda>c. \<not> no_mutex_call c)"

lemma mutex_calls_none: "list_all no_mutex_call cs \<Longrightarrow> mutex_calls cs = []"
  by (auto simp: mutex_calls_def list_all_iff filter_empty_conv)

lemma mutex_calls_simps [simp]:
  "mutex_calls [] = []" "mutex_calls (cs @ ds) = mutex_calls cs @ mutex_calls ds"
  "mutex_calls (c # cs) = (if no_mutex_call c then mutex_calls cs else c # mutex_calls cs)"
  by (simp_all add: mutex_calls_def)

text \<open>
  The notes task and the I2S mutex. When the mutex is free, the task takes it once, gives it
  back once before it reports its end, and reports it by resetting \<open>task_run\<close> and setting the event
  bit; this holds for every script, stopped anywhere, in every environment in which it does not
  abort. When the mutex is taken, the task only deletes itself: \<open>task_run\<close> stays set and no bit is
  ever set, so the next stop waits for its whole timeout.
\<close>

theorem play_notes_task_mutex:
  assumes "play_notes_task E w = Inr ((), w')"
  shows "\<exists>cs. trace w' = trace w @ Rtos (XSemaphoreTake 0) # cs \<and>
    (if fst (E (trace w) (Rtos (XSemaphoreTake 0))) = pdTRUE
     then \<exists>ds. cs = ds @ [Rtos XSemaphoreGive, Rtos (Write_task_run Play_notes False),
            Rtos (XEventGroupSetBits Play_notes), Rtos VTaskDelete] \<and> mutex_calls ds = []
     else cs = [Rtos VTaskDelete])"
proof (cases "fst (E (trace w) (Rtos (XSemaphoreTake 0))) = pdTRUE")
  case True
  let ?w1 = "w\<lparr>trace := trace w @ [Rtos (XSemaphoreTake 0)]\<rparr>"
  obtain w2 where n: "notes_loop E (snd (notes_args w)) ?w1 = Inr ((), w2)"
    "trace w' = trace w2 @ [Rtos XSemaphoreGive, Rtos (Write_task_run Play_notes False),
            Rtos (XEventGroupSetBits Play_notes), Rtos VTaskDelete]"
    using assms True by (auto simp: play_notes_task_def prog_simps split: sum.splits)
  have "calls_only no_mutex_call (notes_loop E (snd (notes_args w)))"
    by (rule notes_script.loop_calls [OF calls_only_notes_act]) (simp add: no_mutex_call_def)
  from calls_onlyD [OF this n(1)] show ?thesis
    using True n(2) by (auto dest: mutex_calls_none)
qed (use assms in \<open>auto simp: play_notes_task_def prog_simps\<close>)

definition env_player_free :: env where
  "env_player_free tr c = (if c = Rtos (XSemaphoreTake 0) then (1, []) else env_player tr c)"

theorem play_notes_task_mutex_witness:
  "\<exists>w'. play_notes_task env_player_free (sound0\<lparr>notes_args := (0, encode [(''NO'', 2), (''x'', 3)])\<rparr>) = Inr ((), w') \<and>
    (\<exists>ds. trace w' = Rtos (XSemaphoreTake 0) # ds @ [Rtos XSemaphoreGive,
       Rtos (Write_task_run Play_notes False), Rtos (XEventGroupSetBits Play_notes), Rtos VTaskDelete] \<and>
     mutex_calls ds = [])"
proof -
  let ?w = "sound0\<lparr>notes_args := (0, encode [(''NO'', 2), (''x'', 3)])\<rparr>"
  have "list_all (wf_cmd 4) [(''NO'', 2), (''x'', 3)]" "keeps_running env_player_free Play_notes"
    by (simp_all add: wf_cmd_def keeps_running_def env_player_free_def env_player_def)
  note L = notes_script.loop_script [OF this]
  have "\<exists>w'. play_notes_task env_player_free ?w = Inr ((), w')"
    by (simp add: play_notes_task_def prog_simps L notes_act_def is_no_op_def note_to_freq_def char_at_def
        env_player_free_def del: encode_simps)
  then obtain w' where w': "play_notes_task env_player_free ?w = Inr ((), w')" by blast
  moreover have "fst (env_player_free (trace ?w) (Rtos (XSemaphoreTake 0))) = 1" "trace ?w = []"
    by (simp_all add: env_player_free_def sound0_def)
  ultimately show ?thesis using play_notes_task_mutex [OF w'] by auto
qed

lemma calls_only_start_pipeline: "calls_only no_mutex_call (play_mp3_start_pipeline E fileid)"
  unfolding play_mp3_start_pipeline_def set_next_file_marker_def Let_def
  by (intro calls_intros) simp_all

text \<open>
  The MP3 task and the I2S mutex, with any listener that leaves the mutex alone: whenever the
  task's loop ends, by the end of the file or by a stop, the mutex was taken once and is given back
  once; when it was not free the file is not touched. Unlike the notes task, it resets \<open>task_run\<close> and
  sets the event bit in both cases, so nobody waits for it in vain.
\<close>

theorem sound_play_mp3_task_mutex:
  assumes "sound_play_mp3_task n E cb w = Inr (True, w')" "\<And>buf k. calls_only no_mutex_call (cb E buf k)"
  shows "\<exists>cs. trace w' = trace w @ Rtos (XSemaphoreTake 0) # cs @
      [Rtos (XEventGroupSetBits Play_mp3), Rtos VTaskDelete] \<and>
    (if fst (E (trace w) (Rtos (XSemaphoreTake 0))) = pdTRUE
     then \<exists>ds. cs = ds @ [Rtos (Write_task_run Play_mp3 False), I2s I2s_channel_disable, Rtos XSemaphoreGive] \<and>
            mutex_calls ds = []
     else cs = [Rtos (Write_task_run Play_mp3 False)] \<and> marker_file w' = marker_file w)"
proof (cases "fst (E (trace w) (Rtos (XSemaphoreTake 0))) = pdTRUE")
  case True
  let ?w1 = "w\<lparr>trace := trace w @ [Rtos (XSemaphoreTake 0)]\<rparr>"
  let ?p = "bind (block [play_mp3_start_pipeline E (mp3_fileid w), ESP_ERROR_CHECK E (I2s I2s_channel_enable)])
    (\<lambda>_. mp3_loop n E cb)"
  obtain w2 where n: "?p ?w1 = Inr (True, w2)"
    "trace w' = trace w2 @ [Rtos (Write_task_run Play_mp3 False), I2s I2s_channel_disable, Rtos XSemaphoreGive,
       Rtos (XEventGroupSetBits Play_mp3), Rtos VTaskDelete]"
    using assms(1) True
    by (auto simp: sound_play_mp3_task_def prog_simps split: sum.splits if_splits)
  have "calls_only no_mutex_call ?p"
    by (intro calls_intros calls_only_start_pipeline calls_only_mp3_loop assms(2)) simp
  from calls_onlyD [OF this n(1)] show ?thesis
    using True n(2) by (auto dest: mutex_calls_none)
qed (use assms(1) in \<open>auto simp: sound_play_mp3_task_def prog_simps\<close>)

theorem sound_play_mp3_task_mutex_witness:
  "\<exists>w'. sound_play_mp3_task 1 env_player_free (\<lambda>_ _ _. return ()) sound0 = Inr (True, w') \<and>
    (\<exists>ds. trace w' = Rtos (XSemaphoreTake 0) # ds @ [Rtos (Write_task_run Play_mp3 False),
       I2s I2s_channel_disable, Rtos XSemaphoreGive, Rtos (XEventGroupSetBits Play_mp3), Rtos VTaskDelete] \<and>
     mutex_calls ds = [])"
proof -
  have "runs_to (sound_play_mp3_task 1 env_player_free (\<lambda>_ _ _. return ())) sound0 (\<lambda>r _. r)" by code_simp
  then obtain w' where w': "sound_play_mp3_task 1 env_player_free (\<lambda>_ _ _. return ()) sound0 = Inr (True, w')"
    by (auto simp: runs_to_def split: sum.splits)
  have "fst (env_player_free (trace sound0) (Rtos (XSemaphoreTake 0))) = 1" "trace sound0 = []"
    by (simp_all add: env_player_free_def sound0_def)
  then show ?thesis
    using sound_play_mp3_task_mutex [OF w'] w' calls_only_silent(1) by fastforce
qed

end
