(* ===== verification/Audio_Convert.thy ===== *)
theory Audio_Convert
  imports Sound
begin

text \<open>
  \<open>audio_convert.c\<close> and the part of \<open>cnv_audio.c\<close> the firmware's configuration compiles in: the
  listener that takes every second 16-bit half out of the decoded MP3 stream, the task that turns
  the loudness of a block of samples into a frame of the LED strip, and the frame patterns. The
  loudness itself is computed by a binary library, which is part of the environment.
\<close>

section \<open>State\<close>

datatype cnv_audio_vol_calc_types_t = CNV_AUDIO_VOLUME_STATIC | CNV_AUDIO_VOLUME_DYNAMIC

datatype cnv_audio_func_option_t = CNV_AUDIO_VOLUME | CNV_FFT_CALCULATE | CNV_VOLUME_FFT_BOTH | CNV_NONE

record cnv_audio_t =
  n_samples :: u16
  samplerate :: u16
  window_max_width_db :: u16
  regress_threshold_vol :: u16
  max_rms_fall_back_cycle :: u16
  default_rms_min :: rat
  default_rms_max :: rat
  variable_rms_max :: rat
  cnv_volume :: rat
  cur_rms :: rat
  vol_calc_types :: cnv_audio_vol_calc_types_t

text \<open>The static locals of \<open>cnv_pattern_energy_mode\<close> carry the prefix \<open>em\<close>.\<close>

record cnv_vars = sound_vars +
  g_cnv_audio :: cnv_audio_t
  em_level :: u16
  em_level_pre :: u16
  em_x_forward :: u16
  em_x_reverse :: u16
  cnv_buffer :: "int list"
  cnv_in_queue :: int
  cnv_state_event :: int

abbreviation (input) CNV_PATTERN_RED_BASE_VALUE :: int where "CNV_PATTERN_RED_BASE_VALUE \<equiv> 90"
abbreviation (input) CNV_PATTERN_COLOR_SPAN :: int where "CNV_PATTERN_COLOR_SPAN \<equiv> 30"
abbreviation (input) CNV_PATTERN_GREEN_BASE_VALUE :: int where "CNV_PATTERN_GREEN_BASE_VALUE \<equiv> 10"

section \<open>Loudness\<close>

text \<open>\<open>cnv_audio_get_volume\<close> stores a \<open>uint8_t\<close>; the variable was 0 before.\<close>

definition cnv_audio_get_volume :: "env \<Rightarrow> ('a world_scheme, u8) prog" where
  "cnv_audio_get_volume E =
     bind (ask E (Cnv Cnv_audio_get_volume)) (\<lambda>(_, d). return (case d of [] \<Rightarrow> 0 | v # _ \<Rightarrow> word_of_int v))"

text \<open>\<open>cnv_audio_process\<close> as configured: neither the high-pass filter nor the FFT nor the debug
  output is enabled, so an FFT request does nothing.\<close>

definition cnv_audio_fft_process :: "('s, unit) prog" where
  "cnv_audio_fft_process = return ()"

definition cnv_audio_process :: "env \<Rightarrow> int \<Rightarrow> cnv_audio_func_option_t \<Rightarrow> ('a world_scheme, unit) prog" where
  "cnv_audio_process E in_len vaule =
     (case vaule of
        CNV_AUDIO_VOLUME \<Rightarrow> block
          [emit E (Cnv (Cnv_audio_calculate_volume in_len)),
           bind (cnv_audio_get_volume E) (\<lambda>_. return ())]
      | CNV_FFT_CALCULATE \<Rightarrow> cnv_audio_fft_process
      | CNV_VOLUME_FFT_BOTH \<Rightarrow> block
          [emit E (Cnv (Cnv_audio_calculate_volume in_len)),
           bind (cnv_audio_get_volume E) (\<lambda>_. return ()),
           cnv_audio_fft_process]
      | CNV_NONE \<Rightarrow> return ())"

section \<open>Patterns\<close>

definition volume_to_lightness :: "u8 \<Rightarrow> u8 list \<Rightarrow> ('s, u8 list) prog" where
  "volume_to_lightness vol pixels =
     (let light = word_of_int ((uint vol * 255) div 100) in
      fold_prog (\<lambda>i. put_pixel i light light light) [0..<EXAMPLE_LED_NUMBERS] pixels)"

text \<open>\<open>coordx\<close> is a \<open>uint8_t\<close>.\<close>

definition em_light :: "u16 \<Rightarrow> nat \<Rightarrow> u8 list \<Rightarrow> ('s, u8 list) prog" where
  "em_light x_forward x px =
     (let red = word_of_int (CNV_PATTERN_RED_BASE_VALUE - CNV_PATTERN_COLOR_SPAN * int x);
          green = 0;
          blue = word_of_int (CNV_PATTERN_GREEN_BASE_VALUE + CNV_PATTERN_COLOR_SPAN * int x)
      in bind (put_pixel (unat (word_of_int (uint x_forward + int x) :: u8)) red green blue px) (\<lambda>px.
         put_pixel (unat (word_of_int (uint x_forward - int x) :: u8)) red green blue px))"

definition em_fade :: "u16 \<Rightarrow> u16 \<Rightarrow> u16 \<Rightarrow> nat \<Rightarrow> u8 list \<Rightarrow> ('s, u8 list) prog" where
  "em_fade x_forward x_reverse level_pre i px =
     bind (put_pixel (unat (word_of_int (uint x_forward + uint level_pre) :: u8)) 0 0 0 px) (\<lambda>px.
     put_pixel (unat (word_of_int (uint x_reverse - uint level_pre) :: u8)) 0 0 0 px)"

definition cnv_pattern_energy_mode :: "env \<Rightarrow> int \<Rightarrow> ('a cnv_vars_scheme, unit) prog" where
  "cnv_pattern_energy_mode E data_len = block
     [modify (\<lambda>w. if em_x_forward w OR em_x_reverse w = 0
        then w\<lparr>em_x_reverse := drop_bit 1 4, em_x_forward := drop_bit 1 4\<rparr> else w),
      cnv_audio_process E data_len CNV_AUDIO_VOLUME,
      bind (cnv_audio_get_volume E) (\<lambda>vol.
        modify (\<lambda>w. w\<lparr>em_level := word_of_int (uint vol * int EXAMPLE_LED_NUMBERS div 100 div 2)\<rparr>)),
      bind (gets (\<lambda>w. w)) (\<lambda>w.
      bind (if em_level w > em_level_pre w then
              bind (modify (\<lambda>w. w\<lparr>em_level_pre := em_level w\<rparr>)) (\<lambda>_.
              fold_prog (em_light (em_x_forward w)) [0..<unat (em_level w)] blank_frame)
            else if em_level_pre w \<noteq> 0 then
              bind (fold_prog (em_fade (em_x_forward w) (em_x_reverse w) (em_level_pre w)) [0..<2] blank_frame) (\<lambda>px.
              bind (modify (\<lambda>w. w\<lparr>em_level_pre := em_level_pre w - 1\<rparr>)) (\<lambda>_. return px))
            else return blank_frame) (\<lambda>leddata.
      bind (led_strip_fill_data E leddata) (\<lambda>_. return ())))]"

text \<open>The right shifts of possibly negative \<open>int\<close> values are arithmetic, as gcc does them.\<close>

definition my_light :: "nat \<Rightarrow> u8 list \<Rightarrow> ('s, u8 list) prog" where
  "my_light x = put_pixel x
     (word_of_int (drop_bit 3 (CNV_PATTERN_RED_BASE_VALUE - CNV_PATTERN_COLOR_SPAN * int x)))
     (word_of_int (drop_bit 3 (CNV_PATTERN_GREEN_BASE_VALUE + CNV_PATTERN_COLOR_SPAN * int x)))
     (word_of_int (drop_bit 3 (250 - 40 * int x)))"

definition cnv_pattern_myenergy_mode :: "env \<Rightarrow> int \<Rightarrow> ('a world_scheme, unit) prog" where
  "cnv_pattern_myenergy_mode E data_len =
     bind (cnv_audio_process E data_len CNV_AUDIO_VOLUME) (\<lambda>_.
     bind (cnv_audio_get_volume E) (\<lambda>vol.
     let level = uint vol * int EXAMPLE_LED_NUMBERS div 100 in
     bind (fold_prog my_light [0..<nat level] blank_frame) (\<lambda>leddata.
     bind (led_strip_fill_data E leddata) (\<lambda>_. return ()))))"

section \<open>The task and the listener\<close>

text \<open>A received item is the length of the block of samples in the one static buffer.\<close>

definition audio_convert_turn :: "env \<Rightarrow> ('a world_scheme, unit) prog" where
  "audio_convert_turn E =
     bind (ask E (Rtos (XQueueReceive Audio_samples))) (\<lambda>(r, d).
     if r = pdTRUE then cnv_pattern_myenergy_mode E (case d of [] \<Rightarrow> 0 | n # _ \<Rightarrow> n) else return ())"

primrec audio_convert_loop :: "nat \<Rightarrow> env \<Rightarrow> ('a world_scheme, bool) prog" where
  "audio_convert_loop 0 E = return False"
| "audio_convert_loop (Suc n) E =
     bind (read_task_run E Audio_cnv) (\<lambda>run.
     if \<not> run then return True else bind (audio_convert_turn E) (\<lambda>_. audio_convert_loop n E))"

definition audio_convert_task :: "nat \<Rightarrow> env \<Rightarrow> ('a world_scheme, bool) prog" where
  "audio_convert_task n E =
     bind (audio_convert_loop n E) (\<lambda>left.
     if \<not> left then return False
     else bind (block [emit E (Rtos (XEventGroupSetBits Audio_cnv)), emit E (Rtos VTaskDelete)]) (\<lambda>_. return True))"

definition audio_convert_run :: "env \<Rightarrow> ('a world_scheme, int) prog" where
  "audio_convert_run E =
     bind (block [write_task_run E Audio_cnv True, emit E (Rtos (XTaskCreate Audio_cnv))]) (\<lambda>_. return ESP_OK)"

definition audio_convert_wait_for_stop :: "env \<Rightarrow> ('a world_scheme, int) prog" where
  "audio_convert_wait_for_stop E =
     bind (call E (Rtos (XEventGroupWaitBits Audio_cnv False 8000)))
       (\<lambda>uxBits. return (if uxBits AND 1 \<noteq> 0 then ESP_OK else ESP_ERR_TIMEOUT))"

definition audio_convert_stop :: "env \<Rightarrow> ('a world_scheme, int) prog" where
  "audio_convert_stop E = bind (write_task_run E Audio_cnv False) (\<lambda>_. audio_convert_wait_for_stop E)"

definition audio_convert_fill_data :: "env \<Rightarrow> int \<Rightarrow> ('a world_scheme, int) prog" where
  "audio_convert_fill_data E len =
     bind (call E (Rtos (XQueueSend Audio_samples (Sample_ref len) 1)))
       (\<lambda>r. return (if r \<noteq> pdPASS then ESP_FAIL else ESP_OK))"

text \<open>One turn of the conversion loop: bytes 2 and 3 of each group of four, as an \<open>int16_t\<close>.\<close>

definition sample_at :: "u8 list \<Rightarrow> nat \<Rightarrow> int" where
  "sample_at data i =
     sint (word_of_int (uint (data ! (i * 4 + 3)) * 2 ^ 8 + uint (data ! (i * 4 + 2))) :: i16)"

definition convert_sample :: "u8 list \<Rightarrow> nat \<Rightarrow> int list \<Rightarrow> ('s, int list) prog" where
  "convert_sample in_data i buf =
     (if i * 4 + 3 < length in_data then store i (sample_at in_data i) buf else fail Out_of_bounds)"

definition audio_convert_mp3_data_cb :: "env \<Rightarrow> u8 list \<Rightarrow> int \<Rightarrow> ('a cnv_vars_scheme, unit) prog" where
  "audio_convert_mp3_data_cb E data size0 =
     (let size = (if size0 > 1024 then 1024 else size0);
          n = nat (size sdiv 4)
      in bind (gets cnv_buffer) (\<lambda>buf.
         bind (fold_prog (convert_sample data) [0..<n] buf) (\<lambda>buf.
         bind (modify (\<lambda>w. w\<lparr>cnv_buffer := buf\<rparr>)) (\<lambda>_.
         bind (audio_convert_fill_data E (int n)) (\<lambda>_. return ())))))"

section \<open>Initialisation\<close>

definition audio_convert_init :: "env \<Rightarrow> ('a cnv_vars_scheme, unit) prog" where
  "audio_convert_init E = block
     [modify (\<lambda>w. w\<lparr>g_cnv_audio := (g_cnv_audio w)\<lparr>cur_rms := 0, variable_rms_max := 64, default_rms_max := 64,
        default_rms_min := 12, window_max_width_db := 24, regress_threshold_vol := 30, samplerate := 16000,
        n_samples := 256, vol_calc_types := CNV_AUDIO_VOLUME_DYNAMIC, max_rms_fall_back_cycle := 3\<rparr>\<rparr>),
      emit E (Cnv (Cnv_audio_set_resolution_bits 12)),
      bind (call E (Rtos (XEventGroupCreate Audio_cnv))) (\<lambda>h. modify (\<lambda>w. w\<lparr>cnv_state_event := h\<rparr>)),
      bind (call E (Rtos (XQueueCreate Audio_samples 3))) (\<lambda>h. modify (\<lambda>w. w\<lparr>cnv_in_queue := h\<rparr>)),
      sound_register_data_listen_cb,
      bind (audio_convert_run E) (\<lambda>_. return ())]"

definition audio_convert_deinit :: "env \<Rightarrow> ('a cnv_vars_scheme, unit) prog" where
  "audio_convert_deinit E =
     bind (gets (\<lambda>w. w)) (\<lambda>w. block
       [if_then (cnv_in_queue w \<noteq> 0) (emit E (Rtos (VQueueDelete Audio_samples))),
        if_then (cnv_state_event w \<noteq> 0) (emit E (Rtos (VEventGroupDelete Audio_cnv)))])"

section \<open>Loudness to light\<close>

definition vol_at :: "env \<Rightarrow> call list \<Rightarrow> u8" where
  "vol_at E tr = (case snd (E tr (Cnv Cnv_audio_get_volume)) of [] \<Rightarrow> 0 | v # _ \<Rightarrow> word_of_int v)"

lemma runs_to_get_volume [simp]:
  "runs_to (cnv_audio_get_volume E) w Q \<longleftrightarrow>
     Q (vol_at E (trace w)) (w\<lparr>trace := trace w @ [Cnv Cnv_audio_get_volume]\<rparr>)"
  by (simp add: cnv_audio_get_volume_def split_beta vol_at_def)

lemma get_volume_run [prog_simps]:
  "cnv_audio_get_volume E w = Inr (vol_at E (trace w), w\<lparr>trace := trace w @ [Cnv Cnv_audio_get_volume]\<rparr>)"
  by (simp add: cnv_audio_get_volume_def split_beta vol_at_def prog_simps)

text \<open>The bar of \<open>k\<close> lit LEDs, from warm to cold.\<close>

definition volume_bar :: "nat \<Rightarrow> u8 list" where
  "volume_bar k = concat (take k [[11, 1, 31], [7, 5, 26], [3, 8, 21], [0, 12, 16]]) @ replicate (12 - 3 * k) 0"

lemma my_light_bar: "k \<le> 4 \<Longrightarrow> fold_prog my_light [0..<k] blank_frame s = Inr (volume_bar k, s)"
proof -
  assume "k \<le> 4"
  then consider "k = 0" | "k = 1" | "k = 2" | "k = 3" | "k = 4" by linarith
  then show ?thesis
    by cases (simp_all add: volume_bar_def blank_frame_def my_light_def put_pixel_def prog_simps upt_rec eval_nat_numeral drop_bit_eq_div)
qed

text \<open>
  The loudness display: a volume in percent, as the library documents it, lights one LED per
  full quarter, in the fixed colours from red to blue, and leaves the others dark; exactly one frame
  is offered to the strip for each block of samples and no array is overrun.
\<close>

theorem myenergy_shows_volume:
  assumes "\<And>tr. vol_at E tr \<le> 100"
  shows "runs_to (cnv_pattern_myenergy_mode E len) w (\<lambda>_ w'.
    let tr = trace w @ [Cnv (Cnv_audio_calculate_volume len), Cnv Cnv_audio_get_volume]
    in trace w' = tr @ [Cnv Cnv_audio_get_volume,
         Rtos (XQueueSend Led_frames (Frame (volume_bar (unat (vol_at E tr) div 25))) 1)])"
proof -
  let ?tr = "trace w @ [Cnv (Cnv_audio_calculate_volume len), Cnv Cnv_audio_get_volume]"
  let ?v = "vol_at E ?tr"
  have v: "unat ?v \<le> 100" using assms [of ?tr] by (simp add: word_le_nat_alt)
  have "nat (uint ?v * int 4 div 100) = unat ?v * 4 div 100"
    by (simp add: nat_div_distrib nat_mult_distrib flip: unat_eq_nat_uint)
  also have "\<dots> = unat ?v div 25" by simp
  finally have k: "nat (uint ?v * int 4 div 100) = unat ?v div 25" .
  have "unat ?v div 25 \<le> 4" using v by simp
  note b = my_light_bar [OF this]
  show ?thesis
    unfolding cnv_pattern_myenergy_mode_def Let_def runs_to_bind
    by (simp add: cnv_audio_process_def k [simplified] runs_to_Inr [where p = "fold_prog f is x" for f "is" x, OF b] led_strip_fill_data_def)
qed

definition env_loud :: "int \<Rightarrow> env" where
  "env_loud v tr c = (if c = Cnv Cnv_audio_get_volume then (0, [v]) else (1, []))"

theorem myenergy_shows_volume_witness:
  "runs_to (cnv_pattern_myenergy_mode (env_loud 60) 256) (sound0\<lparr>trace := []\<rparr>) (\<lambda>_ w'.
     last (trace w') = Rtos (XQueueSend Led_frames (Frame [11, 1, 31, 7, 5, 26, 0, 0, 0, 0, 0, 0]) 1))"
proof -
  have v: "vol_at (env_loud 60) tr = 60" for tr by (simp add: vol_at_def env_loud_def)
  have "runs_to (cnv_pattern_myenergy_mode (env_loud 60) 256) (sound0\<lparr>trace := []\<rparr>) (\<lambda>_ w'.
    let tr = trace (sound0\<lparr>trace := []\<rparr>) @ [Cnv (Cnv_audio_calculate_volume 256), Cnv Cnv_audio_get_volume]
    in trace w' = tr @ [Cnv Cnv_audio_get_volume,
         Rtos (XQueueSend Led_frames (Frame (volume_bar (unat (vol_at (env_loud 60) tr) div 25))) 1)])"
    by (rule myenergy_shows_volume) (simp add: v)
  moreover have "volume_bar 2 = [11, 1, 31, 7, 5, 26, 0, 0, 0, 0, 0, 0]" by code_simp
  ultimately show ?thesis by (auto simp: v Let_def elim: runs_to_mono)
qed

text \<open>
  The other pattern, \<open>cnv_pattern_energy_mode\<close>, which nothing calls at present, overruns its
  frame: once two steps are lit, the next block that is not louder writes behind the last LED
  (LED number 4 of 0 to 3). From the state at start two blocks at full volume are enough.
\<close>

theorem energy_mode_overrun:
  assumes "em_level_pre w = 2" "em_x_forward w = 2" "em_x_reverse w = 2" "\<And>tr. vol_at E tr \<le> 100"
  shows "cnv_pattern_energy_mode E len w = Inl Out_of_bounds"
proof -
  define v where "v = vol_at E (trace w @ [Cnv (Cnv_audio_calculate_volume len), Cnv Cnv_audio_get_volume])"
  have "uint v \<le> 100" using assms(4) by (simp add: v_def word_le_def)
  then have "uint v * 4 div 100 div 2 \<le> 2" "0 \<le> uint v * 4 div 100 div 2"
    by (simp_all add: pos_imp_zdiv_nonneg_iff)
  then have l: "\<not> (2::u16) < word_of_int (uint v * 4 div 100 div 2)"
    by (simp add: word_less_def uint_of_int_small)
  have nz: "em_x_forward w OR em_x_reverse w \<noteq> 0" using assms(2,3) by simp
  show ?thesis
    using l nz assms(1-3)
    by (simp add: cnv_pattern_energy_mode_def cnv_audio_process_def prog_simps v_def upt_rec em_fade_def
        put_pixel_def blank_frame_def)
qed

definition cnv0 :: cnv_vars where
  "cnv0 = sound_vars.extend sound0
     (cnv_vars.fields \<lparr>n_samples = 0, samplerate = 0, window_max_width_db = 0, regress_threshold_vol = 0,
        max_rms_fall_back_cycle = 0, default_rms_min = 0, default_rms_max = 0, variable_rms_max = 0, cnv_volume = 0,
        cur_rms = 0, vol_calc_types = CNV_AUDIO_VOLUME_STATIC\<rparr> 0 0 0 0 (replicate 256 0) 0 0)"

theorem energy_mode_overrun_witness:
  "\<exists>w. cnv_pattern_energy_mode (env_loud 100) 256 cnv0 = Inr ((), w) \<and>
     cnv_pattern_energy_mode (env_loud 100) 256 w = Inl Out_of_bounds"
proof -
  have v: "vol_at (env_loud 100) tr = 100" for tr by (simp add: vol_at_def env_loud_def)
  have "runs_to (cnv_pattern_energy_mode (env_loud 100) 256) cnv0 (\<lambda>_ w.
      em_level_pre w = 2 \<and> em_x_forward w = 2 \<and> em_x_reverse w = 2)"
    by code_simp
  then obtain w where w: "cnv_pattern_energy_mode (env_loud 100) 256 cnv0 = Inr ((), w)"
    "em_level_pre w = 2" "em_x_forward w = 2" "em_x_reverse w = 2"
    by (auto simp: runs_to_def split: sum.splits)
  have "cnv_pattern_energy_mode (env_loud 100) 256 w = Inl Out_of_bounds"
    by (rule energy_mode_overrun) (simp_all add: w v)
  then show ?thesis using w(1) by blast
qed

section \<open>The listener\<close>

lemma fold_prog_snoc: "fold_prog f (is @ [i]) x s =
   (case fold_prog f is x s of Inl e \<Rightarrow> Inl e | Inr (x', s') \<Rightarrow> f i x' s')"
  by (induction "is" arbitrary: x s) (auto simp: prog_simps split: sum.splits)

lemma fold_prog_fill:
  assumes "\<And>i buf. i < n \<Longrightarrow> f i buf = store i (g i) buf" "n \<le> length buf"
  shows "fold_prog f [0..<n] buf s = Inr (map g [0..<n] @ drop n buf, s)"
  using assms
proof (induction n)
  case (Suc n)
  then have d: "drop n buf = buf ! n # drop (Suc n) buf" by (simp add: Cons_nth_drop_Suc)
  show ?case
    using Suc by (simp add: fold_prog_snoc prog_simps list_update_append d)
qed (simp add: prog_simps)

text \<open>A stream of pairs of 16-bit samples, little-endian, and the second sample of each pair.\<close>

definition le16 :: "i16 \<Rightarrow> u8 list" where
  "le16 x = [ucast x, ucast (drop_bit 8 x)]"

definition pair_bytes :: "(i16 \<times> i16) list \<Rightarrow> u8 list" where
  "pair_bytes ps = concat (map (\<lambda>(l, r). le16 l @ le16 r) ps)"

lemma length_pair_bytes [simp]: "length (pair_bytes ps) = 4 * length ps"
  by (induction ps) (auto simp: pair_bytes_def le16_def)

lemma le16_value: "(word_of_int (uint (ucast (drop_bit 8 x) :: u8) * 2 ^ 8 + uint (ucast x :: u8)) :: i16) = x"
proof -
  have "0 \<le> uint x div 256" "uint x div 256 < 256"
    using uint_bounded [of x] by (simp_all add: pos_imp_zdiv_nonneg_iff)
  then have "uint (ucast (drop_bit 8 x) :: u8) = uint x div 2 ^ 8"
    by (simp add: unsigned_ucast_eq drop_bit_eq_div take_bit_eq_mod uint_div_distrib)
  moreover have "uint (ucast x :: u8) = uint x mod 2 ^ 8" by (simp add: unsigned_ucast_eq take_bit_eq_mod)
  ultimately show ?thesis by simp
qed

lemma sample_at_pair_bytes: "i < length ps \<Longrightarrow> sample_at (pair_bytes ps) i = sint (snd (ps ! i))"
proof (induction ps arbitrary: i)
  case (Cons p ps)
  obtain l r where p: "p = (l, r)" by (cases p)
  show ?case
  proof (cases i)
    case 0
    then show ?thesis using le16_value [of r] by (simp add: sample_at_def pair_bytes_def p le16_def)
  next
    case (Suc j)
    have "pair_bytes (p # ps) ! (i * 4 + 3) = pair_bytes ps ! (j * 4 + 3)"
      "pair_bytes (p # ps) ! (i * 4 + 2) = pair_bytes ps ! (j * 4 + 2)"
      using Suc by (simp_all add: pair_bytes_def p le16_def add.commute)
    then show ?thesis using Cons.IH [of j] Cons.prems Suc by (simp add: sample_at_def)
  qed
qed simp

text \<open>
  The listener and the stream: of a block of pairs of 16-bit samples the static buffer receives
  the second sample of every pair with its sign, for at most 256 pairs, the rest of the buffer is
  kept, and one reference to that many samples is queued; a longer block is cut at 1024 bytes and
  never overruns the buffer. Whether the queue had room does not matter to the caller.
\<close>

theorem mp3_data_cb_second_channel:
  assumes "length (cnv_buffer w) = 256" "length ps \<le> 536870911"
  shows "runs_to (audio_convert_mp3_data_cb E (pair_bytes ps) (4 * int (length ps))) w (\<lambda>_ w'.
    let n = min 256 (length ps) in
    cnv_buffer w' = map (sint \<circ> snd) (take n ps) @ drop n (cnv_buffer w) \<and>
    trace w' = trace w @ [Rtos (XQueueSend Audio_samples (Sample_ref (int n)) 1)])"
proof -
  define n where "n = min 256 (length ps)"
  have sz: "nat ((if 4 * int (length ps) > 1024 then 1024 else 4 * int (length ps)) sdiv 4) = n"
    by (auto simp: n_def sdiv_pos)
  have "fold_prog (convert_sample (pair_bytes ps)) [0..<n] (cnv_buffer w) s =
      Inr (map (sample_at (pair_bytes ps)) [0..<n] @ drop n (cnv_buffer w), s)" for s :: "'a cnv_vars_scheme"
    by (rule fold_prog_fill) (auto simp: convert_sample_def n_def assms(1))
  moreover have "map (sample_at (pair_bytes ps)) [0..<n] = map (sint \<circ> snd) (take n ps)"
    by (rule nth_equalityI) (auto simp: sample_at_pair_bytes n_def)
  ultimately show ?thesis
    unfolding audio_convert_mp3_data_cb_def Let_def sz n_def [symmetric]
    by (simp add: runs_to_Inr [where p = "fold_prog f is x" for f "is" x] audio_convert_fill_data_def)
qed

theorem mp3_data_cb_second_channel_witness:
  "runs_to (audio_convert_mp3_data_cb env_ok (pair_bytes [(7, 0x8000), (1, 2)]) 8) cnv0 (\<lambda>_ w'.
     cnv_buffer w' = [-32768, 2] @ replicate 254 0)"
proof -
  have "runs_to (audio_convert_mp3_data_cb env_ok (pair_bytes [(7, 0x8000), (1, 2)]) (4 * int (length [(7::i16, 0x8000::i16), (1, 2)]))) cnv0 (\<lambda>_ w'.
    let n = min 256 (length [(7::i16, 0x8000::i16), (1, 2)]) in
    cnv_buffer w' = map (sint \<circ> snd) (take n [(7::i16, 0x8000::i16), (1, 2)]) @ drop n (cnv_buffer cnv0) \<and>
    trace w' = trace cnv0 @ [Rtos (XQueueSend Audio_samples (Sample_ref (int n)) 1)])"
    by (rule mp3_data_cb_second_channel) (simp_all add: cnv0_def cnv_vars.defs sound_vars.defs)
  moreover have "cnv_buffer cnv0 = replicate 256 0" by (simp add: cnv0_def cnv_vars.defs sound_vars.defs)
  ultimately show ?thesis by (auto simp: Let_def elim!: runs_to_mono)
qed

end
