(* ===== verification/Handle_Message.thy ===== *)
theory Handle_Message
  imports Audio_Convert
begin

text \<open>
  \<open>handle_message.c\<close>: the JSON messages that control the car, and the combined run of a note, a
  motor and a light script; and the receive thread of \<open>my_ucp.c\<close>. The JSON parser cJSON is not part
  of the repository: \<open>parse\<close> stands for \<open>cJSON_Parse\<close>, and a parsed object is the function
  \<open>cJSON_GetObjectItem\<close> computes on it. A parsed object lives in an allocation that \<open>cJSON_Delete\<close>
  releases; the allocations are numbered and the live ones are kept in the state, so that a second
  release would be a fault. The strings of an object handed to a task carry the number of its
  allocation.
\<close>

section \<open>State\<close>

record cjson_item =
  is_number :: bool
  valueint :: int
  valuestring :: "string option"

type_synonym cjson = "string \<Rightarrow> cjson_item option"

record msg_vars = cnv_vars +
  live_roots :: "nat list"
  next_root :: nat
  run_cmds_root :: "(nat \<times> cjson) option"
  r_v1 :: "cjson_item option"
  r_v2 :: "cjson_item option"
  r_v3 :: "cjson_item option"
  r_v4 :: "cjson_item option"
  last_key :: int

abbreviation (input) M_RUN :: int where "M_RUN \<equiv> 0"
abbreviation (input) M_STOP :: int where "M_STOP \<equiv> 1"
abbreviation (input) S_PLAY :: int where "S_PLAY \<equiv> 4"
abbreviation (input) C_CMDS :: int where "C_CMDS \<equiv> 8"
abbreviation (input) C_STOP :: int where "C_STOP \<equiv> 9"

definition event_name :: "string list" where
  "event_name = [''M_RUN'', ''M_STOP'', ''M_RUN_D'', ''M_CMDS'', ''S_PLAY'', ''S_FREQ'', ''S_NOTES'', ''L_CMDS'', ''error'']"

section \<open>Memory of the parsed objects\<close>

definition cJSON_Parse :: "(string \<Rightarrow> cjson option) \<Rightarrow> string \<Rightarrow> ('a msg_vars_scheme, (nat \<times> cjson) option) prog" where
  "cJSON_Parse parse s =
     (case parse s of
        None \<Rightarrow> return None
      | Some obj \<Rightarrow>
          bind (gets next_root) (\<lambda>n.
          bind (modify (\<lambda>w. w\<lparr>live_roots := n # live_roots w, next_root := Suc n\<rparr>)) (\<lambda>_.
          return (Some (n, obj)))))"

definition cJSON_Delete :: "env \<Rightarrow> nat \<Rightarrow> ('a msg_vars_scheme, unit) prog" where
  "cJSON_Delete E n =
     bind (gets live_roots) (\<lambda>l.
     if n \<notin> set l then fail Use_after_free
     else block [emit E (Heap (Free (int n))), modify (\<lambda>w. w\<lparr>live_roots := removeAll n l\<rparr>)])"

text \<open>A member that is used although it may be absent.\<close>

definition deref :: "cjson_item option \<Rightarrow> ('s, cjson_item) prog" where
  "deref v = (case v of None \<Rightarrow> fail Null_pointer | Some i \<Rightarrow> return i)"

text \<open>The string of a member for a task. A member that is no string has a null \<open>valuestring\<close>, which
  the task would dereference at once; that fault is raised here.\<close>

definition script_arg :: "nat \<Rightarrow> cjson_item option \<Rightarrow> ('s, cstr) prog" where
  "script_arg n v = bind (deref v) (\<lambda>i. case valuestring i of None \<Rightarrow> fail Null_pointer | Some s \<Rightarrow> return (n, s))"

section \<open>The combined run\<close>

text \<open>\<open>play_notes_run(r_v2->valuestring); motor_run_cmds(r_v3->valuestring); led_run_cmds(r_v4->valuestring);\<close>\<close>

definition start_scripts :: "env \<Rightarrow> ('a msg_vars_scheme, unit) prog" where
  "start_scripts E =
     bind (gets run_cmds_root) (\<lambda>js.
     let n = (case js of None \<Rightarrow> 0 | Some (n, _) \<Rightarrow> n) in block
       [bind (gets r_v2) (\<lambda>v. bind (script_arg n v) (play_notes_run E)),
        bind (gets r_v3) (\<lambda>v. bind (script_arg n v) (motor_run_cmds E)),
        bind (gets r_v4) (\<lambda>v. bind (script_arg n v) (led_run_cmds E))])"

text \<open>The task returns without deleting itself when the run has been stopped.\<close>

definition run_cmds_task :: "env \<Rightarrow> ('a msg_vars_scheme, unit) prog" where
  "run_cmds_task E =
     bind (gets run_cmds_is_run) (\<lambda>running.
     if running = 0 then return ()
     else bind (bind (gets r_v1) deref) (\<lambda>v1. block
       [if valueint v1 \<noteq> 0 then start_scripts E
        else modify (\<lambda>w. w\<lparr>run_cmds_is_run := 0\<rparr>),
        emit E (Rtos VTaskDelete)]))"

definition run_cmds :: "env \<Rightarrow> nat \<times> cjson \<Rightarrow> ('a msg_vars_scheme, unit) prog" where
  "run_cmds E js =
     bind (gets run_cmds_root) (\<lambda>old.
     bind (block
       [case old of None \<Rightarrow> return () | Some (n, _) \<Rightarrow> cJSON_Delete E n,
        modify (\<lambda>w. w\<lparr>run_cmds_root := Some js, r_v1 := snd js ''V1'', r_v2 := snd js ''V2'',
          r_v3 := snd js ''V3'', r_v4 := snd js ''V4''\<rparr>)]) (\<lambda>_.
     if snd js ''V1'' = None \<or> snd js ''V2'' = None \<or> snd js ''V3'' = None \<or> snd js ''V4'' = None
     then return ()
     else block [modify (\<lambda>w. w\<lparr>run_cmds_is_run := 1\<rparr>), start_scripts E]))"

section \<open>Messages\<close>

definition handle_M_RUN :: "env \<Rightarrow> cjson \<Rightarrow> ('a msg_vars_scheme, unit) prog" where
  "handle_M_RUN E js =
     (case (js ''m1d'', js ''m2d'', js ''m1s'', js ''m2s'') of
        (Some d1, Some d2, Some s1, Some s2) \<Rightarrow> block
          [gpio_enable_drv8833 E,
           drv8833_motorA_run E (valueint s1) (valueint d1),
           drv8833_motorB_run E (valueint s2) (valueint d2),
           case js ''k'' of
             None \<Rightarrow> return ()
           | Some key \<Rightarrow>
               bind (gets last_key) (\<lambda>lk.
               if lk = valueint key then return ()
               else block
                 [modify (\<lambda>w. w\<lparr>last_key := valueint key\<rparr>),
                  if valueint key = 1 then sound_play_mp3_run E 0
                  else if valueint key = 2 then sound_play_mp3_run E 1
                  else if valueint key = 3 then sound_play_mp3_run E 0xF
                  else return ()])]
      | _ \<Rightarrow> return ())"

text \<open>The result of the dispatch tells whether the object is still owned by the caller.\<close>

definition dispatch :: "env \<Rightarrow> nat \<times> cjson \<Rightarrow> int \<Rightarrow> ('a msg_vars_scheme, bool) prog" where
  "dispatch E js ty =
     (if ty = M_RUN then bind (handle_M_RUN E (snd js)) (\<lambda>_. return True)
      else if ty = M_STOP then bind (car_stop E) (\<lambda>_. return True)
      else if ty = S_PLAY then
        (case snd js ''fileid'' of
           None \<Rightarrow> return True
         | Some file \<Rightarrow> bind (sound_play_mp3_run E (valueint file)) (\<lambda>_. return True))
      else if ty = C_CMDS then
        bind (gets run_cmds_is_run) (\<lambda>running.
        if running = 0 then bind (run_cmds E js) (\<lambda>_. return False) else return True)
      else if ty = C_STOP then
        bind (block
          [modify (\<lambda>w. w\<lparr>run_cmds_is_run := 0\<rparr>),
           bind (motor_run_cmds_stop E) (\<lambda>_. return ()),
           bind (led_run_cmds_stop E) (\<lambda>_. return ()),
           bind (play_notes_stop E) (\<lambda>_. return ())]) (\<lambda>_. return True)
      else return True)"

definition handle_message :: "(string \<Rightarrow> cjson option) \<Rightarrow> env \<Rightarrow> string \<Rightarrow> ('a msg_vars_scheme, int) prog" where
  "handle_message parse E json_str_in =
     bind (cJSON_Parse parse json_str_in) (\<lambda>r.
     case r of
       None \<Rightarrow> return (-1)
     | Some (n, js) \<Rightarrow>
         bind (case js ''T'' of
                 None \<Rightarrow> return True
               | Some type \<Rightarrow> if \<not> is_number type then return True else dispatch E (n, js) (valueint type)) (\<lambda>own.
         bind (if_then own (cJSON_Delete E n)) (\<lambda>_. return (-1))))"

section \<open>The receive thread\<close>

text \<open>The text of a received packet, up to its first NUL.\<close>

definition c_text :: "u8 list \<Rightarrow> string" where
  "c_text bs = map (\<lambda>b. char_of (unat b)) (takeWhile (\<lambda>b. b \<noteq> 0) bs)"

text \<open>One turn: at most 1500 bytes are received into an array of 1500, and a NUL is written behind them.\<close>

definition ucp_server_rcv_turn :: "(string \<Rightarrow> cjson option) \<Rightarrow> env \<Rightarrow> ('a msg_vars_scheme, unit) prog" where
  "ucp_server_rcv_turn parse E =
     bind (ask E (Ucp (Ucp_recv 1500))) (\<lambda>(ret, d).
     if ret > 0 then
       bind (memcpy_at 0 (map word_of_int (take (nat ret) d)) (replicate 1500 0)) (\<lambda>buf.
       bind (store (nat ret) 0 buf) (\<lambda>buf.
       bind (handle_message parse E (c_text buf)) (\<lambda>_. return ())))
     else return ())"

primrec ucp_server_rcv_thread :: "(string \<Rightarrow> cjson option) \<Rightarrow> nat \<Rightarrow> env \<Rightarrow> ('a msg_vars_scheme, unit) prog" where
  "ucp_server_rcv_thread parse 0 E = return ()"
| "ucp_server_rcv_thread parse (Suc n) E =
     bind (ucp_server_rcv_turn parse E) (\<lambda>_. ucp_server_rcv_thread parse n E)"

section \<open>Ownership of the parsed objects\<close>

text \<open>The variables of this file, apart from \<open>last_key\<close>, which the other modules leave alone.\<close>

definition msg_frame ::
  "'a msg_vars_scheme \<Rightarrow> nat list \<times> nat \<times> (nat \<times> cjson) option \<times>
     (cjson_item option \<times> cjson_item option \<times> cjson_item option \<times> cjson_item option) \<times> u8" where
  "msg_frame w = (live_roots w, next_root w, run_cmds_root w, (r_v1 w, r_v2 w, r_v3 w, r_v4 w), run_cmds_is_run w)"

named_theorems keeps_intros \<open>rules for programs that leave the message variables alone\<close>

definition keeps :: "('a msg_vars_scheme, 'b) prog \<Rightarrow> bool" where
  "keeps p \<longleftrightarrow> (\<forall>w. case p w of Inl f \<Rightarrow> f \<noteq> Use_after_free | Inr (a, w') \<Rightarrow> msg_frame w' = msg_frame w)"

lemma keeps_simple [keeps_intros]:
  "keeps (return a)" "keeps (gets g)" "keeps (chk_int x)" "keeps (ask E c)" "keeps (call E c)" "keeps (emit E c)"
  "keeps (ESP_ERROR_CHECK E c)" "flt \<noteq> Use_after_free \<Longrightarrow> keeps (fail flt)"
  "(\<And>w. msg_frame (f w) = msg_frame w) \<Longrightarrow> keeps (modify f)"
  by (simp_all add: keeps_def prog_simps msg_frame_def)

lemma keeps_bind [keeps_intros]:
  assumes "keeps p" "\<And>a. keeps (k a)"
  shows "keeps (bind p k)"
  unfolding keeps_def
proof
  fix w
  show "case bind p k w of Inl f \<Rightarrow> f \<noteq> Use_after_free | Inr (a, w') \<Rightarrow> msg_frame w' = msg_frame w"
  proof (cases "p w")
    case (Inl f)
    then show ?thesis using assms(1) by (auto simp: keeps_def bind_run dest: spec [of _ w])
  next
    case (Inr r)
    obtain a w1 where r: "r = (a, w1)" by (cases r)
    have "msg_frame w1 = msg_frame w" using assms(1) Inr r by (auto simp: keeps_def dest: spec [of _ w])
    moreover have "case k a w1 of Inl f \<Rightarrow> f \<noteq> Use_after_free | Inr (b, w') \<Rightarrow> msg_frame w' = msg_frame w1"
      using assms(2) [of a] unfolding keeps_def by blast
    ultimately show ?thesis using Inr r by (simp add: bind_run split: sum.splits prod.splits)
  qed
qed

lemma keeps_control [keeps_intros]:
  "keeps (block [])"
  "keeps p \<Longrightarrow> keeps (block ps) \<Longrightarrow> keeps (block (p # ps))"
  "keeps p \<Longrightarrow> keeps (if_then b p)"
  by (simp_all add: block.simps keeps_bind keeps_simple if_then_def)

lemma keeps_branch [keeps_intros]:
  "(b \<Longrightarrow> keeps p) \<Longrightarrow> (\<not> b \<Longrightarrow> keeps q) \<Longrightarrow> keeps (if b then p else q)"
  "keeps m \<Longrightarrow> (\<And>x. keeps (h x)) \<Longrightarrow> keeps (case u of None \<Rightarrow> m | Some x \<Rightarrow> h x)"
  "(\<And>x y. keeps (g x y)) \<Longrightarrow> keeps (case z of (x, y) \<Rightarrow> g x y)"
  by (simp_all split: option.splits prod.splits)

lemma keeps_runs [keeps_intros]:
  "keeps (play_notes_stop E)" "keeps (motor_run_cmds_stop E)" "keeps (led_run_cmds_stop E)" "keeps (sound_play_mp3_stop E)"
  "keeps (play_notes_run E s)" "keeps (motor_run_cmds E s)" "keeps (led_run_cmds E s)" "keeps (sound_play_mp3_run E n)"
  unfolding play_notes_stop_def motor_run_cmds_stop_def led_run_cmds_stop_def sound_play_mp3_stop_def
    play_notes_run_def motor_run_cmds_def led_run_cmds_def sound_play_mp3_run_def
    play_notes_wait_for_stop_def motor_run_cmds_wait_for_stop_def led_run_cmds_wait_for_stop_def
    sound_play_mp3_wait_for_stop_def
  by (intro keeps_intros; simp add: msg_frame_def)+

lemma keeps_motor [keeps_intros]:
  "keeps (gpio_enable_drv8833 E)" "keeps (drv8833_motorA_run E s d)" "keeps (drv8833_motorB_run E s d)" "keeps (car_stop E)"
  unfolding gpio_enable_drv8833_def drv8833_motorA_run_def drv8833_motorB_run_def car_stop_def
    drv8833_motorA_stop_def drv8833_motorB_stop_def gpio_disable_drv8833_def Let_def
  by (intro keeps_intros; simp add: msg_frame_def)+

lemma keeps_M_RUN [keeps_intros]: "keeps (handle_M_RUN E js)"
  unfolding handle_M_RUN_def by (intro keeps_intros) (simp_all add: msg_frame_def)

lemma keeps_start_scripts [keeps_intros]: "keeps (start_scripts E)"
  unfolding start_scripts_def script_arg_def deref_def Let_def by (intro keeps_intros) simp_all

definition msg_inv :: "'a msg_vars_scheme \<Rightarrow> bool" where
  "msg_inv w \<longleftrightarrow>
     live_roots w = (case run_cmds_root w of None \<Rightarrow> [] | Some (n, _) \<Rightarrow> [n]) \<and>
     (\<forall>n \<in> set (live_roots w). n < next_root w) \<and>
     (run_cmds_is_run w \<noteq> 0 \<longrightarrow>
        run_cmds_root w \<noteq> None \<and> r_v1 w \<noteq> None \<and> r_v2 w \<noteq> None \<and> r_v3 w \<noteq> None \<and> r_v4 w \<noteq> None)"

lemma msg_inv_frame: "msg_frame w' = msg_frame w \<Longrightarrow> msg_inv w' = msg_inv w"
  by (simp add: msg_inv_def msg_frame_def)

text \<open>Every outcome is no use of freed memory, or a result and state with \<open>Q\<close>.\<close>

definition no_uaf :: "('s, 'a) prog \<Rightarrow> 's \<Rightarrow> ('a \<Rightarrow> 's \<Rightarrow> bool) \<Rightarrow> bool" where
  "no_uaf p w Q = (case p w of Inl f \<Rightarrow> f \<noteq> Use_after_free | Inr (a, w') \<Rightarrow> Q a w')"

lemma no_uaf_simps [simp]:
  "no_uaf (return a) w Q = Q a w"
  "no_uaf (gets g) w Q = Q (g w) w"
  "no_uaf (emit E c) v R = R () (v\<lparr>trace := trace v @ [c]\<rparr>)"
  "no_uaf (modify f) w U = U () (f w)"
  "no_uaf (block []) w U = U () w"
  "no_uaf (fail flt) w Q = (flt \<noteq> Use_after_free)"
  by (simp_all add: no_uaf_def prog_simps)

lemma no_uaf_bind [simp]: "no_uaf (bind m k) w Q = no_uaf m w (\<lambda>a w'. no_uaf (k a) w' Q)"
  by (auto simp: no_uaf_def prog_simps split: sum.splits)

lemma no_uaf_block [simp]: "no_uaf (block (p # ps)) w Q = no_uaf p w (\<lambda>_ w'. no_uaf (block ps) w' Q)"
  by (auto simp: no_uaf_def prog_simps split: sum.splits)

lemma no_uaf_if_then [simp]: "no_uaf (if_then b p) w Q = (if b then no_uaf p w Q else Q () w)"
  by (simp add: no_uaf_def prog_simps)

lemma no_uaf_keeps:
  assumes "keeps p" "\<And>a w'. msg_frame w' = msg_frame w \<Longrightarrow> Q a w'"
  shows "no_uaf p w Q"
  using assms unfolding no_uaf_def keeps_def by (force split: sum.splits dest: spec [of _ w])

lemma no_uaf_mono: "no_uaf p w Q \<Longrightarrow> (\<And>a w'. Q a w' \<Longrightarrow> R a w') \<Longrightarrow> no_uaf p w R"
  by (auto simp: no_uaf_def split: sum.splits)

text \<open>The state between parsing and the end of a message: the new object is live, too.\<close>

definition holding :: "nat \<Rightarrow> 'a msg_vars_scheme \<Rightarrow> bool" where
  "holding n w \<longleftrightarrow> n \<in> set (live_roots w) \<and> msg_inv (w\<lparr>live_roots := removeAll n (live_roots w)\<rparr>)"

lemma holding_frame: "msg_frame w' = msg_frame w \<Longrightarrow> holding n w' = holding n w"
  by (simp add: holding_def msg_inv_def msg_frame_def)

lemma no_uaf_delete: "holding n w \<Longrightarrow> no_uaf (cJSON_Delete E n) w (\<lambda>_ w'. msg_inv w')"
  by (auto simp: cJSON_Delete_def holding_def msg_frame_def elim!: msg_inv_frame [THEN iffD1, rotated])

lemma msg_inv_stop: "msg_inv w \<Longrightarrow> msg_inv (w\<lparr>run_cmds_is_run := 0\<rparr>)"
  by (simp add: msg_inv_def)

lemma holding_stop: "holding n w \<Longrightarrow> holding n (w\<lparr>run_cmds_is_run := 0\<rparr>)"
  using msg_inv_stop [of "w\<lparr>live_roots := removeAll n (live_roots w)\<rparr>"]
    msg_inv_frame [of "w\<lparr>run_cmds_is_run := 0, live_roots := removeAll n (live_roots w)\<rparr>"
      "w\<lparr>live_roots := removeAll n (live_roots w), run_cmds_is_run := 0\<rparr>"]
  by (simp add: holding_def msg_frame_def)

text \<open>All messages but the one that starts a combined run leave the object with the handler.\<close>

lemma no_uaf_holding:
  assumes "keeps p" "holding n w"
  shows "no_uaf p w (\<lambda>_ w'. holding n w')"
  by (rule no_uaf_keeps [OF assms(1)]) (use assms(2) holding_frame in blast)

lemma keeps_stops: "keeps (block
  [bind (motor_run_cmds_stop E) (\<lambda>_. return ()), bind (led_run_cmds_stop E) (\<lambda>_. return ()),
   bind (play_notes_stop E) (\<lambda>_. return ())])"
  by (intro keeps_intros)

lemma no_uaf_dispatch:
  assumes "holding n w" "run_cmds_is_run w = 0 \<Longrightarrow> no_uaf (run_cmds E (n, js)) w (\<lambda>_ w'. msg_inv w')"
  shows "no_uaf (dispatch E (n, js) ty) w (\<lambda>own w'. if own then holding n w' else msg_inv w')"
  using assms no_uaf_holding [OF keeps_M_RUN assms(1)] no_uaf_holding [OF keeps_motor(4) assms(1)]
    no_uaf_holding [OF keeps_runs(8) assms(1)] no_uaf_holding [OF keeps_stops holding_stop [OF assms(1)]]
  by (auto simp: dispatch_def split: option.split)

lemma no_uaf_run_cmds:
  assumes "holding n w" "run_cmds_is_run w = 0" "live_roots w = n # (case run_cmds_root w of None \<Rightarrow> [] | Some (m, _) \<Rightarrow> [m])"
    "\<And>m j. run_cmds_root w = Some (m, j) \<Longrightarrow> m \<noteq> n" "n < next_root w"
  shows "no_uaf (run_cmds E (n, js)) w (\<lambda>_ w'. msg_inv w')"
proof (cases "run_cmds_root w")
  case None
  then show ?thesis
    using assms
    by (auto simp: run_cmds_def msg_inv_def msg_frame_def intro!: no_uaf_keeps [OF keeps_start_scripts])
next
  case (Some r)
  then show ?thesis
    using assms
    by (cases r) (auto simp: run_cmds_def msg_inv_def msg_frame_def cJSON_Delete_def intro!: no_uaf_keeps [OF keeps_start_scripts])
qed


definition msg0 :: msg_vars where
  "msg0 = cnv_vars.extend cnv0 (msg_vars.fields [] 1 None None None None None 0)"

definition num :: "int \<Rightarrow> cjson_item" where
  "num n = \<lparr>is_number = True, valueint = n, valuestring = None\<rparr>"

definition str :: "string \<Rightarrow> cjson_item" where
  "str s = \<lparr>is_number = False, valueint = 0, valuestring = Some s\<rparr>"

text \<open>A parser that knows three messages.\<close>

definition demo_parse :: "string \<Rightarrow> cjson option" where
  "demo_parse s =
     (if s = ''stop'' then Some [''T'' \<mapsto> num 1]
      else if s = ''run'' then Some [''T'' \<mapsto> num 0, ''m1d'' \<mapsto> num 1, ''m2d'' \<mapsto> num (-1), ''m1s'' \<mapsto> num 80, ''m2s'' \<mapsto> num 50, ''k'' \<mapsto> num 1]
      else if s = ''dance'' then Some [''T'' \<mapsto> num 8, ''V1'' \<mapsto> num 0, ''V2'' \<mapsto> str ''1,2;'', ''V3'' \<mapsto> str ''F,2;'', ''V4'' \<mapsto> str ''R,2;'']
      else None)"

lemma msg0_inv: "msg_inv msg0"
  by (simp add: msg_inv_def msg0_def cnv_vars.defs msg_vars.defs cnv0_def sound_vars.defs sound0_def)


text \<open>The combined run's own task keeps the same state consistent.\<close>

lemma run_cmds_task_ownership:
  assumes "msg_inv w"
  shows "no_uaf (run_cmds_task E) w (\<lambda>_ w'. msg_inv w')"
  using assms msg_inv_stop [OF assms] msg_inv_frame
  by (auto simp: run_cmds_task_def deref_def msg_frame_def msg_inv_def split: option.split
      intro!: no_uaf_keeps [OF keeps_start_scripts])

section \<open>Driving and honking\<close>

definition is_rtos :: "call \<Rightarrow> bool" where
  "is_rtos c = (case c of Rtos _ \<Rightarrow> True | _ \<Rightarrow> False)"

lemma pins_of_rtos: "list_all is_rtos cs \<Longrightarrow> pins_of (tr @ cs) = pins_of tr"
proof -
  have "fold pin_step cs p = p" if "list_all is_rtos cs" for p
    using that by (induction cs) (auto simp: is_rtos_def split: call.splits)
  then show "list_all is_rtos cs \<Longrightarrow> ?thesis" by (simp add: pins_of_append)
qed

definition starts_of :: "task \<Rightarrow> call list \<Rightarrow> nat" where
  "starts_of t cs = count_list cs (Rtos (XTaskCreate t))"

lemma mp3_run_starts_once:
  "\<exists>tr. sound_play_mp3_run E x w = Inr ((), w\<lparr>mp3_fileid := x, trace := trace w @ tr\<rparr>) \<and>
     list_all is_rtos tr \<and> starts_of Play_mp3 tr = 1"
  by (auto simp: mp3_task.run_eq mp3_task.stop_eq Let_def is_rtos_def starts_of_def
      intro: exI [of _ "[a, b, c]" for a b c] exI [of _ "[a, b, c, d]" for a b c d]
        exI [of _ "[a, b, c, d, e, f, g]" for a b c d e f g])

text \<open>The drive a speed and a direction of a message stand for.\<close>

definition wanted :: "cjson_item \<Rightarrow> cjson_item \<Rightarrow> drive" where
  "wanted speed dir =
     (if valueint speed = 0 then Coast
      else if 0 \<le> valueint dir then Forward (duty_of_speed (valueint speed))
      else Reverse (duty_of_speed (valueint speed)))"

definition percent :: "cjson_item \<Rightarrow> bool" where
  "percent i \<longleftrightarrow> 0 \<le> valueint i \<and> valueint i \<le> 100"

text \<open>A message that asks for motion and carries a key.\<close>

definition run_message :: "cjson \<Rightarrow> cjson_item \<Rightarrow> cjson_item \<Rightarrow> cjson_item \<Rightarrow> cjson_item \<Rightarrow> cjson_item \<Rightarrow> bool" where
  "run_message js d1 d2 s1 s2 key \<longleftrightarrow>
     (\<exists>t. js ''T'' = Some t \<and> is_number t \<and> valueint t = M_RUN) \<and>
     js ''m1d'' = Some d1 \<and> js ''m2d'' = Some d2 \<and> js ''m1s'' = Some s1 \<and> js ''m2s'' = Some s2 \<and>
     js ''k'' = Some key \<and> percent s1 \<and> percent s2"

definition driven :: "'a msg_vars_scheme \<Rightarrow> cjson_item \<Rightarrow> cjson_item \<Rightarrow> cjson_item \<Rightarrow> cjson_item \<Rightarrow> bool" where
  "driven w d1 d2 s1 s2 \<longleftrightarrow> (let p = pins_of (trace w) in
     motorA_drive p = wanted s1 d1 \<and> motorB_drive p = wanted s2 d2 \<and> bridge_enabled p)"

lemma motors_driven:
  assumes "ledc_ok E" "percent s1" "percent s2"
  shows "runs_to (block [gpio_enable_drv8833 E, drv8833_motorA_run E (valueint s1) (valueint d1),
      drv8833_motorB_run E (valueint s2) (valueint d2)]) w (\<lambda>_ w'. driven w' d1 d2 s1 s2 \<and>
    msg_frame w' = msg_frame w \<and> last_key w' = last_key w \<and>
    (\<exists>cs. trace w' = trace w @ cs \<and> starts_of Play_mp3 cs = 0))"
  using assms duty_of_speed_uint(3) [of "valueint s1"] duty_of_speed_uint(3) [of "valueint s2"]
  by (auto simp: runs_to_def prog_simps gpio_enable_drv8833_def motorA.run_eq motorB.run_eq percent_def driven_def
      pins_of_append motorA_drive_def motorB_drive_def wanted_def drive_of_def bridge_enabled_def msg_frame_def
      starts_of_def Let_def)

definition honks :: "int \<Rightarrow> int \<Rightarrow> bool" where
  "honks lk k \<longleftrightarrow> lk \<noteq> k \<and> k \<in> {1, 2, 3}"

text \<open>What the handler does with the key.\<close>

definition key_action :: "env \<Rightarrow> int \<Rightarrow> ('a msg_vars_scheme, unit) prog" where
  "key_action E k =
     bind (gets last_key) (\<lambda>lk.
     if lk = k then return ()
     else block
       [modify (\<lambda>w. w\<lparr>last_key := k\<rparr>),
        if k = 1 then sound_play_mp3_run E 0
        else if k = 2 then sound_play_mp3_run E 1
        else if k = 3 then sound_play_mp3_run E 0xF
        else return ()])"

lemma mp3_run_to:
  "runs_to (sound_play_mp3_run E x) w (\<lambda>_ w'. msg_frame w' = msg_frame w \<and> last_key w' = last_key w \<and>
     (\<exists>tr. trace w' = trace w @ tr \<and> list_all is_rtos tr \<and> starts_of Play_mp3 tr = 1))"
  using mp3_run_starts_once [of E x w] by (auto simp: runs_to_def msg_frame_def)

lemma key_action_runs:
  "runs_to (key_action E k) w (\<lambda>_ w'. msg_frame w' = msg_frame w \<and> last_key w' = k \<and>
     (\<exists>tr. trace w' = trace w @ tr \<and> list_all is_rtos tr \<and>
       starts_of Play_mp3 tr = (if honks (last_key w) k then 1 else 0)))"
proof -
  let ?w = "w\<lparr>last_key := k\<rparr>"
  have r: "runs_to (sound_play_mp3_run E x) ?w (\<lambda>_ w'. msg_frame w' = msg_frame w \<and> last_key w' = k \<and>
     (\<exists>tr. trace w' = trace w @ tr \<and> list_all is_rtos tr \<and> starts_of Play_mp3 tr = 1))" for x
    using mp3_run_to [of E x ?w] by (simp add: msg_frame_def)
  consider "last_key w = k" | "last_key w \<noteq> k" "k \<in> {1, 2, 3}" | "last_key w \<noteq> k" "k \<notin> {1, 2, 3}" by blast
  then show ?thesis
  proof cases
    case 2
    then show ?thesis using r by (auto simp: key_action_def honks_def)
  qed (auto simp: key_action_def honks_def starts_of_def msg_frame_def)
qed

lemma driven_rtos:
  "driven w1 d1 d2 s1 s2 \<Longrightarrow> trace w' = trace w1 @ tr \<Longrightarrow> list_all is_rtos tr \<Longrightarrow> driven w' d1 d2 s1 s2"
  by (simp add: driven_def pins_of_rtos)

lemma handle_M_RUN_runs:
  fixes w :: "'a msg_vars_scheme"
  assumes "run_message js d1 d2 s1 s2 key" "ledc_ok E"
  shows "runs_to (handle_M_RUN E js) w (\<lambda>_ w'. driven w' d1 d2 s1 s2 \<and> msg_frame w' = msg_frame w \<and>
    last_key w' = valueint key \<and>
    (\<exists>cs. trace w' = trace w @ cs \<and> starts_of Play_mp3 cs = (if honks (last_key w) (valueint key) then 1 else 0)))"
proof -
  let ?m = "[gpio_enable_drv8833 E, drv8833_motorA_run E (valueint s1) (valueint d1),
      drv8833_motorB_run E (valueint s2) (valueint d2)]"
  have e: "handle_M_RUN E js = block (?m @ [key_action E (valueint key)])"
    using assms(1) by (simp add: handle_M_RUN_def run_message_def key_action_def)
  have p: "percent s1" "percent s2" using assms(1) by (simp_all add: run_message_def)
  note M = motors_driven [OF assms(2) p, of d1 d2 w]
  show ?thesis
    unfolding e block_append runs_to_bind
  proof (rule runs_to_mono [OF M], elim conjE exE)
    fix cs and w1 :: "'a msg_vars_scheme"
    assume w1: "driven w1 d1 d2 s1 s2" "msg_frame w1 = msg_frame w" "last_key w1 = last_key w"
      "trace w1 = trace w @ cs" "starts_of Play_mp3 cs = 0"
    have d': "driven w' d1 d2 s1 s2" if "trace w' = trace w @ cs @ tr" "list_all is_rtos tr"
      for w' :: "'a msg_vars_scheme" and tr
      using driven_rtos [OF w1(1), of w' tr] that w1(4) by simp
    show "runs_to (block [key_action E (valueint key)]) w1 (\<lambda>_ w'. driven w' d1 d2 s1 s2 \<and> msg_frame w' = msg_frame w \<and>
      last_key w' = valueint key \<and>
      (\<exists>cs. trace w' = trace w @ cs \<and> starts_of Play_mp3 cs = (if honks (last_key w) (valueint key) then 1 else 0)))"
      unfolding runs_to_block
      by (rule runs_to_mono [OF key_action_runs]) (use w1 d' in \<open>auto simp: starts_of_def\<close>)
  qed
qed

text \<open>One message: the object is parsed, used and released.\<close>

lemma handle_run_message:
  fixes w :: "'a msg_vars_scheme"
  assumes "msg_inv w" "parse s = Some js" "run_message js d1 d2 s1 s2 key" "ledc_ok E"
  shows "runs_to (handle_message parse E s) w (\<lambda>_ w'. msg_inv w' \<and> driven w' d1 d2 s1 s2 \<and>
    last_key w' = valueint key \<and>
    (\<exists>cs. trace w' = trace w @ cs \<and> starts_of Play_mp3 cs = (if honks (last_key w) (valueint key) then 1 else 0)))"
proof -
  let ?n = "next_root w"
  let ?w1 = "w\<lparr>live_roots := ?n # live_roots w, next_root := Suc ?n\<rparr>"
  have nl: "?n \<notin> set (live_roots w)" using assms(1) by (auto simp: msg_inv_def)
  have h: "holding ?n ?w1" using assms(1) nl by (auto simp: holding_def msg_inv_def less_Suc_eq)
  have e: "runs_to (handle_message parse E s) w Q = runs_to (handle_M_RUN E js) ?w1 (\<lambda>_ w'.
      runs_to (cJSON_Delete E ?n) w' (\<lambda>_ w''. Q (-1) w''))" for Q
    using assms(2,3) by (auto simp: handle_message_def cJSON_Parse_def dispatch_def run_message_def)
  show ?thesis
    unfolding e
  proof (rule runs_to_mono [OF handle_M_RUN_runs [OF assms(3,4)]], elim conjE exE)
    fix cs and w2 :: "'a msg_vars_scheme"
    assume w2: "driven w2 d1 d2 s1 s2" "msg_frame w2 = msg_frame ?w1" "last_key w2 = valueint key"
      "trace w2 = trace ?w1 @ cs" "starts_of Play_mp3 cs = (if honks (last_key ?w1) (valueint key) then 1 else 0)"
    let ?w3 = "w2\<lparr>trace := trace w2 @ [Heap (Free (int ?n))], live_roots := removeAll ?n (live_roots w2)\<rparr>"
    have hold: "holding ?n w2" using h holding_frame [OF w2(2)] by simp
    have "driven ?w3 d1 d2 s1 s2" using w2(1) by (simp add: driven_def pins_of_append)
    moreover have "msg_inv ?w3"
      using hold msg_inv_frame [of ?w3 "w2\<lparr>live_roots := removeAll ?n (live_roots w2)\<rparr>"]
      by (simp add: holding_def msg_frame_def)
    ultimately show "runs_to (cJSON_Delete E ?n) w2 (\<lambda>_ w'. msg_inv w' \<and> driven w' d1 d2 s1 s2 \<and>
      last_key w' = valueint key \<and>
      (\<exists>cs. trace w' = trace w @ cs \<and> starts_of Play_mp3 cs = (if honks (last_key w) (valueint key) then 1 else 0)))"
      using hold w2(3-5) by (auto simp: cJSON_Delete_def holding_def starts_of_def)
  qed
qed



section \<open>The combined run\<close>

definition script_of :: "cjson \<Rightarrow> string \<Rightarrow> string \<Rightarrow> bool" where
  "script_of js v s \<longleftrightarrow> (\<exists>i. js v = Some i \<and> valuestring i = Some s)"

text \<open>A message that asks for a combined run of three scripts.\<close>

definition cmds_message :: "cjson \<Rightarrow> string \<Rightarrow> string \<Rightarrow> string \<Rightarrow> bool" where
  "cmds_message js notes motor led \<longleftrightarrow>
     (\<exists>t. js ''T'' = Some t \<and> is_number t \<and> valueint t = C_CMDS) \<and> js ''V1'' \<noteq> None \<and>
     script_of js ''V2'' notes \<and> script_of js ''V3'' motor \<and> script_of js ''V4'' led"

lemma starts_of_none: "(\<forall>t. Rtos (XTaskCreate t) \<notin> set tr) \<Longrightarrow> starts_of u tr = 0"
  by (simp add: starts_of_def count_list_0_iff)

lemma starts_of_simps [simp]:
  "starts_of u [] = 0" "starts_of u (xs @ ys) = starts_of u xs + starts_of u ys"
  "starts_of u (c # cs) = (if c = Rtos (XTaskCreate u) then 1 else 0) + starts_of u cs"
  by (simp_all add: starts_of_def)

lemma start_scripts_run:
  assumes "run_cmds_root w = Some (n, j)"
    and "r_v2 w = Some i2" "valuestring i2 = Some notes" "r_v3 w = Some i3" "valuestring i3 = Some motor"
    and "r_v4 w = Some i4" "valuestring i4 = Some led"
  shows "\<exists>tr w'. start_scripts E w = Inr ((), w') \<and> msg_frame w' = msg_frame w \<and> trace w' = trace w @ tr \<and>
    notes_args w' = (n, notes) \<and> motor_args w' = (n, motor) \<and> led_args w' = (n, led) \<and>
    (\<forall>t \<in> {Play_notes, Motor_cmds, Led_cmds}. starts_of t tr = 1) \<and>
    (\<forall>u. play_notes_run E (n, notes) w = Inr ((), u) \<longrightarrow> (\<exists>cs. trace w' = trace u @ cs))"
proof -
  obtain t1 where 1: "play_notes_run E (n, notes) w = Inr ((), (w\<lparr>notes_args := (n, notes)\<rparr>)\<lparr>trace := trace w @ t1 @
      [Rtos (Write_task_run Play_notes True), Rtos (XTaskCreate Play_notes)]\<rparr>)" "\<forall>t. Rtos (XTaskCreate t) \<notin> set t1"
    using notes_task.run_creates [of E "(n, notes)" w] by blast
  define w1 where "w1 = (w\<lparr>notes_args := (n, notes)\<rparr>)\<lparr>trace := trace w @ t1 @
      [Rtos (Write_task_run Play_notes True), Rtos (XTaskCreate Play_notes)]\<rparr>"
  obtain t2 where 2: "motor_run_cmds E (n, motor) w1 = Inr ((), (w1\<lparr>motor_args := (n, motor)\<rparr>)\<lparr>trace := trace w1 @ t2 @
      [Rtos (Write_task_run Motor_cmds True), Rtos (XTaskCreate Motor_cmds)]\<rparr>)" "\<forall>t. Rtos (XTaskCreate t) \<notin> set t2"
    using motor_task.run_creates [of E "(n, motor)" w1] by blast
  define w2 where "w2 = (w1\<lparr>motor_args := (n, motor)\<rparr>)\<lparr>trace := trace w1 @ t2 @
      [Rtos (Write_task_run Motor_cmds True), Rtos (XTaskCreate Motor_cmds)]\<rparr>"
  obtain t3 where 3: "led_run_cmds E (n, led) w2 = Inr ((), (w2\<lparr>led_args := (n, led)\<rparr>)\<lparr>trace := trace w2 @ t3 @
      [Rtos (Write_task_run Led_cmds True), Rtos (XTaskCreate Led_cmds)]\<rparr>)" "\<forall>t. Rtos (XTaskCreate t) \<notin> set t3"
    using led_task.run_creates [of E "(n, led)" w2] by blast
  have "start_scripts E w = Inr ((), (w2\<lparr>led_args := (n, led)\<rparr>)\<lparr>trace := trace w2 @ t3 @
      [Rtos (Write_task_run Led_cmds True), Rtos (XTaskCreate Led_cmds)]\<rparr>)"
    using assms 1(1) [folded w1_def] 2(1) [folded w2_def] 3(1)
    by (simp add: start_scripts_def prog_simps script_arg_def deref_def w1_def w2_def)
  then show ?thesis
    using 1 2(2) 3(2) by (auto simp: w1_def w2_def msg_frame_def starts_of_none)
qed

lemma block_last: "(case r of Inl f \<Rightarrow> Inl f | Inr (a, w) \<Rightarrow> block [] w) = r"
  by (simp add: block_run split: sum.split)

text \<open>The object of the run before is released first, whether or not its tasks have ended.\<close>

lemma run_cmds_reaches:
  assumes "live_roots w = n # (case run_cmds_root w of None \<Rightarrow> [] | Some (m, _) \<Rightarrow> [m])"
    "\<forall>m j. run_cmds_root w = Some (m, j) \<longrightarrow> m \<noteq> n"
    "js ''V1'' = Some i1" "js ''V2'' = Some i2" "js ''V3'' = Some i3" "js ''V4'' = Some i4"
  shows "\<exists>w2. run_cmds E (n, js) w = start_scripts E w2 \<and>
    trace w2 = trace w @ (case run_cmds_root w of None \<Rightarrow> [] | Some (m, _) \<Rightarrow> [Heap (Free (int m))]) \<and>
    msg_frame w2 = ([n], next_root w, Some (n, js), (Some i1, Some i2, Some i3, Some i4), 1) \<and>
    notes_args w2 = notes_args w"
proof (cases "run_cmds_root w")
  case None
  then show ?thesis
    using assms by (simp add: run_cmds_def prog_simps msg_frame_def block_last) (rule exI, rule conjI, rule refl, simp)
next
  case (Some r)
  then show ?thesis
    using assms
    by (cases r) (simp add: run_cmds_def prog_simps msg_frame_def cJSON_Delete_def block_last, rule exI, rule conjI, rule refl, simp)
qed

lemma handle_cmds_message:
  fixes w :: "'a msg_vars_scheme"
  assumes "msg_inv w" "run_cmds_is_run w = 0" "parse s = Some js" "cmds_message js notes motor led"
  shows "\<exists>(w2 :: 'a msg_vars_scheme) tr w'. handle_message parse E s w = Inr (-1, w') \<and>
    trace w2 = trace w @ (case run_cmds_root w of None \<Rightarrow> [] | Some (m, _) \<Rightarrow> [Heap (Free (int m))]) \<and>
    trace w' = trace w2 @ tr \<and> live_roots w' = [next_root w] \<and> run_cmds_is_run w' = 1 \<and>
    notes_args w' = (next_root w, notes) \<and> motor_args w' = (next_root w, motor) \<and> led_args w' = (next_root w, led) \<and>
    (\<forall>t \<in> {Play_notes, Motor_cmds, Led_cmds}. starts_of t tr = 1) \<and>
    (\<forall>u. play_notes_run E (next_root w, notes) w2 = Inr ((), u) \<longrightarrow> (\<exists>cs. trace w' = trace u @ cs))"
proof -
  let ?n = "next_root w"
  let ?w1 = "w\<lparr>live_roots := ?n # live_roots w, next_root := Suc ?n\<rparr>"
  obtain i1 i2 i3 i4 where v: "js ''V1'' = Some i1" "js ''V2'' = Some i2" "js ''V3'' = Some i3" "js ''V4'' = Some i4"
    "valuestring i2 = Some notes" "valuestring i3 = Some motor" "valuestring i4 = Some led"
    using assms(4) by (auto simp: cmds_message_def script_of_def)
  have l: "live_roots ?w1 = ?n # (case run_cmds_root ?w1 of None \<Rightarrow> [] | Some (m, _) \<Rightarrow> [m])"
    using assms(1) by (simp add: msg_inv_def)
  have ne: "\<forall>m j. run_cmds_root ?w1 = Some (m, j) \<longrightarrow> m \<noteq> ?n"
    using assms(1) by (auto simp: msg_inv_def)
  obtain w2 where w2: "run_cmds E (?n, js) ?w1 = start_scripts E w2"
    "trace w2 = trace w @ (case run_cmds_root w of None \<Rightarrow> [] | Some (m, _) \<Rightarrow> [Heap (Free (int m))])"
    "msg_frame w2 = ([?n], Suc ?n, Some (?n, js), (Some i1, Some i2, Some i3, Some i4), 1)"
    using run_cmds_reaches [where E = E, OF l ne v(1-4)] by auto
  obtain tr w' where w': "start_scripts E w2 = Inr ((), w')" "msg_frame w' = msg_frame w2" "trace w' = trace w2 @ tr"
    "notes_args w' = (?n, notes)" "motor_args w' = (?n, motor)" "led_args w' = (?n, led)"
    "\<forall>t \<in> {Play_notes, Motor_cmds, Led_cmds}. starts_of t tr = 1"
    "\<forall>u. play_notes_run E (?n, notes) w2 = Inr ((), u) \<longrightarrow> (\<exists>cs. trace w' = trace u @ cs)"
    using start_scripts_run [of w2 ?n js i2 "notes" i3 motor i4 led E] w2(3) v(5-7) by (auto simp: msg_frame_def)
  have "handle_message parse E s w = Inr (-1, w')"
    using assms(2-4) w2(1) w'(1)
    by (auto simp: handle_message_def cJSON_Parse_def dispatch_def cmds_message_def prog_simps)
  moreover have "live_roots w' = [?n]" "run_cmds_is_run w' = 1" using w'(2) w2(3) by (simp_all add: msg_frame_def)
  ultimately show ?thesis using w' w2(2) by blast
qed

text \<open>
  C3. A combined run is started as the message says: when none is active, the note, the motor and
  the light task are each created once, with the three scripts of this message, all inside the one
  object that stays allocated; a previous run's object is released.
\<close>

theorem cmds_message_starts_scripts:
  fixes w :: "'a msg_vars_scheme"
  assumes "msg_inv w" "run_cmds_is_run w = 0" "parse s = Some js" "cmds_message js notes motor led"
  shows "runs_to (handle_message parse E s) w (\<lambda>_ w'. \<exists>n.
    notes_args w' = (n, notes) \<and> motor_args w' = (n, motor) \<and> led_args w' = (n, led) \<and> live_roots w' = [n] \<and>
    run_cmds_is_run w' = 1 \<and>
    (\<exists>cs. trace w' = trace w @ cs \<and> (\<forall>t \<in> {Play_notes, Motor_cmds, Led_cmds}. starts_of t cs = 1)))"
proof -
  let ?fr = "case run_cmds_root w of None \<Rightarrow> [] | Some (m, _) \<Rightarrow> [Heap (Free (int m))]"
  obtain tr and w2 w' :: "'a msg_vars_scheme" where h: "handle_message parse E s w = Inr (-1, w')" "trace w2 = trace w @ ?fr" "trace w' = trace w2 @ tr"
    "live_roots w' = [next_root w]" "run_cmds_is_run w' = 1" "notes_args w' = (next_root w, notes)"
    "motor_args w' = (next_root w, motor)" "led_args w' = (next_root w, led)"
    "\<forall>t \<in> {Play_notes, Motor_cmds, Led_cmds}. starts_of t tr = 1"
    using handle_cmds_message [where parse = parse and s = s and E = E, OF assms] by blast
  have "starts_of t ?fr = 0" for t by (simp split: option.split)
  then have "\<forall>t \<in> {Play_notes, Motor_cmds, Led_cmds}. starts_of t (?fr @ tr) = 1" using h(9) by simp
  then show ?thesis using h by (auto simp: runs_to_def intro!: exI [of _ "?fr @ tr"])
qed

theorem cmds_message_starts_scripts_witness:
  "runs_to (handle_message demo_parse env_run ''dance'') msg0 (\<lambda>_ w'. \<exists>n.
    notes_args w' = (n, ''1,2;'') \<and> motor_args w' = (n, ''F,2;'') \<and> led_args w' = (n, ''R,2;'') \<and> live_roots w' = [n])"
proof -
  let ?js = "the (demo_parse ''dance'')"
  have "demo_parse ''dance'' = Some ?js" "cmds_message ?js ''1,2;'' ''F,2;'' ''R,2;''" "run_cmds_is_run msg0 = 0"
    by (simp_all add: demo_parse_def cmds_message_def script_of_def num_def str_def msg0_def cnv_vars.defs
        msg_vars.defs cnv0_def sound_vars.defs sound0_def)
  note C = cmds_message_starts_scripts [where parse = demo_parse and s = "''dance''", OF msg0_inv this(3,1,2)]
  show ?thesis by (rule runs_to_mono [OF C]) auto
qed

text \<open>
  C39. The scripts of a run can be freed while they are being played. A combined run that ends by
  itself (\<open>V1\<close> is 0) resets its flag when the light script ends; if the note task is then still
  playing its script, the next combined run releases the object that holds the script before it
  asks the note task to stop.
\<close>

theorem scripts_freed_while_played:
  fixes w :: "'a msg_vars_scheme"
  assumes "msg_inv w" "run_cmds_is_run w = 0" "parse s = Some js" "cmds_message js notes motor led"
    and "run_cmds_root w = Some (m, old)" "fst (notes_args w) = m"
    and "\<And>tr. fst (E tr (Rtos (Read_task_run Play_notes))) = 1"
  shows "\<exists>w' cs. handle_message parse E s w = Inr (-1, w') \<and> m \<notin> set (live_roots w') \<and>
    trace w' = trace w @ [Heap (Free (int m)), Rtos (Read_task_run Play_notes), Rtos (Read_task_run Play_notes),
      Rtos (XEventGroupClearBits Play_notes), Rtos (Write_task_run Play_notes False)] @ cs"
proof -
  let ?n = "next_root w"
  have mn: "m \<noteq> ?n" using assms(1,5) by (auto simp: msg_inv_def)
  obtain w2 w' :: "'a msg_vars_scheme" where h: "handle_message parse E s w = Inr (-1, w')" "trace w2 = trace w @ [Heap (Free (int m))]"
    "live_roots w' = [?n]"
    "\<forall>u. play_notes_run E (?n, notes) w2 = Inr ((), u) \<longrightarrow> (\<exists>cs. trace w' = trace u @ cs)"
    using handle_cmds_message [where parse = parse and s = s and E = E, OF assms(1-4)] assms(5) by auto
  obtain u where "play_notes_run E (?n, notes) w2 = Inr ((), u)" and u: "trace u = trace w2 @
      [Rtos (Read_task_run Play_notes), Rtos (Read_task_run Play_notes), Rtos (XEventGroupClearBits Play_notes),
       Rtos (Write_task_run Play_notes False), Rtos (XEventGroupWaitBits Play_notes True 5000),
       Rtos (Write_task_run Play_notes True), Rtos (XTaskCreate Play_notes)]"
    by (simp add: notes_task.run_eq notes_task.stop_eq assms(7) Let_def)
  with h(4) obtain cs where "trace w' = trace u @ cs" by blast
  then show ?thesis using h u mn by simp
qed

theorem scripts_freed_while_played_witness:
  "\<exists>w w' cs. bind (handle_message demo_parse env_run ''dance'') (\<lambda>_. run_cmds_task env_run) msg0 = Inr ((), w) \<and>
     fst (notes_args w) = 1 \<and> handle_message demo_parse env_run ''dance'' w = Inr (-1, w') \<and>
     1 \<notin> set (live_roots w') \<and> trace w' = trace w @ Heap (Free 1) # cs"
proof -
  let ?p = "bind (handle_message demo_parse env_run ''dance'') (\<lambda>_. run_cmds_task env_run)"
  let ?js = "the (demo_parse ''dance'')"
  have js: "demo_parse ''dance'' = Some ?js" "cmds_message ?js ''1,2;'' ''F,2;'' ''R,2;''"
    by (simp_all add: demo_parse_def cmds_message_def script_of_def num_def str_def)
  have "runs_to ?p msg0 (\<lambda>_ w. run_cmds_is_run w = 0 \<and> fst (notes_args w) = 1 \<and> live_roots w = [1] \<and>
      next_root w = 2 \<and> map_option fst (run_cmds_root w) = Some 1)"
    by code_simp
  then obtain w old where w: "?p msg0 = Inr ((), w)" "run_cmds_is_run w = 0" "fst (notes_args w) = 1"
    "live_roots w = [1]" "next_root w = 2" "run_cmds_root w = Some (1, old)"
    by (auto simp: runs_to_def split: sum.splits)
  then have "msg_inv w" by (simp add: msg_inv_def)
  then show ?thesis
    using scripts_freed_while_played [where parse = demo_parse and s = "''dance''" and w = w and E = env_run, OF _ w(2) js w(6,3)] w
    by (auto simp: env_run_def)
qed

section \<open>Packets and labels that do not fit\<close>

text \<open>A packet that fills the receive buffer: the NUL is written behind it.\<close>

lemma ucp_full_packet_overrun:
  assumes "E (trace w) (Ucp (Ucp_recv 1500)) = (1500, d)" "length d = 1500"
  shows "ucp_server_rcv_turn parse E w = Inl Out_of_bounds"
  using assms by (simp add: ucp_server_rcv_turn_def prog_simps)

text \<open>Shorter packets reach the message handler as the text they carry.\<close>

lemma ucp_packet_handled:
  assumes "E (trace w) (Ucp (Ucp_recv 1500)) = (int (length bs), map uint bs)" "0 < length bs" "length bs < 1500"
    and "(0::u8) \<notin> set bs"
  shows "ucp_server_rcv_turn parse E w =
    (case handle_message parse E (map (\<lambda>b. char_of (unat b)) bs) (w\<lparr>trace := trace w @ [Ucp (Ucp_recv 1500)]\<rparr>) of
       Inl f \<Rightarrow> Inl f | Inr (_, w') \<Rightarrow> Inr ((), w'))"
proof -
  have ov: "overlay 0 bs (replicate 1500 0) = bs @ 0 # replicate (1499 - length bs) 0"
    using assms(3) by (simp add: overlay_def replicate_Suc [symmetric] Suc_diff_Suc del: replicate_Suc)
  have tx: "c_text (bs @ 0 # replicate (1499 - length bs) 0) = map (\<lambda>b. char_of (unat b)) bs"
    using assms(4) by (simp add: c_text_def takeWhile_tail) (metis (mono_tags, lifting) takeWhile_eq_all_conv)
  show ?thesis
    using assms(1-3)
    by (simp add: ucp_server_rcv_turn_def prog_simps ov tx list_update_append comp_def split: sum.split)
qed

text \<open>
  A packet can crash the car: a combined-run message whose note script starts with a label of
  four or more characters is accepted, and the note task it starts writes behind its label array of
  four bytes as soon as it runs, whatever the rest of the script says.
\<close>

theorem long_label_overruns:
  assumes "msg_inv w" "run_cmds_is_run w = 0" "parse s = Some js"
    and "cmds_message js (label @ CHR '','' # rest) motor led"
    and "4 \<le> length label" "CHR '','' \<notin> set label" "CHR '';'' \<notin> set label" "CHR '';'' \<in> set rest"
    and "keeps_running E Play_notes" "\<And>tr. fst (E tr (Rtos (XSemaphoreTake 0))) = pdTRUE"
  shows "bind (handle_message parse E s) (\<lambda>_. play_notes_task E) w = Inl Out_of_bounds"
proof -
  let ?s = "label @ CHR '','' # rest"
  obtain w' where h: "handle_message parse E s w = Inr (-1, w')" "snd (notes_args w') = ?s"
    using handle_cmds_message [where parse = parse and s = s and E = E, OF assms(1-4)] by auto
  have "parse_cmd 4 ?s st = Inl Out_of_bounds" for st :: "'a msg_vars_scheme"
    by (rule parse_cmd_overlong) (use assms(5-8) in auto)
  then have "notes_loop E ?s v = Inl Out_of_bounds" for v :: "'a msg_vars_scheme"
    by (intro notes_script.loop_fault) (use assms(9) in auto)
  then show ?thesis
    using h assms(10) by (simp add: bind_run play_notes_task_def prog_simps)
qed

definition env_free :: env where
  "env_free tr c = (case c of Rtos (XSemaphoreTake t) \<Rightarrow> (1, []) | _ \<Rightarrow> env_run tr c)"

definition long_parse :: "string \<Rightarrow> cjson option" where
  "long_parse s = Some [''T'' \<mapsto> num 8, ''V1'' \<mapsto> num 0, ''V2'' \<mapsto> str ''ABCD,1;'', ''V3'' \<mapsto> str ''F,2;'', ''V4'' \<mapsto> str ''R,2;'']"

theorem long_label_overruns_witness:
  "bind (handle_message long_parse env_free ''x'') (\<lambda>_. play_notes_task env_free) msg0 = Inl Out_of_bounds"
proof -
  let ?js = "the (long_parse ''x'')"
  have js: "long_parse ''x'' = Some ?js" "cmds_message ?js (''ABCD'' @ CHR '','' # ''1;'') ''F,2;'' ''R,2;''"
    by (simp_all add: long_parse_def cmds_message_def script_of_def num_def str_def)
  have z: "run_cmds_is_run msg0 = 0" by (simp add: msg0_def cnv_vars.defs msg_vars.defs cnv0_def sound_vars.defs sound0_def)
  show ?thesis
    by (rule long_label_overruns [where parse = long_parse and s = "''x''" and label = "''ABCD''" and rest = "''1;''",
          OF msg0_inv z js]) (simp_all add: keeps_running_def env_free_def env_run_def)
qed

end
