(* ===== verification/Gpio_Control.thy ===== *)
theory Gpio_Control
  imports Drv8833
begin

text \<open>
  The rest of \<open>my_gpio.c\<close>: pin configuration, the wheel counters, and the task that turns pulse
  events into a stop after a target distance.
\<close>

record gpio_vars = motor_vars +
  g_m1_cnt :: int
  g_m2_cnt :: int
  g_target_distance :: int

abbreviation (input) M1_SPEED_CNT :: int where "M1_SPEED_CNT \<equiv> 0"
abbreviation (input) M2_SPEED_CNT :: int where "M2_SPEED_CNT \<equiv> 1"

text \<open>The interrupt handler reads its argument and returns: the send to the queue is commented
  out.\<close>

definition gpio_isr_handler :: "env \<Rightarrow> u32 \<Rightarrow> ('a world_scheme, unit) prog" where
  "gpio_isr_handler E arg = return ()"

text \<open>One turn of the endless loop of \<open>gpio_task_example\<close>; the answer to the receive is its
  result and the event's pin number.\<close>

definition gpio_task_turn :: "env \<Rightarrow> ('a gpio_vars_scheme, unit) prog" where
  "gpio_task_turn E =
     bind (ask E (Rtos (XQueueReceive Gpio_evt))) (\<lambda>(r, d).
       let gpio_num = (case d of [] \<Rightarrow> 0 | n # _ \<Rightarrow> n) in
       if r \<noteq> 0 then
         (if gpio_num = M1_SPEED_CNT then
            bind (gets g_m1_cnt) (\<lambda>c. bind (chk_int (c + 1)) (\<lambda>c.
            bind (modify (\<lambda>w. w\<lparr>g_m1_cnt := c\<rparr>)) (\<lambda>_.
            bind (gets g_target_distance) (\<lambda>t. if_then (c \<ge> t) (drv8833_motorA_stop E)))))
          else if gpio_num = M2_SPEED_CNT then
            bind (gets g_m2_cnt) (\<lambda>c. bind (chk_int (c + 1)) (\<lambda>c.
            bind (modify (\<lambda>w. w\<lparr>g_m2_cnt := c\<rparr>)) (\<lambda>_.
            bind (gets g_target_distance) (\<lambda>t. if_then (c \<ge> t) (drv8833_motorB_stop E)))))
          else return ())
       else return ())"

primrec gpio_task_example :: "nat \<Rightarrow> env \<Rightarrow> ('a gpio_vars_scheme, unit) prog" where
  "gpio_task_example 0 E = return ()"
| "gpio_task_example (Suc n) E = bind (gpio_task_turn E) (\<lambda>_. gpio_task_example n E)"

definition get_and_clear_m1_cnt :: "('a gpio_vars_scheme, int) prog" where
  "get_and_clear_m1_cnt = bind (gets g_m1_cnt) (\<lambda>t. bind (modify (\<lambda>w. w\<lparr>g_m1_cnt := 0\<rparr>)) (\<lambda>_. return t))"

definition get_and_clear_m2_cnt :: "('a gpio_vars_scheme, int) prog" where
  "get_and_clear_m2_cnt = bind (gets g_m2_cnt) (\<lambda>t. bind (modify (\<lambda>w. w\<lparr>g_m2_cnt := 0\<rparr>)) (\<lambda>_. return t))"

definition get_m1_cnt :: "('a gpio_vars_scheme, int) prog" where
  "get_m1_cnt = gets g_m1_cnt"

definition get_m2_cnt :: "('a gpio_vars_scheme, int) prog" where
  "get_m2_cnt = gets g_m2_cnt"

definition run_distance :: "env \<Rightarrow> int \<Rightarrow> ('a gpio_vars_scheme, unit) prog" where
  "run_distance E distance = block
     [modify (\<lambda>w. w\<lparr>g_target_distance := distance\<rparr>),
      modify (\<lambda>w. w\<lparr>g_m1_cnt := 0\<rparr>),
      modify (\<lambda>w. w\<lparr>g_m2_cnt := 0\<rparr>),
      drv8833_motorA_run E 50 0,
      drv8833_motorB_run E 50 0]"

text \<open>Arguments of \<open>gpio_config\<close>: the pin mask, the mode, the interrupt type, pull-down, pull-up.\<close>

definition gpio_init :: "env \<Rightarrow> ('a world_scheme, unit) prog" where
  "gpio_init E = block
     [emit E (Gpio (Gpio_config (push_bit 3 1 OR push_bit 21 1) ''OUTPUT'' ''DISABLE'' 0 0)),
      gpio_disable_drv8833 E,
      gpio_enable_max98357 E,
      emit E (Gpio (Gpio_config (push_bit 0 1 OR push_bit 1 1) ''INPUT'' ''POSEDGE'' 0 0)),
      emit E (Rtos (XQueueCreate Gpio_evt 10)),
      emit E (Rtos (XTaskCreate Gpio_example)),
      emit E (Gpio (Gpio_install_isr_service 0)),
      emit E (Gpio (Gpio_isr_handler_add M1_SPEED_CNT)),
      emit E (Gpio (Gpio_isr_handler_add M2_SPEED_CNT)),
      emit E (Gpio (Gpio_config (push_bit 12 1 OR push_bit 13 1 OR push_bit 11 1) ''OUTPUT'' ''DISABLE'' 0 1))]"

section \<open>Driving a distance\<close>

text \<open>The environment delivers \<open>n\<close> pulses of the first wheel.\<close>

definition delivers :: "env \<Rightarrow> int \<Rightarrow> bool" where
  "delivers E pin \<longleftrightarrow> (\<forall>tr. E tr (Rtos (XQueueReceive Gpio_evt)) = (1, [pin]))"

lemma gpio_task_turn_m1:
  assumes "delivers E 0" "ledc_ok E" "0 \<le> g_m1_cnt w" "g_m1_cnt w < INT_MAX"
  shows "runs_to (gpio_task_turn E) w (\<lambda>_ w'. g_m1_cnt w' = g_m1_cnt w + 1 \<and>
    g_target_distance w' = g_target_distance w \<and>
    motorB_drive (pins_of (trace w')) = motorB_drive (pins_of (trace w)) \<and>
    motorA_drive (pins_of (trace w')) =
      (if g_target_distance w \<le> g_m1_cnt w + 1 then Brake else motorA_drive (pins_of (trace w))))"
proof -
  have E: "E tr (Rtos (XQueueReceive Gpio_evt)) = (1, [0])" for tr using assms(1) by (simp add: delivers_def)
  let ?w1 = "w\<lparr>trace := trace w @ [Rtos (XQueueReceive Gpio_evt)], g_m1_cnt := g_m1_cnt w + 1\<rparr>"
  have p: "pins_of (trace ?w1) = pins_of (trace w)" by (simp add: pins_of_append)
  have "runs_to (drv8833_motorA_stop E) ?w1 (\<lambda>_ w'. g_m1_cnt w' = g_m1_cnt w + 1 \<and>
      g_target_distance w' = g_target_distance w \<and>
      motorB_drive (pins_of (trace w')) = motorB_drive (pins_of (trace w)) \<and>
      motorA_drive (pins_of (trace w')) = Brake)"
    by (simp add: runs_to_def motorA.stop_eq [OF assms(2)] pins_of_append motorA_drive_def motorB_drive_def drive_of_def)
  then show ?thesis
    using assms(3,4) p by (simp add: gpio_task_turn_def E is_int_def Let_def)
qed

text \<open>
  C35. Pulses stop the car at its distance: while the task receives pulses of the first wheel only,
  that wheel's motor runs on untouched until the counter reaches the target and is braked from
  then on; the other motor is never touched.
\<close>

theorem gpio_task_stops_at_distance:
  assumes "delivers E 0" "ledc_ok E" "0 \<le> g_m1_cnt w" "g_m1_cnt w + int n \<le> INT_MAX" "0 < n"
  shows "runs_to (gpio_task_example n E) w (\<lambda>_ w'. g_m1_cnt w' = g_m1_cnt w + int n \<and>
    motorB_drive (pins_of (trace w')) = motorB_drive (pins_of (trace w)) \<and>
    motorA_drive (pins_of (trace w')) =
      (if g_target_distance w \<le> g_m1_cnt w + int n then Brake else motorA_drive (pins_of (trace w))))"
  using assms(3-)
proof (induction n arbitrary: w)
  case (Suc n)
  note turn = gpio_task_turn_m1 [OF assms(1,2) Suc.prems(1)]
  show ?case
  proof (cases "n = 0")
    case True
    then show ?thesis
      using turn Suc.prems by (auto elim!: runs_to_mono)
  next
    case False
    have "runs_to (gpio_task_turn E) w (\<lambda>_ w1. runs_to (gpio_task_example n E) w1 (\<lambda>_ w'.
        g_m1_cnt w' = g_m1_cnt w + int (Suc n) \<and>
        motorB_drive (pins_of (trace w')) = motorB_drive (pins_of (trace w)) \<and>
        motorA_drive (pins_of (trace w')) =
          (if g_target_distance w \<le> g_m1_cnt w + int (Suc n) then Brake else motorA_drive (pins_of (trace w)))))"
      by (rule runs_to_mono [OF turn], use Suc.prems in simp, rule runs_to_mono [OF Suc.IH])
        (use Suc.prems False in auto)
    then show ?thesis by simp
  qed
qed simp

definition env_pulses :: env where
  "env_pulses tr c = (case c of Rtos (XQueueReceive Gpio_evt) \<Rightarrow> (1, [0]) | _ \<Rightarrow> (0, []))"

definition gpio_w0 :: gpio_vars where
  "gpio_w0 = \<lparr>trace = [Ledc (Ledc_set_duty 0 512), Ledc (Ledc_update_duty 0)], g_is_motorA_run = 1,
     g_is_motorB_run = 0, motor_args = (0, ''''), g_m1_cnt = 0, g_m2_cnt = 0, g_target_distance = 3\<rparr>"

theorem gpio_task_stops_at_distance_witness:
  "motorA_drive (pins_of (trace gpio_w0)) = Forward 512 \<and>
   runs_to (gpio_task_example 2 env_pulses) gpio_w0 (\<lambda>_ w'. motorA_drive (pins_of (trace w')) = Forward 512) \<and>
   runs_to (gpio_task_example 3 env_pulses) gpio_w0 (\<lambda>_ w'. motorA_drive (pins_of (trace w')) = Brake)"
proof -
  have E: "delivers env_pulses 0" "ledc_ok env_pulses"
    by (simp_all add: delivers_def env_pulses_def ledc_ok_def accepts_def)
  have f: "motorA_drive (pins_of (trace gpio_w0)) = Forward 512"
    by (simp add: gpio_w0_def pins_of_def reset_pins_def motorA_drive_def drive_of_def)
  have "runs_to (gpio_task_example 2 env_pulses) gpio_w0 (\<lambda>_ w'. motorA_drive (pins_of (trace w')) = Forward 512)"
    by (rule runs_to_mono [OF gpio_task_stops_at_distance [OF E, of gpio_w0 2]])
      (simp_all add: f, simp_all add: gpio_w0_def)
  moreover have "runs_to (gpio_task_example 3 env_pulses) gpio_w0 (\<lambda>_ w'. motorA_drive (pins_of (trace w')) = Brake)"
    by (rule runs_to_mono [OF gpio_task_stops_at_distance [OF E, of gpio_w0 3]])
      (simp_all add: gpio_w0_def)
  ultimately show ?thesis using f by simp
qed

end
