(* ===== verification/App_Main.thy ===== *)
theory App_Main
  imports Handle_Message Network Gpio_Control
begin

text \<open>
  \<open>main.c\<close> and \<open>my_adc.c\<close>: the battery voltage, the two application tasks and the start of the
  firmware.
\<close>

record main_vars = msg_vars +
  do_calibration1 :: bool
  adc1_cali_chan_handle :: int
  g_sys_vol :: int

section \<open>The battery voltage\<close>

abbreviation (input) ADC_CHANNEL_BAT_VOL :: int where "ADC_CHANNEL_BAT_VOL \<equiv> 2"
abbreviation (input) ADC_UNIT_1 :: int where "ADC_UNIT_1 \<equiv> 0"
abbreviation (input) ADC_ATTEN_DB_11 :: int where "ADC_ATTEN_DB_11 \<equiv> 3"

text \<open>The voltage is stored through a pointer: \<open>vol\<close> is the value before, the result the one after.\<close>

definition adc_get_voltage :: "env \<Rightarrow> int \<Rightarrow> ('a main_vars_scheme, int) prog" where
  "adc_get_voltage E vol =
     bind (ask E (Adc (Adc_oneshot_read ADC_CHANNEL_BAT_VOL))) (\<lambda>(ret, d).
     if ret \<noteq> ESP_OK then fail Abort
     else
       let adc_raw = (case d of [] \<Rightarrow> 0 | r # _ \<Rightarrow> r) in
       bind (gets (\<lambda>w. (do_calibration1 w, adc1_cali_chan_handle w))) (\<lambda>(cal, h).
       if \<not> cal then return vol
       else bind (ask E (Adc (Adc_cali_raw_to_voltage h adc_raw))) (\<lambda>(ret, d).
         if ret \<noteq> ESP_OK then fail Abort else return (case d of [] \<Rightarrow> vol | v # _ \<Rightarrow> v))))"

text \<open>The ESP32-C3 supports the curve-fitting scheme only.\<close>

definition example_adc_calibration_init :: "env \<Rightarrow> int \<Rightarrow> int \<Rightarrow> int \<Rightarrow> ('a world_scheme, bool \<times> int) prog" where
  "example_adc_calibration_init E unit channel atten =
     bind (ask E (Adc (Adc_cali_create_scheme_curve_fitting unit channel atten))) (\<lambda>(ret, d).
     return (ret = ESP_OK, case d of [] \<Rightarrow> 0 | h # _ \<Rightarrow> h))"

definition example_adc_calibration_deinit :: "env \<Rightarrow> int \<Rightarrow> ('a world_scheme, unit) prog" where
  "example_adc_calibration_deinit E handle = ESP_ERROR_CHECK E (Adc (Adc_cali_delete_scheme_curve_fitting handle))"

definition adc_deinit :: "env \<Rightarrow> ('a main_vars_scheme, unit) prog" where
  "adc_deinit E =
     bind (ESP_ERROR_CHECK E (Adc Adc_oneshot_del_unit)) (\<lambda>_.
     bind (gets (\<lambda>w. (do_calibration1 w, adc1_cali_chan_handle w))) (\<lambda>(cal, h).
     if_then cal (example_adc_calibration_deinit E h)))"

definition adc_init :: "env \<Rightarrow> ('a main_vars_scheme, unit) prog" where
  "adc_init E = block
     [ESP_ERROR_CHECK E (Adc (Adc_oneshot_new_unit ADC_UNIT_1)),
      ESP_ERROR_CHECK E (Adc (Adc_oneshot_config_channel ADC_CHANNEL_BAT_VOL ADC_ATTEN_DB_11)),
      bind (example_adc_calibration_init E ADC_UNIT_1 ADC_CHANNEL_BAT_VOL ADC_ATTEN_DB_11) (\<lambda>(cal, h).
        modify (\<lambda>w. w\<lparr>do_calibration1 := cal, adc1_cali_chan_handle := h\<rparr>))]"

definition get_sys_bat_level :: "('a main_vars_scheme, u8) prog" where
  "get_sys_bat_level =
     bind (gets g_sys_vol) (\<lambda>v.
     bind (chk_int (v * 2)) (\<lambda>vol.
     return (if vol > 3900 then 4 else if vol > 3800 then 3 else if vol > 3750 then 2 else if vol > 3680 then 1 else 0)))"

section \<open>The application tasks\<close>

text \<open>One turn of the heart beat, whose reports are commented out in the source.\<close>

definition heart_beat_turn :: "env \<Rightarrow> ('a world_scheme, unit) prog" where
  "heart_beat_turn E = block
     [emit E (Gpio (Gpio_set_level 11 1)), emit E (Gpio (Gpio_set_level 12 1)), emit E (Gpio (Gpio_set_level 13 1)),
      vTaskDelay_ms E 2000,
      emit E (Gpio (Gpio_set_level 11 0)), emit E (Gpio (Gpio_set_level 12 0)), emit E (Gpio (Gpio_set_level 13 0)),
      vTaskDelay_ms E 2000]"

text \<open>The first \<open>n\<close> turns of a loop without end.\<close>

definition app_heart_beat_task :: "nat \<Rightarrow> env \<Rightarrow> ('a world_scheme, unit) prog" where
  "app_heart_beat_task n E = block (replicate n (heart_beat_turn E))"

definition app_led_turn :: "env \<Rightarrow> ('a main_vars_scheme, unit) prog" where
  "app_led_turn E =
     bind (is_sound_play_run E) (\<lambda>snd_run.
     if snd_run then vTaskDelay_ms E 1000
     else bind is_motor_run (\<lambda>m.
       if m \<noteq> 0 then led_blink E 5 5 5 10
       else bind get_sys_bat_level (\<lambda>bat_level.
         if bat_level = 0 then led_blink2 E 5 0 0
         else bind (call E (Ucp Ucp_get_conn_state)) (\<lambda>conn.
           if conn = 0 then led_blink2 E 5 5 0
           else block [led_one_color2 E 0 5 0 bat_level, vTaskDelay_ms E 100]))))"

definition app_led_task :: "nat \<Rightarrow> env \<Rightarrow> ('a main_vars_scheme, unit) prog" where
  "app_led_task n E = block (replicate n (app_led_turn E))"

definition my_app_init :: "env \<Rightarrow> ('a world_scheme, unit) prog" where
  "my_app_init E = block [emit E (Rtos (XTaskCreate Heart_beat)), emit E (Rtos (XTaskCreate App_led))]"

section \<open>Start\<close>

abbreviation (input) ESP_ERR_NVS_NO_FREE_PAGES :: int where "ESP_ERR_NVS_NO_FREE_PAGES \<equiv> 0x110d"
abbreviation (input) ESP_ERR_NVS_NEW_VERSION_FOUND :: int where "ESP_ERR_NVS_NEW_VERSION_FOUND \<equiv> 0x1110"

definition init_nvs :: "env \<Rightarrow> ('a world_scheme, unit) prog" where
  "init_nvs E =
     bind (call E (Nvs Nvs_flash_init)) (\<lambda>ret.
     bind (if ret = ESP_ERR_NVS_NO_FREE_PAGES \<or> ret = ESP_ERR_NVS_NEW_VERSION_FOUND
           then bind (ESP_ERROR_CHECK E (Nvs Nvs_flash_erase)) (\<lambda>_. call E (Nvs Nvs_flash_init))
           else return ret) (\<lambda>ret.
     if ret = ESP_OK then return () else fail Abort))"

definition app_main :: "env \<Rightarrow> ('a main_vars_scheme, unit) prog" where
  "app_main E = block
     [init_nvs E,
      wifi_init_softap E,
      pwm_init E,
      gpio_init E,
      sound_init E,
      play_mp3_init E,
      audio_convert_init E,
      led_strip_init E,
      adc_init E,
      my_app_init E]"

section \<open>The battery display\<close>

text \<open>
  The battery level is the number of thresholds (3680, 3750, 3800 and 3900 mV) the battery
  voltage, twice the measured one, exceeds; it grows with the voltage and is at most 4, for every
  voltage the converter can deliver.
\<close>

theorem bat_level_counts_thresholds:
  assumes "-1073741824 \<le> g_sys_vol w" "g_sys_vol w \<le> 1073741823"
  shows "runs_to get_sys_bat_level w (\<lambda>l w'. w' = w \<and>
    unat l = length (filter (\<lambda>t. t < 2 * g_sys_vol w) [3680, 3750, 3800, 3900]))"
  using assms by (auto simp: get_sys_bat_level_def is_int_def)

definition main0 :: main_vars where
  "main0 = msg_vars.extend msg0 (main_vars.fields False 0 0)"

theorem bat_level_counts_thresholds_witness:
  "runs_to get_sys_bat_level (main0\<lparr>g_sys_vol := 1880\<rparr>) (\<lambda>l _. unat l = 2)"
  using bat_level_counts_thresholds [of "main0\<lparr>g_sys_vol := 1880\<rparr>"]
  by (auto simp: runs_to_def split: sum.splits)

text \<open>
  The battery display is stuck at empty: no function of the firmware assigns \<open>g_sys_vol\<close>, which
  is 0 at start, so the display flashes red for every battery, whether or not a client is connected,
  whenever neither a file is played nor a motor runs; the connection is not even asked for.
\<close>

theorem battery_display_stuck:
  assumes "g_sys_vol w = 0" "g_is_motorA_run w = 0" "g_is_motorB_run w = 0"
    "fst (E (trace w) (Rtos (Read_task_run Play_mp3))) = 0"
  shows "runs_to (app_led_turn E) w (\<lambda>_ w'. g_sys_vol w' = 0 \<and>
    trace w' = trace w @ [Rtos (Read_task_run Play_mp3),
      Rtos (XQueueSend Led_frames (Frame (solid 5 0 0)) 1), Rtos (VTaskDelay_ms 500),
      Rtos (XQueueSend Led_frames (Frame (solid 0 0 0)) 1), Rtos (VTaskDelay_ms 500)])"
  using assms
  by (simp add: app_led_turn_def is_sound_play_run_def is_motor_run_def get_sys_bat_level_def is_int_def led_blink2_def
      runs_to_def prog_simps)

section \<open>Start-up\<close>

text \<open>Every driver initialises, memory is available, and handles are not null.\<close>

definition driver_ok :: "env \<Rightarrow> bool" where
  "driver_ok E \<longleftrightarrow>
     (\<forall>tr c. fst (E tr (Gpio c)) = 0) \<and> (\<forall>tr c. fst (E tr (Ledc c)) = 0) \<and> (\<forall>tr c. fst (E tr (Rmt c)) = 0) \<and>
     (\<forall>tr c. fst (E tr (I2s c)) = 0) \<and> (\<forall>tr c. fst (E tr (Adc c)) = 0) \<and> (\<forall>tr c. fst (E tr (Nvs c)) = 0) \<and>
     (\<forall>tr c. fst (E tr (Wifi c)) = 0) \<and>
     (\<forall>tr. fst (E tr (Rtos XSemaphoreCreateMutex)) \<noteq> 0) \<and>
     (\<forall>tr. fst (E tr (Adf Audio_pipeline_init)) \<noteq> 0) \<and>
     (\<forall>tr n. fst (E tr (Heap (Malloc n))) \<noteq> 0)"

lemma driver_okD [simp]:
  assumes "driver_ok E"
  shows "fst (E tr (Gpio g)) = 0" "fst (E tr (Ledc l)) = 0" "fst (E tr (Rmt r)) = 0" "fst (E tr (I2s i)) = 0"
    "fst (E tr (Adc a)) = 0" "fst (E tr (Nvs n)) = 0" "fst (E tr (Wifi f)) = 0"
    "fst (E tr (Rtos XSemaphoreCreateMutex)) \<noteq> 0" "fst (E tr (Adf Audio_pipeline_init)) \<noteq> 0"
    "fst (E tr (Heap (Malloc k))) \<noteq> 0"
  using assms by (simp_all add: driver_ok_def)

text \<open>The calls to the kernel a program makes, in order.\<close>

definition kernel_calls :: "('a world_scheme, unit) prog \<Rightarrow> call list \<Rightarrow> bool" where
  "kernel_calls p rs \<longleftrightarrow> (\<forall>w. runs_to p w (\<lambda>_ w'. \<exists>cs. trace w' = trace w @ cs \<and> filter is_rtos cs = rs))"

lemma kernel_calls_block:
  "kernel_calls (block []) []"
  "kernel_calls p rs \<Longrightarrow> kernel_calls (block ps) rss \<Longrightarrow> kernel_calls (block (p # ps)) (rs @ rss)"
proof -
  show "kernel_calls (block []) []" by (simp add: kernel_calls_def)
  assume p: "kernel_calls p rs" and ps: "kernel_calls (block ps) rss"
  show "kernel_calls (block (p # ps)) (rs @ rss)"
    unfolding kernel_calls_def runs_to_block
  proof
    fix w
    show "runs_to p w (\<lambda>_ s'. runs_to (block ps) s' (\<lambda>_ w'. \<exists>cs. trace w' = trace w @ cs \<and> filter is_rtos cs = rs @ rss))"
      by (rule runs_to_mono [OF p [unfolded kernel_calls_def, rule_format]], elim exE conjE,
          rule runs_to_mono [OF ps [unfolded kernel_calls_def, rule_format]]) auto
  qed
qed

lemma is_rtos_simps [simp]:
  "is_rtos (Rtos r)" "\<not> is_rtos (Gpio g)" "\<not> is_rtos (Ledc l)" "\<not> is_rtos (Rmt m)" "\<not> is_rtos (I2s i)"
  "\<not> is_rtos (Heap h)" "\<not> is_rtos (Adf a)" "\<not> is_rtos (Adc d)" "\<not> is_rtos (Nvs n)" "\<not> is_rtos (Cnv c)" "\<not> is_rtos (Wifi f)"
  by (simp_all add: is_rtos_def)

text \<open>What each module's initialisation asks of the kernel.\<close>

lemma init_kernel_calls:
  assumes "driver_ok E"
  shows "kernel_calls (init_nvs E) []"
    "kernel_calls (wifi_init_softap E) []"
    "kernel_calls (pwm_init E) [Rtos (XEventGroupCreate Motor_cmds)]"
    "kernel_calls (gpio_init E) [Rtos (XQueueCreate Gpio_evt 10), Rtos (XTaskCreate Gpio_example)]"
    "kernel_calls (sound_init E)
       [Rtos XSemaphoreCreateMutex, Rtos (XEventGroupCreate Play_mp3), Rtos (XEventGroupCreate Play_notes)]"
    "kernel_calls (play_mp3_init E) []"
    "kernel_calls (audio_convert_init E :: ('a main_vars_scheme, unit) prog)
       [Rtos (XEventGroupCreate Audio_cnv), Rtos (XQueueCreate Audio_samples 3), Rtos (Write_task_run Audio_cnv True),
        Rtos (XTaskCreate Audio_cnv)]"
    "kernel_calls (led_strip_init E :: ('a main_vars_scheme, unit) prog)
       [Rtos (XQueueCreate Led_frames 3), Rtos (XEventGroupCreate Led_renderer), Rtos (XEventGroupCreate Led_cmds),
        Rtos (Write_task_run Led_renderer True), Rtos (XTaskCreate Led_renderer),
        Rtos (XQueueSend Led_frames (Frame (solid 5 5 5)) 1)]"
    "kernel_calls (adc_init E :: ('a main_vars_scheme, unit) prog) []"
    "kernel_calls (my_app_init E) [Rtos (XTaskCreate Heart_beat), Rtos (XTaskCreate App_led)]"
  using assms
  unfolding kernel_calls_def init_nvs_def wifi_init_softap_def pwm_init_def gpio_init_def sound_init_def play_mp3_init_def
    audio_convert_init_def led_strip_init_def adc_init_def my_app_init_def
  by (simp_all add: gpio_disable_drv8833_def gpio_enable_max98357_def i2s_example_init_std_simplex_def
      sound_play_mp3_init_def play_notes_init_def sound_register_data_listen_cb_def audio_convert_run_def
      led_strip_renderer_run_def example_adc_calibration_init_def split_beta rmt_new_led_strip_encoder_def Let_def
      runs_to_Inr [where p = "led_on E"] prog_simps runs_to_def)

text \<open>What a task uses from its first turn on, and the order of a start-up that provides it in time.\<close>

fun needs :: "task \<Rightarrow> call list" where
  "needs Gpio_example = [Rtos (XQueueCreate Gpio_evt 10)]"
| "needs Audio_cnv = [Rtos (XEventGroupCreate Audio_cnv), Rtos (XQueueCreate Audio_samples 3), Rtos (XEventGroupCreate Play_mp3)]"
| "needs Led_renderer = [Rtos (XQueueCreate Led_frames 3), Rtos (XEventGroupCreate Led_renderer)]"
| "needs App_led = [Rtos (XQueueCreate Led_frames 3)]"
| "needs _ = []"

fun ready :: "call list \<Rightarrow> call list \<Rightarrow> bool" where
  "ready seen [] = True"
| "ready seen (c # cs) =
     ((case c of Rtos (XTaskCreate t) \<Rightarrow> set (needs t) \<subseteq> set seen | _ \<Rightarrow> True) \<and> ready (c # seen) cs)"

text \<open>What the tasks that messages start rely on.\<close>

definition message_resources :: "call list" where
  "message_resources = Rtos XSemaphoreCreateMutex #
     map (Rtos \<circ> XEventGroupCreate) [Motor_cmds, Led_cmds, Play_notes, Play_mp3]"

definition tasks_created :: "call list \<Rightarrow> task list" where
  "tasks_created cs = concat (map (\<lambda>c. case c of Rtos (XTaskCreate t) \<Rightarrow> [t] | _ \<Rightarrow> []) cs)"

lemma tasks_created_filter: "tasks_created (filter is_rtos cs) = tasks_created cs"
  by (induction cs) (auto simp: tasks_created_def split: call.splits)

definition boot_calls :: "call list" where
  "boot_calls = map Rtos
    [XEventGroupCreate Motor_cmds, XQueueCreate Gpio_evt 10, XTaskCreate Gpio_example,
     XSemaphoreCreateMutex, XEventGroupCreate Play_mp3, XEventGroupCreate Play_notes,
     XEventGroupCreate Audio_cnv, XQueueCreate Audio_samples 3, Write_task_run Audio_cnv True,
     XTaskCreate Audio_cnv, XQueueCreate Led_frames 3, XEventGroupCreate Led_renderer,
     XEventGroupCreate Led_cmds, Write_task_run Led_renderer True, XTaskCreate Led_renderer,
     XQueueSend Led_frames (Frame (solid 5 5 5)) 1, XTaskCreate Heart_beat, XTaskCreate App_led]"

lemma boot_calls_ready:
  "ready [] boot_calls" "set message_resources \<subseteq> set boot_calls"
  "tasks_created boot_calls = [Gpio_example, Audio_cnv, Led_renderer, Heart_beat, App_led]"
  by (simp_all add: boot_calls_def message_resources_def tasks_created_def)

lemma app_main_kernel_calls:
  assumes "driver_ok E"
  shows "kernel_calls (app_main E :: ('a main_vars_scheme, unit) prog) boot_calls"
proof -
  note i = init_kernel_calls [OF assms]
  have "kernel_calls (app_main E :: ('a main_vars_scheme, unit) prog)
    ([] @ [] @ [Rtos (XEventGroupCreate Motor_cmds)] @
     [Rtos (XQueueCreate Gpio_evt 10), Rtos (XTaskCreate Gpio_example)] @
     [Rtos XSemaphoreCreateMutex, Rtos (XEventGroupCreate Play_mp3), Rtos (XEventGroupCreate Play_notes)] @ [] @
     [Rtos (XEventGroupCreate Audio_cnv), Rtos (XQueueCreate Audio_samples 3), Rtos (Write_task_run Audio_cnv True),
        Rtos (XTaskCreate Audio_cnv)] @
     [Rtos (XQueueCreate Led_frames 3), Rtos (XEventGroupCreate Led_renderer), Rtos (XEventGroupCreate Led_cmds),
        Rtos (Write_task_run Led_renderer True), Rtos (XTaskCreate Led_renderer),
        Rtos (XQueueSend Led_frames (Frame (solid 5 5 5)) 1)] @ [] @
     [Rtos (XTaskCreate Heart_beat), Rtos (XTaskCreate App_led)] @ [])"
    unfolding app_main_def by (intro kernel_calls_block i)
  then show ?thesis by (simp add: boot_calls_def)
qed


text \<open>The radio is switched on before any of it exists: the handler of its start event starts the
  thread that receives messages.\<close>

lemma wifi_starts_first:
  assumes "driver_ok E"
  shows "runs_to (block [init_nvs E, wifi_init_softap E]) w (\<lambda>_ w'. \<exists>cs. trace w' = trace w @ cs @ [Wifi Esp_wifi_start] \<and>
    filter is_rtos cs = [])"
  using assms by (simp add: init_nvs_def wifi_init_softap_def Let_def)

definition env_boot :: env where
  "env_boot tr c =
     (case c of Rtos XSemaphoreCreateMutex \<Rightarrow> (1, []) | Adf Audio_pipeline_init \<Rightarrow> (1, []) | Heap (Malloc n) \<Rightarrow> (1, []) | _ \<Rightarrow> (0, []))"


theorem battery_display_stuck_witness:
  "runs_to (app_led_turn env_ok) main0 (\<lambda>_ w'. Ucp Ucp_get_conn_state \<notin> set (trace w') \<and> length (trace w') = 5)"
proof -
  have z: "g_sys_vol main0 = 0" "g_is_motorA_run main0 = 0" "g_is_motorB_run main0 = 0" "trace main0 = []"
    by (simp_all add: main0_def msg_vars.defs main_vars.defs msg0_def cnv_vars.defs cnv0_def sound_vars.defs sound0_def)
  show ?thesis
    using battery_display_stuck [OF z(1-3), of env_ok] z(4)
    by (auto simp: env_ok_def elim!: runs_to_mono)
qed

end
