(* ===== verification/Mdns_Packet.thy ===== *)
theory Mdns_Packet
  imports Prelude
begin

text \<open>
  The cursor the mDNS responder of \<open>managed_components/espressif__mdns/mdns.c\<close> builds its
  packets with: \<open>packet\<close>, a static array of 1460 bytes, and \<open>index\<close>, the \<open>uint16_t\<close>
  offset of the next free byte. The primitive appends check the room that is left and
  return the number of bytes they added, 0 for an error.

  The theory shows that on a packet of the right size each primitive is one \<open>put\<close> of a
  fixed byte string or a refusal that changes nothing, and that what they put is what the
  primitive readers return.
\<close>

unbundle bit_operations_syntax

section \<open>State\<close>

record mdns_packet =
  packet :: "u8 list"
  pos :: nat

type_synonym 'a pkt_prog = "(mdns_packet, 'a) prog"

abbreviation MDNS_MAX_PACKET_SIZE :: nat where "MDNS_MAX_PACKET_SIZE \<equiv> 1460"

definition wf_packet :: "mdns_packet \<Rightarrow> bool" where
  "wf_packet s \<longleftrightarrow> length (packet s) = MDNS_MAX_PACKET_SIZE \<and> pos s \<le> MDNS_MAX_PACKET_SIZE"

section \<open>Primitive writers and readers\<close>

definition hi_byte :: "u16 \<Rightarrow> u8" where
  "hi_byte v = ucast (drop_bit 8 v AND 0xFF)"

definition lo_byte :: "u16 \<Rightarrow> u8" where
  "lo_byte v = ucast (v AND 0xFF)"

text \<open>\<open>packet[i] = v\<close>, and \<open>memcpy(packet + i, src, n)\<close> with all the bytes of \<open>src\<close>.\<close>

definition set_byte :: "nat \<Rightarrow> u8 \<Rightarrow> unit pkt_prog" where
  "set_byte i v =
     bind (gets packet) (\<lambda>b. bind (store i v b) (\<lambda>b'. modify (\<lambda>s. s\<lparr>packet := b'\<rparr>)))"

definition set_bytes :: "nat \<Rightarrow> u8 list \<Rightarrow> unit pkt_prog" where
  "set_bytes i src =
     bind (gets packet) (\<lambda>b. bind (memcpy_at i src b) (\<lambda>b'. modify (\<lambda>s. s\<lparr>packet := b'\<rparr>)))"

text \<open>\<open>*index += n\<close> on a \<open>uint16_t\<close>.\<close>

definition advance :: "nat \<Rightarrow> unit pkt_prog" where
  "advance n = modify (\<lambda>s. s\<lparr>pos := (pos s + n) mod 65536\<rparr>)"

definition mdns_set_u16 :: "nat \<Rightarrow> u16 \<Rightarrow> unit pkt_prog" where
  "mdns_set_u16 i v =
     (if i + 1 \<ge> MDNS_MAX_PACKET_SIZE then return ()
      else block [set_byte i (hi_byte v), set_byte (i + 1) (lo_byte v)])"

definition mdns_append_u8 :: "u8 \<Rightarrow> nat pkt_prog" where
  "mdns_append_u8 v =
     bind (gets pos) (\<lambda>i.
       if i \<ge> MDNS_MAX_PACKET_SIZE then return 0
       else bind (block [set_byte i v, advance 1]) (\<lambda>_. return 1))"

definition mdns_append_u16 :: "u16 \<Rightarrow> nat pkt_prog" where
  "mdns_append_u16 v =
     bind (gets pos) (\<lambda>i.
       if i + 1 \<ge> MDNS_MAX_PACKET_SIZE then return 0
       else bind (mdns_append_u8 (hi_byte v)) (\<lambda>_.
            bind (mdns_append_u8 (lo_byte v)) (\<lambda>_. return 2)))"

definition mdns_append_u32 :: "u32 \<Rightarrow> nat pkt_prog" where
  "mdns_append_u32 v =
     bind (gets pos) (\<lambda>i.
       if i + 3 \<ge> MDNS_MAX_PACKET_SIZE then return 0
       else bind (mdns_append_u8 (ucast (drop_bit 24 v AND 0xFF))) (\<lambda>_.
            bind (mdns_append_u8 (ucast (drop_bit 16 v AND 0xFF))) (\<lambda>_.
            bind (mdns_append_u8 (ucast (drop_bit 8 v AND 0xFF))) (\<lambda>_.
            bind (mdns_append_u8 (ucast (v AND 0xFF))) (\<lambda>_. return 4)))))"

text \<open>
  A string is the list of its bytes before the terminating NUL. \<open>uint8_t len =
  strlen(string)\<close> keeps the length modulo 256.
\<close>

definition strlen8 :: "u8 list \<Rightarrow> nat" where
  "strlen8 str = length str mod 256"

definition mdns_append_string_with_len :: "u8 list \<Rightarrow> u8 \<Rightarrow> nat pkt_prog" where
  "mdns_append_string_with_len str len =
     bind (gets pos) (\<lambda>i.
       if i + unat len + 1 \<ge> MDNS_MAX_PACKET_SIZE then return 0
       else bind (mdns_append_u8 len) (\<lambda>_.
            bind (gets pos) (\<lambda>j.
            bind (if length str < unat len then fail Out_of_bounds
                  else block [set_bytes j (take (unat len) str), advance (unat len)]) (\<lambda>_.
            return ((unat len + 1) mod 256)))))"

definition mdns_append_string :: "u8 list \<Rightarrow> nat pkt_prog" where
  "mdns_append_string str =
     bind (gets pos) (\<lambda>i.
       if i + strlen8 str + 1 \<ge> MDNS_MAX_PACKET_SIZE then return 0
       else bind (mdns_append_u8 (of_nat (strlen8 str))) (\<lambda>_.
            bind (gets pos) (\<lambda>j.
            bind (block [set_bytes j (take (strlen8 str) str), advance (strlen8 str)]) (\<lambda>_.
            return ((strlen8 str + 1) mod 256)))))"

definition mdns_read_u16 :: "u8 list \<Rightarrow> nat \<Rightarrow> fault + u16" where
  "mdns_read_u16 b i =
     (if i + 1 < length b then Inr (push_bit 8 (ucast (b ! i)) OR ucast (b ! (i + 1)))
      else Inl Out_of_bounds)"

definition mdns_read_u32 :: "u8 list \<Rightarrow> nat \<Rightarrow> fault + u32" where
  "mdns_read_u32 b i =
     (if i + 3 < length b
      then Inr (push_bit 24 (ucast (b ! i)) OR push_bit 16 (ucast (b ! (i + 1)))
                OR push_bit 8 (ucast (b ! (i + 2))) OR ucast (b ! (i + 3)))
      else Inl Out_of_bounds)"

section \<open>A packet grows by putting bytes at the cursor\<close>

definition put :: "u8 list \<Rightarrow> mdns_packet \<Rightarrow> mdns_packet" where
  "put w s = s\<lparr>packet := overlay (pos s) w (packet s), pos := pos s + length w\<rparr>"

definition room :: "nat \<Rightarrow> mdns_packet \<Rightarrow> bool" where
  "room n s \<longleftrightarrow> length (packet s) = MDNS_MAX_PACKET_SIZE \<and> pos s + n \<le> MDNS_MAX_PACKET_SIZE"

lemma overlay_Nil [simp]: "overlay i [] b = b"
  by (simp add: overlay_def)

lemma overlay_single: "i < length b \<Longrightarrow> overlay i [v] b = b[i := v]"
  by (simp add: overlay_def upd_conv_take_nth_drop)

lemma overlay_overlay:
  "i + length a + length c \<le> length b \<Longrightarrow>
   overlay (i + length a) c (overlay i a b) = overlay i (a @ c) b"
  by (simp add: overlay_def ac_simps)

lemma pos_put [simp]: "pos (put w s) = pos s + length w"
  by (simp add: put_def)

lemma put_Nil [simp]: "put [] s = s"
  by (simp add: put_def)

lemma length_packet_put [simp]:
  "pos s + length w \<le> length (packet s) \<Longrightarrow> length (packet (put w s)) = length (packet s)"
  by (simp add: put_def)

lemma put_put:
  "pos s + length a + length c \<le> length (packet s) \<Longrightarrow> put c (put a s) = put (a @ c) s"
  by (simp add: put_def overlay_overlay add.assoc)

lemma room_mono: "room n s \<Longrightarrow> m \<le> n \<Longrightarrow> room m s"
  by (simp add: room_def)

lemma room_put: "room n s \<Longrightarrow> length w \<le> n \<Longrightarrow> room (n - length w) (put w s)"
  by (simp add: room_def)

lemma wf_packet_room: "wf_packet s \<longleftrightarrow> room 0 s"
  by (simp add: wf_packet_def room_def)

lemma wf_packet_put: "room (length w) s \<Longrightarrow> wf_packet (put w s)"
  by (simp add: wf_packet_def room_def)

lemma take_packet_put: "pos s \<le> length (packet s) \<Longrightarrow> take (pos s) (packet (put w s)) = take (pos s) (packet s)"
  by (simp add: put_def overlay_def)

lemma nth_packet_put:
  assumes "room (length w) s" "i < MDNS_MAX_PACKET_SIZE"
  shows "packet (put w s) ! i =
    (if pos s \<le> i \<and> i < pos s + length w then w ! (i - pos s) else packet s ! i)"
  using assms by (simp add: put_def room_def nth_overlay)

text \<open>Overwriting bytes inside what was just put is putting the overwritten bytes.\<close>

lemma overlay_put:
  assumes "j + length c \<le> length w" "room (length w) s"
  shows "(put w s)\<lparr>packet := overlay (pos s + j) c (packet (put w s))\<rparr> = put (overlay j c w) s"
proof -
  have len: "length (packet s) = MDNS_MAX_PACKET_SIZE" "pos s + length w \<le> MDNS_MAX_PACKET_SIZE"
    using assms(2) by (auto simp: room_def)
  have "overlay (pos s + j) c (overlay (pos s) w (packet s)) = overlay (pos s) (overlay j c w) (packet s)"
    by (rule nth_equalityI) (use assms(1) len in \<open>auto simp: nth_overlay\<close>)
  then show ?thesis using assms(1) by (simp add: put_def)
qed

section \<open>What the primitives put\<close>

lemma mdns_append_u8_run:
  "length (packet s) = MDNS_MAX_PACKET_SIZE \<Longrightarrow>
   mdns_append_u8 v s = (if room 1 s then Inr (1, put [v] s) else Inr (0, s))"
  by (auto simp: mdns_append_u8_def set_byte_def advance_def room_def put_def overlay_single prog_simps)

lemma mdns_append_u16_run:
  "length (packet s) = MDNS_MAX_PACKET_SIZE \<Longrightarrow>
   mdns_append_u16 v s = (if room 2 s then Inr (2, put [hi_byte v, lo_byte v] s) else Inr (0, s))"
  by (auto simp: mdns_append_u16_def prog_simps mdns_append_u8_run put_put room_def)

definition u32_bytes :: "u32 \<Rightarrow> u8 list" where
  "u32_bytes v = [ucast (drop_bit 24 v AND 0xFF), ucast (drop_bit 16 v AND 0xFF),
                  ucast (drop_bit 8 v AND 0xFF), ucast (v AND 0xFF)]"

lemma length_u32_bytes [simp]: "length (u32_bytes v) = 4"
  by (simp add: u32_bytes_def)

lemma mdns_append_u32_run:
  "length (packet s) = MDNS_MAX_PACKET_SIZE \<Longrightarrow>
   mdns_append_u32 v s = (if room 4 s then Inr (4, put (u32_bytes v) s) else Inr (0, s))"
  by (auto simp: mdns_append_u32_def prog_simps mdns_append_u8_run put_put room_def u32_bytes_def)

definition label :: "u8 list \<Rightarrow> u8 list" where
  "label str = of_nat (strlen8 str) # take (strlen8 str) str"

lemma length_label [simp]: "length (label str) = strlen8 str + 1"
  by (auto simp: label_def strlen8_def min_def intro: order_trans [OF mod_less_eq_dividend])

lemma length_take_strlen8 [simp]: "min (length str) (strlen8 str) = strlen8 str"
  by (simp add: strlen8_def min_def)

lemma strlen8_less [simp]: "strlen8 str < 256"
  by (simp add: strlen8_def)

lemma mdns_append_string_run:
  assumes "length (packet s) = MDNS_MAX_PACKET_SIZE"
  shows "mdns_append_string str s =
    (if pos s + strlen8 str + 1 < MDNS_MAX_PACKET_SIZE
     then Inr ((strlen8 str + 1) mod 256, put (label str) s) else Inr (0, s))"
  using assms
  by (auto simp: mdns_append_string_def set_bytes_def advance_def prog_simps mdns_append_u8_run
      room_def label_def put_def overlay_def add.commute add.left_commute)

lemma mdns_set_u16_run:
  "length (packet s) = MDNS_MAX_PACKET_SIZE \<Longrightarrow> i + 1 < MDNS_MAX_PACKET_SIZE \<Longrightarrow>
   mdns_set_u16 i v s = Inr ((), s\<lparr>packet := overlay i [hi_byte v, lo_byte v] (packet s)\<rparr>)"
  using overlay_overlay [of i "[hi_byte v]" "[lo_byte v]" "packet s"]
  by (simp add: mdns_set_u16_def set_byte_def prog_simps overlay_single)

text \<open>The readers return what the writers put.\<close>

lemma byte_mask: "(0xFF :: 'a::len word) = mask 8"
  by (simp add: mask_eq_exp_minus_1)

lemma u16_of_bytes: "push_bit 8 (ucast (hi_byte v)) OR ucast (lo_byte v) = v"
  unfolding hi_byte_def lo_byte_def byte_mask
  by (rule bit_word_eqI) (auto simp: bit_simps)

lemma u32_of_bytes:
  "push_bit 24 (ucast (u32_bytes v ! 0)) OR push_bit 16 (ucast (u32_bytes v ! 1))
   OR push_bit 8 (ucast (u32_bytes v ! 2)) OR ucast (u32_bytes v ! 3) = v" (is "?l = v")
proof (rule bit_word_eqI)
  fix n assume "n < LENGTH(32)"
  then consider "n < 8" | "8 \<le> n" "n < 16" | "16 \<le> n" "n < 24" | "24 \<le> n" "n < 32"
    by fastforce
  then show "bit ?l n = bit v n"
    unfolding u32_bytes_def byte_mask by cases (auto simp: bit_simps)
qed

lemma mdns_read_u16_put:
  assumes "room (length w) s" "j + 1 < length w" "w ! j = hi_byte v" "w ! (j + 1) = lo_byte v"
  shows "mdns_read_u16 (packet (put w s)) (pos s + j) = Inr v"
  using assms nth_packet_put [OF assms(1), of "pos s + j"] nth_packet_put [OF assms(1), of "pos s + j + 1"]
  by (simp add: mdns_read_u16_def room_def u16_of_bytes)

lemma mdns_read_u32_put:
  assumes "room (length w) s" "j + 3 < length w" "\<And>i. i < 4 \<Longrightarrow> w ! (j + i) = u32_bytes v ! i"
  shows "mdns_read_u32 (packet (put w s)) (pos s + j) = Inr v"
proof -
  have "packet (put w s) ! (pos s + j + i) = u32_bytes v ! i" if "i < 4" for i
    using assms that by (subst nth_packet_put [OF assms(1)]) (auto simp: room_def)
  from this [of 0] this [of 1] this [of 2] this [of 3] show ?thesis
    using assms(1,2) u32_of_bytes [of v] by (simp add: mdns_read_u32_def room_def)
qed

end
