(* ===== verification/Mdns_Name.thy ===== *)
theory Mdns_Name
  imports Mdns_Packet
begin

text \<open>
  Domain names in mDNS packets, of \<open>managed_components/espressif__mdns/mdns.c\<close>: the reader
  \<open>_mdns_read_fqdn\<close> that follows compression pointers and \<open>_mdns_parse_fqdn\<close> on top of it.
  The relation \<open>spells\<close> is the specification of an encoded name; the reader is shown to end
  on every packet, to stay inside it but for one read behind its end, and to return what the
  packet spells.

  A \<open>char\<close> buffer is represented by the bytes before its first NUL: everything the code does
  with the buffers of a \<open>mdns_name_t\<close> is a C string operation or a copy of a whole buffer.
  A pointer into the packet is its offset; \<open>NULL\<close> is \<open>None\<close>.
\<close>

section \<open>C strings\<close>

definition bytes_of :: "string \<Rightarrow> u8 list" where
  "bytes_of cs = map (\<lambda>c. of_nat (of_char c)) cs"

definition c_string :: "u8 list \<Rightarrow> u8 list" where
  "c_string b = takeWhile (\<lambda>x. x \<noteq> 0) b"

definition lower :: "u8 \<Rightarrow> u8" where
  "lower c = (if 65 \<le> c \<and> c \<le> 90 then c + 32 else c)"

text \<open>\<open>strcasecmp(a, b) == 0\<close>, and \<open>strlcat(dst, src, size)\<close> on a buffer that holds \<open>dst\<close>.\<close>

definition same_text :: "u8 list \<Rightarrow> u8 list \<Rightarrow> bool" where
  "same_text a b \<longleftrightarrow> map lower a = map lower b"

definition strlcat :: "u8 list \<Rightarrow> u8 list \<Rightarrow> nat \<Rightarrow> u8 list" where
  "strlcat dst src n = take (n - 1) (dst @ src)"

abbreviation MDNS_NAME_BUF_LEN :: nat where "MDNS_NAME_BUF_LEN \<equiv> 65"
abbreviation MDNS_DEFAULT_DOMAIN :: "u8 list" where "MDNS_DEFAULT_DOMAIN \<equiv> bytes_of ''local''"
abbreviation MDNS_SUB_STR :: "u8 list" where "MDNS_SUB_STR \<equiv> bytes_of ''_sub''"
abbreviation MDNS_NAME_REF :: u16 where "MDNS_NAME_REF \<equiv> 0xC000"

section \<open>The reader\<close>

record mdns_name =
  host :: "u8 list"
  service :: "u8 list"
  proto :: "u8 list"
  domain :: "u8 list"
  parts :: nat
  sub :: nat
  invalid :: bool

definition name0 :: mdns_name where
  "name0 = \<lparr>host = [], service = [], proto = [], domain = [], parts = 0, sub = 0, invalid = False\<rparr>"

text \<open>The inner loop: \<open>len\<close> bytes into \<open>buf\<close>, \<open>NULL\<close> when the packet ends before.\<close>

fun copy_label :: "u8 list \<Rightarrow> nat \<Rightarrow> nat \<Rightarrow> u8 list option" where
  "copy_label b p 0 = Some []"
| "copy_label b p (Suc n) =
     (if p \<ge> length b then None else map_option (Cons (b ! p)) (copy_label b (p + 1) n))"

text \<open>\<open>memcpy(mdns_name_ptrs[name->parts++], buf, len + 1)\<close>: an array of four pointers.\<close>

definition copy_part :: "u8 list \<Rightarrow> mdns_name \<Rightarrow> fault + mdns_name" where
  "copy_part buf nm =
     (if parts nm = 0 then Inr (nm\<lparr>host := buf, parts := 1\<rparr>)
      else if parts nm = 1 then Inr (nm\<lparr>service := buf, parts := 2\<rparr>)
      else if parts nm = 2 then Inr (nm\<lparr>proto := buf, parts := 3\<rparr>)
      else if parts nm = 3 then Inr (nm\<lparr>domain := buf, parts := 4\<rparr>)
      else Inl Out_of_bounds)"

definition joins_host :: "u8 list \<Rightarrow> mdns_name \<Rightarrow> bool" where
  "joins_host buf nm \<longleftrightarrow>
     parts nm = 1 \<and> (buf = [] \<or> hd buf \<noteq> 95)
     \<and> \<not> same_text buf MDNS_DEFAULT_DOMAIN \<and> \<not> same_text buf (bytes_of ''arpa'')
     \<and> \<not> same_text buf (bytes_of ''ip6'') \<and> \<not> same_text buf (bytes_of ''in-addr'')"

definition add_label :: "u8 list \<Rightarrow> mdns_name \<Rightarrow> fault + mdns_name" where
  "add_label buf nm =
     (if joins_host buf nm
      then Inr (nm\<lparr>host := strlcat (strlcat (host nm) [46] MDNS_NAME_BUF_LEN) buf MDNS_NAME_BUF_LEN\<rparr>)
      else if same_text buf MDNS_SUB_STR then Inr (nm\<lparr>sub := 1\<rparr>)
      else if \<not> invalid nm then copy_part buf nm
      else Inr nm)"

text \<open>
  The reader's loop at offset \<open>p\<close> = \<open>start + index\<close>. The byte after a pointer's first byte is
  read without looking at \<open>packet_end\<close>: at the end of the packet that is a read outside it.
  The recursion ends because a pointer must lead to an offset before \<open>start\<close>, and within one
  run \<open>p\<close> grows up to the end of the packet.
\<close>

definition mark_full :: "mdns_name \<Rightarrow> mdns_name" where
  "mark_full nm = (if parts nm = 4 then nm\<lparr>invalid := True\<rparr> else nm)"

definition ref_address :: "u8 \<Rightarrow> u8 \<Rightarrow> nat" where
  "ref_address len lo = unat (push_bit 8 ((ucast len :: u16) AND 0x3F) OR ucast lo)"

function (sequential) mdns_read_fqdn ::
    "u8 list \<Rightarrow> nat \<Rightarrow> nat \<Rightarrow> mdns_name \<Rightarrow> fault + nat option \<times> mdns_name" where
  "mdns_read_fqdn b start p nm0 =
     (if p < length b \<and> b ! p \<noteq> 0 then
        (let nm = mark_full nm0; len = b ! p in
         if len < 0xC0 then
           (if len > 63 then Inr (None, nm)
            else case copy_label b (p + 1) (unat len) of
                   None \<Rightarrow> Inr (None, nm)
                 | Some buf \<Rightarrow>
                     (case add_label (c_string buf) nm of
                        Inl f \<Rightarrow> Inl f
                      | Inr nm' \<Rightarrow> mdns_read_fqdn b start (p + 1 + unat len) nm'))
         else if p + 1 \<ge> length b then Inl Out_of_bounds
         else if ref_address len (b ! (p + 1)) \<ge> start then Inr (None, nm)
         else case mdns_read_fqdn b (ref_address len (b ! (p + 1))) (ref_address len (b ! (p + 1))) nm of
                Inl f \<Rightarrow> Inl f
              | Inr (None, nm') \<Rightarrow> Inr (None, nm')
              | Inr (Some q, nm') \<Rightarrow> Inr (Some (p + 2), nm'))
      else Inr (Some (p + 1), nm0))"
  by pat_completeness auto
termination
  by (relation "measures [\<lambda>(b, start, p, nm). start, \<lambda>(b, start, p, nm). length b - p]") auto

declare mdns_read_fqdn.simps [simp del]

text \<open>
  \<open>_mdns_parse_fqdn\<close>: three parts are a service without an instance, two a host; any other
  domain than \<open>local\<close> or \<open>arpa\<close> makes the name invalid.
\<close>

definition arrange_parts :: "mdns_name \<Rightarrow> mdns_name" where
  "arrange_parts nm =
     (if parts nm = 3
      then nm\<lparr>service := host nm, proto := service nm, domain := proto nm, host := []\<rparr>
      else if parts nm = 2 then nm\<lparr>domain := service nm, service := [], proto := []\<rparr>
      else nm)"

definition mdns_parse_fqdn :: "u8 list \<Rightarrow> nat \<Rightarrow> fault + nat option \<times> mdns_name" where
  "mdns_parse_fqdn b start =
     (case mdns_read_fqdn b start start name0 of
        Inl f \<Rightarrow> Inl f
      | Inr (None, nm) \<Rightarrow> Inr (None, nm)
      | Inr (Some q, nm) \<Rightarrow>
          if parts nm = 0 \<or> invalid nm then Inr (Some q, nm)
          else let nm' = arrange_parts nm in
            if same_text (domain nm') MDNS_DEFAULT_DOMAIN \<or> same_text (domain nm') (bytes_of ''arpa'')
            then Inr (Some q, nm')
            else Inr (Some q, nm'\<lparr>invalid := True\<rparr>))"

definition mdns_name_is_discovery :: "mdns_name \<Rightarrow> u16 \<Rightarrow> bool" where
  "mdns_name_is_discovery nm type \<longleftrightarrow>
     (host nm \<noteq> [] \<and> same_text (host nm) (bytes_of ''_services''))
     \<and> (service nm \<noteq> [] \<and> same_text (service nm) (bytes_of ''_dns-sd''))
     \<and> (proto nm \<noteq> [] \<and> same_text (proto nm) (bytes_of ''_udp''))
     \<and> (domain nm \<noteq> [] \<and> same_text (domain nm) MDNS_DEFAULT_DOMAIN)
     \<and> type = 0x000C"

section \<open>Reading any packet is safe\<close>

definition buffers :: "mdns_name \<Rightarrow> u8 list list" where
  "buffers nm = [host nm, service nm, proto nm, domain nm]"

definition wf_name :: "mdns_name \<Rightarrow> bool" where
  "wf_name nm \<longleftrightarrow> parts nm \<le> 4 \<and> list_all (\<lambda>f. length f < MDNS_NAME_BUF_LEN) (buffers nm)"

lemma wf_name0 [simp]: "wf_name name0"
  by (simp add: wf_name_def name0_def buffers_def)

lemma take_Suc_drop: "p < length b \<Longrightarrow> take (Suc n) (drop p b) = b ! p # take n (drop (Suc p) b)"
  by (subst Cons_nth_drop_Suc [symmetric]) auto

lemma copy_label_eq:
  "copy_label b p n = (if n = 0 \<or> p + n \<le> length b then Some (take n (drop p b)) else None)"
  by (induction n arbitrary: p) (auto simp: take_Suc_drop)

lemma length_strlcat: "0 < n \<Longrightarrow> length (strlcat d s n) < n"
  by (simp add: strlcat_def)

lemma length_c_string: "length (c_string b) \<le> length b"
  by (simp add: c_string_def length_takeWhile_le)

lemma wf_mark_full [simp]: "wf_name (mark_full nm) = wf_name nm"
  by (simp add: mark_full_def wf_name_def buffers_def)

lemma add_label_wf:
  assumes "wf_name nm" "length buf < MDNS_NAME_BUF_LEN"
  shows "\<exists>nm'. add_label buf (mark_full nm) = Inr nm' \<and> wf_name nm'"
  using assms length_strlcat [of MDNS_NAME_BUF_LEN]
  by (auto simp: add_label_def mark_full_def copy_part_def wf_name_def buffers_def joins_host_def)

text \<open>The reader's loop body, one equation per branch, and the case rule that goes with them.\<close>

abbreviation label_text :: "u8 list \<Rightarrow> nat \<Rightarrow> u8 list" where
  "label_text b p \<equiv> c_string (take (unat (b ! p)) (drop (p + 1) b))"

abbreviation target :: "u8 list \<Rightarrow> nat \<Rightarrow> nat" where
  "target b p \<equiv> ref_address (b ! p) (b ! (p + 1))"

lemma read_stop:
  "\<not> (p < length b \<and> b ! p \<noteq> 0) \<Longrightarrow> mdns_read_fqdn b start p nm = Inr (Some (p + 1), nm)"
  by (subst mdns_read_fqdn.simps) auto

lemma read_label:
  "p < length b \<Longrightarrow> b ! p \<noteq> 0 \<Longrightarrow> b ! p \<le> 63 \<Longrightarrow> p + 1 + unat (b ! p) \<le> length b \<Longrightarrow>
   mdns_read_fqdn b start p nm =
     (case add_label (label_text b p) (mark_full nm) of
        Inl f \<Rightarrow> Inl f | Inr nm' \<Rightarrow> mdns_read_fqdn b start (p + 1 + unat (b ! p)) nm')"
  by (subst mdns_read_fqdn.simps) (auto simp: Let_def copy_label_eq word_le_nat_alt word_less_nat_alt)

lemma read_ref:
  "p + 1 < length b \<Longrightarrow> 0xC0 \<le> b ! p \<Longrightarrow> target b p < start \<Longrightarrow>
   mdns_read_fqdn b start p nm =
     (case mdns_read_fqdn b (target b p) (target b p) (mark_full nm) of
        Inl f \<Rightarrow> Inl f
      | Inr (r, nm') \<Rightarrow> Inr (map_option (\<lambda>_. p + 2) r, nm'))"
  by (subst mdns_read_fqdn.simps)
    (auto simp: Let_def word_le_nat_alt word_less_nat_alt split: sum.splits option.splits)

lemma read_past_end:
  "p + 1 = length b \<Longrightarrow> 0xC0 \<le> b ! p \<Longrightarrow> mdns_read_fqdn b start p nm = Inl Out_of_bounds"
  by (subst mdns_read_fqdn.simps) (auto simp: Let_def word_le_nat_alt word_less_nat_alt)

lemma read_cases:
  obtains (finished) "\<not> (p < length b \<and> b ! p \<noteq> 0)"
    | (lab) "p < length b" "b ! p \<noteq> 0" "b ! p \<le> 63" "p + 1 + unat (b ! p) \<le> length b"
    | (ref) "p + 1 < length b" "0xC0 \<le> b ! p" "target b p < start"
    | (past_end) "p + 1 = length b" "0xC0 \<le> b ! p"
    | (null) "p < length b" "b ! p \<noteq> 0" "\<And>nm. mdns_read_fqdn b start p nm = Inr (None, mark_full nm)"
proof (cases "p < length b \<and> b ! p \<noteq> 0")
  case True
  show thesis
  proof (cases "b ! p < 0xC0")
    case small: True
    have "mdns_read_fqdn b start p nm = Inr (None, mark_full nm)"
      if "\<not> (b ! p \<le> 63 \<and> p + 1 + unat (b ! p) \<le> length b)" for nm
      using True small that
      by (subst mdns_read_fqdn.simps) (auto simp: Let_def copy_label_eq not_le unat_eq_zero)
    with True lab null show thesis by blast
  next
    case big: False
    have "mdns_read_fqdn b start p nm = Inr (None, mark_full nm)"
      if "p + 1 < length b" "\<not> target b p < start" for nm
      using True big that by (subst mdns_read_fqdn.simps) (auto simp: Let_def)
    moreover have "p + 1 < length b \<or> p + 1 = length b" using True by linarith
    ultimately show thesis using True big ref past_end null by (metis not_less)
  qed
qed (rule finished)

lemma read_induct [case_names step]:
  assumes "\<And>start p nm. (\<And>nm'. p < length b \<Longrightarrow> P start (p + 1 + unat (b ! p)) nm') \<Longrightarrow>
    (\<And>nm'. target b p < start \<Longrightarrow> P (target b p) (target b p) nm') \<Longrightarrow> P start p nm"
  shows "P start p nm"
proof -
  have "\<forall>nm. P (fst x) (snd x) nm" for x
  proof (induction x rule: wf_induct_rule [OF wf_measures [of "[fst, \<lambda>(start, p). length b - p]"]])
    case (1 x)
    obtain start p where x: "x = (start, p)" by (cases x)
    have "P start p nm" for nm
      by (rule assms) (use 1 [of "(start, p + 1 + unat (b ! p))"] 1 [of "(target b p, target b p)"] in
        \<open>simp_all add: x\<close>)
    then show ?case by (simp add: x)
  qed
  from this [of "(start, p)"] show ?thesis by simp
qed

lemma mdns_read_fqdn_safe:
  "wf_name nm \<Longrightarrow> start \<le> p \<Longrightarrow> p \<le> length b \<Longrightarrow>
   (case mdns_read_fqdn b start p nm of
      Inl f \<Rightarrow> f = Out_of_bounds \<and> b \<noteq> [] \<and> 0xC0 \<le> last b
    | Inr (r, nm') \<Rightarrow> wf_name nm' \<and> (\<forall>q. r = Some q \<longrightarrow> p < q \<and> q \<le> length b + 1))"
proof (induction start p nm rule: read_induct [where b = b])
  case (step start p nm)
  show ?case
  proof (cases rule: read_cases [where p = p and b = b and start = start])
    case lab
    have "length (label_text b p) < MDNS_NAME_BUF_LEN"
      using length_c_string [of "take (unat (b ! p)) (drop (p + 1) b)"] lab(3)
      by (simp add: word_le_nat_alt)
    then obtain nm' where nm': "add_label (label_text b p) (mark_full nm) = Inr nm'" "wf_name nm'"
      using add_label_wf step(3) by blast
    with step(1) [of nm'] step(4) lab show ?thesis
      by (auto simp: read_label [OF lab] split: sum.splits)
  next
    case ref
    with step(2) [of "mark_full nm"] step(3,4,5)
    show ?thesis
      by (auto simp: read_ref [OF ref] split: sum.splits)
  next
    case past_end
    then have ne: "b \<noteq> []" by auto
    have "length b - 1 = p" using past_end(1) by linarith
    then have "last b = b ! p" using last_conv_nth [OF ne] by simp
    with past_end ne show ?thesis by (simp add: read_past_end)
  qed (use step in \<open>auto simp: read_stop\<close>)
qed

section \<open>What a name spells\<close>

text \<open>
  The specification of the reader: the labels an encoded name stands for. \<open>spells b start p
  ls q\<close>: from offset \<open>p\<close> on, in a name that began at \<open>start\<close>, the packet holds the labels
  \<open>ls\<close> and continues at \<open>q\<close> behind the name.
\<close>

inductive spells :: "u8 list \<Rightarrow> nat \<Rightarrow> nat \<Rightarrow> u8 list list \<Rightarrow> nat \<Rightarrow> bool" for b where
  stop: "\<not> (p < length b \<and> b ! p \<noteq> 0) \<Longrightarrow> spells b start p [] (p + 1)"
| lab: "p < length b \<Longrightarrow> b ! p \<noteq> 0 \<Longrightarrow> b ! p \<le> 63 \<Longrightarrow> p + 1 + unat (b ! p) \<le> length b \<Longrightarrow>
    spells b start (p + 1 + unat (b ! p)) ls q \<Longrightarrow> spells b start p (label_text b p # ls) q"
| ref: "p + 1 < length b \<Longrightarrow> 0xC0 \<le> b ! p \<Longrightarrow> target b p < start \<Longrightarrow>
    spells b (target b p) (target b p) ls q \<Longrightarrow> spells b start p ls (p + 2)"

text \<open>What the labels leave in the name structure, the \<open>invalid\<close> flag apart.\<close>

definition core :: "mdns_name \<Rightarrow> mdns_name" where
  "core nm = nm\<lparr>invalid := False\<rparr>"

definition put_part :: "u8 list \<Rightarrow> mdns_name \<Rightarrow> mdns_name" where
  "put_part buf nm =
     (case parts nm of 0 \<Rightarrow> nm\<lparr>host := buf, parts := 1\<rparr>
      | Suc 0 \<Rightarrow> nm\<lparr>service := buf, parts := 2\<rparr>
      | Suc (Suc 0) \<Rightarrow> nm\<lparr>proto := buf, parts := 3\<rparr>
      | Suc (Suc (Suc 0)) \<Rightarrow> nm\<lparr>domain := buf, parts := 4\<rparr>
      | _ \<Rightarrow> nm)"

definition add_part :: "u8 list \<Rightarrow> mdns_name \<Rightarrow> mdns_name" where
  "add_part buf nm =
     (if joins_host buf nm
      then nm\<lparr>host := strlcat (strlcat (host nm) [46] MDNS_NAME_BUF_LEN) buf MDNS_NAME_BUF_LEN\<rparr>
      else if same_text buf MDNS_SUB_STR then nm\<lparr>sub := 1\<rparr>
      else put_part buf nm)"

definition filling :: "mdns_name \<Rightarrow> bool" where
  "filling nm \<longleftrightarrow> parts nm \<le> 4 \<and> (invalid nm \<longrightarrow> parts nm = 4)"

lemma filling_name0 [simp]: "filling name0" "core name0 = name0"
  by (simp_all add: filling_def core_def name0_def)

lemma filling_mark_full [simp]: "filling nm \<Longrightarrow> filling (mark_full nm)" "core (mark_full nm) = core nm"
  by (simp_all add: filling_def core_def mark_full_def)

lemma add_label_core:
  assumes "filling nm"
  shows "\<exists>nm'. add_label buf (mark_full nm) = Inr nm' \<and> filling nm' \<and> core nm' = add_part buf (core nm)"
proof -
  from assms consider "parts nm = 0" | "parts nm = 1" | "parts nm = 2" | "parts nm = 3" | "parts nm = 4"
    by (fastforce simp: filling_def)
  then show ?thesis
    by cases (use assms in \<open>auto simp: filling_def core_def add_label_def add_part_def mark_full_def
      copy_part_def put_part_def joins_host_def numeral_3_eq_3 numeral_2_eq_2 eval_nat_numeral\<close>)
qed

lemma read_spells:
  "filling nm \<Longrightarrow> mdns_read_fqdn b start p nm = Inr (Some q, r) \<Longrightarrow>
   \<exists>ls. spells b start p ls q \<and> core r = fold add_part ls (core nm)"
proof (induction start p nm arbitrary: q rule: read_induct [where b = b])
  case (step start p nm)
  show ?case
  proof (cases rule: read_cases [where p = p and b = b and start = start])
    case finished
    with step(4) spells.stop [OF finished, of start] show ?thesis
      by (intro exI [of _ "[]"]) (simp add: read_stop)
  next
    case lab
    obtain nm' where nm': "add_label (label_text b p) (mark_full nm) = Inr nm'" "filling nm'"
      "core nm' = add_part (label_text b p) (core nm)"
      using add_label_core step(3) by blast
    with step(4) lab obtain ls where
      "spells b start (p + 1 + unat (b ! p)) ls q" "core r = fold add_part ls (core nm')"
      using step(1) [of nm' q] by (auto simp: read_label)
    with spells.lab [OF lab] nm' show ?thesis
      by (intro exI [of _ "label_text b p # ls"]) simp
  next
    case ref
    with step(4) obtain q' where "mdns_read_fqdn b (target b p) (target b p) (mark_full nm) = Inr (Some q', r)"
      "q = p + 2"
      by (auto simp: read_ref [OF ref] split: sum.splits prod.splits)
    with step(2) [of "mark_full nm" q'] step(3) ref obtain ls where
      "spells b (target b p) (target b p) ls q'" "core r = fold add_part ls (core nm)" "q = p + 2"
      by auto
    with spells.ref [OF ref] show ?thesis by blast
  qed (use step(4) in \<open>auto simp: read_past_end\<close>)
qed

lemma spells_read:
  "spells b start p ls q \<Longrightarrow> filling nm \<Longrightarrow>
   \<exists>r. mdns_read_fqdn b start p nm = Inr (Some q, r) \<and> core r = fold add_part ls (core nm)"
proof (induction arbitrary: nm rule: spells.induct)
  case (stop p start)
  then show ?case by (simp add: read_stop)
next
  case (lab p start ls q)
  with add_label_core [OF lab(7), of "label_text b p"] show ?case
    by (fastforce simp: read_label)
next
  case (ref p start ls q)
  with ref(5) [of "mark_full nm"] show ?case by (auto simp: read_ref)
qed

section \<open>The parts of a name\<close>

definition visible :: "u8 list list \<Rightarrow> u8 list list" where
  "visible ls = filter (\<lambda>l. \<not> same_text l MDNS_SUB_STR) ls"

definition parts_of :: "mdns_name \<Rightarrow> u8 list list" where
  "parts_of nm = take (parts nm) (buffers nm)"

text \<open>A label that is not joined to the host when it comes second.\<close>

definition separate :: "u8 list \<Rightarrow> bool" where
  "separate l \<longleftrightarrow> \<not> joins_host l (name0\<lparr>parts := 1\<rparr>)"

lemma joins_host_iff: "joins_host l nm \<longleftrightarrow> parts nm = 1 \<and> \<not> separate l"
  by (auto simp: separate_def joins_host_def name0_def)

lemma parts_core [simp]: "parts (core nm) = parts nm" "parts_of (core nm) = parts_of nm"
  by (simp_all add: core_def parts_of_def buffers_def)

lemma length_parts_of: "parts nm \<le> 4 \<Longrightarrow> length (parts_of nm) = parts nm"
  by (simp add: parts_of_def buffers_def)

lemma parts_of_name0 [simp]: "parts_of name0 = []" "parts name0 = 0"
  by (simp_all add: parts_of_def name0_def)

lemma parts_of_add_part:
  assumes "parts nm \<le> 4" "\<not> joins_host l nm"
  shows "parts (add_part l nm) \<le> 4"
    and "parts_of (add_part l nm) = take 4 (parts_of nm @ visible [l])"
proof -
  from assms(1) consider "parts nm = 0" | "parts nm = 1" | "parts nm = 2" | "parts nm = 3" | "parts nm = 4"
    by fastforce
  then show "parts (add_part l nm) \<le> 4" "parts_of (add_part l nm) = take 4 (parts_of nm @ visible [l])"
    by (cases; use assms in \<open>simp add: add_part_def put_part_def parts_of_def buffers_def visible_def
      eval_nat_numeral\<close>)+
qed

lemma take_append_take: "take n (take n xs @ ys) = take n (xs @ ys)"
  by (simp add: min_def)

lemma lower_special [simp]: "lower x = 95 \<longleftrightarrow> x = 95" "lower x = 46 \<longleftrightarrow> x = 46"
proof -
  have "x = c - 32" if "x + 32 = c" for c :: u8 using that by (simp add: eq_diff_eq)
  from this [of 95] this [of 46] show "lower x = 95 \<longleftrightarrow> x = 95" "lower x = 46 \<longleftrightarrow> x = 46"
    by (auto simp: lower_def)
qed

lemma same_text_refl [simp]: "same_text a a"
  by (simp add: same_text_def)

lemma same_text_trans: "same_text a b \<Longrightarrow> same_text b c \<Longrightarrow> same_text a c"
  by (simp add: same_text_def)

lemma dot_lower: "46 \<in> set (map lower xs) \<longleftrightarrow> 46 \<in> set xs"
  by (force simp: image_iff)

lemma same_text_member: "same_text a b \<Longrightarrow> (46 \<in> set a) = (46 \<in> set b)"
  unfolding same_text_def by (simp only: dot_lower [symmetric, of a] dot_lower [symmetric, of b])

lemma separate_cong: "same_text a b \<Longrightarrow> separate a = separate b"
proof -
  assume ab: "same_text a b"
  have "hd a = 95 \<longleftrightarrow> hd b = 95" if "a \<noteq> []" "b \<noteq> []"
  proof -
    have "lower (hd a) = lower (hd b)" using ab that unfolding same_text_def by (metis hd_map)
    then show ?thesis using lower_special(1) [of "hd a"] lower_special(1) [of "hd b"] by simp
  qed
  moreover have "a = [] \<longleftrightarrow> b = []" using ab by (auto simp: same_text_def)
  moreover have "same_text a c = same_text b c" for c using ab by (simp add: same_text_def)
  ultimately show ?thesis by (auto simp: separate_def joins_host_def name0_def)
qed

lemma separate_sub: "same_text l MDNS_SUB_STR \<Longrightarrow> separate l"
  by (subst separate_cong, assumption) (simp add: separate_def joins_host_def bytes_of_def)

fun second_separate :: "u8 list list \<Rightarrow> bool" where
  "second_separate (a # l # ls) = separate l"
| "second_separate _ = True"

text \<open>
  If the label that comes second is separate, the parts of the name are the first four
  visible labels; and a name whose host holds no dot was not joined from two labels.
\<close>

lemma fold_add_part:
  "parts nm \<le> 4 \<Longrightarrow> 2 \<le> parts nm \<or> second_separate (parts_of nm @ visible ls) \<Longrightarrow>
   parts_of (fold add_part ls nm) = take 4 (parts_of nm @ visible ls) \<and> parts (fold add_part ls nm) \<le> 4"
proof (induction ls arbitrary: nm)
  case Nil
  then show ?case by (simp add: visible_def length_parts_of)
next
  case (Cons l ls)
  have vis: "visible (l # ls) = visible [l] @ visible ls" by (simp add: visible_def)
  have nj: "\<not> joins_host l nm"
  proof
    assume j: "joins_host l nm"
    then have "visible [l] = [l]" using separate_sub by (auto simp: visible_def joins_host_iff)
    moreover obtain h where "parts_of nm = [h]"
      using j length_parts_of [OF Cons(2)] by (auto simp: joins_host_iff length_Suc_conv)
    ultimately show False using Cons(3) j by (simp add: vis joins_host_iff)
  qed
  note step = parts_of_add_part [OF Cons(2) nj]
  have "parts nm \<le> 1 \<Longrightarrow> take 4 (parts_of nm @ visible [l]) = parts_of nm @ visible [l]"
    using length_parts_of [OF Cons(2)] by (auto simp: visible_def)
  moreover have "2 \<le> parts nm \<Longrightarrow> 2 \<le> parts (add_part l nm)"
    using length_parts_of [OF step(1)] length_parts_of [OF Cons(2)] Cons(2)
    by (simp add: step(2) min_def split: if_splits)
  ultimately have "2 \<le> parts (add_part l nm) \<or> second_separate (parts_of (add_part l nm) @ visible ls)"
    using Cons(3) by (cases "2 \<le> parts nm") (simp_all add: step(2) vis)
  from Cons.IH [OF step(1) this] show ?case
    by (simp add: step(2) vis take_append_take del: take_append)
qed

definition host_inv :: "mdns_name \<Rightarrow> bool" where
  "host_inv nm \<longleftrightarrow> length (host nm) \<le> 64 \<and> (length (host nm) = 64 \<longrightarrow> 46 \<in> set (host nm))"

lemma host_inv_name0 [simp]: "host_inv name0"
  by (simp add: host_inv_def name0_def)

lemma host_add_part:
  "host (add_part l nm) =
     (if joins_host l nm then strlcat (strlcat (host nm) [46] MDNS_NAME_BUF_LEN) l MDNS_NAME_BUF_LEN
      else if same_text l MDNS_SUB_STR \<or> parts nm \<noteq> 0 then host nm else l)"
  by (simp add: add_part_def put_part_def split: nat.split)

lemma strlcat_dot:
  assumes "length h \<le> 64" "length h = 64 \<longrightarrow> 46 \<in> set h"
  shows "46 \<in> set (strlcat (strlcat h [46] MDNS_NAME_BUF_LEN) l MDNS_NAME_BUF_LEN)"
  using assms by (cases "length h = 64") (simp_all add: strlcat_def take_Cons')

lemma host_inv_add_part:
  assumes "host_inv nm" "length l \<le> 63"
  shows "host_inv (add_part l nm)"
    and "joins_host l nm \<or> 1 \<le> parts nm \<and> 46 \<in> set (host nm) \<Longrightarrow> 46 \<in> set (host (add_part l nm))"
proof -
  let ?h = "strlcat (strlcat (host nm) [46] MDNS_NAME_BUF_LEN) l MDNS_NAME_BUF_LEN"
  have "length ?h \<le> 64" using length_strlcat [of MDNS_NAME_BUF_LEN _ l] by (simp add: strlcat_def)
  moreover have "46 \<in> set ?h" using assms(1) strlcat_dot by (simp add: host_inv_def)
  ultimately show "host_inv (add_part l nm)"
    "joins_host l nm \<or> 1 \<le> parts nm \<and> 46 \<in> set (host nm) \<Longrightarrow> 46 \<in> set (host (add_part l nm))"
    using assms by (auto simp: host_inv_def host_add_part)
qed

lemma parts_add_part: "1 \<le> parts nm \<Longrightarrow> 1 \<le> parts (add_part l nm)"
  by (simp add: add_part_def put_part_def split: nat.split)

lemma fold_dot_stays:
  "host_inv nm \<Longrightarrow> \<forall>l \<in> set ls. length l \<le> 63 \<Longrightarrow> 1 \<le> parts nm \<Longrightarrow> 46 \<in> set (host nm) \<Longrightarrow>
   46 \<in> set (host (fold add_part ls nm))"
  by (induction ls arbitrary: nm) (simp_all add: host_inv_add_part parts_add_part del: One_nat_def)

lemma fold_no_dot:
  "parts nm \<le> 4 \<Longrightarrow> host_inv nm \<Longrightarrow> \<forall>l \<in> set ls. length l \<le> 63 \<Longrightarrow>
   46 \<notin> set (host (fold add_part ls nm)) \<Longrightarrow>
   2 \<le> parts nm \<or> second_separate (parts_of nm @ visible ls)"
proof (induction ls arbitrary: nm)
  case Nil
  then show ?case using length_parts_of [OF Nil(1)]
    by (cases "parts_of nm" rule: second_separate.cases) (auto simp: visible_def)
next
  case (Cons l ls)
  have vis: "visible (l # ls) = visible [l] @ visible ls" by (simp add: visible_def)
  show ?case
  proof (cases "joins_host l nm")
    case True
    then have "1 \<le> parts (add_part l nm)" by (simp add: add_part_def joins_host_def)
    with True Cons(3-5) host_inv_add_part [OF Cons(3), of l] fold_dot_stays [of "add_part l nm" ls]
    show ?thesis by auto
  next
    case False
    note step = parts_of_add_part [OF Cons(2) False]
    have "2 \<le> parts (add_part l nm) \<or> second_separate (parts_of (add_part l nm) @ visible ls)"
      using Cons.IH [OF step(1)] Cons(3-5) host_inv_add_part(1) [OF Cons(3), of l] by auto
    moreover have "separate l" if "parts nm = 1" using False that by (simp add: joins_host_iff)
    ultimately show ?thesis
      using length_parts_of [OF Cons(2)] length_parts_of [OF step(1)]
      by (cases "parts_of nm" rule: second_separate.cases; cases "same_text l MDNS_SUB_STR")
        (simp_all add: step(2) vis visible_def)
  qed
qed

lemma spells_label_length: "spells b start p ls q \<Longrightarrow> \<forall>l \<in> set ls. length l \<le> 63"
proof (induction rule: spells.induct)
  case (lab p start ls q)
  have "length (label_text b p) \<le> unat (b ! p)"
    using length_c_string [of "take (unat (b ! p)) (drop (p + 1) b)"] by simp
  with lab show ?case by (auto simp: word_le_nat_alt)
qed simp_all

lemma host_parts_of: "1 \<le> parts nm \<Longrightarrow> hd (parts_of nm) = host nm"
  by (cases "parts nm") (auto simp: parts_of_def buffers_def)

text \<open>Labels that are like the strings of a name are read back as its parts.\<close>

lemma read_spelled:
  assumes "spells b i i ls q" "list_all2 same_text ts (take 4 (visible ls))" "second_separate ts"
  shows "\<exists>r. mdns_read_fqdn b i i name0 = Inr (Some q, r) \<and> parts r = length ts
    \<and> list_all2 same_text ts (parts_of r)"
proof -
  have "second_separate (take 4 (visible ls))"
    using assms(2,3) by (cases ts rule: second_separate.cases) (auto simp: list_all2_Cons1 separate_cong)
  then have "second_separate (visible ls)"
    by (cases "visible ls" rule: second_separate.cases) auto
  then have fold: "parts_of (fold add_part ls name0) = take 4 (visible ls)" "parts (fold add_part ls name0) \<le> 4"
    using fold_add_part [of name0 ls] by simp_all
  obtain r where r: "mdns_read_fqdn b i i name0 = Inr (Some q, r)" "core r = fold add_part ls name0"
    using spells_read [OF assms(1) filling_name0(1)] by auto
  have "parts_of r = take 4 (visible ls)" "parts r \<le> 4"
    using fold by (simp_all flip: r(2))
  with length_parts_of [of r] list_all2_lengthD [OF assms(2)] assms(2) r(1) show ?thesis by auto
qed

section \<open>Properties\<close>

text \<open>C18. Parsing a name in any packet ends, and does not fault unless the packet's last byte
  is the first byte of a pointer, whose second byte is then read from behind the packet. What
  it leaves in the structure fits the buffers, the offset it returns is at most one behind
  the packet's end, and a name that is not marked invalid and has parts belongs to \<open>local\<close> or
  \<open>arpa\<close>.\<close>

theorem parse_fqdn_safe:
  assumes "start \<le> length b"
  shows "case mdns_parse_fqdn b start of
      Inl f \<Rightarrow> f = Out_of_bounds \<and> b \<noteq> [] \<and> 0xC0 \<le> last b
    | Inr (r, nm) \<Rightarrow> wf_name nm
        \<and> (\<forall>q. r = Some q \<longrightarrow> start < q \<and> q \<le> length b + 1
             \<and> (parts nm = 0 \<or> invalid nm \<or> same_text (domain nm) MDNS_DEFAULT_DOMAIN
                  \<or> same_text (domain nm) (bytes_of ''arpa'')))"
proof (cases "mdns_read_fqdn b start start name0")
  case (Inl f)
  with mdns_read_fqdn_safe [of name0 start start b] assms show ?thesis by (simp add: mdns_parse_fqdn_def)
next
  case (Inr x)
  obtain r nm where x: "x = (r, nm)" by (cases x)
  have nm: "wf_name nm" "\<forall>q. r = Some q \<longrightarrow> start < q \<and> q \<le> length b + 1"
    using mdns_read_fqdn_safe [of name0 start start b] assms Inr x by auto
  then have "wf_name (arrange_parts nm)" "wf_name ((arrange_parts nm)\<lparr>invalid := True\<rparr>)"
    by (simp_all add: arrange_parts_def wf_name_def buffers_def)
  with nm Inr x show ?thesis by (cases r) (simp_all add: mdns_parse_fqdn_def Let_def)
qed

text \<open>The witness reads \<open>car\<close> and a pointer in a packet that ends with the pointer's first byte.\<close>

theorem parse_fqdn_safe_witness:
  "mdns_parse_fqdn [3, 99, 97, 114, 0xC0] 0 = Inl Out_of_bounds
   \<and> (\<exists>nm. mdns_parse_fqdn [3, 99, 97, 114, 5, 108, 111, 99, 97, 108, 0] 0 = Inr (Some 11, nm)
        \<and> wf_name nm)"
proof -
  have 1: "mdns_parse_fqdn [3, 99, 97, 114, 0xC0] 0 = Inl Out_of_bounds" by code_simp
  have "mdns_parse_fqdn [3, 99, 97, 114, 5, 108, 111, 99, 97, 108, 0] 0 =
    Inr (Some 11, \<lparr>host = bytes_of ''car'', service = [], proto = [], domain = MDNS_DEFAULT_DOMAIN,
      parts = 2, sub = 0, invalid = False\<rparr>)" by code_simp
  with parse_fqdn_safe [of 0 "[3, 99, 97, 114, 5, 108, 111, 99, 97, 108, 0]"] 1 show ?thesis by auto
qed

text \<open>C23. The reader implements the specification of encoded names: it returns an offset
  exactly when the packet spells a list of labels up to there, and the structure then holds
  what these labels, taken one by one, leave in it.\<close>

theorem read_fqdn_refines_spells:
  "(\<exists>r. mdns_read_fqdn b start start name0 = Inr (Some q, r) \<and> core r = nm) \<longleftrightarrow>
   (\<exists>ls. spells b start start ls q \<and> nm = fold add_part ls name0)"
  using read_spells [OF filling_name0(1), of b start start q]
    spells_read [OF _ filling_name0(1), of b start start _ q] by fastforce

end
