(* ===== verification/Mdns_Fqdn.thy ===== *)
theory Mdns_Fqdn
  imports Mdns_Name
begin

text \<open>
  The writer of domain names, \<open>_mdns_append_fqdn\<close> of
  \<open>managed_components/espressif__mdns/mdns.c\<close>, which searches the packet for an earlier
  occurrence of the name, or of what is left of it, and writes a pointer to it.

  A name of distinct plain labels is written so that the reader returns it, whatever is
  appended later, if the packet's earlier names are complete. Two theorems show where the
  code falls short of that: a name that does not fit is cut and still counted as written,
  and the search can find the name it is just writing.
\<close>

unbundle bit_operations_syntax

section \<open>The writer\<close>

text \<open>
  The search of \<open>_mdns_append_fqdn\<close>: \<open>memchr\<close> gives the places before \<open>index\<close> that hold the
  length of the first string; at each the string itself is compared and the name there read
  and compared part by part.
\<close>

function fqdn_search :: "u8 list \<Rightarrow> nat \<Rightarrow> u8 list list \<Rightarrow> nat \<Rightarrow> fault + nat option" where
  "fqdn_search b index strings i =
     (if i \<ge> index then Inr None
      else let len = strlen8 (hd strings) in
        if b ! i \<noteq> of_nat len then fqdn_search b index strings (i + 1)
        else if i + 1 + len > length b then Inl Out_of_bounds
        else if take len (drop (i + 1) b) \<noteq> take len (hd strings)
        then fqdn_search b index strings (i + 1)
        else case mdns_read_fqdn b i i name0 of
               Inl f \<Rightarrow> Inl f
             | Inr (None, nm) \<Rightarrow> fqdn_search b index strings (i + 1)
             | Inr (Some q, nm) \<Rightarrow>
                 if parts nm = length strings \<and> list_all2 same_text strings (take (parts nm) (buffers nm))
                 then Inr (Some i)
                 else fqdn_search b index strings (i + 1))"
  by pat_completeness auto
termination
  by (relation "measure (\<lambda>(b, index, strings, i). index - i)") auto

declare fqdn_search.simps [simp del]

fun mdns_append_fqdn :: "u8 list list \<Rightarrow> nat pkt_prog" where
  "mdns_append_fqdn [] = mdns_append_u8 0"
| "mdns_append_fqdn (str # strs) =
     bind (gets (\<lambda>s. fqdn_search (packet s) (pos s) (str # strs) 0)) (\<lambda>found.
       case found of
         Inl f \<Rightarrow> fail f
       | Inr None \<Rightarrow>
           bind (mdns_append_string str) (\<lambda>written.
             if written = 0 then return 0
             else bind (mdns_append_fqdn strs) (\<lambda>rest. return ((written + rest) mod 65536)))
       | Inr (Some loc) \<Rightarrow> mdns_append_u16 (of_nat loc OR MDNS_NAME_REF))"

declare mdns_append_fqdn.simps [simp del]

text \<open>The search finds a place where the labels the packet spells are the strings.\<close>

lemma spells_search:
  assumes "mdns_read_fqdn b i i name0 = Inr (Some q, nm)" "parts nm = length ts" "ts \<noteq> []"
    "list_all2 same_text ts (take (parts nm) (buffers nm))" "46 \<notin> set (hd ts)"
  shows "\<exists>ls q. spells b i i ls q \<and> list_all2 same_text ts (take 4 (visible ls))"
proof -
  obtain ls where ls: "spells b i i ls q" "core nm = fold add_part ls name0"
    using read_spells [OF filling_name0(1) assms(1)] by auto
  have "same_text (hd ts) (host nm)"
    using assms(2-4) host_parts_of [of nm] by (cases ts) (auto simp: parts_of_def list_all2_Cons1 buffers_def)
  then have "46 \<notin> set (host (fold add_part ls name0))"
    using assms(5) same_text_member [of "hd ts" "host nm"] by (simp add: core_def flip: ls(2))
  then have "second_separate (visible ls)"
    using fold_no_dot [of name0 ls] spells_label_length [OF ls(1)] by simp
  then have "parts_of nm = take 4 (visible ls)"
    using fold_add_part [of name0 ls] by (simp flip: ls(2))
  with ls(1) assms(4) show ?thesis by (auto simp: parts_of_def)
qed

section \<open>Names are written so that they read back\<close>

definition plain :: "u8 list \<Rightarrow> bool" where
  "plain t \<longleftrightarrow> t \<noteq> [] \<and> length t < 32 \<and> list_all (\<lambda>c. 32 \<le> c \<and> c \<noteq> 46) t \<and> \<not> same_text t MDNS_SUB_STR"

definition wire_len :: "u8 list list \<Rightarrow> nat" where
  "wire_len ts = sum_list (map (\<lambda>t. length t + 1) ts) + 1"

text \<open>Every name that begins before the offset ends before it, whatever follows.\<close>

definition settled :: "u8 list \<Rightarrow> nat \<Rightarrow> bool" where
  "settled b n \<longleftrightarrow>
     (\<forall>b' i. length b' = length b \<longrightarrow> take n b' = take n b \<longrightarrow> i < n \<longrightarrow>
        mdns_read_fqdn b' i i name0 = mdns_read_fqdn b i i name0)"

definition unmatched :: "u8 list \<Rightarrow> nat \<Rightarrow> nat \<Rightarrow> u8 list \<Rightarrow> bool" where
  "unmatched b lo hi t \<longleftrightarrow>
     (\<forall>i. lo \<le> i \<longrightarrow> i < hi \<longrightarrow> b ! i = of_nat (length t) \<longrightarrow>
        i + 1 + length t \<le> hi \<and> take (length t) (drop (i + 1) b) \<noteq> t)"

definition found_at :: "u8 list \<Rightarrow> u8 list list \<Rightarrow> nat \<Rightarrow> bool" where
  "found_at b ts j \<longleftrightarrow>
     b ! j = of_nat (strlen8 (hd ts)) \<and> take (strlen8 (hd ts)) (drop (j + 1) b) = take (strlen8 (hd ts)) (hd ts)
     \<and> (\<exists>q nm. mdns_read_fqdn b j j name0 = Inr (Some q, nm) \<and> parts nm = length ts
          \<and> list_all2 same_text ts (take (parts nm) (buffers nm)))"

lemma fqdn_search_result:
  assumes "last b < 0xC0" "index + strlen8 (hd ts) \<le> length b"
  shows "fqdn_search b index ts i = Inr None \<or>
    (\<exists>j. fqdn_search b index ts i = Inr (Some j) \<and> j < index \<and> found_at b ts j)"
proof (induction "index - i" arbitrary: i rule: less_induct)
  case less
  show ?case
  proof (cases "i < index")
    case True
    then have nxt: "fqdn_search b index ts (i + 1) = Inr None \<or>
        (\<exists>j. fqdn_search b index ts (i + 1) = Inr (Some j) \<and> j < index \<and> found_at b ts j)"
      using less by simp
    obtain r nm where read: "mdns_read_fqdn b i i name0 = Inr (r, nm)"
      using mdns_read_fqdn_safe [of name0 i i b] assms True by (auto split: sum.splits)
    have "fqdn_search b index ts i \<in> {fqdn_search b index ts (i + 1), Inr (Some i)}
        \<and> (fqdn_search b index ts i = Inr (Some i) \<longrightarrow> fqdn_search b index ts i = fqdn_search b index ts (i + 1) \<or> found_at b ts i)"
      using True assms(2) read
      by (subst (1 3 4) fqdn_search.simps) (auto simp: Let_def found_at_def split: option.splits)
    with nxt True show ?thesis by auto
  qed (simp add: fqdn_search.simps)
qed

lemma strlen8_plain: "plain t \<Longrightarrow> strlen8 t = length t"
  by (simp add: plain_def strlen8_def)

lemma label_plain: "plain t \<Longrightarrow> label t = of_nat (length t) # t"
  by (simp add: label_def strlen8_plain)

lemma c_string_plain: "plain t \<Longrightarrow> c_string t = t"
  by (auto simp: plain_def c_string_def list_all_iff takeWhile_eq_all_conv)

lemma unmatched_label:
  assumes "plain t" "plain t'" "t \<noteq> t'" "room (length (label t)) s"
  shows "unmatched (packet (put (label t) s)) (pos s) (pos s + length (label t)) t'"
  unfolding unmatched_def
proof (intro allI impI)
  let ?b = "packet (put (label t) s)"
  fix i assume i: "pos s \<le> i" "i < pos s + length (label t)" and m: "?b ! i = of_nat (length t')"
  have len: "length ?b = MDNS_MAX_PACKET_SIZE" "pos s + length t + 1 \<le> MDNS_MAX_PACKET_SIZE"
    using assms(1,4) by (simp_all add: room_def strlen8_plain)
  have bi: "?b ! i = (of_nat (length t) # t) ! (i - pos s)"
    using nth_packet_put [OF assms(4), of i] i len assms(1) by (simp add: label_plain)
  have "i = pos s"
  proof (rule ccontr)
    assume "i \<noteq> pos s"
    with i bi assms(1) have "?b ! i \<in> set t" by (auto simp: nth_Cons' strlen8_plain)
    with m assms(1,2) show False
      by (auto simp: plain_def list_all_iff word_le_nat_alt unat_of_nat_small)
  qed
  moreover from this bi m assms(1,2) have "length t = length t'"
    by (auto simp: plain_def dest!: arg_cong [of _ _ unat] simp: unat_of_nat_small)
  moreover have "take (length t) (drop (pos s + 1) ?b) = t"
    using len assms(1) by (simp add: put_def overlay_def label_plain room_def)
  ultimately show "i + 1 + length t' \<le> pos s + length (label t) \<and> take (length t') (drop (i + 1) ?b) \<noteq> t'"
    using assms(1,3) by (auto simp: strlen8_plain)
qed

lemma take_prefix_eq: "take n xs = take n ys \<Longrightarrow> m \<le> n \<Longrightarrow> take m xs = take m ys"
  by (metis min.absorb1 take_take)

lemma nth_prefix_eq: "take n xs = take n ys \<Longrightarrow> i < n \<Longrightarrow> xs ! i = ys ! i"
  by (metis nth_take)

lemma slice_prefix_eq: "take n xs = take n ys \<Longrightarrow> i + k \<le> n \<Longrightarrow> take k (drop i xs) = take k (drop i ys)"
  by (metis add.commute take_drop take_prefix_eq)

lemma unmatched_join:
  assumes "unmatched b lo mid t" "take mid b' = take mid b" "unmatched b' mid hi t" "mid \<le> hi"
  shows "unmatched b' lo hi t"
  unfolding unmatched_def
proof (intro allI impI)
  fix i assume i: "lo \<le> i" "i < hi" "b' ! i = of_nat (length t)"
  show "i + 1 + length t \<le> hi \<and> take (length t) (drop (i + 1) b') \<noteq> t"
  proof (cases "i < mid")
    case True
    then have "b ! i = of_nat (length t)" using nth_prefix_eq [OF assms(2)] i(3) by metis
    with assms(1) i True have "i + 1 + length t \<le> mid \<and> take (length t) (drop (i + 1) b) \<noteq> t"
      unfolding unmatched_def by blast
    with slice_prefix_eq [OF assms(2), of "i + 1" "length t"] assms(4) show ?thesis by auto
  next
    case False
    with assms(3) i show ?thesis unfolding unmatched_def by simp
  qed
qed

lemma ref_address_bytes:
  assumes "n < 16384"
  shows "ref_address (hi_byte (of_nat n OR MDNS_NAME_REF)) (lo_byte (of_nat n OR MDNS_NAME_REF)) = n"
    and "0xC0 \<le> hi_byte (of_nat n OR MDNS_NAME_REF)"
proof -
  have m: "MDNS_NAME_REF = NOT (mask 14)" by (simp add: mask_eq_exp_minus_1 not_eq_complement)
  let ?v = "of_nat n OR MDNS_NAME_REF :: u16"
  have mask6: "(0x3F :: u16) = mask 6" by (simp add: mask_eq_exp_minus_1)
  have "push_bit 8 ((ucast (hi_byte ?v) :: u16) AND 0x3F) OR ucast (lo_byte ?v) = take_bit 14 (of_nat n)"
    unfolding m mask6 hi_byte_def lo_byte_def byte_mask by (rule bit_word_eqI) (auto simp: bit_simps)
  then show "ref_address (hi_byte ?v) (lo_byte ?v) = n"
    using assms by (simp add: ref_address_def unsigned_take_bit_eq unat_of_nat take_bit_nat_eq_self)
  have c0: "(0xC0 :: u8) = NOT (mask 6)" by (simp add: mask_eq_exp_minus_1 not_eq_complement)
  have "hi_byte ?v = 0xC0 OR hi_byte (of_nat n)"
    unfolding m c0 hi_byte_def byte_mask by (rule bit_word_eqI) (auto simp: bit_simps)
  then show "0xC0 \<le> hi_byte ?v"
    by (simp add: word_le_def unsigned_or_eq or_greater_eq)
qed

lemma settled_cong:
  assumes "settled b n" "length b' = length b" "take n b' = take n b"
  shows "settled b' n"
  using assms unfolding settled_def by metis

lemma last_packet: "length b = MDNS_MAX_PACKET_SIZE \<Longrightarrow> last b = b ! 1459"
  by (subst last_conv_nth) auto

lemma last_packet_put:
  assumes "length (packet s) = MDNS_MAX_PACKET_SIZE" "pos s + length w < MDNS_MAX_PACKET_SIZE"
  shows "last (packet (put w s)) = last (packet s)"
  using assms by (simp add: last_packet put_def nth_overlay)

text \<open>
  \<open>written ts p0 s w\<close>: the bytes \<open>w\<close> put at the cursor continue the name that began at \<open>p0\<close>
  with the strings \<open>ts\<close>, in every packet that keeps the bytes up to their end.
\<close>

definition written :: "u8 list list \<Rightarrow> nat \<Rightarrow> mdns_packet \<Rightarrow> u8 list \<Rightarrow> bool" where
  "written ts p0 s w \<longleftrightarrow>
     (\<forall>b'. length b' = MDNS_MAX_PACKET_SIZE \<longrightarrow>
        take (pos s + length w) b' = take (pos s + length w) (packet (put w s)) \<longrightarrow>
        (\<exists>ls. spells b' p0 (pos s) ls (pos s + length w) \<and> list_all2 same_text ts (take 4 (visible ls))))"

lemma written_Nil:
  assumes "room 1 s"
  shows "written [] p0 s [0]"
proof -
  have "spells b' p0 (pos s) [] (pos s + 1)"
    if "take (pos s + 1) b' = take (pos s + 1) (packet (put [0] s))" for b'
    using nth_prefix_eq [OF that, of "pos s"] nth_packet_put [of "[0]" s "pos s"] assms
      spells.stop [of "pos s" b' p0] by (simp add: room_def)
  then show ?thesis unfolding written_def by (fastforce simp: visible_def)
qed

lemma written_label:
  assumes "plain t" "room (length (label t) + length w) s" "length ts \<le> 3"
    "written ts p0 (put (label t) s) w"
  shows "written (t # ts) p0 s (label t @ w)"
  unfolding written_def
proof (intro allI impI)
  fix b' assume b': "length b' = MDNS_MAX_PACKET_SIZE"
    "take (pos s + length (label t @ w)) b' = take (pos s + length (label t @ w)) (packet (put (label t @ w) s))"
  have put2: "put w (put (label t) s) = put (label t @ w) s"
    using assms(2) by (simp add: put_put room_def)
  obtain ls where ls: "spells b' p0 (pos s + length (label t)) ls (pos s + length (label t @ w))"
    "list_all2 same_text ts (take 4 (visible ls))"
    using assms(4) b' unfolding written_def put2 by (auto simp: add.assoc)
  have "length (take 4 (visible ls)) \<le> 3" using list_all2_lengthD [OF ls(2)] assms(3) by simp
  then have vis: "take 4 (visible ls) = visible ls" by auto
  have bytes: "take (length t + 1) (drop (pos s) b') = label t"
    using slice_prefix_eq [OF b'(2), of "pos s" "length t + 1"] assms(1,2)
    by (simp add: put_def overlay_def label_plain strlen8_plain room_def)
  have p: "pos s < length b'" "pos s + 1 + length t \<le> length b'"
    using assms(1,2) b'(1) by (simp_all add: room_def strlen8_plain)
  have hd: "b' ! pos s = of_nat (length t)" "take (length t) (drop (pos s + 1) b') = t"
    using bytes take_Suc_drop [OF p(1), of "length t"] by (simp_all add: label_plain [OF assms(1)])
  have len: "unat (b' ! pos s) = length t" "b' ! pos s \<noteq> 0" "b' ! pos s \<le> 63"
    using assms(1) by (auto simp: hd(1) plain_def unat_of_nat_small word_le_nat_alt dest!: arg_cong [of _ _ unat])
  have "spells b' p0 (pos s) (t # ls) (pos s + length (label t @ w))"
    using spells.lab [OF p(1) len(2,3), of p0 ls "pos s + length (label t @ w)"] ls(1) p(2) hd(2)
    by (simp add: len(1) c_string_plain [OF assms(1)] strlen8_plain [OF assms(1)])
  moreover have "visible (t # ls) = t # visible ls" using assms(1) by (simp add: visible_def plain_def)
  ultimately show "\<exists>ls. spells b' p0 (pos s) ls (pos s + length (label t @ w)) \<and>
      list_all2 same_text (t # ts) (take 4 (visible ls))"
    using ls(2) assms(3) list_all2_lengthD [OF ls(2)] vis by (intro exI [of _ "t # ls"]) (auto simp: take_Cons')
qed

lemma written_ref:
  assumes "ts \<noteq> []" "list_all plain ts" "room 2 s" "p0 \<le> pos s" "settled (packet s) p0" "j < p0" "found_at (packet s) ts j"
  shows "written ts p0 s [hi_byte (of_nat j OR MDNS_NAME_REF), lo_byte (of_nat j OR MDNS_NAME_REF)]"
    (is "written ts p0 s ?w")
  unfolding written_def
proof (intro allI impI)
  fix b' assume b': "length b' = MDNS_MAX_PACKET_SIZE"
    "take (pos s + length ?w) b' = take (pos s + length ?w) (packet (put ?w s))"
  have sz: "length (packet s) = MDNS_MAX_PACKET_SIZE" "pos s + 2 \<le> MDNS_MAX_PACKET_SIZE"
    using assms(3) by (simp_all add: room_def)
  have room: "room (length ?w) s" using assms(3) by (simp add: numeral_2_eq_2)
  have w: "b' ! pos s = ?w ! 0" "b' ! (pos s + 1) = ?w ! 1"
    using nth_prefix_eq [OF b'(2), of "pos s"] nth_prefix_eq [OF b'(2), of "pos s + 1"]
      nth_packet_put [OF room, of "pos s"] nth_packet_put [OF room, of "pos s + 1"] sz by simp_all
  have tgt: "target b' (pos s) = j" "0xC0 \<le> b' ! pos s"
    using ref_address_bytes [of j] w assms(4,6) sz by simp_all
  obtain q nm where nm: "mdns_read_fqdn (packet s) j j name0 = Inr (Some q, nm)" "parts nm = length ts"
    "list_all2 same_text ts (take (parts nm) (buffers nm))"
    using assms(7) by (auto simp: found_at_def)
  have "take p0 b' = take p0 (packet s)"
    using take_prefix_eq [OF b'(2), of p0] take_prefix_eq [OF take_packet_put [of s ?w], of p0] assms(4) sz by simp
  then have "mdns_read_fqdn b' j j name0 = Inr (Some q, nm)"
    using assms(5,6) b'(1) sz nm(1) unfolding settled_def by metis
  moreover have "46 \<notin> set (hd ts)" using assms(1,2) by (cases ts) (auto simp: plain_def list_all_iff)
  ultimately obtain ls q where "spells b' j j ls q" "list_all2 same_text ts (take 4 (visible ls))"
    using spells_search [OF _ nm(2) assms(1) nm(3)] by blast
  with spells.ref [of "pos s" b' p0 ls q] tgt assms(6) b'(1) sz
  show "\<exists>ls. spells b' p0 (pos s) ls (pos s + length ?w) \<and> list_all2 same_text ts (take 4 (visible ls))"
    by auto
qed

text \<open>
  The induction over the strings that are left: \<open>p0\<close> is where the name began, and the labels
  written since then cannot be mistaken for one of the strings to come.
\<close>

lemma append_fqdn_written:
  assumes "length (packet s) = MDNS_MAX_PACKET_SIZE" "pos s + wire_len ts < MDNS_MAX_PACKET_SIZE"
    "last (packet s) < 0xC0" "p0 \<le> pos s" "settled (packet s) p0"
    "list_all plain ts" "distinct ts" "length ts \<le> 4" "\<forall>t \<in> set ts. unmatched (packet s) p0 (pos s) t"
  shows "\<exists>w. mdns_append_fqdn ts s = Inr (length w, put w s) \<and> w \<noteq> [] \<and> length w \<le> wire_len ts
    \<and> written ts p0 s w"
  using assms
proof (induction ts arbitrary: s)
  case Nil
  then have "room 1 s" by (simp add: room_def wire_len_def)
  with written_Nil show ?case
    using Nil(1) by (intro exI [of _ "[0]"]) (simp add: mdns_append_fqdn.simps mdns_append_u8_run wire_len_def)
next
  case (Cons t ts)
  let ?s1 = "put (label t) s"
  have plain: "plain t" "list_all plain ts" using Cons.prems(6) by auto
  have wire: "pos s + length t + 1 + wire_len ts < MDNS_MAX_PACKET_SIZE" "1 \<le> length t" "length t < 32"
    using Cons.prems(2) plain(1) by (auto simp: wire_len_def plain_def Suc_le_eq)
  have room: "room (length (label t) + wire_len ts) s" "room (length (label t)) s" "room 2 s"
    using wire Cons.prems(1) by (simp_all add: room_def strlen8_plain [OF plain(1)])
  have "fqdn_search (packet s) (pos s) (t # ts) 0 = Inr None \<or>
      (\<exists>j. fqdn_search (packet s) (pos s) (t # ts) 0 = Inr (Some j) \<and> j < pos s \<and> found_at (packet s) (t # ts) j)"
    using fqdn_search_result [of "packet s" "pos s" "t # ts" 0] Cons.prems(1,3) wire
    by (simp add: strlen8_plain [OF plain(1)])
  then show ?case
  proof (elim disjE exE conjE)
    fix j assume j: "fqdn_search (packet s) (pos s) (t # ts) 0 = Inr (Some j)" "j < pos s"
      "found_at (packet s) (t # ts) j"
    have "j < p0"
      using Cons.prems(9) j(2,3) by (auto simp: unmatched_def found_at_def strlen8_plain [OF plain(1)] not_less [symmetric])
    with written_ref [of "t # ts" s p0 j] j(3) Cons.prems(4-6) room(3)
    show ?thesis
      using Cons.prems(1) wire by (intro exI) (auto simp: mdns_append_fqdn.simps prog_simps j(1) mdns_append_u16_run wire_len_def)
  next
    assume none: "fqdn_search (packet s) (pos s) (t # ts) 0 = Inr None"
    have pre: "take (pos s) (packet ?s1) = take (pos s) (packet s)"
      using take_packet_put wire Cons.prems(1) by simp
    have "\<forall>t' \<in> set ts. unmatched (packet ?s1) p0 (pos ?s1) t'"
      using Cons.prems(6,7,9) unmatched_join [OF _ pre unmatched_label [OF plain(1) _ _ room(2)]]
      by (auto simp: list_all_iff)
    with Cons.IH [of ?s1] obtain w where w: "mdns_append_fqdn ts ?s1 = Inr (length w, put w ?s1)"
      "w \<noteq> []" "length w \<le> wire_len ts" "written ts p0 ?s1 w"
      using Cons.prems wire room(2) settled_cong [OF Cons.prems(5) _ take_prefix_eq [OF pre Cons.prems(4)]]
        last_packet_put [of s "label t"] plain
      by (auto simp: room_def strlen8_plain)
    have "put w ?s1 = put (label t @ w) s"
      using wire w(3) Cons.prems(1) by (simp add: put_put strlen8_plain [OF plain(1)])
    moreover have "written (t # ts) p0 s (label t @ w)"
      using written_label [OF plain(1) _ _ w(4)] room_mono [OF room(1)] w(3) Cons.prems(8) by simp
    ultimately show ?thesis
      using w wire Cons.prems(1)
      by (intro exI [of _ "label t @ w"])
        (simp add: mdns_append_fqdn.simps prog_simps none mdns_append_string_run strlen8_plain [OF plain(1)] wire_len_def)
  qed
qed

lemma unmatched_empty: "unmatched b p p t"
  by (simp add: unmatched_def)

text \<open>
  The packets the round trip holds for: the name fits, and the names before the cursor are
  complete and none of them runs into the last byte's pointer.
\<close>

definition accepts_name :: "u8 list list \<Rightarrow> mdns_packet \<Rightarrow> bool" where
  "accepts_name ts s \<longleftrightarrow>
     length (packet s) = MDNS_MAX_PACKET_SIZE \<and> pos s + wire_len ts < MDNS_MAX_PACKET_SIZE
     \<and> last (packet s) < 0xC0 \<and> list_all plain ts \<and> distinct ts \<and> length ts \<le> 4 \<and> second_separate ts"

lemma append_fqdn_reads:
  assumes "accepts_name ts s" "settled (packet s) (pos s)"
  shows "\<exists>w. mdns_append_fqdn ts s = Inr (length w, put w s) \<and> w \<noteq> [] \<and> length w \<le> wire_len ts
    \<and> (\<forall>b'. length b' = MDNS_MAX_PACKET_SIZE \<longrightarrow>
          take (pos s + length w) b' = take (pos s + length w) (packet (put w s)) \<longrightarrow>
          (\<exists>r. mdns_read_fqdn b' (pos s) (pos s) name0 = Inr (Some (pos s + length w), r)
               \<and> parts r = length ts \<and> list_all2 same_text ts (parts_of r)))"
proof -
  obtain w where "mdns_append_fqdn ts s = Inr (length w, put w s)" "w \<noteq> []" "length w \<le> wire_len ts"
      "written ts (pos s) s w"
    using append_fqdn_written [of s ts "pos s"] assms unmatched_empty by (auto simp: accepts_name_def)
  then show ?thesis
    using read_spelled assms(1) unfolding written_def accepts_name_def by (intro exI [of _ w]) meson
qed

text \<open>Without a fault, and without leaving the packet, any name that fits is written.\<close>

lemma append_fqdn_safe:
  assumes "list_all (\<lambda>t. length t < 255) ts" "length (packet s) = MDNS_MAX_PACKET_SIZE"
    "pos s + wire_len ts < MDNS_MAX_PACKET_SIZE" "last (packet s) < 0xC0"
  shows "\<exists>w. mdns_append_fqdn ts s = Inr (length w, put w s) \<and> w \<noteq> [] \<and> length w \<le> wire_len ts"
  using assms
proof (induction ts arbitrary: s)
  case Nil
  then show ?case
    by (intro exI [of _ "[0]"]) (simp add: mdns_append_fqdn.simps mdns_append_u8_run room_def wire_len_def)
next
  case (Cons t ts)
  have len: "strlen8 t = length t" "length t < 255" using Cons.prems(1) by (simp_all add: strlen8_def)
  have wire: "pos s + length t + 1 + wire_len ts < MDNS_MAX_PACKET_SIZE" "1 \<le> wire_len ts"
    using Cons.prems(3) by (simp_all add: wire_len_def)
  consider "fqdn_search (packet s) (pos s) (t # ts) 0 = Inr None"
    | j where "fqdn_search (packet s) (pos s) (t # ts) 0 = Inr (Some j)"
    using fqdn_search_result [of "packet s" "pos s" "t # ts" 0] Cons.prems(2,4) wire(1) len(1) by auto
  then show ?case
  proof cases
    case 1
    from Cons.IH [of "put (label t) s"] Cons.prems wire last_packet_put [of s "label t"] len
    obtain w where "mdns_append_fqdn ts (put (label t) s) = Inr (length w, put w (put (label t) s))"
      "length w \<le> wire_len ts"
      by auto
    then show ?thesis
      using 1 Cons.prems(2) wire len
      by (intro exI [of _ "label t @ w"])
        (simp add: mdns_append_fqdn.simps prog_simps mdns_append_string_run put_put wire_len_def label_def)
  next
    case (2 j)
    with Cons.prems(2) wire show ?thesis
      by (intro exI [of _ "[hi_byte (of_nat j OR MDNS_NAME_REF), lo_byte (of_nat j OR MDNS_NAME_REF)]"])
        (simp add: mdns_append_fqdn.simps prog_simps mdns_append_u16_run room_def wire_len_def)
  qed
qed

section \<open>Where the writer falls short\<close>

lemma fqdn_search_skip:
  "(\<forall>k. i \<le> k \<and> k < j \<longrightarrow> b ! k \<noteq> of_nat (strlen8 (hd ts))) \<Longrightarrow> i \<le> j \<Longrightarrow> j \<le> index \<Longrightarrow>
   fqdn_search b index ts i = fqdn_search b index ts j"
proof (induction "j - i" arbitrary: i)
  case (Suc n)
  then have "i < index" "b ! i \<noteq> of_nat (strlen8 (hd ts))" by auto
  then have "fqdn_search b index ts i = fqdn_search b index ts (i + 1)"
    by (subst fqdn_search.simps) (simp add: Let_def)
  also have "\<dots> = fqdn_search b index ts j" using Suc by (intro Suc(1)) auto
  finally show ?case .
qed simp

lemma fqdn_search_none:
  "\<forall>k < index. b ! k \<noteq> of_nat (strlen8 (hd ts)) \<Longrightarrow> fqdn_search b index ts 0 = Inr None"
  by (subst fqdn_search_skip [of 0 index], simp_all, subst fqdn_search.simps, simp)

text \<open>\<open>_mdns_dispatch_tx_packet\<close> begins with a header of twelve zero bytes in a static array.\<close>

definition fresh_packet :: mdns_packet where
  "fresh_packet = \<lparr>packet = replicate MDNS_MAX_PACKET_SIZE 0, pos = 12\<rparr>"

lemma fresh_packet_simps [simp]:
  "length (packet fresh_packet) = MDNS_MAX_PACKET_SIZE" "pos fresh_packet = 12"
  "i < MDNS_MAX_PACKET_SIZE \<Longrightarrow> packet fresh_packet ! i = 0" "last (packet fresh_packet) = 0"
  by (simp_all add: fresh_packet_def)

lemma settled_fresh: "settled (packet fresh_packet) 12"
  unfolding settled_def
proof (intro allI impI)
  fix b' :: "u8 list" and i :: nat
  assume "take 12 b' = take 12 (packet fresh_packet)" "i < 12"
  then have "b' ! i = 0" using nth_prefix_eq [of 12 b' "packet fresh_packet" i] by simp
  then show "mdns_read_fqdn b' i i name0 = mdns_read_fqdn (packet fresh_packet) i i name0"
    using \<open>i < 12\<close> by (simp add: read_stop)
qed

section \<open>Properties\<close>

text \<open>C16. Names round-trip through compression: if the names before the cursor are complete,
  a name of up to four distinct plain labels that fits is appended without a fault, the bytes
  before the cursor stay, the number returned is the number of bytes added, and reading at the
  old cursor returns the same parts up to letter case and ends at the new cursor, whether the
  name was written out or refers to an earlier one.\<close>

theorem fqdn_round_trip:
  assumes "accepts_name ts s" "settled (packet s) (pos s)"
  shows "\<exists>n s' r. mdns_append_fqdn ts s = Inr (n, s') \<and> 0 < n \<and> pos s' = pos s + n
    \<and> take (pos s) (packet s') = take (pos s) (packet s)
    \<and> mdns_read_fqdn (packet s') (pos s) (pos s) name0 = Inr (Some (pos s'), r)
    \<and> parts r = length ts \<and> list_all2 same_text ts (parts_of r)"
proof -
  obtain w where w: "mdns_append_fqdn ts s = Inr (length w, put w s)" "w \<noteq> []" "length w \<le> wire_len ts"
    and rd: "\<forall>b'. length b' = MDNS_MAX_PACKET_SIZE \<longrightarrow>
        take (pos s + length w) b' = take (pos s + length w) (packet (put w s)) \<longrightarrow>
        (\<exists>r. mdns_read_fqdn b' (pos s) (pos s) name0 = Inr (Some (pos s + length w), r)
             \<and> parts r = length ts \<and> list_all2 same_text ts (parts_of r))"
    using append_fqdn_reads [OF assms] by blast
  have sz: "length (packet s) = MDNS_MAX_PACKET_SIZE" "pos s + length w < MDNS_MAX_PACKET_SIZE"
    using assms(1) w(3) by (auto simp: accepts_name_def)
  with rd obtain r where "mdns_read_fqdn (packet (put w s)) (pos s) (pos s) name0 = Inr (Some (pos s + length w), r)"
    "parts r = length ts" "list_all2 same_text ts (parts_of r)"
    using length_packet_put [of s w] by (metis less_imp_le)
  with w take_packet_put [of s w] sz show ?thesis by auto
qed

text \<open>The witness is the name of the car's service in the first packet.\<close>

theorem fqdn_round_trip_witness:
  "\<exists>n s' r. mdns_append_fqdn [bytes_of ''smart car service'', bytes_of ''_car'', bytes_of ''_udp'', bytes_of ''local''] fresh_packet
     = Inr (n, s') \<and> mdns_read_fqdn (packet s') 12 12 name0 = Inr (Some (pos s'), r) \<and> parts r = 4"
proof -
  have "accepts_name [bytes_of ''smart car service'', bytes_of ''_car'', bytes_of ''_udp'', bytes_of ''local''] fresh_packet"
    by (simp add: accepts_name_def wire_len_def plain_def bytes_of_def same_text_def lower_def separate_def
        joins_host_def)
  from fqdn_round_trip [OF this] settled_fresh show ?thesis by auto
qed

text \<open>A name that does not fit is cut and counted as written: when the first label still
  fits and the second does not, the first is appended and its length returned, not 0, so the
  caller goes on behind a name that has no end.\<close>

theorem fqdn_cut_short:
  assumes "length (packet s) = MDNS_MAX_PACKET_SIZE" "plain t" "plain u" "length t \<noteq> length u"
    "\<forall>k < pos s. packet s ! k \<noteq> of_nat (length t) \<and> packet s ! k \<noteq> of_nat (length u)"
    "pos s + length t + 1 < MDNS_MAX_PACKET_SIZE" "MDNS_MAX_PACKET_SIZE \<le> pos s + length t + length u + 2"
  shows "mdns_append_fqdn (t # u # us) s = Inr (length t + 1, put (label t) s)"
proof -
  note len = strlen8_plain [OF assms(2)] strlen8_plain [OF assms(3)]
  have small: "length t < 32" "length u < 32" using assms(2,3) by (auto simp: plain_def)
  have room: "room (length (label t)) s" using assms(1,6) by (simp add: room_def len)
  have "packet (put (label t) s) ! k \<noteq> of_nat (length u)" if "k < pos s + length t + 1" for k
  proof (cases "k \<le> pos s")
    case True
    with assms(4,5,6) small nth_packet_put [OF room, of k] show ?thesis
      by (auto simp: len label_plain [OF assms(2)] dest!: arg_cong [of _ _ unat] simp: unat_of_nat_small)
  next
    case False
    with that nth_packet_put [OF room, of k] assms(6) have "packet (put (label t) s) ! k \<in> set t"
      by (auto simp: len label_plain [OF assms(2)] nth_Cons')
    with assms(2) small show ?thesis by (auto simp: plain_def list_all_iff word_le_nat_alt unat_of_nat_small)
  qed
  then have "fqdn_search (packet (put (label t) s)) (pos s + (length t + 1)) (u # us) 0 = Inr None"
    by (intro fqdn_search_none) (simp add: len)
  moreover have "fqdn_search (packet s) (pos s) (t # u # us) 0 = Inr None"
    using assms(5) by (intro fqdn_search_none) (simp add: len)
  ultimately show ?thesis
    using assms(1,6,7) room small
    by (simp add: mdns_append_fqdn.simps prog_simps mdns_append_string_run len room_def)
qed

theorem fqdn_cut_short_witness:
  "mdns_append_fqdn [bytes_of ''a'', bytes_of ''local''] (fresh_packet\<lparr>pos := 1454\<rparr>)
   = Inr (2, put (label (bytes_of ''a'')) (fresh_packet\<lparr>pos := 1454\<rparr>))"
  using fqdn_cut_short [of "fresh_packet\<lparr>pos := 1454\<rparr>" "bytes_of ''a''" "bytes_of ''local''" "[]"]
  by (simp add: plain_def bytes_of_def same_text_def lower_def)

text \<open>
  A label at the cursor of a packet, as the reader sees it: \<open>b\<close> is any packet that holds the
  label's bytes at \<open>p\<close>.
\<close>

lemma read_plain_label:
  assumes "plain t" "p + length t + 1 \<le> length b" "take (length t + 1) (drop p b) = label t"
  shows "b ! p = of_nat (length t)" "take (length t) (drop (p + 1) b) = t"
    "mdns_read_fqdn b start p name0 = mdns_read_fqdn b start (p + 1 + length t) (name0\<lparr>host := t, parts := 1\<rparr>)"
proof -
  show hd: "b ! p = of_nat (length t)" "take (length t) (drop (p + 1) b) = t"
    using assms take_Suc_drop [of p b "length t"] by (simp_all add: label_plain)
  have "unat (b ! p) = length t" "b ! p \<noteq> 0" "b ! p \<le> 63"
    using assms(1) by (auto simp: hd(1) plain_def unat_of_nat_small word_le_nat_alt dest!: arg_cong [of _ _ unat])
  then show "mdns_read_fqdn b start p name0 = mdns_read_fqdn b start (p + 1 + length t) (name0\<lparr>host := t, parts := 1\<rparr>)"
    using read_label [of p b start name0] assms hd(2)
    by (simp add: c_string_plain mark_full_def add_label_def joins_host_def copy_part_def plain_def name0_def)
qed

text \<open>The search can find the name that is being written: a name of twice the same label,
  such as the address record of a host called \<open>local\<close>, is written as the label and a pointer
  back to it when the byte behind the cursor's label is zero, and the reader rejects it.\<close>

theorem name_refers_to_itself:
  assumes "length (packet s) = MDNS_MAX_PACKET_SIZE" "plain t" "\<forall>k < pos s. packet s ! k \<noteq> of_nat (length t)"
    "pos s + length t + 3 \<le> MDNS_MAX_PACKET_SIZE" "packet s ! (pos s + length t + 1) = 0"
  shows "\<exists>s' nm. mdns_append_fqdn [t, t] s = Inr (length t + 3, s')
    \<and> mdns_read_fqdn (packet s') (pos s) (pos s) name0 = Inr (None, nm)"
proof -
  let ?s1 = "put (label t) s" and ?q = "pos s + length t + 1"
  let ?ref = "of_nat (pos s) OR MDNS_NAME_REF :: u16"
  let ?w = "label t @ [hi_byte ?ref, lo_byte ?ref]"
  note len = strlen8_plain [OF assms(2)]
  have small: "length t < 32" "t \<noteq> []" using assms(2) by (auto simp: plain_def)
  have room: "room (length (label t)) s" "room (length ?w) s" using assms(1,4) by (simp_all add: room_def len)
  have label: "take (length t + 1) (drop (pos s) (packet (put (label t @ v) s))) = label t"
    if "length v \<le> 2" for v
    using assms(1,4) that by (simp add: put_def overlay_def len)
  note rd1 = read_plain_label [OF assms(2) _ label [of "[]"], simplified]
  have "packet ?s1 ! ?q = 0" using nth_packet_put [OF room(1), of ?q] assms(4,5) by (simp add: len)
  then have "mdns_read_fqdn (packet ?s1) (pos s) (pos s) name0 = Inr (Some (?q + 1), name0\<lparr>host := t, parts := 1\<rparr>)"
    using rd1(3) [of "pos s"] assms(1,4) by (simp add: read_stop len)
  then have "fqdn_search (packet ?s1) ?q [t] (pos s) = Inr (Some (pos s))"
    using rd1(1,2) assms(1,4) by (subst fqdn_search.simps) (simp add: len Let_def buffers_def)
  moreover have "fqdn_search (packet ?s1) ?q [t] 0 = fqdn_search (packet ?s1) ?q [t] (pos s)"
    using assms(3,4) nth_packet_put [OF room(1)] by (intro fqdn_search_skip) (auto simp: len)
  moreover have "fqdn_search (packet s) (pos s) [t, t] 0 = Inr None"
    using assms(3) by (intro fqdn_search_none) (simp add: len)
  ultimately have app: "mdns_append_fqdn [t, t] s = Inr (length t + 3, put ?w s)"
    using assms(1,4) small
    by (simp add: mdns_append_fqdn.simps prog_simps mdns_append_string_run mdns_append_u16_run len room_def put_put)
  have at: "packet (put ?w s) ! (pos s + length t + 1) = hi_byte ?ref" "packet (put ?w s) ! (pos s + length t + 2) = lo_byte ?ref"
    using nth_packet_put [OF room(2), of "pos s + length t + 1"] nth_packet_put [OF room(2), of "pos s + length t + 2"]
      assms(4) by (simp_all add: len nth_append)
  have "target (packet (put ?w s)) ?q = pos s" "0xC0 \<le> packet (put ?w s) ! ?q"
    using ref_address_bytes [of "pos s"] at assms(4) by simp_all
  then have "\<exists>nm'. mdns_read_fqdn (packet (put ?w s)) (pos s) ?q nm = Inr (None, nm')" for nm
    using assms(1,4) room(2) by (subst mdns_read_fqdn.simps) (auto simp: Let_def len)
  then show ?thesis
    using read_plain_label(3) [OF assms(2) _ label [of "[hi_byte ?ref, lo_byte ?ref]"], of "pos s"] app assms(1,4) room(2)
    by (simp add: len)
qed

theorem name_refers_to_itself_witness:
  "\<exists>s' nm. mdns_append_fqdn [MDNS_DEFAULT_DOMAIN, MDNS_DEFAULT_DOMAIN] fresh_packet = Inr (8, s')
    \<and> mdns_read_fqdn (packet s') 12 12 name0 = Inr (None, nm)"
  using name_refers_to_itself [of fresh_packet MDNS_DEFAULT_DOMAIN]
  by (simp add: plain_def bytes_of_def same_text_def lower_def)

end
