(* ===== verification/Mdns_Records.thy ===== *)
theory Mdns_Records
  imports Mdns_Fqdn Utils
begin

text \<open>
  The records the mDNS responder of \<open>managed_components/espressif__mdns/mdns.c\<close> appends to a
  packet (PTR, subtype PTR, DNS-SD PTR, TXT, SRV, A, AAAA), its questions, and the new name it
  chooses after a collision.

  The lengths a record function keeps in \<open>uint8_t part_length\<close> are taken modulo 256 and those
  in \<open>uint16_t\<close> modulo 65536. A string that may be \<open>NULL\<close> is an \<open>option\<close>.
\<close>

unbundle bit_operations_syntax

section \<open>Data\<close>

record mdns_txt_item =
  key :: "u8 list option"
  txt_value :: "u8 list option"
  value_len :: u8

record mdns_service =
  srv_instance :: "u8 list option"
  srv_service :: "u8 list"
  srv_proto :: "u8 list"
  srv_hostname :: "u8 list option"
  priority :: u16
  weight :: u16
  port :: u16
  txt_items :: "mdns_txt_item list"

record mdns_server =
  server_instance :: "u8 list option"
  server_hostname :: "u8 list option"

record mdns_out_question =
  q_type :: u16
  unicast :: bool
  q_host :: "u8 list option"
  q_service :: "u8 list option"
  q_proto :: "u8 list option"
  q_domain :: "u8 list option"

definition str_null_or_empty :: "u8 list option \<Rightarrow> bool" where
  "str_null_or_empty str = (case str of None \<Rightarrow> True | Some cs \<Rightarrow> cs = [])"

definition mdns_get_default_instance_name :: "'a mdns_server_scheme \<Rightarrow> u8 list option" where
  "mdns_get_default_instance_name server =
     (if \<not> str_null_or_empty (server_instance server) then server_instance server
      else if \<not> str_null_or_empty (server_hostname server) then server_hostname server
      else None)"

definition mdns_get_service_instance_name :: "'a mdns_server_scheme \<Rightarrow> mdns_service \<Rightarrow> u8 list option" where
  "mdns_get_service_instance_name server srv =
     (if \<not> str_null_or_empty (srv_instance srv) then srv_instance srv
      else mdns_get_default_instance_name server)"

definition not_null :: "'a option \<Rightarrow> 'a pkt_prog" where
  "not_null x = (case x of None \<Rightarrow> fail Null_pointer | Some a \<Rightarrow> return a)"

section \<open>Record headers\<close>

definition answer_type :: "u8 \<Rightarrow> u16 option" where
  "answer_type type =
     (if type = 0x08 then Some 0x000C else if type = 0x04 then Some 0x0010
      else if type = 0x02 then Some 0x0021 else if type = 0x01 then Some 0x0001
      else if type = 0x10 then Some 0x001C else None)"

definition mdns_append_type :: "u8 \<Rightarrow> bool \<Rightarrow> u32 \<Rightarrow> nat pkt_prog" where
  "mdns_append_type type flush ttl =
     bind (gets pos) (\<lambda>i.
       if i + 10 \<ge> MDNS_MAX_PACKET_SIZE then return 0
       else let mdns_class = if flush then 0x8001 else 0x0001 in
         case answer_type type of
           None \<Rightarrow> return 0
         | Some code \<Rightarrow>
             bind (mdns_append_u16 code) (\<lambda>_.
             bind (mdns_append_u16 mdns_class) (\<lambda>_.
             bind (mdns_append_u32 ttl) (\<lambda>_.
             bind (mdns_append_u16 0) (\<lambda>_. return 10)))))"

text \<open>\<open>uint16_t data_len_location = *index - 2\<close>.\<close>

definition data_len_location :: "nat pkt_prog" where
  "data_len_location = gets (\<lambda>s. (pos s + 65534) mod 65536)"

section \<open>Records\<close>

definition mdns_append_ptr_record ::
    "u8 list option \<Rightarrow> u8 list option \<Rightarrow> u8 list \<Rightarrow> bool \<Rightarrow> bool \<Rightarrow> nat pkt_prog" where
  "mdns_append_ptr_record inst svc prot flush bye =
     (case svc of
        None \<Rightarrow> return 0
      | Some sv \<Rightarrow>
          bind (mdns_append_fqdn [sv, prot, MDNS_DEFAULT_DOMAIN]) (\<lambda>n.
          if n mod 256 = 0 then return 0 else
          bind (mdns_append_type 0x08 False (if bye then 0 else 4500)) (\<lambda>t.
          if t = 0 then return 0 else
          bind data_len_location (\<lambda>loc.
          bind (not_null inst) (\<lambda>ins.
          bind (mdns_append_fqdn [ins, sv, prot, MDNS_DEFAULT_DOMAIN]) (\<lambda>m.
          if m mod 256 = 0 then return 0 else
          bind (mdns_set_u16 loc (of_nat (m mod 256))) (\<lambda>_.
          return ((n mod 256 + t + m mod 256) mod 65536))))))))"

definition mdns_append_subtype_ptr_record ::
    "u8 list option \<Rightarrow> u8 list \<Rightarrow> u8 list option \<Rightarrow> u8 list \<Rightarrow> bool \<Rightarrow> bool \<Rightarrow> nat pkt_prog" where
  "mdns_append_subtype_ptr_record inst subtype svc prot flush bye =
     (case svc of
        None \<Rightarrow> return 0
      | Some sv \<Rightarrow>
          bind (mdns_append_fqdn [subtype, MDNS_SUB_STR, sv, prot, MDNS_DEFAULT_DOMAIN]) (\<lambda>n.
          if n mod 256 = 0 then return 0 else
          bind (mdns_append_type 0x08 False (if bye then 0 else 4500)) (\<lambda>t.
          if t = 0 then return 0 else
          bind data_len_location (\<lambda>loc.
          bind (not_null inst) (\<lambda>ins.
          bind (mdns_append_fqdn [ins, sv, prot, MDNS_DEFAULT_DOMAIN]) (\<lambda>m.
          if m mod 256 = 0 then return 0 else
          bind (mdns_set_u16 loc (of_nat (m mod 256))) (\<lambda>_.
          return ((n mod 256 + t + m mod 256) mod 65536))))))))"

text \<open>The length of the first name is not checked here, as in the source.\<close>

definition mdns_append_sdptr_record :: "mdns_service option \<Rightarrow> bool \<Rightarrow> bool \<Rightarrow> nat pkt_prog" where
  "mdns_append_sdptr_record svc flush bye =
     (case svc of
        None \<Rightarrow> return 0
      | Some srv \<Rightarrow>
          bind (mdns_append_fqdn
             [bytes_of ''_services'', bytes_of ''_dns-sd'', bytes_of ''_udp'', MDNS_DEFAULT_DOMAIN]) (\<lambda>n.
          bind (mdns_append_type 0x08 flush 4500) (\<lambda>t.
          if t = 0 then return 0 else
          bind data_len_location (\<lambda>loc.
          bind (mdns_append_fqdn [srv_service srv, srv_proto srv, MDNS_DEFAULT_DOMAIN]) (\<lambda>m.
          if m mod 256 = 0 then return 0 else
          bind (mdns_set_u16 loc (of_nat (m mod 256))) (\<lambda>_.
          return ((n mod 256 + t + m mod 256) mod 65536)))))))"

text \<open>
  One TXT entry: the number of bytes added, 0 when it does not fit, -1 without a key. The
  length byte is the length modulo 256.
\<close>

definition append_one_txt_record_entry :: "mdns_txt_item \<Rightarrow> int pkt_prog" where
  "append_one_txt_record_entry item =
     (case key item of
        None \<Rightarrow> return (-1)
      | Some k \<Rightarrow>
          bind (gets pos) (\<lambda>i.
          let len = length k + unat (value_len item) + (if txt_value item \<noteq> None then 1 else 0) in
          if i + len + 1 \<ge> MDNS_MAX_PACKET_SIZE then return 0
          else bind (mdns_append_u8 (of_nat len)) (\<lambda>_.
               bind (gets pos) (\<lambda>j.
               bind (block
                 [set_bytes j k,
                  (case txt_value item of
                     None \<Rightarrow> return ()
                   | Some v \<Rightarrow> block
                       [set_byte (j + length k) 61,
                        if length v < unat (value_len item) then fail Out_of_bounds
                        else set_bytes (j + length k + 1) (take (unat (value_len item)) v)]),
                  advance len]) (\<lambda>_.
               return (int len + 1))))))"

text \<open>The loop over the entries, \<open>None\<close> when one does not fit.\<close>

fun append_txt_entries :: "mdns_txt_item list \<Rightarrow> nat \<Rightarrow> nat option pkt_prog" where
  "append_txt_entries [] data_len = return (Some data_len)"
| "append_txt_entries (item # items) data_len =
     bind (append_one_txt_record_entry item) (\<lambda>l.
       if l > 0 then append_txt_entries items ((data_len + nat l) mod 65536)
       else if l = 0 then return None
       else append_txt_entries items data_len)"

definition mdns_append_txt_record :: "'a mdns_server_scheme \<Rightarrow> mdns_service option \<Rightarrow> bool \<Rightarrow> bool \<Rightarrow> nat pkt_prog" where
  "mdns_append_txt_record server svc flush bye =
     (case svc of
        None \<Rightarrow> return 0
      | Some srv \<Rightarrow>
          (case mdns_get_service_instance_name server srv of
             None \<Rightarrow> return 0
           | Some name \<Rightarrow>
               bind (mdns_append_fqdn [name, srv_service srv, srv_proto srv, MDNS_DEFAULT_DOMAIN]) (\<lambda>n.
               if n mod 256 = 0 then return 0 else
               bind (mdns_append_type 0x04 flush (if bye then 0 else 4500)) (\<lambda>t.
               if t = 0 then return 0 else
               bind data_len_location (\<lambda>loc.
               bind (append_txt_entries (txt_items srv) 0) (\<lambda>entries.
               case entries of
                 None \<Rightarrow> return 0
               | Some d \<Rightarrow>
                   bind (gets pos) (\<lambda>i.
                   bind (if_then (d = 0) (block [set_byte i 0, advance 1])) (\<lambda>_.
                   let data_len = if d = 0 then 1 else d in
                   bind (mdns_set_u16 loc (of_nat data_len)) (\<lambda>_.
                   return ((n mod 256 + t + data_len) mod 65536))))))))))"

definition mdns_append_srv_record :: "'a mdns_server_scheme \<Rightarrow> mdns_service option \<Rightarrow> bool \<Rightarrow> bool \<Rightarrow> nat pkt_prog" where
  "mdns_append_srv_record server svc flush bye =
     (case svc of
        None \<Rightarrow> return 0
      | Some srv \<Rightarrow>
          (case mdns_get_service_instance_name server srv of
             None \<Rightarrow> return 0
           | Some name \<Rightarrow>
               bind (mdns_append_fqdn [name, srv_service srv, srv_proto srv, MDNS_DEFAULT_DOMAIN]) (\<lambda>n.
               if n mod 256 = 0 then return 0 else
               bind (mdns_append_type 0x02 flush (if bye then 0 else 120)) (\<lambda>t.
               if t = 0 then return 0 else
               bind data_len_location (\<lambda>loc.
               bind (mdns_append_u16 (priority srv)) (\<lambda>a.
               bind (mdns_append_u16 (weight srv)) (\<lambda>b.
               bind (mdns_append_u16 (port srv)) (\<lambda>c.
               if a + b + c \<noteq> 6 then return 0 else
               let target = if srv_hostname srv \<noteq> None then srv_hostname srv else server_hostname server in
               if str_null_or_empty target then return 0 else
               bind (mdns_append_fqdn [the target, MDNS_DEFAULT_DOMAIN]) (\<lambda>m.
               if m mod 256 = 0 then return 0 else
               bind (mdns_set_u16 loc (of_nat (m mod 256 + 6))) (\<lambda>_.
               return ((n mod 256 + t + m mod 256 + 6) mod 65536)))))))))))"

definition mdns_append_a_record :: "u8 list option \<Rightarrow> u32 \<Rightarrow> bool \<Rightarrow> bool \<Rightarrow> nat pkt_prog" where
  "mdns_append_a_record hostname ip flush bye =
     (if str_null_or_empty hostname then return 0 else
      bind (mdns_append_fqdn [the hostname, MDNS_DEFAULT_DOMAIN]) (\<lambda>n.
      if n mod 256 = 0 then return 0 else
      bind (mdns_append_type 0x01 flush (if bye then 0 else 120)) (\<lambda>t.
      if t = 0 then return 0 else
      bind data_len_location (\<lambda>loc.
      bind (gets pos) (\<lambda>i.
      if i + 3 \<ge> MDNS_MAX_PACKET_SIZE then return 0 else
      bind (mdns_append_u8 (ucast (ip AND 0xFF))) (\<lambda>_.
      bind (mdns_append_u8 (ucast (drop_bit 8 ip AND 0xFF))) (\<lambda>_.
      bind (mdns_append_u8 (ucast (drop_bit 16 ip AND 0xFF))) (\<lambda>_.
      bind (mdns_append_u8 (ucast (drop_bit 24 ip AND 0xFF))) (\<lambda>_.
      bind (mdns_set_u16 loc 4) (\<lambda>_.
      return ((n mod 256 + t + 4) mod 65536)))))))))))"

definition mdns_append_aaaa_record :: "u8 list option \<Rightarrow> u8 list \<Rightarrow> bool \<Rightarrow> bool \<Rightarrow> nat pkt_prog" where
  "mdns_append_aaaa_record hostname ipv6 flush bye =
     (if str_null_or_empty hostname then return 0 else
      bind (mdns_append_fqdn [the hostname, MDNS_DEFAULT_DOMAIN]) (\<lambda>n.
      if n mod 256 = 0 then return 0 else
      bind (mdns_append_type 0x10 flush (if bye then 0 else 120)) (\<lambda>t.
      if t = 0 then return 0 else
      bind data_len_location (\<lambda>loc.
      bind (gets pos) (\<lambda>i.
      if i + 16 > MDNS_MAX_PACKET_SIZE then return 0 else
      bind (if length ipv6 < 16 then fail Out_of_bounds else set_bytes i (take 16 ipv6)) (\<lambda>_.
      bind (advance 16) (\<lambda>_.
      bind (mdns_set_u16 loc 16) (\<lambda>_.
      return ((n mod 256 + t + 16) mod 65536)))))))))"

definition question_strings :: "mdns_out_question \<Rightarrow> u8 list list" where
  "question_strings q = List.map_filter id [q_host q, q_service q, q_proto q, q_domain q]"

definition mdns_append_question :: "mdns_out_question \<Rightarrow> nat pkt_prog" where
  "mdns_append_question q =
     bind (mdns_append_fqdn (question_strings q)) (\<lambda>n.
     if n mod 256 = 0 then return 0 else
     bind (mdns_append_u16 (q_type q)) (\<lambda>a.
     bind (mdns_append_u16 (if unicast q then 0x8001 else 0x0001)) (\<lambda>b.
     return ((n mod 256 + a + b) mod 256))))"

section \<open>A new name after a collision\<close>

text \<open>
  \<open>strtol(str, &endp, 10)\<close> with a 32-bit \<open>long\<close>: the value, clamped to the range of \<open>long\<close>, and
  the rest of the string that was not converted; without digits that is the whole string.
\<close>

definition strtol :: "string \<Rightarrow> int \<times> string" where
  "strtol str =
     (let body = dropWhile is_space str;
          neg = (body \<noteq> [] \<and> hd body = CHR ''-'');
          ds = (if body \<noteq> [] \<and> (hd body = CHR ''-'' \<or> hd body = CHR ''+'') then tl body else body);
          v = digits_val 0 (takeWhile is_digit ds)
      in if takeWhile is_digit ds = [] then (0, str)
         else (max INT_MIN (min INT_MAX (if neg then - v else v)), dropWhile is_digit ds))"

text \<open>\<open>strrchr(in, '-')\<close>: the text before the last dash and the text behind it.\<close>

fun split_last_dash :: "string \<Rightarrow> (string \<times> string) option" where
  "split_last_dash [] = None"
| "split_last_dash (c # cs) =
     (case split_last_dash cs of
        Some (a, b) \<Rightarrow> Some (c # a, b)
      | None \<Rightarrow> if c = CHR ''-'' then Some ([], cs) else None)"

definition show_int :: "int \<Rightarrow> string" where
  "show_int i = (if i < 0 then CHR ''-'' # show_nat (nat (- i)) else show_nat (nat i))"

text \<open>
  \<open>heap\<close> says whether \<open>malloc\<close> succeeds. The string that is printed must fit the block that
  was allocated, with its NUL.
\<close>

definition sprintf_into :: "nat \<Rightarrow> string \<Rightarrow> fault + string option" where
  "sprintf_into capacity str = (if length str < capacity then Inr (Some str) else Inl Out_of_bounds)"

definition mdns_mangle_name :: "bool \<Rightarrow> string \<Rightarrow> fault + string option" where
  "mdns_mangle_name heap name =
     (case split_last_dash name of
        Some (base, digits) \<Rightarrow>
          if snd (strtol digits) = []
          then (if \<not> heap then Inr None
                else if \<not> is_int (fst (strtol digits) + 1) then Inl Signed_overflow
                else sprintf_into (length name + 2) (base @ CHR ''-'' # show_int (fst (strtol digits) + 1)))
          else (if \<not> heap then Inr None else sprintf_into (length name + 3) (name @ ''-2''))
      | None \<Rightarrow> if \<not> heap then Inr None else sprintf_into (length name + 3) (name @ ''-2''))"

section \<open>The layout of a record\<close>

text \<open>Type, class, time to live and length of the data.\<close>

definition header_bytes :: "u16 \<Rightarrow> bool \<Rightarrow> u32 \<Rightarrow> u16 \<Rightarrow> u8 list" where
  "header_bytes code flush ttl len =
     (let cls = if flush then 0x8001 else 0x0001 in
      [hi_byte code, lo_byte code, hi_byte cls, lo_byte cls] @ u32_bytes ttl @ [hi_byte len, lo_byte len])"

lemma length_header_bytes [simp]: "length (header_bytes code flush ttl len) = 10"
  by (simp add: header_bytes_def Let_def)

lemma mdns_append_type_run:
  "length (packet s) = MDNS_MAX_PACKET_SIZE \<Longrightarrow> answer_type type = Some code \<Longrightarrow>
   mdns_append_type type flush ttl s =
     (if pos s + 10 < MDNS_MAX_PACKET_SIZE then Inr (10, put (header_bytes code flush ttl 0) s) else Inr (0, s))"
  by (simp add: mdns_append_type_def prog_simps Let_def mdns_append_u16_run mdns_append_u32_run room_def put_put
      header_bytes_def)

lemma data_len_location_run:
  "2 \<le> pos s \<Longrightarrow> pos s \<le> MDNS_MAX_PACKET_SIZE \<Longrightarrow> data_len_location s = Inr (pos s - 2, s)"
proof -
  assume "2 \<le> pos s" "pos s \<le> MDNS_MAX_PACKET_SIZE"
  then have "pos s + 65534 = pos s - 2 + 1 * 65536" "pos s - 2 < 65536" by linarith+
  then show ?thesis by (simp only: data_len_location_def gets_run mod_mult_self1 mod_less)
qed

lemma overlay_header:
  "overlay (length w + 8) [hi_byte len, lo_byte len] (w @ header_bytes code flush ttl 0 @ d)
   = w @ header_bytes code flush ttl len @ d"
  by (simp add: overlay_def header_bytes_def Let_def u32_bytes_def)

text \<open>The data length is filled in after the data.\<close>

lemma set_data_len:
  assumes "room (length w + 10 + length d) s"
  shows "mdns_set_u16 (8 + (pos s + length w)) len (put (w @ header_bytes code flush ttl 0 @ d) s)
    = Inr ((), put (w @ header_bytes code flush ttl len @ d) s)"
proof -
  let ?w = "w @ header_bytes code flush ttl 0 @ d"
  have "room (length ?w) s" using assms by (simp add: add.assoc)
  from overlay_put [of "length w + 8" "[hi_byte len, lo_byte len]" ?w s] this
  have "(put ?w s)\<lparr>packet := overlay (pos s + length w + 8) [hi_byte len, lo_byte len] (packet (put ?w s))\<rparr>
      = put (w @ header_bytes code flush ttl len @ d) s"
    by (simp add: overlay_header add.assoc)
  then show ?thesis
    using mdns_set_u16_run [of "put ?w s" "8 + (pos s + length w)" len] assms by (simp add: room_def ac_simps)
qed

lemma take_put_append:
  "room (length w + length x) s \<Longrightarrow>
   take (pos s + length w) (packet (put (w @ x) s)) = take (pos s + length w) (packet (put w s))"
  by (simp add: put_def overlay_def room_def)

definition ip_bytes :: "u32 \<Rightarrow> u8 list" where
  "ip_bytes ip = rev (u32_bytes ip)"

lemma length_ip_bytes [simp]: "length (ip_bytes ip) = 4"
  by (simp add: ip_bytes_def)

lemma a_record_run:
  assumes "mdns_append_fqdn [h, MDNS_DEFAULT_DOMAIN] s = Inr (length w, put w s)" "h \<noteq> []" "w \<noteq> []" "length w < 256"
    "room (length w + 14) s"
  shows "mdns_append_a_record (Some h) ip flush bye s =
    Inr (length w + 14, put (w @ header_bytes 1 flush (if bye then 0 else 120) 4 @ ip_bytes ip) s)"
proof -
  have sz: "length (packet s) = MDNS_MAX_PACKET_SIZE" "pos s + length w + 14 \<le> MDNS_MAX_PACKET_SIZE"
    using assms(5) by (simp_all add: room_def)
  let ?b = "[ucast (ip AND 0xFF), ucast (drop_bit 8 ip AND 0xFF), ucast (drop_bit 16 ip AND 0xFF), ucast (drop_bit 24 ip AND 0xFF)] :: u8 list"
  have "?b = ip_bytes ip" by (simp add: ip_bytes_def u32_bytes_def)
  then show ?thesis
    using assms(1-4) sz
    by (simp add: mdns_append_a_record_def str_null_or_empty_def prog_simps mdns_append_type_run answer_type_def
        data_len_location_run mdns_append_u8_run room_def put_put set_data_len add.assoc)
qed

text \<open>What the readers find in the header of a record.\<close>

lemma header_reads:
  assumes "room (length (w @ header_bytes code flush ttl len @ d)) s"
  defines "b \<equiv> packet (put (w @ header_bytes code flush ttl len @ d) s)"
  shows "mdns_read_u16 b (pos s + length w) = Inr code"
    "mdns_read_u16 b (pos s + length w + 2) = Inr (if flush then 0x8001 else 0x0001)"
    "mdns_read_u32 b (pos s + length w + 4) = Inr ttl"
    "mdns_read_u16 b (pos s + length w + 8) = Inr len"
proof -
  let ?h = "header_bytes code flush ttl len"
  have at: "(w @ ?h @ d) ! (length w + i) = ?h ! i" if "i < 10" for i
    using that by (simp add: nth_append)
  note u16 = mdns_read_u16_put [OF assms(1), folded b_def]
  show "mdns_read_u16 b (pos s + length w) = Inr code"
    using u16 [of "length w" code] at [of 0] at [of 1] by (simp add: header_bytes_def Let_def)
  show "mdns_read_u16 b (pos s + length w + 2) = Inr (if flush then 0x8001 else 0x0001)"
    using u16 [of "length w + 2" "if flush then 0x8001 else 0x0001"] by (simp add: header_bytes_def Let_def nth_append)
  show "mdns_read_u16 b (pos s + length w + 8) = Inr len"
    using u16 [of "length w + 8" len] at [of 8] at [of 9]
    by (simp add: header_bytes_def Let_def add.assoc nth_append)
  have "(w @ ?h @ d) ! (length w + 4 + i) = u32_bytes ttl ! i" if "i < 4" for i
    using at [of "4 + i"] that by (simp add: header_bytes_def Let_def nth_append add.assoc)
  then show "mdns_read_u32 b (pos s + length w + 4) = Inr ttl"
    using mdns_read_u32_put [OF assms(1), of "length w + 4" ttl] by (simp add: b_def add.assoc)
qed

definition srv_data :: "mdns_service \<Rightarrow> u8 list" where
  "srv_data srv = concat (map (\<lambda>v. [hi_byte v, lo_byte v]) [priority srv, weight srv, port srv])"

lemma srv_record_run:
  assumes "mdns_get_service_instance_name server srv = Some name"
    "(if srv_hostname srv \<noteq> None then srv_hostname srv else server_hostname server) = Some h" "h \<noteq> []"
    "mdns_append_fqdn [name, srv_service srv, srv_proto srv, MDNS_DEFAULT_DOMAIN] s = Inr (length w, put w s)"
    "w \<noteq> []" "length w < 256" "d = srv_data srv"
    "s2 = put (w @ header_bytes 0x21 flush (if bye then 0 else 120) 0 @ d) s"
    "mdns_append_fqdn [h, MDNS_DEFAULT_DOMAIN] s2 = Inr (length v, put v s2)" "v \<noteq> []" "length v < 250"
    "room (length w + 16 + length v) s"
  shows "mdns_append_srv_record server (Some srv) flush bye s =
    Inr (length w + 16 + length v,
         put (w @ header_bytes 0x21 flush (if bye then 0 else 120) (of_nat (length v + 6)) @ d @ v) s)"
proof -
  have sz: "length (packet s) = MDNS_MAX_PACKET_SIZE" "pos s + length w + 16 + length v \<le> MDNS_MAX_PACKET_SIZE"
    "1 \<le> length v" "length d = 6"
    using assms(7,10,12) by (simp_all add: room_def Suc_le_eq srv_data_def)
  have s2: "put [hi_byte (port srv), lo_byte (port srv)] (put [hi_byte (weight srv), lo_byte (weight srv)]
      (put [hi_byte (priority srv), lo_byte (priority srv)]
        (put (header_bytes 0x21 flush (if bye then 0 else 120) 0) (put w s)))) = s2"
    using sz by (simp add: put_put assms(7,8) srv_data_def)
  have v: "put v s2 = put (w @ header_bytes 0x21 flush (if bye then 0 else 120) 0 @ (d @ v)) s"
    using sz by (simp add: assms(8) put_put)
  show ?thesis
    using assms(1,3-6,10,11) sz assms(9) assms(2) set_data_len [of w "d @ v" s "of_nat (length v + 6)" "0x21" flush "if bye then 0 else 120"]
    by (simp add: mdns_append_srv_record_def Let_def str_null_or_empty_def prog_simps mdns_append_type_run answer_type_def
        data_len_location_run mdns_append_u16_run room_def s2 v del: if_split cong: if_cong)
qed

section \<open>Collision names\<close>

lemma split_last_dash_Some:
  "split_last_dash cs = Some (base, ds) \<Longrightarrow> cs = base @ CHR ''-'' # ds \<and> CHR ''-'' \<notin> set ds"
proof (induction cs arbitrary: base)
  case (Cons c cs)
  have none: "split_last_dash xs = None \<Longrightarrow> CHR ''-'' \<notin> set xs" for xs
    by (induction xs) (auto split: option.splits if_splits)
  with Cons show ?case by (auto split: option.splits if_splits)
qed simp

lemma digits_val_bounds: "list_all is_digit ds \<Longrightarrow> 0 \<le> digits_val 0 ds \<and> digits_val 0 ds < 10 ^ length ds"
proof (induction ds rule: rev_induct)
  case (snoc d ds)
  then have "0 \<le> digit_val d" "digit_val d \<le> 9" by (auto simp: is_digit_def digit_val_def)
  with snoc show ?case by (simp add: digits_val_append)
qed simp

lemma length_show_nat: "n < 10 ^ k \<Longrightarrow> 0 < k \<Longrightarrow> length (show_nat n) \<le> k"
proof (induction n arbitrary: k rule: show_nat.induct)
  case (1 n)
  show ?case
  proof (cases "n < 10")
    case False
    obtain j where k: "k = Suc j" using 1(3) by (cases k) auto
    with 1(2) False have "0 < j" by (cases j) auto
    with 1(1) [OF False, of j] 1(2) False k show ?thesis by (subst show_nat.simps) auto
  qed (use 1 in \<open>subst show_nat.simps, simp\<close>)
qed

lemma strtol_show_nat:
  assumes "int n \<le> INT_MAX"
  shows "strtol (show_nat n) = (int n, [])"
proof -
  obtain d ds where s: "show_nat n = d # ds" "is_digit d" "list_all is_digit (show_nat n)"
    using show_nat_digits [of n] by (cases "show_nat n") auto
  then have all: "takeWhile is_digit (show_nat n) = show_nat n" "dropWhile is_digit (show_nat n) = []"
    by (simp_all add: takeWhile_eq_all_conv list_all_iff)
  have body: "dropWhile is_space (show_nat n) = show_nat n" using s is_digit_not_sign by auto
  have "hd (show_nat n) \<noteq> CHR ''-''" "hd (show_nat n) \<noteq> CHR ''+''" "show_nat n \<noteq> []"
    using s is_digit_not_sign by auto
  then show ?thesis
    unfolding strtol_def Let_def body using assms by (simp add: all del: takeWhile_eq_all_conv)
qed

lemma strtol_no_dash:
  assumes "CHR ''-'' \<notin> set ds"
  shows "0 \<le> fst (strtol ds)" "fst (strtol ds) \<le> INT_MAX" "fst (strtol ds) < 10 ^ length ds"
proof -
  define body where "body = dropWhile is_space ds"
  define num where "num = (if body \<noteq> [] \<and> hd body = CHR ''+'' then tl body else body)"
  have neg: "hd body \<noteq> CHR ''-''" if "body \<noteq> []"
  proof -
    have "hd body \<in> set ds" using hd_in_set [OF that] unfolding body_def by (rule set_dropWhileD)
    then show ?thesis using assms by auto
  qed
  have "length num \<le> length body" by (simp add: num_def)
  also have "length body \<le> length ds" by (simp add: body_def length_dropWhile_le)
  finally have len: "length (takeWhile is_digit num) \<le> length ds"
    using length_takeWhile_le order_trans by blast
  have "list_all is_digit (takeWhile is_digit num)" by (auto simp: list_all_iff dest: set_takeWhileD)
  note bounds = digits_val_bounds [OF this]
  have "digits_val 0 (takeWhile is_digit num) < 10 ^ length ds"
    using bounds power_increasing [OF len, of "10 :: int"] by linarith
  moreover have "fst (strtol ds) =
      (if takeWhile is_digit num = [] then 0 else max INT_MIN (min INT_MAX (digits_val 0 (takeWhile is_digit num))))"
    using neg by (auto simp: strtol_def Let_def num_def body_def [symmetric])
  ultimately show "0 \<le> fst (strtol ds)" "fst (strtol ds) \<le> INT_MAX" "fst (strtol ds) < 10 ^ length ds"
    using bounds by auto
qed

lemma mangle_counts_up:
  assumes "int n < INT_MAX"
  shows "mdns_mangle_name True (base @ CHR ''-'' # show_nat n) = Inr (Some (base @ CHR ''-'' # show_nat (n + 1)))"
proof -
  have nodash: "CHR ''-'' \<notin> set (show_nat n)"
    using show_nat_digits [of n] is_digit_not_sign(2) by (auto simp: list_all_iff)
  have "split_last_dash (base @ CHR ''-'' # ds) = Some (base, ds)" if "CHR ''-'' \<notin> set ds" for ds
  proof -
    have "split_last_dash ds = None" using that by (induction ds) auto
    then show ?thesis by (induction base) auto
  qed
  note split = this [OF nodash]
  have "n < 10 ^ length (show_nat n)"
    using digits_val_bounds [of "show_nat n"] show_nat_digits [of n] by simp
  then have "n + 1 < 10 ^ (length (show_nat n) + 1)" by simp
  then have "length (show_nat (n + 1)) \<le> length (show_nat n) + 1" by (rule length_show_nat) simp
  then show ?thesis
    using assms by (simp add: mdns_mangle_name_def split strtol_show_nat sprintf_into_def show_int_def is_int_def nat_add_distrib)
qed

section \<open>Properties\<close>

text \<open>C25. An address record round-trips: for a host name that fits, the number returned is the
  number of bytes appended, and the packet read back at the old cursor has the name
  \<open>hostname.local\<close>, then type A, the class with the flush bit as asked, the time to live (0
  for a goodbye), the data length 4, the address with its low byte first, and nothing else.\<close>

theorem a_record_round_trip:
  assumes "accepts_name [h, MDNS_DEFAULT_DOMAIN] s" "settled (packet s) (pos s)"
    "pos s + wire_len [h, MDNS_DEFAULT_DOMAIN] + 14 \<le> MDNS_MAX_PACKET_SIZE"
  shows "\<exists>n s' q r. mdns_append_a_record (Some h) ip flush bye s = Inr (n, s') \<and> pos s' = pos s + n
    \<and> mdns_read_fqdn (packet s') (pos s) (pos s) name0 = Inr (Some q, r)
    \<and> parts r = 2 \<and> list_all2 same_text [h, MDNS_DEFAULT_DOMAIN] (parts_of r)
    \<and> mdns_read_u16 (packet s') q = Inr 1
    \<and> mdns_read_u16 (packet s') (q + 2) = Inr (if flush then 0x8001 else 0x0001)
    \<and> mdns_read_u32 (packet s') (q + 4) = Inr (if bye then 0 else 120)
    \<and> mdns_read_u16 (packet s') (q + 8) = Inr 4
    \<and> take 4 (drop (q + 10) (packet s')) = ip_bytes ip \<and> pos s' = q + 14"
proof -
  obtain w where w: "mdns_append_fqdn [h, MDNS_DEFAULT_DOMAIN] s = Inr (length w, put w s)" "w \<noteq> []"
      "length w \<le> wire_len [h, MDNS_DEFAULT_DOMAIN]"
    and rd: "\<forall>b'. length b' = MDNS_MAX_PACKET_SIZE \<longrightarrow>
        take (pos s + length w) b' = take (pos s + length w) (packet (put w s)) \<longrightarrow>
        (\<exists>r. mdns_read_fqdn b' (pos s) (pos s) name0 = Inr (Some (pos s + length w), r)
             \<and> parts r = length [h, MDNS_DEFAULT_DOMAIN] \<and> list_all2 same_text [h, MDNS_DEFAULT_DOMAIN] (parts_of r))"
    using append_fqdn_reads [OF assms(1,2)] by blast
  let ?x = "header_bytes 1 flush (if bye then 0 else 120) 4 @ ip_bytes ip"
  let ?s = "put (w @ ?x) s"
  have h: "h \<noteq> []" "length h < 32" using assms(1) by (auto simp: accepts_name_def plain_def)
  then have small: "length w < 256" using w(3) by (simp add: wire_len_def bytes_of_def)
  have room: "room (length (w @ ?x)) s" "room (length w + 14) s"
    using assms(1,3) w(3) by (simp_all add: room_def accepts_name_def)
  have "length (packet ?s) = MDNS_MAX_PACKET_SIZE" using room(1) by (simp add: room_def)
  with rd take_put_append [of w ?x s] room(1) obtain r where
    r: "mdns_read_fqdn (packet ?s) (pos s) (pos s) name0 = Inr (Some (pos s + length w), r)"
      "parts r = 2" "list_all2 same_text [h, MDNS_DEFAULT_DOMAIN] (parts_of r)"
    by fastforce
  have "take 4 (drop (pos s + length w + 10) (packet ?s)) = ip_bytes ip"
    using room(1) by (simp add: put_def overlay_def room_def)
  then show ?thesis
    using a_record_run [OF w(1) h(1) w(2) small room(2)] r header_reads [OF room(1)]
    by (intro exI [of _ "length w + 14"] exI [of _ ?s] exI [of _ "pos s + length w"] exI [of _ r]) simp
qed

text \<open>The witness announces the car's host name at 192.168.4.1.\<close>

theorem a_record_round_trip_witness:
  "\<exists>n s' q. mdns_append_a_record (Some (bytes_of ''smartcar'')) 0x0104A8C0 True False fresh_packet = Inr (n, s')
    \<and> take 4 (drop (q + 10) (packet s')) = [192, 168, 4, 1] \<and> pos s' = q + 14"
proof -
  have "accepts_name [bytes_of ''smartcar'', MDNS_DEFAULT_DOMAIN] fresh_packet"
    by (simp add: accepts_name_def wire_len_def plain_def bytes_of_def same_text_def lower_def separate_def
        joins_host_def)
  moreover have "ip_bytes 0x0104A8C0 = [192, 168, 4, 1]" by code_simp
  ultimately show ?thesis
    using a_record_round_trip [where h = "bytes_of ''smartcar''" and s = fresh_packet and ip = "0x0104A8C0"
      and flush = True and bye = False] settled_fresh
    by (auto simp: wire_len_def bytes_of_def)
qed

text \<open>A service record for names that fit is written as the name of the instance, a header
  of type SRV whose data length counts exactly what follows it, priority, weight and port, and
  the name of the host: the service's own or else the server's. The number returned is the
  number of bytes appended.\<close>

theorem srv_record_wire:
  assumes "mdns_get_service_instance_name server srv = Some name"
    "(if srv_hostname srv \<noteq> None then srv_hostname srv else server_hostname server) = Some h" "h \<noteq> []"
    "list_all (\<lambda>t. length t \<le> 63) [name, srv_service srv, srv_proto srv, h]"
    "length (packet s) = MDNS_MAX_PACKET_SIZE" "last (packet s) < 0xC0"
    "pos s + wire_len [name, srv_service srv, srv_proto srv, MDNS_DEFAULT_DOMAIN] + 16
       + wire_len [h, MDNS_DEFAULT_DOMAIN] < MDNS_MAX_PACKET_SIZE"
  shows "\<exists>w v. mdns_append_fqdn [name, srv_service srv, srv_proto srv, MDNS_DEFAULT_DOMAIN] s = Inr (length w, put w s)
    \<and> mdns_append_fqdn [h, MDNS_DEFAULT_DOMAIN] (put (w @ header_bytes 0x21 flush (if bye then 0 else 120) 0 @ srv_data srv) s)
        = Inr (length v, put (w @ header_bytes 0x21 flush (if bye then 0 else 120) 0 @ srv_data srv @ v) s)
    \<and> mdns_append_srv_record server (Some srv) flush bye s
        = Inr (length w + 16 + length v,
               put (w @ header_bytes 0x21 flush (if bye then 0 else 120) (of_nat (length v + 6)) @ srv_data srv @ v) s)"
proof -
  let ?n = "[name, srv_service srv, srv_proto srv, MDNS_DEFAULT_DOMAIN]" and ?h = "[h, MDNS_DEFAULT_DOMAIN]"
  have d: "length (srv_data srv) = 6" by (simp add: srv_data_def)
  have short: "list_all (\<lambda>t. length t < 255) ?n" "list_all (\<lambda>t. length t < 255) ?h"
    "wire_len ?n < 256" "wire_len ?h < 250"
    using assms(4) by (simp_all add: bytes_of_def wire_len_def)
  obtain w where w: "mdns_append_fqdn ?n s = Inr (length w, put w s)" "w \<noteq> []" "length w \<le> wire_len ?n"
    using append_fqdn_safe [OF short(1) assms(5) _ assms(6)] assms(7) by auto
  let ?x = "w @ header_bytes 0x21 flush (if bye then 0 else 120) 0 @ srv_data srv"
  have fits: "pos s + length ?x + wire_len ?h < MDNS_MAX_PACKET_SIZE" using assms(7) w(3) d by simp
  then obtain v where v: "mdns_append_fqdn ?h (put ?x s) = Inr (length v, put v (put ?x s))" "v \<noteq> []"
      "length v \<le> wire_len ?h"
    using append_fqdn_safe [OF short(2), of "put ?x s"] assms(5,6) last_packet_put [of s ?x] by auto
  have "put v (put ?x s) = put (?x @ v) s" using fits v(3) assms(5) by (simp add: put_put)
  with w v srv_record_run [OF assms(1-3) w(1,2) _ refl refl v(1,2)]
  show ?thesis
    using short(3,4) fits assms(5) d
    by (intro exI [of _ w] exI [of _ v]) (simp add: room_def)
qed

text \<open>The witness is the car's service on port 9000.\<close>

theorem srv_record_wire_witness:
  "let server = \<lparr>server_instance = Some (bytes_of ''smart car service''), server_hostname = Some (bytes_of ''smartcar'')\<rparr>;
       srv = \<lparr>srv_instance = None, srv_service = bytes_of ''_car'', srv_proto = bytes_of ''_udp'', srv_hostname = None,
              priority = 0, weight = 0, port = 9000, txt_items = []\<rparr>
   in \<exists>w v. mdns_append_srv_record server (Some srv) True False fresh_packet
        = Inr (length w + 16 + length v,
               put (w @ header_bytes 0x21 True 120 (of_nat (length v + 6)) @ srv_data srv @ v) fresh_packet)"
  using srv_record_wire [where name = "bytes_of ''smart car service''" and h = "bytes_of ''smartcar''" and s = fresh_packet
      and flush = True and bye = False and server = "\<lparr>server_instance = Some (bytes_of ''smart car service''),
        server_hostname = Some (bytes_of ''smartcar'')\<rparr>"
      and srv = "\<lparr>srv_instance = None, srv_service = bytes_of ''_car'', srv_proto = bytes_of ''_udp'', srv_hostname = None,
        priority = 0, weight = 0, port = 9000, txt_items = []\<rparr>"]
  by (auto simp: mdns_get_service_instance_name_def mdns_get_default_instance_name_def str_null_or_empty_def
      wire_len_def bytes_of_def Let_def)

text \<open>C27. The name chosen after a collision is another name and fits the block allocated for it:
  with the allocation the function returns a name that differs from the old one and is at most
  two bytes longer, except that it overflows on the suffix 2147483647, which the count in the
  name would have to reach.\<close>

theorem mangle_name_fresh:
  "case mdns_mangle_name True name of
     Inl f \<Rightarrow> f = Signed_overflow \<and> (\<exists>base ds. split_last_dash name = Some (base, ds) \<and> fst (strtol ds) = INT_MAX)
   | Inr r \<Rightarrow> \<exists>new. r = Some new \<and> new \<noteq> name \<and> length new \<le> length name + 2"
proof (cases "split_last_dash name")
  case None
  then show ?thesis by (simp add: mdns_mangle_name_def sprintf_into_def)
next
  case (Some x)
  obtain base ds where x: "x = (base, ds)" by (cases x)
  have name: "name = base @ CHR ''-'' # ds" "CHR ''-'' \<notin> set ds"
    using split_last_dash_Some Some x by auto
  note v = strtol_no_dash [OF name(2)]
  let ?v = "fst (strtol ds)" and ?new = "show_nat (nat (fst (strtol ds) + 1))"
  show ?thesis
  proof (cases "snd (strtol ds) = [] \<and> ?v \<noteq> INT_MAX")
    case True
    have "?v + 1 \<le> 10 ^ length ds" "(0 :: int) < 10 ^ length ds" using v(3) by simp_all
    then have "?v + 1 < 10 ^ (length ds + 1)" unfolding power_add power_one_right by linarith
    then have "nat (?v + 1) < 10 ^ (length ds + 1)" using v(1) by (simp add: nat_less_iff)
    then have "length ?new \<le> length ds + 1" by (rule length_show_nat) simp
    moreover have "?new \<noteq> ds"
      using strtol_show_nat [of "nat (?v + 1)"] v(1,2) True by (auto dest: arg_cong [of _ _ fst])
    ultimately show ?thesis
      using True v(1,2) Some x name
      by (simp add: mdns_mangle_name_def sprintf_into_def is_int_def show_int_def)
  qed (use Some x name in \<open>auto simp: mdns_mangle_name_def sprintf_into_def is_int_def\<close>)
qed

end
