(* ===== verification/Mdns_Collision.thy ===== *)
theory Mdns_Collision
  imports Mdns_Records
begin

text \<open>
  What the mDNS responder does with the record data it receives
  (\<open>managed_components/espressif__mdns/mdns.c\<close>): taking TXT data apart into key/value items,
  and the comparison of record data that decides which of two hosts keeps a name both claim.

  The theory shows that TXT data the responder writes is read back, that a key without a value
  makes the reader overrun its arrays, and that the two sides of a collision come to opposite
  decisions.
\<close>

section \<open>Reading TXT data\<close>

text \<open>
  \<open>data\<close> is the record's data, \<open>len\<close> its length; it is part of a received packet, so the
  \<open>uint16_t\<close> index does not wrap. The number of items, -1 when one runs over the end.
\<close>

function count_txt_items :: "u8 list \<Rightarrow> nat \<Rightarrow> int \<Rightarrow> int" where
  "count_txt_items data i num_items =
     (if i < length data then
        (let partLen = unat (data ! i) in
         if partLen = 0 then num_items
         else if i + 1 + partLen > length data then -1
         else count_txt_items data (i + 1 + partLen) (num_items + 1))
      else num_items)"
  by pat_completeness auto
termination
  by (relation "measure (\<lambda>(data, i, n). length data - i)") auto

declare count_txt_items.simps [simp del]

definition mdns_txt_items_count_get :: "u8 list \<Rightarrow> int" where
  "mdns_txt_items_count_get data = (if length data = 1 then 0 else count_txt_items data 0 0)"

definition mdns_txt_item_name_get_len :: "u8 list \<Rightarrow> int" where
  "mdns_txt_item_name_get_len part =
     (if hd part = 61 then -1 else int (length (takeWhile (\<lambda>c. c \<noteq> 61) part)))"

text \<open>
  The loop of \<open>_mdns_result_txt_create\<close>: \<open>heap k\<close> says whether its \<open>k\<close>-th allocation succeeds,
  \<open>cap\<close> is the number of items there is room for; \<open>None\<close> is \<open>handle_error\<close>. After a key the
  loop always steps over one more byte, the \<open>=\<close> sign.
\<close>

function txt_loop ::
    "(nat \<Rightarrow> bool) \<Rightarrow> u8 list \<Rightarrow> nat \<Rightarrow> nat \<Rightarrow> nat \<Rightarrow> mdns_txt_item list \<Rightarrow> fault + mdns_txt_item list option" where
  "txt_loop heap data cap i k items =
     (if i < length data then
        (let partLen = unat (data ! i); j = i + 1 in
         if partLen = 0 then Inr (Some items)
         else if j + partLen > length data then Inr None
         else
           (let part = take partLen (drop j data); name_len = mdns_txt_item_name_get_len part in
            if name_len < 0 then txt_loop heap data cap (j + partLen) k items
            else if \<not> heap k then Inr None
            else if length items \<ge> cap then Inl Out_of_bounds
            else
              (let n = nat name_len; key = Some (c_string (take n part)) in
               if n + 1 < partLen
               then (if \<not> heap (k + 1) then Inr None
                     else txt_loop heap data cap (j + partLen) (k + 2)
                       (items @ [\<lparr>key = key, txt_value = Some (drop (n + 1) part), value_len = of_nat (partLen - n - 1)\<rparr>]))
               else txt_loop heap data cap (j + n + 1) (k + 1)
                      (items @ [\<lparr>key = key, txt_value = None, value_len = 0\<rparr>]))))
      else Inr (Some items))"
  by pat_completeness auto
termination
  by (relation "measure (\<lambda>(heap, data, cap, i, k, items). length data - i)") auto

declare txt_loop.simps [simp del]

definition mdns_result_txt_create :: "(nat \<Rightarrow> bool) \<Rightarrow> u8 list \<Rightarrow> fault + mdns_txt_item list option" where
  "mdns_result_txt_create heap data =
     (let num_items = mdns_txt_items_count_get data in
      if num_items \<le> 0 then Inr None
      else if \<not> heap 0 \<or> \<not> heap 1 then Inr None
      else txt_loop heap data (nat num_items) 0 2 [])"

section \<open>Comparing record data\<close>

text \<open>\<open>memcmp\<close> on two arrays of the same length: negative, zero or positive.\<close>

fun memcmp :: "u8 list \<Rightarrow> u8 list \<Rightarrow> int" where
  "memcmp (a # as) (b # bs) = (if a < b then -1 else if b < a then 1 else memcmp as bs)"
| "memcmp _ _ = 0"

text \<open>The decision: 1 when they win, -1 when we do, 0 when the data is the same.\<close>

definition who_wins :: "u8 list \<Rightarrow> u8 list \<Rightarrow> int" where
  "who_wins ours theirs = (if memcmp ours theirs > 0 then -1 else if memcmp ours theirs < 0 then 1 else 0)"

definition u16_bytes :: "u16 \<Rightarrow> u8 list" where
  "u16_bytes v = [hi_byte v, lo_byte v]"

definition mdns_check_srv_collision ::
    "'a mdns_server_scheme \<Rightarrow> mdns_service \<Rightarrow> u16 \<Rightarrow> u16 \<Rightarrow> u16 \<Rightarrow> u8 list \<Rightarrow> u8 list \<Rightarrow> int" where
  "mdns_check_srv_collision server srv prio weigh prt their_host their_domain =
     (case server_hostname server of
        None \<Rightarrow> 0
      | Some hostname \<Rightarrow>
          if hostname = [] then 0 else
          let our_len = 14 + length hostname; their_len = 9 + length their_host + length their_domain in
          if their_len > our_len then 1
          else if their_len < our_len then -1
          else who_wins
            (u16_bytes (priority srv) @ u16_bytes (weight srv) @ u16_bytes (port srv)
               @ [of_nat (length hostname)] @ hostname @ [5] @ MDNS_DEFAULT_DOMAIN @ [0])
            (u16_bytes prio @ u16_bytes weigh @ u16_bytes prt
               @ [of_nat (length their_host)] @ their_host @ [of_nat (length their_domain)] @ their_domain @ [0]))"

text \<open>
  The entries of our TXT data, as \<open>append_one_txt_record_entry\<close> writes them into \<open>ours\<close>; an entry
  that would pass the size of a packet is left out, and what is behind the last entry was never
  written (\<open>junk\<close>). A key is never \<open>NULL\<close> here: \<open>_mdns_allocate_txt\<close> copies it.
\<close>

definition entry_bytes :: "mdns_txt_item \<Rightarrow> u8 list" where
  "entry_bytes item =
     (let k = (case key item of None \<Rightarrow> [] | Some k \<Rightarrow> k);
          v = (case txt_value item of None \<Rightarrow> [] | Some v \<Rightarrow> 61 # take (unat (value_len item)) v)
      in of_nat (length k + unat (value_len item) + (if txt_value item \<noteq> None then 1 else 0)) # k @ v)"

definition entry_len :: "mdns_txt_item \<Rightarrow> nat" where
  "entry_len item =
     1 + (case key item of None \<Rightarrow> 0 | Some k \<Rightarrow> length k) + unat (value_len item)
       + (if txt_value item \<noteq> None then 1 else 0)"

fun ours_txt :: "mdns_txt_item list \<Rightarrow> u8 list \<Rightarrow> u8 list" where
  "ours_txt [] w = w"
| "ours_txt (item # items) w =
     (if length w + entry_len item \<ge> MDNS_MAX_PACKET_SIZE then ours_txt items w
      else ours_txt items (w @ entry_bytes item))"

definition mdns_check_txt_collision :: "(nat \<Rightarrow> u8) \<Rightarrow> mdns_txt_item list \<Rightarrow> u8 list \<Rightarrow> int" where
  "mdns_check_txt_collision junk items data =
     (let len = length data in
      if len = 1 \<and> items \<noteq> [] then -1
      else if len > 1 \<and> items = [] then 1
      else if len = 1 \<and> items = [] then 0
      else
        let data_len = sum_list (map entry_len items) in
        if len > data_len then 1
        else if len < data_len then -1
        else let w = ours_txt items [] in who_wins (w @ map junk [length w..<len]) data)"

section \<open>TXT data is read as it is written\<close>

definition plain_item :: "mdns_txt_item \<Rightarrow> bool" where
  "plain_item item \<longleftrightarrow>
     (\<exists>k v. key item = Some k \<and> txt_value item = Some v \<and> k \<noteq> [] \<and> v \<noteq> []
        \<and> list_all (\<lambda>c. c \<noteq> 0 \<and> c \<noteq> 61) k \<and> length k + 1 + length v \<le> 255 \<and> value_len item = of_nat (length v))"

lemma plain_item_bytes:
  assumes "key item = Some k" "txt_value item = Some v" "length k + 1 + length v \<le> 255" "value_len item = of_nat (length v)"
  shows "entry_bytes item = of_nat (length k + 1 + length v) # k @ 61 # v" "entry_len item = length k + length v + 2"
    "unat (value_len item) = length v" "unat (of_nat (length k + 1 + length v) :: u8) = length k + 1 + length v"
proof -
  show "unat (of_nat (length k + 1 + length v) :: u8) = length k + 1 + length v"
    by (rule unat_of_nat_small) (use assms(3) in simp)
qed (use assms in \<open>simp_all add: entry_bytes_def entry_len_def Let_def unat_of_nat_small\<close>)

lemma append_one_run:
  assumes "plain_item item" "length (packet s) = MDNS_MAX_PACKET_SIZE" "pos s + entry_len item < MDNS_MAX_PACKET_SIZE"
  shows "append_one_txt_record_entry item s = Inr (int (entry_len item), put (entry_bytes item) s)"
proof -
  obtain k v where kv: "key item = Some k" "txt_value item = Some v" "length k + 1 + length v \<le> 255"
      "value_len item = of_nat (length v)"
    using assms(1) by (auto simp: plain_item_def)
  note b = plain_item_bytes [OF kv]
  have fits: "pos s + length k + length v + 2 < MDNS_MAX_PACKET_SIZE" using assms(3) b(2) by simp
  have "overlay (pos s + 1 + length k + 1) v (overlay (pos s + 1 + length k) [61] (overlay (pos s + 1) k
      (overlay (pos s) [of_nat (length k + 1 + length v)] (packet s)))) = overlay (pos s) (entry_bytes item) (packet s)"
    using fits assms(2) overlay_overlay [of "pos s" "[of_nat (length k + 1 + length v)]" k "packet s"]
      overlay_overlay [of "pos s" "of_nat (length k + 1 + length v) # k" "[61]" "packet s"]
      overlay_overlay [of "pos s" "of_nat (length k + 1 + length v) # k @ [61]" v "packet s"]
    by (simp add: b(1) add.assoc)
  then show ?thesis
    using fits assms(2) kv(1,2) b(2,3)
    by (simp add: append_one_txt_record_entry_def Let_def prog_simps mdns_append_u8_run room_def set_bytes_def set_byte_def
        advance_def put_def overlay_single [symmetric] b(1) add.assoc add.commute add.left_commute)
qed

lemma length_entry_bytes: "plain_item item \<Longrightarrow> length (entry_bytes item) = entry_len item"
  using plain_item_bytes [of item] by (auto simp: plain_item_def)

lemma length_entries:
  "list_all plain_item items \<Longrightarrow> length (concat (map entry_bytes items)) = sum_list (map entry_len items)"
  by (induction items) (simp_all add: length_entry_bytes)

lemma append_entries_run:
  "list_all plain_item items \<Longrightarrow> length (packet s) = MDNS_MAX_PACKET_SIZE \<Longrightarrow>
   pos s + sum_list (map entry_len items) < MDNS_MAX_PACKET_SIZE \<Longrightarrow> d \<le> pos s \<Longrightarrow>
   append_txt_entries items d s =
     Inr (Some (d + sum_list (map entry_len items)), put (concat (map entry_bytes items)) s)"
proof (induction items arbitrary: s d)
  case (Cons item items)
  have len: "length (entry_bytes item) = entry_len item" "1 \<le> entry_len item"
    using Cons.prems(1) by (simp_all add: length_entry_bytes entry_len_def)
  with Cons.IH [of "put (entry_bytes item) s" "d + entry_len item"] Cons.prems
  show ?case
    by (simp add: prog_simps append_one_run length_entries put_put)
qed (simp add: prog_simps)

text \<open>The reader at the beginning of an entry.\<close>

lemma entry_at:
  assumes "plain_item item" "data = pre @ entry_bytes item @ rest"
  obtains k v where "key item = Some k" "txt_value item = Some v" "k \<noteq> []" "v \<noteq> []" "list_all (\<lambda>c. c \<noteq> 0 \<and> c \<noteq> 61) k"
    "value_len item = of_nat (length v)"
    "unat (data ! length pre) = length k + 1 + length v"
    "take (length k + 1 + length v) (drop (length pre + 1) data) = k @ 61 # v"
    "length pre + 1 + (length k + 1 + length v) = length (pre @ entry_bytes item)"
    "length (pre @ entry_bytes item) \<le> length data"
proof -
  obtain k v where kv: "key item = Some k" "txt_value item = Some v" "length k + 1 + length v \<le> 255"
      "value_len item = of_nat (length v)" "k \<noteq> []" "v \<noteq> []" "list_all (\<lambda>c. c \<noteq> 0 \<and> c \<noteq> 61) k"
    using assms(1) by (auto simp: plain_item_def)
  note b = plain_item_bytes [OF kv(1-4)]
  show thesis
  proof (rule that [OF kv(1,2,5,6,7,4)])
    show "unat (data ! length pre) = length k + 1 + length v"
      unfolding assms(2) b(1) by (simp only: append_Cons nth_append_length b(4))
  qed (simp_all add: assms(2) b(1))
qed

lemma count_txt_items_read:
  "list_all plain_item items \<Longrightarrow> data = pre @ concat (map entry_bytes items) \<Longrightarrow>
   count_txt_items data (length pre) n = n + int (length items)"
proof (induction items arbitrary: pre n)
  case (Cons item items)
  have p: "plain_item item" "data = pre @ entry_bytes item @ concat (map entry_bytes items)"
    using Cons.prems by simp_all
  obtain k v where e: "key item = Some k" "txt_value item = Some v" "k \<noteq> []" "v \<noteq> []" "list_all (\<lambda>c. c \<noteq> 0 \<and> c \<noteq> 61) k"
    "value_len item = of_nat (length v)"
    "unat (data ! length pre) = length k + 1 + length v"
    "take (length k + 1 + length v) (drop (length pre + 1) data) = k @ 61 # v"
    "length pre + 1 + (length k + 1 + length v) = length (pre @ entry_bytes item)"
    "length (pre @ entry_bytes item) \<le> length data"
    by (rule entry_at [OF p])
  have "count_txt_items data (length pre + 1 + (length k + 1 + length v)) (n + 1) = n + 1 + int (length items)"
    unfolding e(9) using Cons.IH [of "pre @ entry_bytes item" "n + 1"] Cons.prems by simp
  with e(7,9,10) show ?case by (subst count_txt_items.simps) (simp add: Let_def)
qed (simp add: count_txt_items.simps)

lemma txt_loop_read:
  "list_all plain_item items \<Longrightarrow> data = pre @ concat (map entry_bytes items) \<Longrightarrow>
   length acc + length items \<le> cap \<Longrightarrow>
   txt_loop (\<lambda>_. True) data cap (length pre) k acc = Inr (Some (acc @ items))"
proof (induction items arbitrary: pre k acc)
  case (Cons item items)
  have p: "plain_item item" "data = pre @ entry_bytes item @ concat (map entry_bytes items)"
    using Cons.prems by simp_all
  obtain n v where e: "key item = Some n" "txt_value item = Some v" "n \<noteq> []" "v \<noteq> []" "list_all (\<lambda>c. c \<noteq> 0 \<and> c \<noteq> 61) n"
    "value_len item = of_nat (length v)"
    "unat (data ! length pre) = length n + 1 + length v"
    "take (length n + 1 + length v) (drop (length pre + 1) data) = n @ 61 # v"
    "length pre + 1 + (length n + 1 + length v) = length (pre @ entry_bytes item)"
    "length (pre @ entry_bytes item) \<le> length data"
    by (rule entry_at [OF p])
  have "hd (n @ 61 # v) \<noteq> 61" using e(3,5) by (cases n) auto
  moreover have "takeWhile (\<lambda>c. c \<noteq> 61) (n @ 61 # v) = n" using e(5) by (induction n) auto
  ultimately have name: "mdns_txt_item_name_get_len (n @ 61 # v) = int (length n)"
    by (simp add: mdns_txt_item_name_get_len_def)
  have cs: "c_string n = n" using e(5) by (induction n) (auto simp: c_string_def)
  have item: "\<lparr>key = Some n, txt_value = Some v, value_len = of_nat (length v)\<rparr> = item"
    using e(1,2,6) by simp
  have ih: "txt_loop (\<lambda>_. True) data cap (length pre + 1 + (length n + 1 + length v)) (k + 2) (acc @ [item])
      = Inr (Some (acc @ item # items))"
    unfolding e(9) using Cons.IH [of "pre @ entry_bytes item" "acc @ [item]" "k + 2"] Cons.prems by simp
  have guards: "length pre < length data" "length pre + 1 + (length n + 1 + length v) \<le> length data"
    "length acc < cap" "n \<noteq> []" "length n + 1 < length n + 1 + length v"
    using e(3,4,9,10) Cons.prems(3) by auto
  have "drop 1 (61 # v) = v" by simp
  then show ?case
    by (subst txt_loop.simps)
      (use guards ih in \<open>simp add: Let_def e(7,8) name cs item del: add_Suc_right add_Suc One_nat_def\<close>)
qed (simp add: txt_loop.simps)

lemma memcmp_flip: "length a = length b \<Longrightarrow> memcmp a b + memcmp b a = 0"
  by (induction rule: list_induct2) (auto dest: less_not_sym)

lemma memcmp_same: "length a = length b \<Longrightarrow> memcmp a b = 0 \<longleftrightarrow> a = b"
  by (induction rule: list_induct2) (auto simp: not_less)

lemma who_wins_flip:
  assumes "length a = length b"
  shows "who_wins a b = - who_wins b a"
proof -
  obtain m n where mn: "memcmp a b = m" "memcmp b a = n" by simp
  then have "m = - n" using memcmp_flip [OF assms] by simp
  then show ?thesis unfolding who_wins_def mn by simp
qed

lemma who_wins_same:
  assumes "length a = length b"
  shows "who_wins a b = 0 \<longleftrightarrow> a = b"
  using memcmp_same [OF assms] by (auto simp: who_wins_def)

lemma u16_eqI: "hi_byte v = hi_byte w \<Longrightarrow> lo_byte v = lo_byte w \<Longrightarrow> v = w"
  by (metis u16_of_bytes)

lemma ours_txt_fits:
  "list_all plain_item items \<Longrightarrow> length w + sum_list (map entry_len items) < MDNS_MAX_PACKET_SIZE \<Longrightarrow>
   ours_txt items w = w @ concat (map entry_bytes items)"
  by (induction items arbitrary: w) (auto simp: length_entry_bytes)

text \<open>The SRV data a host compares, and the comparison with another host's of the same domain.\<close>

definition srv_rdata :: "mdns_service \<Rightarrow> u8 list \<Rightarrow> u8 list" where
  "srv_rdata srv h = u16_bytes (priority srv) @ u16_bytes (weight srv) @ u16_bytes (port srv)
     @ [of_nat (length h)] @ h @ [5] @ MDNS_DEFAULT_DOMAIN @ [0]"

lemma length_srv_rdata [simp]: "length (srv_rdata srv h) = 14 + length h"
  by (simp add: srv_rdata_def u16_bytes_def bytes_of_def)

lemma srv_rdata_eq:
  "length h = length h' \<Longrightarrow> srv_rdata srv h = srv_rdata srv' h' \<longleftrightarrow>
     h = h' \<and> priority srv = priority srv' \<and> weight srv = weight srv' \<and> port srv = port srv'"
  by (auto simp: srv_rdata_def u16_bytes_def intro: u16_eqI)

lemma check_srv_eq:
  assumes "server_hostname server = Some h" "h \<noteq> []"
  shows "mdns_check_srv_collision server srv (priority srv') (weight srv') (port srv') h' MDNS_DEFAULT_DOMAIN =
    (if length h' > length h then 1 else if length h' < length h then -1
     else who_wins (srv_rdata srv h) (srv_rdata srv' h'))"
  using assms by (simp add: mdns_check_srv_collision_def srv_rdata_def bytes_of_def)

section \<open>Properties\<close>

text \<open>C28. TXT data round-trips: items with a key and a value, written into a packet with room for
  them, are taken apart into the same items, and a host that compares its own data with it
  finds it the same.\<close>

theorem txt_round_trip:
  assumes "list_all plain_item items" "items \<noteq> []" "length (packet s) = MDNS_MAX_PACKET_SIZE"
    "pos s + sum_list (map entry_len items) < MDNS_MAX_PACKET_SIZE"
  shows "\<exists>w. append_txt_entries items 0 s = Inr (Some (length w), put w s)
    \<and> mdns_result_txt_create (\<lambda>_. True) w = Inr (Some items)
    \<and> mdns_check_txt_collision junk items w = 0"
proof -
  let ?w = "concat (map entry_bytes items)"
  have len: "length ?w = sum_list (map entry_len items)" using assms(1) by (rule length_entries)
  obtain item items' where items: "items = item # items'" using assms(2) by (cases items) auto
  have "2 \<le> entry_len item" using assms(1) items by (auto simp: plain_item_def entry_len_def)
  then have big: "1 < length ?w" unfolding len by (simp add: items)
  have "mdns_txt_items_count_get ?w = int (length items)"
    using count_txt_items_read [OF assms(1), of ?w "[]" 0] big by (simp add: mdns_txt_items_count_get_def)
  then have "mdns_result_txt_create (\<lambda>_. True) ?w = Inr (Some items)"
    using txt_loop_read [OF assms(1), of ?w "[]" "[]" "length items" 2] assms(2) by (simp add: mdns_result_txt_create_def)
  moreover have "mdns_check_txt_collision junk items ?w = 0"
    using big assms len ours_txt_fits [OF assms(1), of "[]"] who_wins_same [of ?w ?w]
    by (simp add: mdns_check_txt_collision_def Let_def)
  ultimately show ?thesis
    using append_entries_run [OF assms(1,3,4), of 0] len by (intro exI [of _ ?w]) simp
qed

theorem txt_round_trip_witness:
  "let items = [\<lparr>key = Some (bytes_of ''board''), txt_value = Some (bytes_of ''esp32''), value_len = 5\<rparr>]
   in \<exists>w. append_txt_entries items 0 fresh_packet = Inr (Some (length w), put w fresh_packet)
        \<and> mdns_result_txt_create (\<lambda>_. True) w = Inr (Some items)"
  using txt_round_trip [of "[\<lparr>key = Some (bytes_of ''board''), txt_value = Some (bytes_of ''esp32''), value_len = 5\<rparr>]" fresh_packet]
  by (auto simp: plain_item_def entry_len_def bytes_of_def Let_def)

text \<open>C29. Two hosts that claim the same service with different data come to opposite decisions:
  what one decides about the other's SRV data is the negative of what the other decides about
  its own, and neither wins only when host name, priority, weight and port are the same.\<close>

theorem srv_collision_decided:
  assumes "server_hostname server1 = Some h1" "server_hostname server2 = Some h2" "h1 \<noteq> []" "h2 \<noteq> []"
  defines "verdict \<equiv> \<lambda>server srv srv' h'.
    mdns_check_srv_collision server srv (priority srv') (weight srv') (port srv') h' MDNS_DEFAULT_DOMAIN"
  shows "verdict server1 srv1 srv2 h2 = - verdict server2 srv2 srv1 h1
    \<and> (verdict server1 srv1 srv2 h2 = 0 \<longleftrightarrow>
         h1 = h2 \<and> priority srv1 = priority srv2 \<and> weight srv1 = weight srv2 \<and> port srv1 = port srv2)"
proof -
  have one: "verdict server1 srv1 srv2 h2 = (if length h2 > length h1 then 1 else if length h2 < length h1 then -1
      else who_wins (srv_rdata srv1 h1) (srv_rdata srv2 h2))"
    using check_srv_eq [OF assms(1,3)] by (simp add: verdict_def)
  have two: "verdict server2 srv2 srv1 h1 = (if length h1 > length h2 then 1 else if length h1 < length h2 then -1
      else who_wins (srv_rdata srv2 h2) (srv_rdata srv1 h1))"
    using check_srv_eq [OF assms(2,4)] by (simp add: verdict_def)
  show ?thesis
    using who_wins_flip [of "srv_rdata srv1 h1" "srv_rdata srv2 h2"] who_wins_same [of "srv_rdata srv1 h1" "srv_rdata srv2 h2"]
      srv_rdata_eq [of h1 h2 srv1 srv2]
    by (cases "length h1" "length h2" rule: linorder_cases) (auto simp: one two)
qed

text \<open>The witness: two cars with the same service and different host names.\<close>

theorem srv_collision_decided_witness:
  "let server = (\<lambda>h. \<lparr>server_instance = None, server_hostname = Some (bytes_of h)\<rparr>);
       srv = \<lparr>srv_instance = None, srv_service = bytes_of ''_car'', srv_proto = bytes_of ''_udp'', srv_hostname = None,
              priority = 0, weight = 0, port = 9000, txt_items = []\<rparr>
   in mdns_check_srv_collision (server ''car1'') srv 0 0 9000 (bytes_of ''car2'') MDNS_DEFAULT_DOMAIN
        = - mdns_check_srv_collision (server ''car2'') srv 0 0 9000 (bytes_of ''car1'') MDNS_DEFAULT_DOMAIN"
  using srv_collision_decided [of "\<lparr>server_instance = None, server_hostname = Some (bytes_of ''car1'')\<rparr>" "bytes_of ''car1''"
      "\<lparr>server_instance = None, server_hostname = Some (bytes_of ''car2'')\<rparr>" "bytes_of ''car2''"
      "\<lparr>srv_instance = None, srv_service = bytes_of ''_car'', srv_proto = bytes_of ''_udp'', srv_hostname = None,
        priority = 0, weight = 0, port = 9000, txt_items = []\<rparr>"
      "\<lparr>srv_instance = None, srv_service = bytes_of ''_car'', srv_proto = bytes_of ''_udp'', srv_hostname = None,
        priority = 0, weight = 0, port = 9000, txt_items = []\<rparr>"]
  by (simp add: Let_def bytes_of_def)

text \<open>A key without a value makes the TXT reader overrun its arrays: the reader steps over one
  byte more than the key, the length of the next item, and then takes that item apart wrongly.
  From these two legal items, the second with a key of six bytes, it makes three, for two of which
  there is room.\<close>

theorem txt_key_without_value_overruns:
  "mdns_txt_items_count_get [1, 97, 6, 1, 98, 7, 1, 99, 7] = 2
   \<and> mdns_result_txt_create (\<lambda>_. True) [1, 97, 6, 1, 98, 7, 1, 99, 7] = Inl Out_of_bounds"
  by code_simp

end
