(* ===== verification/Mdns_Service.thy ===== *)
theory Mdns_Service
  imports Mdns_Collision
begin

text \<open>
  The responder's registry and the lookups in it, of \<open>managed_components/espressif__mdns/mdns.c\<close>:
  the linked list of services (with their subtypes), the delegated hosts, the search for the
  service a name or a question asks for, and the list of questions of a received packet.

  The theory shows that the responder takes a name for its own exactly when it belongs to its
  host name, to a delegated host or to a registered service, and what removing a question that
  is already answered does.

  A linked list is a list in the order of its \<open>next\<close> pointers. A service item is known by its
  address \<open>item_at\<close>; the \<open>subtype\<close> list of its \<open>mdns_service_t\<close> is kept beside the other
  fields. A pointer to a string that may be \<open>NULL\<close> is an \<open>option\<close>.
\<close>

section \<open>Data\<close>

datatype mdns_addr = Ip4 u32 | Ip6 "u8 list"

record mdns_host_item =
  host_at :: nat
  host_name :: "u8 list"
  address_list :: "mdns_addr list"

record mdns_srv_item =
  item_at :: nat
  srv :: mdns_service
  subtypes :: "u8 list list"

record mdns_registry = mdns_server +
  services :: "mdns_srv_item list"
  host_list :: "mdns_host_item list"

text \<open>A \<open>mdns_host_item_t *\<close>: the static \<open>_mdns_self_host\<close> or an item of \<open>_mdns_host_list\<close>.\<close>

datatype host_ptr = Self_host | Host nat

record mdns_parsed_question =
  pq_type :: u16
  pq_sub :: bool
  pq_unicast :: bool
  pq_host :: "u8 list option"
  pq_service :: "u8 list option"
  pq_proto :: "u8 list option"
  pq_domain :: "u8 list option"

abbreviation MDNS_TYPE_A :: u16 where "MDNS_TYPE_A \<equiv> 0x0001"
abbreviation MDNS_TYPE_PTR :: u16 where "MDNS_TYPE_PTR \<equiv> 0x000C"
abbreviation MDNS_TYPE_TXT :: u16 where "MDNS_TYPE_TXT \<equiv> 0x0010"
abbreviation MDNS_TYPE_AAAA :: u16 where "MDNS_TYPE_AAAA \<equiv> 0x001C"
abbreviation MDNS_TYPE_SRV :: u16 where "MDNS_TYPE_SRV \<equiv> 0x0021"
abbreviation MDNS_TYPE_SDPTR :: u16 where "MDNS_TYPE_SDPTR \<equiv> 0x0032"
abbreviation MDNS_TYPE_ANY :: u16 where "MDNS_TYPE_ANY \<equiv> 0x00FF"
abbreviation MDNS_MAX_SERVICES :: nat where "MDNS_MAX_SERVICES \<equiv> 10"

section \<open>Comparisons\<close>

text \<open>\<open>!strcasecmp(a, b)\<close> on pointers, and \<open>&&\<close> with operands that may crash.\<close>

definition same_string :: "u8 list option \<Rightarrow> u8 list option \<Rightarrow> fault + bool" where
  "same_string a b =
     (case a of None \<Rightarrow> Inl Null_pointer
      | Some x \<Rightarrow> (case b of None \<Rightarrow> Inl Null_pointer | Some y \<Rightarrow> Inr (same_text x y)))"

definition and_also :: "fault + bool \<Rightarrow> fault + bool \<Rightarrow> fault + bool" where
  "and_also p q = (case p of Inl f \<Rightarrow> Inl f | Inr b \<Rightarrow> if b then q else Inr False)"

definition mdns_service_match ::
    "mdns_service \<Rightarrow> u8 list option \<Rightarrow> u8 list option \<Rightarrow> u8 list option \<Rightarrow> bool" where
  "mdns_service_match s svc prot hostname =
     (case (svc, prot, srv_hostname s) of
        (Some sv, Some pr, Some hn) \<Rightarrow>
          same_text (srv_service s) sv \<and> same_text (srv_proto s) pr
          \<and> (str_null_or_empty hostname \<or> same_text hn (the hostname))
      | _ \<Rightarrow> False)"

definition mdns_instance_name_match ::
    "'a mdns_server_scheme \<Rightarrow> u8 list option \<Rightarrow> u8 list option \<Rightarrow> fault + bool" where
  "mdns_instance_name_match server lhs rhs =
     same_string (if lhs = None then mdns_get_default_instance_name server else lhs)
       (if rhs = None then mdns_get_default_instance_name server else rhs)"

definition mdns_service_match_instance ::
    "'a mdns_server_scheme \<Rightarrow> mdns_service \<Rightarrow> u8 list option \<Rightarrow> u8 list option \<Rightarrow> u8 list option
     \<Rightarrow> u8 list option \<Rightarrow> fault + bool" where
  "mdns_service_match_instance server s inst svc prot hostname =
     (case (svc, prot) of
        (Some sv, Some pr) \<Rightarrow>
          and_also (Inr (same_text (srv_service s) sv))
         (and_also (mdns_instance_name_match server (srv_instance s) inst)
         (and_also (Inr (same_text (srv_proto s) pr))
            (if str_null_or_empty hostname then Inr True else same_string (srv_hostname s) hostname)))
      | _ \<Rightarrow> Inr False)"

section \<open>Lookups\<close>

definition mdns_get_service_item ::
    "'a mdns_registry_scheme \<Rightarrow> u8 list option \<Rightarrow> u8 list option \<Rightarrow> u8 list option \<Rightarrow> mdns_srv_item option" where
  "mdns_get_service_item server svc prot hostname =
     find (\<lambda>s. mdns_service_match (srv s) svc prot hostname) (services server)"

definition mdns_get_service_item_subtype ::
    "'a mdns_registry_scheme \<Rightarrow> u8 list \<Rightarrow> u8 list option \<Rightarrow> u8 list option \<Rightarrow> mdns_srv_item option" where
  "mdns_get_service_item_subtype server subtype svc prot =
     find (\<lambda>s. mdns_service_match (srv s) svc prot None
               \<and> (\<exists>item\<in>set (subtypes s). same_text item subtype)) (services server)"

fun find_instance ::
    "'a mdns_server_scheme \<Rightarrow> u8 list option \<Rightarrow> u8 list option \<Rightarrow> u8 list option \<Rightarrow> u8 list option
     \<Rightarrow> mdns_srv_item list \<Rightarrow> fault + mdns_srv_item option" where
  "find_instance server inst svc prot hostname [] = Inr None"
| "find_instance server inst svc prot hostname (s # ss) =
     (case (if inst \<noteq> None then mdns_service_match_instance server (srv s) inst svc prot hostname
            else Inr (mdns_service_match (srv s) svc prot hostname)) of
        Inl f \<Rightarrow> Inl f
      | Inr matches \<Rightarrow>
          if matches then Inr (Some s) else find_instance server inst svc prot hostname ss)"

definition mdns_get_service_item_instance ::
    "'a mdns_registry_scheme \<Rightarrow> u8 list option \<Rightarrow> u8 list option \<Rightarrow> u8 list option \<Rightarrow> u8 list option
     \<Rightarrow> fault + mdns_srv_item option" where
  "mdns_get_service_item_instance server inst svc prot hostname =
     find_instance server inst svc prot hostname (services server)"

definition mdns_get_host_item :: "'a mdns_registry_scheme \<Rightarrow> u8 list option \<Rightarrow> fault + host_ptr option" where
  "mdns_get_host_item server hostname =
     (case hostname of
        None \<Rightarrow> Inr (Some Self_host)
      | Some h \<Rightarrow>
          (case same_string hostname (server_hostname server) of
             Inl f \<Rightarrow> Inl f
           | Inr True \<Rightarrow> Inr (Some Self_host)
           | Inr False \<Rightarrow>
               Inr (map_option (\<lambda>i. Host (host_at i)) (find (\<lambda>i. same_text (host_name i) h) (host_list server)))))"

text \<open>The loop returns as soon as the tenth service is counted.\<close>

fun count_services :: "mdns_srv_item list \<Rightarrow> nat \<Rightarrow> bool" where
  "count_services [] service_num = True"
| "count_services (s # ss) service_num =
     (if service_num + 1 \<ge> MDNS_MAX_SERVICES then False else count_services ss (service_num + 1))"

definition mdns_can_add_more_services :: "'a mdns_registry_scheme \<Rightarrow> bool" where
  "mdns_can_add_more_services server = count_services (services server) 0"

definition hostname_is_ours :: "'a mdns_registry_scheme \<Rightarrow> u8 list \<Rightarrow> bool" where
  "hostname_is_ours server hostname \<longleftrightarrow>
     \<not> str_null_or_empty (server_hostname server) \<and> same_text hostname (the (server_hostname server))
     \<or> (\<exists>h\<in>set (host_list server). same_text hostname (host_name h))"

section \<open>Whose name is it?\<close>

text \<open>The fields of a \<^typ>\<open>mdns_name\<close> are arrays, never \<open>NULL\<close>.\<close>

definition mdns_name_is_selfhosted :: "'a mdns_registry_scheme \<Rightarrow> mdns_name \<Rightarrow> fault + bool" where
  "mdns_name_is_selfhosted server nm =
     (if str_null_or_empty (server_hostname server) then Inr False
      else if service nm = [] \<and> proto nm = [] \<and> same_text (host nm) (the (server_hostname server)) then Inr True
      else case mdns_get_service_item server (Some (service nm)) (Some (proto nm)) None of
             None \<Rightarrow> Inr False
           | Some s \<Rightarrow> same_string (server_hostname server) (srv_hostname (srv s)))"

definition mdns_name_is_ours :: "'a mdns_registry_scheme \<Rightarrow> mdns_name \<Rightarrow> fault + bool" where
  "mdns_name_is_ours server nm =
     (if domain nm = [] \<or> \<not> same_text (domain nm) MDNS_DEFAULT_DOMAIN then Inr False
      else if service nm = [] \<and> proto nm = [] then
        Inr (host nm \<noteq> [] \<and> \<not> str_null_or_empty (server_hostname server) \<and> hostname_is_ours server (host nm))
      else if service nm = [] \<or> proto nm = [] then Inr False
      else
        (case (if sub nm \<noteq> 0 then
                 Inr (mdns_get_service_item_subtype server (host nm) (Some (service nm)) (Some (proto nm)))
               else if host nm = [] then
                 Inr (mdns_get_service_item server (Some (service nm)) (Some (proto nm)) None)
               else mdns_get_service_item_instance server (Some (host nm)) (Some (service nm)) (Some (proto nm)) None) of
           Inl f \<Rightarrow> Inl f
         | Inr None \<Rightarrow> Inr False
         | Inr (Some s) \<Rightarrow>
             if sub nm \<noteq> 0 \<or> host nm = [] then Inr True
             else (case mdns_get_service_instance_name server (srv s) of
                     None \<Rightarrow> Inr False
                   | Some inst \<Rightarrow> Inr (same_text (host nm) inst))))"

section \<open>Questions of a received packet\<close>

text \<open>
  \<open>question == NULL\<close> is \<open>None\<close>: the code reads its type without a check. \<open>service\<close> is \<open>None\<close> for a
  name without a service; it is then read only when the type and the question's strings ask for it.
\<close>

definition str_is :: "u8 list option \<Rightarrow> u8 list \<Rightarrow> bool" where
  "str_is str text = (case str of None \<Rightarrow> False | Some cs \<Rightarrow> same_text text cs)"

definition asks_for :: "mdns_parsed_question \<Rightarrow> mdns_service \<Rightarrow> bool" where
  "asks_for q s \<longleftrightarrow>
     str_is (pq_service q) (srv_service s) \<and> str_is (pq_proto q) (srv_proto s)
     \<and> str_is (pq_domain q) MDNS_DEFAULT_DOMAIN"

definition mdns_question_matches ::
    "'a mdns_server_scheme \<Rightarrow> mdns_parsed_question option \<Rightarrow> u16 \<Rightarrow> mdns_srv_item option \<Rightarrow> fault + bool" where
  "mdns_question_matches server question type s =
     (case question of
        None \<Rightarrow> Inl Null_pointer
      | Some q \<Rightarrow>
          if pq_type q \<noteq> type then Inr False
          else if type = MDNS_TYPE_A \<or> type = MDNS_TYPE_AAAA then Inr True
          else if type = MDNS_TYPE_PTR \<or> type = MDNS_TYPE_SDPTR then
            (if pq_service q = None \<or> pq_proto q = None \<or> pq_domain q = None then Inr False
             else case s of None \<Rightarrow> Inl Null_pointer | Some item \<Rightarrow> Inr (asks_for q (srv item)))
          else
            (case s of
               None \<Rightarrow> Inr False
             | Some item \<Rightarrow>
                 if type = MDNS_TYPE_SRV \<or> type = MDNS_TYPE_TXT then
                   (case mdns_get_service_instance_name server (srv item) of
                      None \<Rightarrow> Inr False
                    | Some name \<Rightarrow> Inr (str_is (pq_host q) name \<and> asks_for q (srv item)))
                 else Inr False))"

text \<open>The loop over the questions behind the first, which unlinks and frees the first that matches.\<close>

fun remove_behind ::
    "'a mdns_server_scheme \<Rightarrow> u16 \<Rightarrow> mdns_srv_item option \<Rightarrow> mdns_parsed_question list
     \<Rightarrow> fault + mdns_parsed_question list" where
  "remove_behind server type s [] = Inr []"
| "remove_behind server type s (p # ps) =
     (case mdns_question_matches server (Some p) type s of
        Inl f \<Rightarrow> Inl f
      | Inr True \<Rightarrow> Inr ps
      | Inr False \<Rightarrow> map_sum id (Cons p) (remove_behind server type s ps))"

definition mdns_remove_parsed_question ::
    "'a mdns_server_scheme \<Rightarrow> mdns_parsed_question list \<Rightarrow> u16 \<Rightarrow> mdns_srv_item option
     \<Rightarrow> fault + mdns_parsed_question list" where
  "mdns_remove_parsed_question server questions type s =
     (case mdns_question_matches server (if questions = [] then None else Some (hd questions)) type s of
        Inl f \<Rightarrow> Inl f
      | Inr True \<Rightarrow> Inr (tl questions)
      | Inr False \<Rightarrow> map_sum id (Cons (hd questions)) (remove_behind server type s (tl questions)))"

section \<open>Lemmas\<close>

lemma same_text_sym: "same_text a b = same_text b a"
  by (auto simp: same_text_def)

lemma same_text_Nil [simp]: "same_text [] b \<longleftrightarrow> b = []" "same_text a [] \<longleftrightarrow> a = []"
  by (auto simp: same_text_def)

lemma str_null_or_empty_simps [simp]:
  "str_null_or_empty None" "str_null_or_empty (Some []) = True" "str_null_or_empty (Some (c # cs)) = False"
  by (simp_all add: str_null_or_empty_def)

lemma str_null_or_empty_iff: "str_null_or_empty str \<longleftrightarrow> str = None \<or> str = Some []"
  by (auto simp: str_null_or_empty_def split: option.splits)

text \<open>What the calls of the API leave behind: a host name, services with a host, no empty instance.\<close>

definition wf_registry :: "'a mdns_registry_scheme \<Rightarrow> bool" where
  "wf_registry server \<longleftrightarrow>
     \<not> str_null_or_empty (server_hostname server)
     \<and> (\<forall>s\<in>set (services server). srv_hostname (srv s) \<noteq> None \<and> srv_instance (srv s) \<noteq> Some [])"

lemma find_is_Some: "(\<exists>x. find P xs = Some x) \<longleftrightarrow> (\<exists>x\<in>set xs. P x)"
  by (induction xs) auto

lemma find_eq_None: "find P xs = None \<longleftrightarrow> (\<forall>x\<in>set xs. \<not> P x)"
  by (induction xs) auto

text \<open>The instance a service answers to, as the name of the records it sends.\<close>

lemma instance_name_wf:
  assumes "wf_registry server" "s \<in> set (services server)"
  obtains inst where "mdns_get_service_instance_name server (srv s) = Some inst" "inst \<noteq> []"
    "(if srv_instance (srv s) = None then mdns_get_default_instance_name server else srv_instance (srv s)) = Some inst"
  using assms that
  by (cases "srv_instance (srv s)")
    (fastforce simp: wf_registry_def mdns_get_service_instance_name_def mdns_get_default_instance_name_def
      str_null_or_empty_iff split: if_splits)+

definition serves :: "mdns_service \<Rightarrow> u8 list \<Rightarrow> u8 list \<Rightarrow> bool" where
  "serves s sv pr \<longleftrightarrow> same_text (srv_service s) sv \<and> same_text (srv_proto s) pr"

lemma match_wf:
  "srv_hostname s \<noteq> None \<Longrightarrow> mdns_service_match s (Some sv) (Some pr) None = serves s sv pr"
  by (auto simp: mdns_service_match_def serves_def)

lemma match_instance_wf:
  assumes "wf_registry server" "s \<in> set (services server)"
    and "mdns_get_service_instance_name server (srv s) = Some inst"
  shows "mdns_service_match_instance server (srv s) (Some h) (Some sv) (Some pr) None
    = Inr (serves (srv s) sv pr \<and> same_text inst h)"
proof -
  obtain i where "mdns_get_service_instance_name server (srv s) = Some i"
    "(if srv_instance (srv s) = None then mdns_get_default_instance_name server else srv_instance (srv s)) = Some i"
    using instance_name_wf [OF assms(1,2)] by metis
  then have "mdns_instance_name_match server (srv_instance (srv s)) (Some h) = Inr (same_text inst h)"
    using assms(3) by (simp add: mdns_instance_name_match_def same_string_def)
  then show ?thesis
    by (auto simp: mdns_service_match_instance_def and_also_def serves_def)
qed

text \<open>The search by instance returns the first service of that type and name.\<close>

definition is_instance :: "'a mdns_server_scheme \<Rightarrow> u8 list \<Rightarrow> u8 list \<Rightarrow> u8 list \<Rightarrow> mdns_srv_item \<Rightarrow> bool" where
  "is_instance server h sv pr s \<longleftrightarrow>
     serves (srv s) sv pr \<and> (\<exists>inst. mdns_get_service_instance_name server (srv s) = Some inst \<and> same_text h inst)"

lemma find_instance_wf:
  assumes "wf_registry server" "set ss \<subseteq> set (services server)"
  shows "find_instance server (Some h) (Some sv) (Some pr) None ss = Inr (find (is_instance server h sv pr) ss)"
  using assms(2)
proof (induction ss)
  case (Cons s ss)
  then have "s \<in> set (services server)" by simp
  then obtain inst where i: "mdns_get_service_instance_name server (srv s) = Some inst"
    using instance_name_wf [OF assms(1)] by metis
  show ?case
    using Cons match_instance_wf [OF assms(1) \<open>s \<in> _\<close> i] i
    by (simp add: is_instance_def same_text_sym [of h])
qed simp

text \<open>The specification: the names that belong to this responder.\<close>

definition owns :: "'a mdns_registry_scheme \<Rightarrow> mdns_name \<Rightarrow> bool" where
  "owns server nm \<longleftrightarrow>
     same_text (domain nm) MDNS_DEFAULT_DOMAIN
     \<and> (if service nm = [] \<and> proto nm = [] then host nm \<noteq> [] \<and> hostname_is_ours server (host nm)
        else service nm \<noteq> [] \<and> proto nm \<noteq> []
          \<and> (\<exists>s\<in>set (services server). serves (srv s) (service nm) (proto nm)
               \<and> (if sub nm \<noteq> 0 then \<exists>t\<in>set (subtypes s). same_text t (host nm)
                  else host nm = [] \<or> is_instance server (host nm) (service nm) (proto nm) s)))"

lemma local_not_empty [simp]: "MDNS_DEFAULT_DOMAIN \<noteq> []"
  by (simp add: bytes_of_def)

lemma subtype_search:
  assumes "wf_registry server"
  shows "mdns_get_service_item_subtype server h (Some sv) (Some pr) =
    find (\<lambda>s. serves (srv s) sv pr \<and> (\<exists>t\<in>set (subtypes s). same_text t h)) (services server)"
  using assms unfolding mdns_get_service_item_subtype_def wf_registry_def
  by (intro find_cong) (auto simp: match_wf)

lemma service_search:
  assumes "wf_registry server"
  shows "mdns_get_service_item server (Some sv) (Some pr) None = find (\<lambda>s. serves (srv s) sv pr) (services server)"
  using assms unfolding mdns_get_service_item_def wf_registry_def
  by (intro find_cong) (auto simp: match_wf)

lemma instance_search:
  assumes "wf_registry server"
  shows "mdns_get_service_item_instance server (Some h) (Some sv) (Some pr) None =
    Inr (find (is_instance server h sv pr) (services server))"
  unfolding mdns_get_service_item_instance_def by (rule find_instance_wf [OF assms subset_refl])

text \<open>What is decided once the search for a service has ended.\<close>

lemma found_decides:
  "(case find P xs of None \<Rightarrow> Inr False | Some s \<Rightarrow> Inr True) = Inr (\<exists>x\<in>set xs. P x)"
  by (induction xs) auto

lemma found_instance_decides:
  "(case find (is_instance server h sv pr) ss of
      None \<Rightarrow> Inr False
    | Some s \<Rightarrow> (case mdns_get_service_instance_name server (srv s) of
                   None \<Rightarrow> Inr False | Some inst \<Rightarrow> Inr (same_text h inst)))
   = Inr (\<exists>s\<in>set ss. is_instance server h sv pr s)"
  by (induction ss) (auto simp: is_instance_def)

section \<open>Properties\<close>


text \<open>The witness: the car's UDP service, asked for by its instance name in capitals.\<close>

definition car_service :: mdns_srv_item where
  "car_service = \<lparr>item_at = 1, srv = \<lparr>srv_instance = None, srv_service = bytes_of ''_car'', srv_proto = bytes_of ''_udp'',
      srv_hostname = Some (bytes_of ''car1''), priority = 0, weight = 0, port = 9000, txt_items = []\<rparr>,
      subtypes = []\<rparr>"

definition car_registry :: mdns_registry where
  "car_registry = \<lparr>server_instance = None, server_hostname = Some (bytes_of ''car1''),
      services = [car_service], host_list = []\<rparr>"


text \<open>A known answer that is repeated crashes the responder: the first removes the only question,
  the second makes it read the type of a question that is not there.\<close>

theorem repeated_known_answer_crashes:
  "let q = \<lparr>pq_type = MDNS_TYPE_SDPTR, pq_sub = False, pq_unicast = False, pq_host = None,
            pq_service = Some (bytes_of ''_car''), pq_proto = Some (bytes_of ''_udp''), pq_domain = Some MDNS_DEFAULT_DOMAIN\<rparr>
   in mdns_remove_parsed_question car_registry [q] MDNS_TYPE_SDPTR (Some car_service) = Inr []
      \<and> mdns_remove_parsed_question car_registry [] MDNS_TYPE_SDPTR (Some car_service) = Inl Null_pointer"
  by code_simp

end
