(* ===== verification/Mdns_Queue.thy ===== *)
theory Mdns_Queue
  imports Mdns_Service "HOL-Library.Sublist" "HOL-Library.Multiset"
begin

text \<open>
  Outgoing packets of \<open>managed_components/espressif__mdns/mdns.c\<close>: the lists of answers a packet
  carries, and the transmit queue \<open>_mdns_server->tx_queue_head\<close>, which the timer task and the
  mDNS task share through the action queue.

  The theory shows that the queue is the stable sort of the scheduled packets by their time, that
  clearing it for an interface removes just that interface's packets, and that a packet the timer
  task hands over is transmitted: by an invariant of the interleavings of the two tasks, as long
  as the 32-bit millisecond clock has not wrapped, and with a run in which a packet is lost when
  it does.
\<close>

section \<open>Data\<close>

datatype ip_protocol = V4 | V6

text \<open>
  A pointer to a string: into a service, known by the address of its item, to the names of the
  server, to the constant domain, or to a copy the question owns (\<open>own_dynamic_memory\<close>).
\<close>

datatype text_ptr =
    Instance_of nat | Type_of nat | Proto_of nat | Hostname_of nat
  | Server_hostname | Server_instance | Local_domain | Own_text "u8 list"

record tx_question =
  tq_type :: u16
  tq_unicast :: bool
  tq_host :: "text_ptr option"
  tq_service :: "text_ptr option"
  tq_proto :: "text_ptr option"
  tq_domain :: "text_ptr option"

text \<open>\<open>a_custom\<close> holds \<open>custom_instance\<close>, \<open>custom_service\<close>, \<open>custom_proto\<close>; \<open>None\<close> is a \<open>NULL\<close> service.\<close>

record out_answer =
  a_type :: u16
  a_service :: "nat option"
  a_host :: "host_ptr option"
  a_flush :: bool
  a_bye :: bool
  a_custom :: "(u8 list \<times> u8 list \<times> u8 list) option"

record tx_packet =
  tx_at :: nat
  tx_send_at :: u32
  tx_if :: nat
  tx_proto :: ip_protocol
  tx_dst :: mdns_addr
  tx_port :: u16
  tx_flags :: u16
  tx_distributed :: bool
  tx_questions :: "tx_question list"
  tx_answers :: "out_answer list"
  tx_servers :: "out_answer list"
  tx_additional :: "out_answer list"
  tx_queued :: bool
  tx_id :: u16

section \<open>Answer lists\<close>

text \<open>Pointers are compared, not the records they lead to.\<close>

definition same_answer :: "out_answer \<Rightarrow> out_answer \<Rightarrow> bool" where
  "same_answer a d \<longleftrightarrow> a_type d = a_type a \<and> a_service d = a_service a \<and> a_host d = a_host a"

definition answer_for :: "u16 \<Rightarrow> nat option \<Rightarrow> out_answer \<Rightarrow> bool" where
  "answer_for type s d \<longleftrightarrow> a_type d = type \<and> a_service d = s"

text \<open>\<open>service\<close> may be \<open>NULL\<close>, which stands for answers without a service.\<close>

fun mdns_dealloc_answer :: "u16 \<Rightarrow> nat option \<Rightarrow> out_answer list \<Rightarrow> out_answer list" where
  "mdns_dealloc_answer type s [] = []"
| "mdns_dealloc_answer type s (d # ds) =
     (if answer_for type s d then ds else d # mdns_dealloc_answer type s ds)"

definition mdns_remove_scheduled_answer ::
    "nat \<Rightarrow> ip_protocol \<Rightarrow> u16 \<Rightarrow> nat option \<Rightarrow> tx_packet list \<Rightarrow> tx_packet list" where
  "mdns_remove_scheduled_answer ifc prot type s queue =
     map (\<lambda>q. if tx_if q = ifc \<and> tx_proto q = prot \<and> tx_distributed q
              then q\<lparr>tx_answers := mdns_dealloc_answer type s (tx_answers q)\<rparr> else q) queue"

text \<open>The two loops of \<open>_mdns_dealloc_scheduled_service_answers\<close>: the head, then what is behind it.\<close>

fun unlink_service_answers :: "nat \<Rightarrow> out_answer list \<Rightarrow> out_answer list" where
  "unlink_service_answers s [] = []"
| "unlink_service_answers s (a # as) =
     (if a_service a = Some s then unlink_service_answers s as else a # unlink_service_answers s as)"

definition mdns_dealloc_scheduled_service_answers :: "nat \<Rightarrow> out_answer list \<Rightarrow> out_answer list" where
  "mdns_dealloc_scheduled_service_answers s answers =
     (case dropWhile (\<lambda>d. a_service d = Some s) answers of
        [] \<Rightarrow> []
      | d # ds \<Rightarrow> d # unlink_service_answers s ds)"

section \<open>The transmit queue\<close>

text \<open>The loop that looks for the place behind the head, and the insertion.\<close>

fun insert_behind :: "tx_packet \<Rightarrow> tx_packet list \<Rightarrow> tx_packet list" where
  "insert_behind p [] = [p]"
| "insert_behind p (q # qs) =
     (if tx_send_at q \<le> tx_send_at p then q # insert_behind p qs else p # q # qs)"

definition insert_tx :: "tx_packet \<Rightarrow> tx_packet list \<Rightarrow> tx_packet list" where
  "insert_tx p queue =
     (case queue of
        [] \<Rightarrow> [p]
      | q # qs \<Rightarrow> if tx_send_at q > tx_send_at p then p # q # qs else q # insert_behind p qs)"

text \<open>\<open>now\<close> is \<open>xTaskGetTickCount() * portTICK_PERIOD_MS\<close>.\<close>

definition mdns_schedule_tx_packet :: "u32 \<Rightarrow> tx_packet \<Rightarrow> u32 \<Rightarrow> tx_packet list \<Rightarrow> tx_packet list" where
  "mdns_schedule_tx_packet now p ms_after queue = insert_tx (p\<lparr>tx_send_at := now + ms_after\<rparr>) queue"

definition of_pcb :: "nat \<Rightarrow> ip_protocol \<Rightarrow> tx_packet \<Rightarrow> bool" where
  "of_pcb ifc prot q \<longleftrightarrow> tx_if q = ifc \<and> tx_proto q = prot"

fun unlink_pcb :: "nat \<Rightarrow> ip_protocol \<Rightarrow> tx_packet list \<Rightarrow> tx_packet list" where
  "unlink_pcb ifc prot [] = []"
| "unlink_pcb ifc prot (p # ps) =
     (if of_pcb ifc prot p then unlink_pcb ifc prot ps else p # unlink_pcb ifc prot ps)"

definition mdns_clear_pcb_tx_queue_head :: "nat \<Rightarrow> ip_protocol \<Rightarrow> tx_packet list \<Rightarrow> tx_packet list" where
  "mdns_clear_pcb_tx_queue_head ifc prot queue =
     (case dropWhile (of_pcb ifc prot) queue of
        [] \<Rightarrow> []
      | q # qs \<Rightarrow> q # unlink_pcb ifc prot qs)"

definition mdns_get_next_pcb_packet :: "nat \<Rightarrow> ip_protocol \<Rightarrow> tx_packet list \<Rightarrow> tx_packet option" where
  "mdns_get_next_pcb_packet ifc prot queue = find (of_pcb ifc prot) queue"

text \<open>
  The timer task: the first packet that is not queued yet is handed to the mDNS task when its
  time is past, in the difference of two \<open>uint32_t\<close> read as signed. \<open>sent\<close> says whether the
  action could be allocated and the action queue had room.
\<close>

fun mark_queued :: "tx_packet list \<Rightarrow> tx_packet list" where
  "mark_queued [] = []"
| "mark_queued (q # qs) = (if tx_queued q then q # mark_queued qs else q\<lparr>tx_queued := True\<rparr> # qs)"

definition mdns_scheduler_run ::
    "u32 \<Rightarrow> bool \<Rightarrow> tx_packet list \<Rightarrow> nat list \<Rightarrow> tx_packet list \<times> nat list" where
  "mdns_scheduler_run now sent queue actions =
     (case find (\<lambda>p. \<not> tx_queued p) queue of
        None \<Rightarrow> (queue, actions)
      | Some p \<Rightarrow>
          if sint (tx_send_at p - now) < 0 \<and> sent then (mark_queued queue, actions @ [tx_at p])
          else (queue, actions))"

text \<open>The mDNS task on \<open>ACTION_TX_HANDLE\<close>: the packet it goes on with, taken off the queue.\<close>

definition take_tx :: "nat \<Rightarrow> tx_packet list \<Rightarrow> tx_packet option \<times> tx_packet list" where
  "take_tx a queue =
     (case queue of
        [] \<Rightarrow> (None, queue)
      | p # ps \<Rightarrow> if tx_at p = a \<and> tx_queued p then (Some (p\<lparr>tx_queued := False\<rparr>), ps) else (None, queue))"

section \<open>The queue is a stable sort\<close>

lemma dealloc_scheduled_filter:
  "mdns_dealloc_scheduled_service_answers s answers = filter (\<lambda>a. a_service a \<noteq> Some s) answers"
proof -
  have unlink: "unlink_service_answers s as = filter (\<lambda>a. a_service a \<noteq> Some s) as" for as
    by (induction as) auto
  show ?thesis
    by (induction answers) (auto simp: mdns_dealloc_scheduled_service_answers_def unlink)
qed

lemma unlink_pcb_filter: "unlink_pcb ifc prot ps = filter (\<lambda>p. \<not> of_pcb ifc prot p) ps"
  by (induction ps) auto

lemma clear_pcb_filter: "mdns_clear_pcb_tx_queue_head ifc prot queue = filter (\<lambda>p. \<not> of_pcb ifc prot p) queue"
  by (induction queue) (auto simp: mdns_clear_pcb_tx_queue_head_def unlink_pcb_filter)

lemma insert_tx_behind: "insert_tx p queue = insert_behind p queue"
  by (cases queue) (auto simp: insert_tx_def not_le)

lemma insert_behind_mset [simp]: "set (insert_behind p qs) = insert p (set qs)"
  by (induction qs) auto

lemma insert_behind_sorted:
  "sorted (map tx_send_at qs) \<Longrightarrow> sorted (map tx_send_at (insert_behind p qs))"
  by (induction qs) (auto simp: not_le)

lemma insert_behind_split:
  "sorted (map tx_send_at qs) \<Longrightarrow> insert_behind p qs =
     filter (\<lambda>q. tx_send_at q \<le> tx_send_at p) qs @ p # filter (\<lambda>q. tx_send_at p < tx_send_at q) qs"
proof (induction qs)
  case (Cons q qs)
  show ?case
  proof (cases "tx_send_at q \<le> tx_send_at p")
    case False
    then have "\<forall>x\<in>set qs. tx_send_at p < tx_send_at x" using Cons.prems by auto
    then have "filter (\<lambda>q. tx_send_at q \<le> tx_send_at p) qs = []" "filter (\<lambda>q. tx_send_at p < tx_send_at q) qs = qs"
      by (auto simp: filter_empty_conv leD intro!: filter_True)
    then show ?thesis using False by simp
  qed (use Cons in auto)
qed simp

lemma insert_behind_equal:
  "sorted (map tx_send_at qs) \<Longrightarrow> filter (\<lambda>q. tx_send_at q = k) (insert_behind p qs) =
     filter (\<lambda>q. tx_send_at q = k) (qs @ [p])"
proof (induction qs)
  case (Cons q qs)
  show ?case
  proof (cases "tx_send_at q \<le> tx_send_at p")
    case False
    then have "\<forall>x\<in>set (q # qs). tx_send_at p < tx_send_at x" using Cons.prems by auto
    then have "tx_send_at p = k \<Longrightarrow> filter (\<lambda>q. tx_send_at q = k) (q # qs) = []"
      by (auto simp: filter_empty_conv)
    then show ?thesis using False by (cases "tx_send_at p = k") auto
  qed (use Cons in auto)
qed simp

text \<open>Scheduling packets one after the other.\<close>

definition schedule_all :: "tx_packet list \<Rightarrow> tx_packet list \<Rightarrow> tx_packet list" where
  "schedule_all ps queue = foldl (\<lambda>q p. insert_tx p q) queue ps"

lemma schedule_all_sorted: "sorted (map tx_send_at queue) \<Longrightarrow> sorted (map tx_send_at (schedule_all ps queue))"
  by (induction ps arbitrary: queue)
    (auto simp: schedule_all_def insert_tx_behind insert_behind_sorted)

lemma schedule_all_equal:
  "sorted (map tx_send_at queue) \<Longrightarrow>
   filter (\<lambda>q. tx_send_at q = k) (schedule_all ps queue) = filter (\<lambda>q. tx_send_at q = k) (queue @ ps)"
proof (induction ps arbitrary: queue)
  case (Cons p ps)
  have "filter (\<lambda>q. tx_send_at q = k) (schedule_all ps (insert_behind p queue))
      = filter (\<lambda>q. tx_send_at q = k) (insert_behind p queue @ ps)"
    by (rule Cons.IH) (rule insert_behind_sorted [OF Cons.prems])
  then show ?case
    using insert_behind_equal [OF Cons.prems] by (simp add: schedule_all_def insert_tx_behind)
qed (simp add: schedule_all_def)

section \<open>Two tasks\<close>

text \<open>
  What the timer task and the mDNS task do to the queue and to the pending \<open>ACTION_TX_HANDLE\<close>
  actions. The clock is the true uptime in milliseconds. An action other than
  \<open>ACTION_TX_HANDLE\<close> may schedule packets, at an address that no packet of the queue has, and
  may free packets of the queue (\<open>_mdns_clear_pcb_tx_queue_head\<close>, \<open>_mdns_clear_tx_queue_head\<close>,
  \<open>_mdns_remove_scheduled_service_packets\<close>); addresses of freed packets are used again. Packets
  are scheduled at most \<open>MAX_DELAY\<close> ahead: the code never asks for more than 1127 ms.
\<close>

record tx_state =
  uptime :: nat
  queue :: "tx_packet list"
  actions :: "nat list"

abbreviation MAX_DELAY :: nat where "MAX_DELAY \<equiv> 1127"

inductive tx_step :: "tx_state \<Rightarrow> tx_state \<Rightarrow> bool" where
  tick: "tx_step s (s\<lparr>uptime := uptime s + n\<rparr>)"
| timer: "(q', as') = mdns_scheduler_run (of_nat (uptime s)) sent (queue s) (actions s) \<Longrightarrow>
    tx_step s (s\<lparr>queue := q', actions := as'\<rparr>)"
| handle: "actions s = a # as \<Longrightarrow> tx_step s (s\<lparr>queue := snd (take_tx a (queue s)), actions := as\<rparr>)"
| schedule: "\<not> tx_queued p \<Longrightarrow> tx_at p \<notin> tx_at ` set (queue s) \<Longrightarrow> ms \<le> MAX_DELAY \<Longrightarrow>
    tx_step s (s\<lparr>queue := mdns_schedule_tx_packet (of_nat (uptime s)) p (of_nat ms) (queue s)\<rparr>)"
| free: "tx_step s (s\<lparr>queue := filter P (queue s)\<rparr>)"

inductive tx_reachable :: "tx_state \<Rightarrow> bool" where
  start: "tx_reachable \<lparr>uptime = n, queue = [], actions = []\<rparr>"
| step: "tx_reachable s \<Longrightarrow> tx_step s t \<Longrightarrow> tx_reachable t"

inductive_cases tx_stepE: "tx_step s t"

text \<open>
  The invariant: the queue is sorted, what has been handed over is a prefix of it, its time is
  past, and its actions are pending in the same order.
\<close>

definition handed_over :: "tx_state \<Rightarrow> tx_packet list" where
  "handed_over s = takeWhile tx_queued (queue s)"

definition tx_inv :: "tx_state \<Rightarrow> bool" where
  "tx_inv s \<longleftrightarrow>
     sorted (map tx_send_at (queue s)) \<and> distinct (map tx_at (queue s))
     \<and> (\<forall>p\<in>set (dropWhile tx_queued (queue s)). \<not> tx_queued p)
     \<and> (\<forall>p\<in>set (queue s). unat (tx_send_at p) \<le> uptime s + MAX_DELAY)
     \<and> (\<forall>p\<in>set (handed_over s). unat (tx_send_at p) < uptime s)
     \<and> subseq (map tx_at (handed_over s)) (actions s)"

abbreviation young :: "tx_state \<Rightarrow> bool" where
  "young s \<equiv> uptime s + MAX_DELAY < 2 ^ 32"

lemma tx_step_uptime: "tx_step s t \<Longrightarrow> uptime s \<le> uptime t"
  by (auto elim!: tx_stepE)

lemma mark_queued_split:
  "find (\<lambda>p. \<not> tx_queued p) q = Some p \<Longrightarrow>
   takeWhile tx_queued q @ p # tl (dropWhile tx_queued q) = q
   \<and> mark_queued q = takeWhile tx_queued q @ p\<lparr>tx_queued := True\<rparr> # tl (dropWhile tx_queued q)"
  by (induction q) (auto split: if_splits)

lemma insert_behind_prefix:
  "\<forall>y\<in>set ys. tx_send_at y \<le> tx_send_at p \<Longrightarrow> insert_behind p (ys @ zs) = ys @ insert_behind p zs"
  by (induction ys) auto

lemma takeWhile_prefix: "\<forall>y\<in>set ys. P y \<Longrightarrow> \<forall>z\<in>set zs. \<not> P z \<Longrightarrow>
   takeWhile P (ys @ zs) = ys \<and> dropWhile P (ys @ zs) = zs"
  by (induction ys) (cases zs; auto)+

text \<open>A signed difference below zero means that the time is past, before the clock wraps.\<close>

lemma past_if_negative:
  assumes "unat (send_at :: u32) \<le> n + MAX_DELAY" "n + MAX_DELAY < 2 ^ 32" "sint (send_at - of_nat n) < 0"
  shows "unat send_at < n"
proof (rule ccontr)
  assume "\<not> unat send_at < n"
  then have le: "n \<le> unat send_at" by simp
  have n: "unat (of_nat n :: u32) = n" using assms(2) by (simp add: unat_of_nat_small)
  then have d: "unat (send_at - of_nat n) = unat send_at - n"
    using le by (simp add: unat_sub word_le_nat_alt)
  then have "unat (send_at - of_nat n) < 2 ^ 31" using assms(1) by simp
  then have "\<not> bit (send_at - of_nat n) 31"
    by (metis bit_iff_odd_drop_bit drop_bit_eq_div div_less unat_drop_bit_eq even_zero unat_eq_zero)
  then have "0 \<le> sint (send_at - of_nat n)" using bit_last_iff [of "send_at - of_nat n"] by simp
  then show False using assms(3) by simp
qed

lemma handed_over_split:
  assumes "tx_inv s"
  obtains ys zs where "queue s = ys @ zs" "handed_over s = ys" "dropWhile tx_queued (queue s) = zs"
    "\<forall>p\<in>set ys. tx_queued p" "\<forall>p\<in>set zs. \<not> tx_queued p"
proof (rule that [of "handed_over s" "dropWhile tx_queued (queue s)"])
  show "queue s = handed_over s @ dropWhile tx_queued (queue s)"
    by (simp add: handed_over_def)
  show "\<forall>p\<in>set (handed_over s). tx_queued p"
    unfolding handed_over_def by (blast dest: set_takeWhileD)
  show "\<forall>p\<in>set (dropWhile tx_queued (queue s)). \<not> tx_queued p"
    using assms by (simp add: tx_inv_def)
qed simp_all

lemma tx_invI:
  assumes "queue s = ys @ zs" "\<forall>p\<in>set ys. tx_queued p" "\<forall>p\<in>set zs. \<not> tx_queued p"
    and "sorted (map tx_send_at (queue s))" "distinct (map tx_at (queue s))"
    and "\<forall>p\<in>set (queue s). unat (tx_send_at p) \<le> uptime s + MAX_DELAY"
    and "\<forall>p\<in>set ys. unat (tx_send_at p) < uptime s" "subseq (map tx_at ys) (actions s)"
  shows "tx_inv s"
  using assms takeWhile_prefix [of ys tx_queued zs] by (simp add: tx_inv_def handed_over_def)

lemma timer_inv:
  assumes inv: "tx_inv s" and young: "young s"
    and run: "(q', as') = mdns_scheduler_run (of_nat (uptime s)) sent (queue s) (actions s)"
  shows "tx_inv (s\<lparr>queue := q', actions := as'\<rparr>)"
proof (cases "q' = queue s \<and> as' = actions s")
  case True
  then show ?thesis using inv by (simp add: tx_inv_def handed_over_def)
next
  case False
  obtain ys zs where s: "queue s = ys @ zs" "handed_over s = ys" "dropWhile tx_queued (queue s) = zs"
    "\<forall>p\<in>set ys. tx_queued p" "\<forall>p\<in>set zs. \<not> tx_queued p"
    using handed_over_split [OF inv] .
  obtain p where p: "find (\<lambda>p. \<not> tx_queued p) (queue s) = Some p" "sint (tx_send_at p - of_nat (uptime s)) < 0"
    "q' = mark_queued (queue s)" "as' = actions s @ [tx_at p]"
    using run False by (auto simp: mdns_scheduler_run_def split: option.splits if_splits)
  have "ys @ p # tl zs = ys @ zs" and q': "q' = ys @ p\<lparr>tx_queued := True\<rparr> # tl zs"
    using mark_queued_split [OF p(1)] s(1-3) p(3) by (simp_all add: handed_over_def)
  then obtain zs' where zs: "zs = p # zs'" by (metis same_append_eq)
  then have "p \<in> set (queue s)" using s(1) by simp
  then have due: "unat (tx_send_at p) < uptime s"
    using past_if_negative [OF _ young p(2)] inv by (auto simp: tx_inv_def)
  have sub: "subseq (map tx_at (ys @ [p\<lparr>tx_queued := True\<rparr>])) (actions s @ [tx_at p])"
    using inv s(2) by (simp add: tx_inv_def list_emb_append_mono)
  have keeps: "map tx_send_at q' = map tx_send_at (queue s)" "map tx_at q' = map tx_at (queue s)"
    unfolding q' s(1) zs by simp_all
  show ?thesis
  proof (rule tx_invI)
    show "queue (s\<lparr>queue := q', actions := as'\<rparr>) = (ys @ [p\<lparr>tx_queued := True\<rparr>]) @ zs'"
      using q' zs by simp
    show "sorted (map tx_send_at (queue (s\<lparr>queue := q', actions := as'\<rparr>)))"
      "distinct (map tx_at (queue (s\<lparr>queue := q', actions := as'\<rparr>)))"
      using inv keeps by (simp_all add: tx_inv_def)
    show "subseq (map tx_at (ys @ [p\<lparr>tx_queued := True\<rparr>])) (actions (s\<lparr>queue := q', actions := as'\<rparr>))"
      using sub p(4) by simp
    show "\<forall>p\<in>set (queue (s\<lparr>queue := q', actions := as'\<rparr>)).
        unat (tx_send_at p) \<le> uptime (s\<lparr>queue := q', actions := as'\<rparr>) + MAX_DELAY"
      using inv q' zs s(1) by (auto simp: tx_inv_def)
    show "\<forall>p\<in>set (ys @ [p\<lparr>tx_queued := True\<rparr>]). unat (tx_send_at p) < uptime (s\<lparr>queue := q', actions := as'\<rparr>)"
      using inv due s(2) by (auto simp: tx_inv_def)
  qed (use s(4,5) zs in auto)
qed

lemma handle_inv:
  assumes inv: "tx_inv s" and "actions s = a # as"
  shows "tx_inv (s\<lparr>queue := snd (take_tx a (queue s)), actions := as\<rparr>)"
proof -
  obtain ys zs where s: "queue s = ys @ zs" "handed_over s = ys" "dropWhile tx_queued (queue s) = zs"
    "\<forall>p\<in>set ys. tx_queued p" "\<forall>p\<in>set zs. \<not> tx_queued p"
    using handed_over_split [OF inv] .
  have sub: "subseq (map tx_at ys) (a # as)" using inv s(2) assms(2) by (simp add: tx_inv_def)
  have not_at: "tx_at z \<noteq> a \<or> \<not> tx_queued z" if "z \<in> set zs" for z using s(5) that by blast
  show ?thesis
  proof (cases ys)
    case Nil
    have "take_tx a (queue s) = (None, queue s)"
      using Nil s(1) not_at by (auto simp: take_tx_def split: list.splits)
    then show ?thesis
      using inv s Nil by (intro tx_invI [of _ "[]" zs]) (auto simp: tx_inv_def)
  next
    case (Cons y ys')
    show ?thesis
    proof (cases "tx_at y = a")
      case True
      then have "take_tx a (queue s) = (Some (y\<lparr>tx_queued := False\<rparr>), ys' @ zs)"
        using Cons s(1,4) by (simp add: take_tx_def)
      moreover have "subseq (map tx_at ys') as" using sub Cons True by simp
      ultimately show ?thesis
        using inv s Cons by (intro tx_invI [of _ ys' zs]) (auto simp: tx_inv_def)
    next
      case False
      then have "take_tx a (queue s) = (None, queue s)" using Cons s(1) by (simp add: take_tx_def)
      moreover have "subseq (map tx_at ys) as" using sub Cons False by simp
      ultimately show ?thesis
        using inv s by (intro tx_invI [of _ ys zs]) (auto simp: tx_inv_def)
    qed
  qed
qed

lemma schedule_inv:
  assumes inv: "tx_inv s" and young: "young s" and p: "\<not> tx_queued p" "tx_at p \<notin> tx_at ` set (queue s)" "ms \<le> MAX_DELAY"
  shows "tx_inv (s\<lparr>queue := mdns_schedule_tx_packet (of_nat (uptime s)) p (of_nat ms) (queue s)\<rparr>)"
proof -
  obtain ys zs where s: "queue s = ys @ zs" "handed_over s = ys" "dropWhile tx_queued (queue s) = zs"
    "\<forall>p\<in>set ys. tx_queued p" "\<forall>p\<in>set zs. \<not> tx_queued p"
    using handed_over_split [OF inv] .
  define p' where "p' = p\<lparr>tx_send_at := of_nat (uptime s) + of_nat ms\<rparr>"
  have at: "unat (tx_send_at p') = uptime s + ms"
    using young p(3) unat_of_nat_small [of "uptime s + ms", where 'a = 32] by (simp add: p'_def)
  have "\<forall>y\<in>set ys. unat (tx_send_at y) < uptime s" using inv s(2) by (simp add: tx_inv_def)
  then have "\<forall>y\<in>set ys. tx_send_at y \<le> tx_send_at p'" using at by (auto simp: word_le_nat_alt)
  then have q': "mdns_schedule_tx_packet (of_nat (uptime s)) p (of_nat ms) (queue s) = ys @ insert_behind p' zs"
    unfolding mdns_schedule_tx_packet_def insert_tx_behind s(1) p'_def [symmetric] by (rule insert_behind_prefix)
  have sorted: "sorted (map tx_send_at (ys @ insert_behind p' zs))"
    using inv insert_behind_sorted [of "queue s" p'] insert_behind_prefix [OF \<open>\<forall>y\<in>set ys. tx_send_at y \<le> _\<close>, of zs]
    by (simp add: tx_inv_def s(1))
  have distinct: "distinct (map tx_at (ys @ insert_behind p' zs))"
  proof -
    have *: "distinct (map tx_at (insert_behind p' us))" if "distinct (map tx_at us)" "tx_at p' \<notin> tx_at ` set us" for us
      using that by (induction us) auto
    have "distinct (map tx_at zs)" "tx_at p' \<notin> tx_at ` set zs" "tx_at p' \<notin> tx_at ` set ys"
      "tx_at ` set ys \<inter> tx_at ` set zs = {}" "distinct (map tx_at ys)"
      using inv p(2) by (auto simp: tx_inv_def s(1) p'_def)
    then show ?thesis using * [of zs] by auto
  qed
  show ?thesis
  proof (rule tx_invI)
    show "queue (s\<lparr>queue := mdns_schedule_tx_packet (of_nat (uptime s)) p (of_nat ms) (queue s)\<rparr>) = ys @ insert_behind p' zs"
      by (simp add: q')
    show "\<forall>q\<in>set (insert_behind p' zs). \<not> tx_queued q" using s(5) p(1) by (simp add: p'_def)
    show "\<forall>q\<in>set (queue (s\<lparr>queue := mdns_schedule_tx_packet (of_nat (uptime s)) p (of_nat ms) (queue s)\<rparr>)).
        unat (tx_send_at q) \<le> uptime (s\<lparr>queue := mdns_schedule_tx_packet (of_nat (uptime s)) p (of_nat ms) (queue s)\<rparr>) + MAX_DELAY"
      unfolding q' [symmetric] using inv at p(3) unfolding tx_inv_def by (simp add: q') (auto simp: s(1))
  qed (use s(4) inv s(2) sorted distinct in \<open>simp_all add: q' tx_inv_def\<close>)
qed

lemma free_inv:
  assumes inv: "tx_inv s"
  shows "tx_inv (s\<lparr>queue := filter P (queue s)\<rparr>)"
proof -
  obtain ys zs where s: "queue s = ys @ zs" "handed_over s = ys" "dropWhile tx_queued (queue s) = zs"
    "\<forall>p\<in>set ys. tx_queued p" "\<forall>p\<in>set zs. \<not> tx_queued p"
    using handed_over_split [OF inv] .
  have "subseq (map tx_at (filter P ys)) (actions s)"
    using inv s(2) subseq_map [OF subseq_filter_left, of tx_at P ys] by (auto simp: tx_inv_def intro: subseq_order.trans)
  moreover have "sorted (map tx_send_at (filter P (ys @ zs)))"
    using inv unfolding tx_inv_def s(1) by (blast intro: sorted_filter)
  ultimately show ?thesis
    using inv s by (intro tx_invI [of _ "filter P ys" "filter P zs"]) (auto simp: tx_inv_def distinct_map_filter)
qed

lemma tick_inv: "tx_inv s \<Longrightarrow> tx_inv (s\<lparr>uptime := uptime s + n\<rparr>)"
  by (fastforce simp: tx_inv_def handed_over_def)

lemma tx_reachable_inv: "tx_reachable s \<Longrightarrow> young s \<Longrightarrow> tx_inv s"
proof (induction rule: tx_reachable.induct)
  case (start n)
  then show ?case by (simp add: tx_inv_def handed_over_def)
next
  case (step s t)
  then have "young s" using tx_step_uptime by fastforce
  with step have "tx_inv s" by simp
  with step(2) \<open>young s\<close> show ?case
    by (auto elim!: tx_stepE intro: timer_inv handle_inv schedule_inv free_inv tick_inv)
qed

text \<open>The mDNS task works through a list of pending actions.\<close>

fun drain :: "nat list \<Rightarrow> tx_packet list \<Rightarrow> tx_packet list \<times> tx_packet list" where
  "drain [] q = ([], q)"
| "drain (a # as) q =
     (let (taken, q') = take_tx a q; (ps, q'') = drain as q' in ((case taken of None \<Rightarrow> ps | Some p \<Rightarrow> p # ps), q''))"

lemma drain_handed_over:
  assumes "subseq (map tx_at ys) acts" "\<forall>p\<in>set ys. tx_queued p" "\<forall>p\<in>set zs. \<not> tx_queued p"
  shows "drain acts (ys @ zs) = (map (\<lambda>p. p\<lparr>tx_queued := False\<rparr>) ys, zs)"
  using assms
proof (induction acts arbitrary: ys rule: list.induct)
  case (Cons a acts)
  have none: "take_tx a zs = (None, zs)"
    using Cons.prems(3) by (auto simp: take_tx_def split: list.splits)
  show ?case
  proof (cases ys)
    case Nil
    then show ?thesis using Cons.IH [of "[]"] Cons.prems none by simp
  next
    case (Cons y ys')
    then show ?thesis
      using Cons.IH [of ys'] Cons.IH [of ys] Cons.prems
      by (cases "tx_at y = a") (auto simp: take_tx_def split: prod.splits)
  qed
qed (auto dest: list_emb_Nil2)

section \<open>Runs of the two tasks\<close>

text \<open>An empty packet at an address, for concrete runs.\<close>

definition packet_at :: "nat \<Rightarrow> tx_packet" where
  "packet_at a = \<lparr>tx_at = a, tx_send_at = 0, tx_if = 0, tx_proto = V4, tx_dst = Ip4 0, tx_port = 5353, tx_flags = 0,
     tx_distributed = False, tx_questions = [], tx_answers = [], tx_servers = [], tx_additional = [],
     tx_queued = False, tx_id = 0\<rparr>"

lemmas run_simps = packet_at_def mdns_schedule_tx_packet_def insert_tx_def mdns_scheduler_run_def take_tx_def

lemma run_to_handed_over:
  "tx_reachable \<lparr>uptime = 200, queue = [packet_at 1\<lparr>tx_send_at := 120, tx_queued := True\<rparr>], actions = [1]\<rparr>"
proof -
  let ?p = "packet_at 1\<lparr>tx_send_at := 120\<rparr>"
  have "tx_reachable \<lparr>uptime = 0, queue = [?p], actions = []\<rparr>"
    using tx_reachable.step [OF tx_reachable.start [of 0] tx_step.schedule [of "packet_at 1" _ 120]]
    by (simp add: run_simps)
  from tx_reachable.step [OF this tx_step.tick [of _ 200]]
  have "tx_reachable \<lparr>uptime = 200, queue = [?p], actions = []\<rparr>" by simp
  from tx_reachable.step [OF this tx_step.timer [of _ _ _ True, OF prod.collapse]]
  show ?thesis by (simp add: run_simps)
qed

section \<open>Properties\<close>

text \<open>C30. Scheduling packets one after the other makes the queue their stable sort by time: it is
  what the library's \<open>sort_key\<close> computes, so packets due at the same time leave in the order
  they were scheduled.\<close>

theorem scheduling_is_stable_sort:
  "schedule_all ps [] = sort_key tx_send_at ps"
proof (rule properties_for_sort_key [symmetric])
  show "mset (schedule_all ps []) = mset ps"
  proof -
    have ins: "mset (insert_behind p q) = add_mset p (mset q)" for p q by (induction q) auto
    have "mset (schedule_all ps q) = mset q + mset ps" for q
      by (induction ps arbitrary: q) (simp_all add: schedule_all_def insert_tx_behind ins)
    then show ?thesis by simp
  qed
  show "\<And>k. k \<in> set (schedule_all ps []) \<Longrightarrow>
      filter (\<lambda>x. tx_send_at k = tx_send_at x) (schedule_all ps []) = filter (\<lambda>x. tx_send_at k = tx_send_at x) ps"
    using schedule_all_equal [of "[]" _ ps] by (simp add: eq_commute)
  show "sorted (map tx_send_at (schedule_all ps []))" by (rule schedule_all_sorted) simp
qed

text \<open>C12. No packet is lost between the two tasks: in every interleaving, before the millisecond
  clock wraps, working through the pending actions transmits the packets that were handed over,
  each once and in the order of their times, and leaves the others in the queue.\<close>

theorem handed_over_packets_sent_once:
  assumes "tx_reachable s" "uptime s + MAX_DELAY < 2 ^ 32"
  shows "drain (actions s) (queue s) =
      (map (\<lambda>p. p\<lparr>tx_queued := False\<rparr>) (filter tx_queued (queue s)), filter (\<lambda>p. \<not> tx_queued p) (queue s))
    \<and> sorted (map tx_send_at (filter tx_queued (queue s)))"
proof -
  have inv: "tx_inv s" by (rule tx_reachable_inv [OF assms])
  obtain ys zs where s: "queue s = ys @ zs" "handed_over s = ys"
    "\<forall>p\<in>set ys. tx_queued p" "\<forall>p\<in>set zs. \<not> tx_queued p"
    using handed_over_split [OF inv] by metis
  then have f: "filter tx_queued (queue s) = ys" "filter (\<lambda>p. \<not> tx_queued p) (queue s) = zs"
    by (simp_all add: filter_True filter_False)
  have "subseq (map tx_at ys) (actions s)" "sorted (map tx_send_at ys)"
    using inv s by (auto simp: tx_inv_def sorted_append)
  then show ?thesis
    unfolding f using drain_handed_over [OF _ s(3,4)] s(1) by simp
qed

text \<open>The witness: a probe that is due has been handed over, and is the one packet transmitted.\<close>

theorem handed_over_packets_sent_once_witness:
  "drain [1] [packet_at 1\<lparr>tx_send_at := 120, tx_queued := True\<rparr>] = ([packet_at 1\<lparr>tx_send_at := 120\<rparr>], [])"
  using handed_over_packets_sent_once [OF run_to_handed_over] by (simp add: packet_at_def)

text \<open>When the clock wraps, a packet can be lost for good: scheduled with a wrapped time, a
  second packet enters the queue before the one that was handed over; the pending action finds
  the wrong head and is dropped, the first packet stays marked as handed over, and nothing but
  freeing it takes it off the queue again.\<close>

theorem packet_lost_when_clock_wraps:
  "\<exists>s p. tx_reachable s \<and> actions s = [] \<and> p \<in> set (queue s) \<and> tx_queued p
     \<and> (\<forall>now sent. snd (mdns_scheduler_run now sent [p] []) = [])"
proof -
  let ?p = "packet_at 1\<lparr>tx_send_at := 4294967286\<rparr>" and ?q = "packet_at 2\<lparr>tx_send_at := 19\<rparr>"
  have wraps: "(4294967315 :: u32) = 19" by simp
  have "tx_reachable \<lparr>uptime = 4294967246, queue = [?p], actions = []\<rparr>"
    using tx_reachable.step [OF tx_reachable.start [of 4294967246] tx_step.schedule [of "packet_at 1" _ 40]]
    by (simp add: run_simps)
  from tx_reachable.step [OF this tx_step.tick [of _ 44]]
  have "tx_reachable \<lparr>uptime = 4294967290, queue = [?p], actions = []\<rparr>" by simp
  from tx_reachable.step [OF this tx_step.timer [of _ _ _ True, OF prod.collapse]]
  have "tx_reachable \<lparr>uptime = 4294967290, queue = [?p\<lparr>tx_queued := True\<rparr>], actions = [1]\<rparr>"
    by (simp add: run_simps)
  from tx_reachable.step [OF this tx_step.schedule [of "packet_at 2" _ 25]]
  have "tx_reachable \<lparr>uptime = 4294967290, queue = [?q, ?p\<lparr>tx_queued := True\<rparr>], actions = [1]\<rparr>"
    by (simp add: run_simps wraps)
  from tx_reachable.step [OF this tx_step.handle [of _ 1 "[]"]]
  have "tx_reachable \<lparr>uptime = 4294967290, queue = [?q, ?p\<lparr>tx_queued := True\<rparr>], actions = []\<rparr>"
    by (simp add: run_simps)
  then show ?thesis
    by (intro exI [of _ "\<lparr>uptime = 4294967290, queue = [?q, ?p\<lparr>tx_queued := True\<rparr>], actions = []\<rparr>"]
        exI [of _ "?p\<lparr>tx_queued := True\<rparr>"]) (simp add: mdns_scheduler_run_def packet_at_def)
qed

end
