(* ===== verification/Mdns_Pcb.thy ===== *)
theory Mdns_Pcb
  imports Mdns_Queue
begin

text \<open>
  The life of a name on an interface, of \<open>managed_components/espressif__mdns/mdns.c\<close>: for every
  interface and IP version a protocol control block (\<open>mdns_pcb_t\<close>) goes through probing and
  announcing, driven by the packets the mDNS task transmits and by the changes of the registry.

  The theory shows that a probe that meets no collision is sent three times and announced three
  times, that every transmission brings the block closer to \<open>PCB_RUNNING\<close>, what the operations
  keep of the well-formedness of the responder, and where they break it.

  Loops over the interfaces run over \<open>0 .. MDNS_MAX_INTERFACES - 1\<close> and both IP versions. An array of service
  items is the list of their addresses, a \<open>NULL\<close> array the empty list: where a length is 0 and
  the array is not \<open>NULL\<close>, it is not read. What is dispatched is logged as the packet that was
  given to \<open>_mdns_dispatch_tx_packet\<close>.
\<close>

section \<open>State\<close>

datatype pcb_state =
    PCB_OFF | PCB_DUP | PCB_INIT | PCB_PROBE_1 | PCB_PROBE_2 | PCB_PROBE_3
  | PCB_ANNOUNCE_1 | PCB_ANNOUNCE_2 | PCB_ANNOUNCE_3 | PCB_RUNNING

text \<open>The enumeration's order, which the state predicates of the source compare by.\<close>

primrec pcb_rank :: "pcb_state \<Rightarrow> nat" where
  "pcb_rank PCB_OFF = 0"
| "pcb_rank PCB_DUP = 1"
| "pcb_rank PCB_INIT = 2"
| "pcb_rank PCB_PROBE_1 = 3"
| "pcb_rank PCB_PROBE_2 = 4"
| "pcb_rank PCB_PROBE_3 = 5"
| "pcb_rank PCB_ANNOUNCE_1 = 6"
| "pcb_rank PCB_ANNOUNCE_2 = 7"
| "pcb_rank PCB_ANNOUNCE_3 = 8"
| "pcb_rank PCB_RUNNING = 9"

lemma pcb_rank_inj: "pcb_rank a = pcb_rank b \<Longrightarrow> a = b"
  by (cases a; cases b) simp_all

instantiation pcb_state :: linorder
begin

definition less_eq_pcb_state :: "pcb_state \<Rightarrow> pcb_state \<Rightarrow> bool" where
  "less_eq_pcb_state a b \<longleftrightarrow> pcb_rank a \<le> pcb_rank b"

definition less_pcb_state :: "pcb_state \<Rightarrow> pcb_state \<Rightarrow> bool" where
  "less_pcb_state a b \<longleftrightarrow> pcb_rank a < pcb_rank b"

instance
  by standard (auto simp: less_eq_pcb_state_def less_pcb_state_def intro: pcb_rank_inj)

end

definition PCB_STATE_IS_PROBING :: "pcb_state \<Rightarrow> bool" where
  "PCB_STATE_IS_PROBING st \<longleftrightarrow> st > PCB_OFF \<and> st < PCB_ANNOUNCE_1"

definition PCB_STATE_IS_ANNOUNCING :: "pcb_state \<Rightarrow> bool" where
  "PCB_STATE_IS_ANNOUNCING st \<longleftrightarrow> st > PCB_PROBE_3 \<and> st < PCB_RUNNING"

text \<open>\<open>(mdns_pcb_state_t)((uint8_t)(state) + 1)\<close> in the states it is used in.\<close>

definition pcb_next :: "pcb_state \<Rightarrow> pcb_state" where
  "pcb_next st =
     (if st = PCB_PROBE_1 then PCB_PROBE_2 else if st = PCB_PROBE_2 then PCB_PROBE_3
      else if st = PCB_PROBE_3 then PCB_ANNOUNCE_1 else if st = PCB_ANNOUNCE_1 then PCB_ANNOUNCE_2
      else PCB_ANNOUNCE_3)"

text \<open>\<open>probe_services_len\<close> is the length of \<open>probe_services\<close>; an empty array is \<open>NULL\<close>.\<close>

record mdns_pcb =
  pcb_state :: pcb_state
  probe_services :: "nat list"
  probe_ip :: bool
  probe_running :: bool
  failed_probes :: u16

text \<open>
  \<open>heap\<close> holds the outcomes of the allocations to come, all of which succeed when it is used up;
  \<open>entropy\<close> what \<open>esp_random\<close> returns; \<open>next_at\<close> is the address of the next packet;
  \<open>netif_ready\<close> is \<open>mdns_is_netif_ready\<close> of the network glue.
\<close>

record mdns_responder = mdns_registry +
  tx_queue :: "tx_packet list"
  pcbs :: "nat \<Rightarrow> ip_protocol \<Rightarrow> mdns_pcb"
  netif_ready :: "nat \<Rightarrow> ip_protocol \<Rightarrow> bool"
  heap :: "bool list"
  entropy :: "u32 list"
  next_at :: nat
  millis :: u32
  dispatched :: "tx_packet list"

type_synonym 'a rsp_prog = "(mdns_responder, 'a) prog"

abbreviation MDNS_MAX_INTERFACES :: nat where "MDNS_MAX_INTERFACES \<equiv> 3"
abbreviation MDNS_SERVICE_PORT :: u16 where "MDNS_SERVICE_PORT \<equiv> 5353"
abbreviation MDNS_FLAGS_QR_AUTHORITATIVE :: u16 where "MDNS_FLAGS_QR_AUTHORITATIVE \<equiv> 0x8400"

section \<open>What the operations ask of their surroundings\<close>

definition malloc :: "bool rsp_prog" where
  "malloc =
     bind (gets heap) (\<lambda>h. case h of
         [] \<Rightarrow> return True
       | ok # h' \<Rightarrow> bind (modify (\<lambda>s. s\<lparr>heap := h'\<rparr>)) (\<lambda>_. return ok))"

definition esp_random :: "u32 rsp_prog" where
  "esp_random =
     bind (gets entropy) (\<lambda>e. case e of
         [] \<Rightarrow> return 0
       | r # e' \<Rightarrow> bind (modify (\<lambda>s. s\<lparr>entropy := e'\<rparr>)) (\<lambda>_. return r))"

definition get_pcb :: "nat \<Rightarrow> ip_protocol \<Rightarrow> mdns_pcb rsp_prog" where
  "get_pcb ifc prot = gets (\<lambda>s. pcbs s ifc prot)"

definition set_pcb :: "nat \<Rightarrow> ip_protocol \<Rightarrow> (mdns_pcb \<Rightarrow> mdns_pcb) \<Rightarrow> unit rsp_prog" where
  "set_pcb ifc prot f =
     modify (\<lambda>s. s\<lparr>pcbs := (pcbs s)(ifc := (pcbs s ifc)(prot := f (pcbs s ifc prot)))\<rparr>)"

definition dispatch_tx :: "tx_packet \<Rightarrow> unit rsp_prog" where
  "dispatch_tx p = modify (\<lambda>s. s\<lparr>dispatched := dispatched s @ [p]\<rparr>)"

definition schedule_tx :: "tx_packet \<Rightarrow> u32 \<Rightarrow> unit rsp_prog" where
  "schedule_tx p ms = modify (\<lambda>s. s\<lparr>tx_queue := mdns_schedule_tx_packet (millis s) p ms (tx_queue s)\<rparr>)"

text \<open>A pointer to a service item is followed.\<close>

definition service_item :: "nat \<Rightarrow> mdns_srv_item rsp_prog" where
  "service_item a =
     bind (gets services) (\<lambda>ss. case find (\<lambda>i. item_at i = a) ss of
         None \<Rightarrow> fail Use_after_free | Some i \<Rightarrow> return i)"

definition lift :: "(mdns_responder \<Rightarrow> fault + 'a) \<Rightarrow> 'a rsp_prog" where
  "lift f = (\<lambda>s. case f s of Inl e \<Rightarrow> Inl e | Inr a \<Rightarrow> Inr (a, s))"

section \<open>Packets\<close>

definition new_packet :: "nat \<Rightarrow> ip_protocol \<Rightarrow> nat \<Rightarrow> tx_packet" where
  "new_packet ifc prot a =
     \<lparr>tx_at = a, tx_send_at = 0, tx_if = ifc, tx_proto = prot,
      tx_dst = (if prot = V4 then Ip4 0xFB0000E0 else Ip6 ([0xFF, 0x02] @ replicate 13 0 @ [0xFB])),
      tx_port = MDNS_SERVICE_PORT, tx_flags = 0, tx_distributed = False, tx_questions = [], tx_answers = [],
      tx_servers = [], tx_additional = [], tx_queued = False, tx_id = 0\<rparr>"

definition mdns_alloc_packet_default :: "nat \<Rightarrow> ip_protocol \<Rightarrow> tx_packet option rsp_prog" where
  "mdns_alloc_packet_default ifc prot =
     bind malloc (\<lambda>ok. if \<not> ok then return None else
     bind (gets next_at) (\<lambda>a.
     bind (modify (\<lambda>s. s\<lparr>next_at := a + 1\<rparr>)) (\<lambda>_.
     return (Some (new_packet ifc prot a)))))"

text \<open>An answer is added to a list unless the list has it; \<open>False\<close> when memory is short.\<close>

definition mdns_alloc_answer :: "out_answer \<Rightarrow> out_answer list \<Rightarrow> (bool \<times> out_answer list) rsp_prog" where
  "mdns_alloc_answer a destination =
     (if (\<exists>d\<in>set destination. same_answer a d) then return (True, destination)
      else bind malloc (\<lambda>ok. return (ok, if ok then destination @ [a] else destination)))"

text \<open>A chain \<open>!_mdns_alloc_answer(..) || !_mdns_alloc_answer(..)\<close> stops at the first failure.\<close>

fun alloc_answers :: "out_answer list \<Rightarrow> out_answer list \<Rightarrow> (bool \<times> out_answer list) rsp_prog" where
  "alloc_answers [] destination = return (True, destination)"
| "alloc_answers (a # as) destination =
     bind (mdns_alloc_answer a destination) (\<lambda>(ok, d). if ok then alloc_answers as d else return (False, d))"

definition answer :: "u16 \<Rightarrow> nat option \<Rightarrow> host_ptr option \<Rightarrow> bool \<Rightarrow> bool \<Rightarrow> out_answer" where
  "answer type s h flush bye =
     \<lparr>a_type = type, a_service = s, a_host = h, a_flush = flush, a_bye = bye, a_custom = None\<rparr>"

text \<open>The answers that announce a service, and those for the addresses of a host.\<close>

definition service_answers :: "nat \<Rightarrow> out_answer list" where
  "service_answers a =
     [answer MDNS_TYPE_SDPTR (Some a) None False False, answer MDNS_TYPE_PTR (Some a) None False False,
      answer MDNS_TYPE_SRV (Some a) None True False, answer MDNS_TYPE_TXT (Some a) None True False]"

definition host_answers :: "host_ptr option \<Rightarrow> bool \<Rightarrow> bool \<Rightarrow> out_answer list" where
  "host_answers h flush bye =
     [answer MDNS_TYPE_A None h flush bye, answer MDNS_TYPE_AAAA None h flush bye]"

definition host_of_service :: "nat \<Rightarrow> host_ptr option rsp_prog" where
  "host_of_service a =
     bind (service_item a) (\<lambda>i. lift (\<lambda>s. mdns_get_host_item s (srv_hostname (srv i))))"

fun append_hosts_of_services ::
    "nat list \<Rightarrow> bool \<Rightarrow> bool \<Rightarrow> out_answer list \<Rightarrow> (bool \<times> out_answer list) rsp_prog" where
  "append_hosts_of_services [] flush bye destination = return (True, destination)"
| "append_hosts_of_services (a # as) flush bye destination =
     bind (host_of_service a) (\<lambda>h.
     bind (alloc_answers (host_answers h flush bye) destination) (\<lambda>(ok, d).
     if ok then append_hosts_of_services as flush bye d else return (False, d)))"

definition mdns_append_host_list_in_services ::
    "nat list \<Rightarrow> bool \<Rightarrow> bool \<Rightarrow> out_answer list \<Rightarrow> (bool \<times> out_answer list) rsp_prog" where
  "mdns_append_host_list_in_services ss flush bye destination =
     (if ss = [] then
        bind (lift (\<lambda>s. mdns_get_host_item s (server_hostname s))) (\<lambda>h.
        if h \<noteq> None then alloc_answers (host_answers h flush bye) destination else return (True, destination))
      else append_hosts_of_services ss flush bye destination)"

definition mdns_question_exists :: "tx_question \<Rightarrow> tx_question list \<Rightarrow> bool" where
  "mdns_question_exists needle haystack \<longleftrightarrow>
     (\<exists>q\<in>set haystack. tq_type q = tq_type needle \<and> tq_host q = tq_host needle
        \<and> tq_service q = tq_service needle \<and> tq_proto q = tq_proto needle)"

definition mdns_append_host_question ::
    "text_ptr option \<Rightarrow> bool \<Rightarrow> tx_question list \<Rightarrow> (bool \<times> tx_question list) rsp_prog" where
  "mdns_append_host_question hostname unicst questions =
     bind malloc (\<lambda>ok. if \<not> ok then return (False, questions) else
     let q = \<lparr>tq_type = MDNS_TYPE_ANY, tq_unicast = unicst, tq_host = hostname, tq_service = None,
              tq_proto = None, tq_domain = Some Local_domain\<rparr>
     in return (True, if mdns_question_exists q questions then questions else questions @ [q]))"

definition hostname_ptr :: "nat \<Rightarrow> mdns_srv_item \<Rightarrow> text_ptr option" where
  "hostname_ptr a i = (if srv_hostname (srv i) = None then None else Some (Hostname_of a))"

fun append_hosts_questions :: "nat list \<Rightarrow> bool \<Rightarrow> tx_question list \<Rightarrow> (bool \<times> tx_question list) rsp_prog" where
  "append_hosts_questions [] unicst questions = return (True, questions)"
| "append_hosts_questions (a # as) unicst questions =
     bind (service_item a) (\<lambda>i.
     bind (mdns_append_host_question (hostname_ptr a i) unicst questions) (\<lambda>(ok, qs).
     if ok then append_hosts_questions as unicst qs else return (False, qs)))"

definition mdns_append_host_questions_for_services ::
    "nat list \<Rightarrow> bool \<Rightarrow> tx_question list \<Rightarrow> (bool \<times> tx_question list) rsp_prog" where
  "mdns_append_host_questions_for_services ss unicst questions =
     bind (gets server_hostname) (\<lambda>h.
     if str_null_or_empty h then append_hosts_questions ss unicst questions
     else bind (mdns_append_host_question (Some Server_hostname) unicst questions) (\<lambda>(ok, qs).
          if ok then append_hosts_questions ss unicst qs else return (False, qs)))"

text \<open>\<open>_mdns_get_service_instance_name\<close> as the pointer it returns.\<close>

definition instance_ptr :: "'a mdns_server_scheme \<Rightarrow> nat \<Rightarrow> mdns_srv_item \<Rightarrow> text_ptr option" where
  "instance_ptr server a i =
     (if \<not> str_null_or_empty (srv_instance (srv i)) then Some (Instance_of a)
      else if \<not> str_null_or_empty (server_instance server) then Some Server_instance
      else if \<not> str_null_or_empty (server_hostname server) then Some Server_hostname
      else None)"

section \<open>Probes and announcements\<close>

text \<open>
  One question and one SRV record for every service to probe; \<open>first\<close> asks for unicast answers.
  \<open>False\<close> when memory is short: the packet is then freed.
\<close>

definition probe_question :: "nat \<Rightarrow> bool \<Rightarrow> text_ptr option \<Rightarrow> tx_question" where
  "probe_question a unicst h =
     \<lparr>tq_type = MDNS_TYPE_ANY, tq_unicast = unicst, tq_host = h, tq_service = Some (Type_of a),
      tq_proto = Some (Proto_of a), tq_domain = Some Local_domain\<rparr>"

definition probe_one :: "nat \<Rightarrow> bool \<Rightarrow> tx_packet \<Rightarrow> (bool \<times> tx_packet) rsp_prog" where
  "probe_one a unicst p =
     bind malloc (\<lambda>ok. if \<not> ok then return (False, p) else
     bind (service_item a) (\<lambda>i.
     bind (gets (\<lambda>s. instance_ptr s a i)) (\<lambda>h.
     let q = probe_question a unicst h
     in if h = None \<or> mdns_question_exists q (tx_questions p) then return (True, p)
        else bind (mdns_alloc_answer (answer MDNS_TYPE_SRV (Some a) None False False) (tx_servers p)) (\<lambda>(ok', d).
             return (ok', p\<lparr>tx_questions := tx_questions p @ [q], tx_servers := d\<rparr>)))))"

fun probe_questions :: "nat list \<Rightarrow> bool \<Rightarrow> tx_packet \<Rightarrow> (bool \<times> tx_packet) rsp_prog" where
  "probe_questions [] unicst p = return (True, p)"
| "probe_questions (a # as) unicst p =
     bind (probe_one a unicst p) (\<lambda>(ok, p'). if ok then probe_questions as unicst p' else return (False, p'))"

definition mdns_create_probe_packet ::
    "nat \<Rightarrow> ip_protocol \<Rightarrow> nat list \<Rightarrow> bool \<Rightarrow> bool \<Rightarrow> tx_packet option rsp_prog" where
  "mdns_create_probe_packet ifc prot ss unicst include_ip =
     bind (mdns_alloc_packet_default ifc prot) (\<lambda>pkt. case pkt of None \<Rightarrow> return None | Some p0 \<Rightarrow>
     bind (probe_questions ss unicst p0) (\<lambda>(ok, p).
     if \<not> ok then return None
     else if \<not> include_ip then return (Some p)
     else bind (mdns_append_host_questions_for_services ss unicst (tx_questions p)) (\<lambda>(ok1, qs).
          if \<not> ok1 then return None
          else bind (mdns_append_host_list_in_services ss False False (tx_servers p)) (\<lambda>(ok2, d).
               return (if ok2 then Some (p\<lparr>tx_questions := qs, tx_servers := d\<rparr>) else None)))))"

fun announce_services :: "nat list \<Rightarrow> out_answer list \<Rightarrow> (bool \<times> out_answer list) rsp_prog" where
  "announce_services [] answers = return (True, answers)"
| "announce_services (a # as) answers =
     bind (alloc_answers (service_answers a) answers) (\<lambda>(ok, d).
     if ok then announce_services as d else return (False, d))"

definition mdns_create_announce_packet ::
    "nat \<Rightarrow> ip_protocol \<Rightarrow> nat list \<Rightarrow> bool \<Rightarrow> tx_packet option rsp_prog" where
  "mdns_create_announce_packet ifc prot ss include_ip =
     bind (mdns_alloc_packet_default ifc prot) (\<lambda>pkt. case pkt of None \<Rightarrow> return None | Some p \<Rightarrow>
     bind (announce_services ss []) (\<lambda>(ok, d).
     if \<not> ok then return None
     else if \<not> include_ip then return (Some (p\<lparr>tx_flags := MDNS_FLAGS_QR_AUTHORITATIVE, tx_answers := d\<rparr>))
     else bind (mdns_append_host_list_in_services ss True False []) (\<lambda>(ok1, d1).
          return (if ok1 then Some (p\<lparr>tx_flags := MDNS_FLAGS_QR_AUTHORITATIVE, tx_answers := d, tx_servers := d1\<rparr>)
                  else None))))"

text \<open>The records a probe claims become the answers of the announcement.\<close>

fun announce_claimed :: "out_answer list \<Rightarrow> out_answer list \<Rightarrow> (bool \<times> out_answer list) rsp_prog" where
  "announce_claimed [] answers = return (True, answers)"
| "announce_claimed (c # cs) answers =
     (if a_type c = MDNS_TYPE_SRV then
        (case a_service c of
           None \<Rightarrow> fail Null_pointer
         | Some a \<Rightarrow>
             bind (alloc_answers (service_answers a) answers) (\<lambda>(ok, d).
             if \<not> ok then return (False, d)
             else bind (host_of_service a) (\<lambda>h.
                  bind (alloc_answers (host_answers h True False) d) (\<lambda>(ok', d').
                  if ok' then announce_claimed cs d' else return (False, d')))))
      else if a_type c = MDNS_TYPE_A \<or> a_type c = MDNS_TYPE_AAAA then
        bind (mdns_alloc_answer (answer (a_type c) None (a_host c) True False) answers) (\<lambda>(ok, d).
        if ok then announce_claimed cs d else return (False, d))
      else announce_claimed cs answers)"

definition mdns_create_announce_from_probe :: "tx_packet \<Rightarrow> tx_packet option rsp_prog" where
  "mdns_create_announce_from_probe probe =
     bind (mdns_alloc_packet_default (tx_if probe) (tx_proto probe)) (\<lambda>pkt. case pkt of None \<Rightarrow> return None | Some p \<Rightarrow>
     bind (announce_claimed (tx_servers probe) []) (\<lambda>(ok, d).
     return (if ok then Some (p\<lparr>tx_flags := MDNS_FLAGS_QR_AUTHORITATIVE, tx_answers := d\<rparr>) else None)))"

section \<open>Probing and announcing on an interface\<close>

text \<open>The end of a start: the block holds the services before it is in a probing state.\<close>

definition probe_started :: "nat \<Rightarrow> ip_protocol \<Rightarrow> bool \<Rightarrow> nat list \<Rightarrow> tx_packet \<Rightarrow> u32 \<Rightarrow> unit rsp_prog" where
  "probe_started ifc prot ip new p ms =
     bind (set_pcb ifc prot (\<lambda>b. b\<lparr>probe_ip := ip, probe_services := new, probe_running := True\<rparr>)) (\<lambda>_.
     bind esp_random (\<lambda>r.
     bind (schedule_tx p (ms + (r AND 0x7F))) (\<lambda>_.
     set_pcb ifc prot (\<lambda>b. b\<lparr>pcb_state := PCB_PROBE_1\<rparr>))))"

text \<open>The block forgets what it probed, and probes what is in the new array.\<close>

definition start_probe :: "nat \<Rightarrow> ip_protocol \<Rightarrow> bool \<Rightarrow> u32 \<Rightarrow> nat list \<Rightarrow> unit rsp_prog" where
  "start_probe ifc prot ip ms new =
     bind (set_pcb ifc prot (\<lambda>b. b\<lparr>probe_ip := False, probe_services := [], probe_running := False\<rparr>)) (\<lambda>_.
     bind (mdns_create_probe_packet ifc prot new True ip) (\<lambda>pkt. case pkt of None \<Rightarrow> return () | Some p \<Rightarrow>
     probe_started ifc prot ip new p ms))"

text \<open>
  The array for the services is as long as those given and, while probing, those already probed;
  the latter are copied behind the former whenever there are any.
\<close>

definition mdns_init_pcb_probe_new_service ::
    "nat \<Rightarrow> ip_protocol \<Rightarrow> nat list \<Rightarrow> bool \<Rightarrow> unit rsp_prog" where
  "mdns_init_pcb_probe_new_service ifc prot ss with_ip =
     bind (get_pcb ifc prot) (\<lambda>pcb.
     let ip = (probe_ip pcb \<or> with_ip); ms = (if failed_probes pcb > 5 then 1000 else 120);
         final_len = length ss + (if PCB_STATE_IS_PROBING (pcb_state pcb) then length (probe_services pcb) else 0)
     in if final_len = 0 then start_probe ifc prot ip ms []
        else bind malloc (\<lambda>ok. if \<not> ok then return ()
          else if length ss + length (probe_services pcb) > final_len then fail Out_of_bounds
          else start_probe ifc prot ip ms (ss @ probe_services pcb)))"

definition mdns_init_pcb_probe :: "nat \<Rightarrow> ip_protocol \<Rightarrow> nat list \<Rightarrow> bool \<Rightarrow> unit rsp_prog" where
  "mdns_init_pcb_probe ifc prot ss with_ip =
     bind (modify (\<lambda>s. s\<lparr>tx_queue := mdns_clear_pcb_tx_queue_head ifc prot (tx_queue s)\<rparr>)) (\<lambda>_.
     bind (gets server_hostname) (\<lambda>h.
     if str_null_or_empty h then set_pcb ifc prot (\<lambda>b. b\<lparr>pcb_state := PCB_RUNNING\<rparr>)
     else bind (get_pcb ifc prot) (\<lambda>pcb.
       if PCB_STATE_IS_PROBING (pcb_state pcb)
       then mdns_init_pcb_probe_new_service ifc prot (filter (\<lambda>a. a \<notin> set (probe_services pcb)) ss) with_ip
       else mdns_init_pcb_probe_new_service ifc prot ss with_ip)))"

definition mdns_restart_pcb :: "nat \<Rightarrow> ip_protocol \<Rightarrow> unit rsp_prog" where
  "mdns_restart_pcb ifc prot =
     bind (gets services) (\<lambda>ss. mdns_init_pcb_probe ifc prot (map item_at ss) True)"

text \<open>The queued announcement is changed in place.\<close>

definition replace_tx :: "tx_packet \<Rightarrow> unit rsp_prog" where
  "replace_tx p = modify (\<lambda>s. s\<lparr>tx_queue := map (\<lambda>q. if tx_at q = tx_at p then p else q) (tx_queue s)\<rparr>)"

definition extend_announcement :: "nat \<Rightarrow> ip_protocol \<Rightarrow> nat list \<Rightarrow> bool \<Rightarrow> tx_packet \<Rightarrow> unit rsp_prog" where
  "extend_announcement ifc prot ss include_ip p =
     bind (announce_services ss (tx_answers p)) (\<lambda>(_, d).
       bind (if include_ip
             then bind (mdns_append_host_list_in_services ss True False d) (\<lambda>(_, d').
                  return (p\<lparr>tx_answers := d', tx_additional :=
                    mdns_dealloc_answer MDNS_TYPE_AAAA None (mdns_dealloc_answer MDNS_TYPE_A None (tx_additional p))\<rparr>))
             else return (p\<lparr>tx_answers := d\<rparr>)) (\<lambda>p'.
       bind (replace_tx p') (\<lambda>_. set_pcb ifc prot (\<lambda>b. b\<lparr>pcb_state := PCB_ANNOUNCE_1\<rparr>))))"

definition mdns_announce_pcb :: "nat \<Rightarrow> ip_protocol \<Rightarrow> nat list \<Rightarrow> bool \<Rightarrow> unit rsp_prog" where
  "mdns_announce_pcb ifc prot ss include_ip =
     bind (gets (\<lambda>s. netif_ready s ifc prot)) (\<lambda>ready.
     bind (get_pcb ifc prot) (\<lambda>pcb.
     if \<not> ready then return ()
     else if PCB_STATE_IS_PROBING (pcb_state pcb) then mdns_init_pcb_probe ifc prot ss include_ip
     else if PCB_STATE_IS_ANNOUNCING (pcb_state pcb) then
       bind (gets (\<lambda>s. mdns_get_next_pcb_packet ifc prot (tx_queue s))) (\<lambda>pkt. case pkt of None \<Rightarrow> return () | Some p \<Rightarrow>
       extend_announcement ifc prot ss include_ip p)
     else if pcb_state pcb = PCB_RUNNING then
       bind (gets server_hostname) (\<lambda>h.
       if str_null_or_empty h then return ()
       else bind (set_pcb ifc prot (\<lambda>b. b\<lparr>pcb_state := PCB_ANNOUNCE_1\<rparr>)) (\<lambda>_.
            bind (mdns_create_announce_packet ifc prot ss include_ip) (\<lambda>pkt. case pkt of None \<Rightarrow> return () | Some p \<Rightarrow>
            schedule_tx p 0)))
     else return ()))"

text \<open>
  The packet's time has come: \<open>_mdns_tx_handle_packet\<close>. The \<open>switch\<close> over the state comes after
  the packet was dispatched; a packet that is not scheduled again is freed.
\<close>

definition advance_state :: "tx_packet \<Rightarrow> unit rsp_prog" where
  "advance_state p = set_pcb (tx_if p) (tx_proto p) (\<lambda>b. b\<lparr>pcb_state := pcb_next (pcb_state b)\<rparr>)"

definition no_unicast :: "tx_packet \<Rightarrow> tx_packet" where
  "no_unicast p = p\<lparr>tx_questions := map (\<lambda>q. q\<lparr>tq_unicast := False\<rparr>) (tx_questions p)\<rparr>"

definition announce_probed :: "tx_packet \<Rightarrow> unit rsp_prog" where
  "announce_probed p =
     bind (mdns_create_announce_from_probe p) (\<lambda>pkt. case pkt of
         None \<Rightarrow> schedule_tx p 250
       | Some a \<Rightarrow>
           block [set_pcb (tx_if p) (tx_proto p)
                    (\<lambda>b. b\<lparr>probe_running := False, probe_ip := False, failed_probes := 0, probe_services := []\<rparr>),
                  schedule_tx a 250, advance_state p])"

definition after_dispatch :: "tx_packet \<Rightarrow> pcb_state \<Rightarrow> unit rsp_prog" where
  "after_dispatch p st =
     (if st = PCB_PROBE_1 \<or> st = PCB_PROBE_2 then
        bind (schedule_tx (if st = PCB_PROBE_1 then no_unicast p else p) 250) (\<lambda>_. advance_state p)
      else if st = PCB_PROBE_3 then announce_probed p
      else if st = PCB_ANNOUNCE_1 \<or> st = PCB_ANNOUNCE_2 then bind (schedule_tx p 1000) (\<lambda>_. advance_state p)
      else if st = PCB_ANNOUNCE_3 then set_pcb (tx_if p) (tx_proto p) (\<lambda>b. b\<lparr>pcb_state := PCB_RUNNING\<rparr>)
      else return ())"

definition mdns_tx_handle_packet :: "tx_packet \<Rightarrow> unit rsp_prog" where
  "mdns_tx_handle_packet p =
     bind (get_pcb (tx_if p) (tx_proto p)) (\<lambda>pcb.
     if pcb_state pcb = PCB_OFF then return ()
     else bind (dispatch_tx p) (\<lambda>_. after_dispatch p (pcb_state pcb)))"

text \<open>\<open>ACTION_TX_HANDLE\<close> of \<open>_mdns_execute_action\<close>, with the packet at address \<open>a\<close>.\<close>

definition execute_tx_handle :: "nat \<Rightarrow> unit rsp_prog" where
  "execute_tx_handle a =
     bind (gets (\<lambda>s. take_tx a (tx_queue s))) (\<lambda>(taken, q'). case taken of None \<Rightarrow> return () | Some p \<Rightarrow>
     bind (modify (\<lambda>s. s\<lparr>tx_queue := q'\<rparr>)) (\<lambda>_. mdns_tx_handle_packet p))"

section \<open>Well-formed responders\<close>

definition live :: "'a mdns_registry_scheme \<Rightarrow> nat \<Rightarrow> bool" where
  "live s a \<longleftrightarrow> a \<in> item_at ` set (services s)"

text \<open>An answer refers to no freed service, and an SRV answer to some service.\<close>

definition wf_answer :: "'a mdns_registry_scheme \<Rightarrow> out_answer \<Rightarrow> bool" where
  "wf_answer s a \<longleftrightarrow> (\<forall>x. a_service a = Some x \<longrightarrow> live s x) \<and> (a_type a = MDNS_TYPE_SRV \<longrightarrow> a_service a \<noteq> None)"

definition wf_answers :: "'a mdns_registry_scheme \<Rightarrow> out_answer list \<Rightarrow> bool" where
  "wf_answers s as \<longleftrightarrow> (\<forall>a\<in>set as. wf_answer s a)"

definition wf_tx :: "'a mdns_registry_scheme \<Rightarrow> tx_packet \<Rightarrow> bool" where
  "wf_tx s p \<longleftrightarrow> wf_answers s (tx_answers p) \<and> wf_answers s (tx_servers p) \<and> wf_answers s (tx_additional p)"

text \<open>Services are probed only in a probing state: otherwise they would be copied behind the array.\<close>

definition wf_pcb :: "'a mdns_registry_scheme \<Rightarrow> mdns_pcb \<Rightarrow> bool" where
  "wf_pcb s b \<longleftrightarrow>
     (probe_services b \<noteq> [] \<longrightarrow> PCB_STATE_IS_PROBING (pcb_state b)) \<and> (\<forall>a\<in>set (probe_services b). live s a)"

definition wf_responder :: "mdns_responder \<Rightarrow> bool" where
  "wf_responder s \<longleftrightarrow>
     \<not> str_null_or_empty (server_hostname s)
     \<and> (\<forall>p\<in>set (tx_queue s). wf_tx s p) \<and> (\<forall>ifc prot. wf_pcb s (pcbs s ifc prot))"

text \<open>What allocations and random numbers change.\<close>

definition quiet :: "mdns_responder \<Rightarrow> mdns_responder \<Rightarrow> bool" where
  "quiet s s' \<longleftrightarrow> (\<exists>h e n. s' = s\<lparr>heap := h, entropy := e, next_at := n\<rparr>)"

lemma quietI [intro]: "quiet s s" "quiet s (s\<lparr>heap := h\<rparr>)" "quiet s (s\<lparr>entropy := e\<rparr>)" "quiet s (s\<lparr>next_at := n\<rparr>)"
  unfolding quiet_def
  by (rule exI [of _ "heap s"], rule exI [of _ "entropy s"], rule exI [of _ "next_at s"], simp)
    (rule exI [of _ h], rule exI [of _ "entropy s"], rule exI [of _ "next_at s"], simp,
     rule exI [of _ "heap s"], rule exI [of _ e], rule exI [of _ "next_at s"], simp,
     rule exI [of _ "heap s"], rule exI [of _ "entropy s"], rule exI [of _ n], simp)

declare quietI(1) [simp]

lemma quiet_trans: "quiet s t \<Longrightarrow> quiet t u \<Longrightarrow> quiet s u"
  by (auto simp: quiet_def) blast

lemma quiet_same:
  assumes "quiet s s'"
  shows "services s' = services s" "server_hostname s' = server_hostname s" "server_instance s' = server_instance s"
    "host_list s' = host_list s" "tx_queue s' = tx_queue s" "pcbs s' = pcbs s" "netif_ready s' = netif_ready s"
    "millis s' = millis s" "dispatched s' = dispatched s"
  using assms by (auto simp: quiet_def)

lemma quiet_wf: "quiet s s' \<Longrightarrow> wf_responder s' = wf_responder s" "quiet s s' \<Longrightarrow> wf_tx s' = wf_tx s"
    "quiet s s' \<Longrightarrow> wf_answers s' = wf_answers s" "quiet s s' \<Longrightarrow> live s' = live s"
  by (simp_all add: fun_eq_iff wf_responder_def wf_tx_def wf_answers_def wf_answer_def wf_pcb_def live_def quiet_same)

text \<open>Running a quiet program, with a condition on its result.\<close>

definition quietly :: "'a rsp_prog \<Rightarrow> mdns_responder \<Rightarrow> ('a \<Rightarrow> bool) \<Rightarrow> bool" where
  "quietly p s Q \<longleftrightarrow> runs_to p s (\<lambda>r s'. quiet s s' \<and> Q r)"

lemma quietly_return [simp]: "quietly (return r) s Q = Q r"
  by (simp add: quietly_def)

lemma quietly_gets [simp]: "quietly (gets f) s Q = Q (f s)"
  by (simp add: quietly_def)

lemma quietly_bind_gets: "quietly (bind (gets f) k) s Q = quietly (k (f s)) s Q"
  by (simp add: quietly_def)

lemma quietly_mono: "quietly p s Q \<Longrightarrow> (\<And>r. Q r \<Longrightarrow> R r) \<Longrightarrow> quietly p s R"
  unfolding quietly_def by (erule runs_to_mono) auto

lemma quietly_bind:
  "quietly p s R \<Longrightarrow> (\<And>r s'. R r \<Longrightarrow> quiet s s' \<Longrightarrow> quietly (k r) s' Q) \<Longrightarrow> quietly (bind p k) s Q"
  unfolding quietly_def runs_to_bind by (erule runs_to_mono) (auto intro: runs_to_mono quiet_trans)

lemma quietly_malloc: "(\<And>ok. Q ok) \<Longrightarrow> quietly malloc s Q"
  by (auto simp: quietly_def malloc_def split: list.splits)

lemma quietly_esp_random: "(\<And>r. Q r) \<Longrightarrow> quietly esp_random s Q"
  by (auto simp: quietly_def esp_random_def split: list.splits)

lemma quietly_lift: "(\<exists>r. f s = Inr r \<and> Q r) \<Longrightarrow> quietly (lift f) s Q"
  by (auto simp: quietly_def lift_def runs_to_def)

lemma quietly_service_item:
  "live s a \<Longrightarrow> (\<And>i. Q i) \<Longrightarrow> quietly (service_item a) s Q"
proof -
  assume "live s a" and Q: "\<And>i. Q i"
  then obtain i where "find (\<lambda>i. item_at i = a) (services s) = Some i"
    using find_is_Some [of "\<lambda>i. item_at i = a" "services s"] by (auto simp: live_def)
  then show ?thesis using Q by (simp add: quietly_def service_item_def)
qed

lemma quietly_new_packet:
  "Q None \<Longrightarrow> (\<And>a. Q (Some (new_packet ifc prot a))) \<Longrightarrow> quietly (mdns_alloc_packet_default ifc prot) s Q"
  unfolding mdns_alloc_packet_default_def
  by (rule quietly_bind [OF quietly_malloc [of "\<lambda>_. True"]]) (auto simp: quietly_def)

lemma new_packet_simps [simp]:
  "tx_if (new_packet ifc prot a) = ifc" "tx_proto (new_packet ifc prot a) = prot" "tx_at (new_packet ifc prot a) = a"
  "tx_questions (new_packet ifc prot a) = []" "tx_answers (new_packet ifc prot a) = []"
  "tx_servers (new_packet ifc prot a) = []" "tx_additional (new_packet ifc prot a) = []"
  "\<not> tx_queued (new_packet ifc prot a)"
  by (simp_all add: new_packet_def)

section \<open>Allocated answers are well-formed\<close>

lemma wf_answers_simps [simp]:
  "wf_answers s []" "wf_answers s (a # as) \<longleftrightarrow> wf_answer s a \<and> wf_answers s as"
  "wf_answers s (as @ bs) \<longleftrightarrow> wf_answers s as \<and> wf_answers s bs"
  by (auto simp: wf_answers_def)

lemma wf_answer_answer [simp]:
  "wf_answer s (answer type None h flush bye) \<longleftrightarrow> type \<noteq> MDNS_TYPE_SRV"
  "wf_answer s (answer type (Some a) h flush bye) \<longleftrightarrow> live s a"
  by (auto simp: wf_answer_def answer_def)

lemma wf_service_answers [simp]: "wf_answers s (service_answers a) \<longleftrightarrow> live s a"
  by (simp add: service_answers_def)

lemma wf_host_answers [simp]: "wf_answers s (host_answers h flush bye)"
  by (simp add: host_answers_def)

lemma quietly_alloc_answer:
  "wf_answer s a \<Longrightarrow> wf_answers s d \<Longrightarrow> quietly (mdns_alloc_answer a d) s (\<lambda>r. wf_answers s (snd r))"
  unfolding mdns_alloc_answer_def
  by (auto intro!: quietly_bind [OF quietly_malloc [of "\<lambda>_. True"]])

lemma quietly_alloc_answers:
  "wf_answers s as \<Longrightarrow> wf_answers s d \<Longrightarrow> quietly (alloc_answers as d) s (\<lambda>r. wf_answers s (snd r))"
proof (induction as arbitrary: d s)
  case (Cons a as)
  have "quietly (mdns_alloc_answer a d) s (\<lambda>r. wf_answers s (snd r))"
    using Cons.prems by (intro quietly_alloc_answer) simp_all
  then show ?case
    unfolding alloc_answers.simps split_beta
  proof (rule quietly_bind)
    fix r :: "bool \<times> out_answer list" and s'
    assume "wf_answers s (snd r)" "quiet s s'"
    then show "quietly (if fst r then alloc_answers as (snd r) else return (False, snd r)) s' (\<lambda>r. wf_answers s (snd r))"
      using Cons.IH [of s' "snd r"] Cons.prems by (simp add: quiet_wf)
  qed
qed simp

lemma quietly_host_of_service:
  "live s a \<Longrightarrow> server_hostname s \<noteq> None \<Longrightarrow> (\<And>h. Q h) \<Longrightarrow> quietly (host_of_service a) s Q"
  unfolding host_of_service_def
  by (rule quietly_bind [OF quietly_service_item [of _ _ "\<lambda>_. True"]])
    (auto intro!: quietly_lift simp: mdns_get_host_item_def same_string_def quiet_same split: option.splits bool.splits)

lemma quietly_append_hosts_of_services:
  "\<forall>a\<in>set as. live s a \<Longrightarrow> server_hostname s \<noteq> None \<Longrightarrow> wf_answers s d \<Longrightarrow>
   quietly (append_hosts_of_services as flush bye d) s (\<lambda>r. wf_answers s (snd r))"
proof (induction as arbitrary: d s)
  case (Cons a as)
  show ?case
    unfolding append_hosts_of_services.simps split_beta
  proof (rule quietly_bind [OF quietly_host_of_service [of _ _ "\<lambda>_. True"]], use Cons.prems in simp_all)
    fix h t assume t: "quiet s t"
    show "quietly (bind (alloc_answers (host_answers h flush bye) d)
        (\<lambda>r. if fst r then append_hosts_of_services as flush bye (snd r) else return (False, snd r))) t
        (\<lambda>r. wf_answers s (snd r))"
    proof (rule quietly_bind [OF quietly_alloc_answers])
      fix r :: "bool \<times> out_answer list" and u
      assume "wf_answers t (snd r)" "quiet t u"
      then show "quietly (if fst r then append_hosts_of_services as flush bye (snd r) else return (False, snd r)) u
          (\<lambda>r. wf_answers s (snd r))"
        using Cons.IH [of u "snd r"] Cons.prems t quiet_trans [OF t \<open>quiet t u\<close>] by (simp add: quiet_wf quiet_same)
    qed (use Cons.prems t in \<open>simp_all add: quiet_wf\<close>)
  qed
qed simp

lemma quietly_append_host_list:
  assumes "\<forall>a\<in>set ss. live s a" "server_hostname s \<noteq> None" "wf_answers s d"
  shows "quietly (mdns_append_host_list_in_services ss flush bye d) s (\<lambda>r. wf_answers s (snd r))"
proof (cases "ss = []")
  case True
  have "quietly (lift (\<lambda>s. mdns_get_host_item s (server_hostname s))) s (\<lambda>_. True)"
    using assms(2) by (intro quietly_lift) (auto simp: mdns_get_host_item_def same_string_def same_text_def)
  then have "quietly (bind (lift (\<lambda>s. mdns_get_host_item s (server_hostname s)))
      (\<lambda>h. if h \<noteq> None then alloc_answers (host_answers h flush bye) d else return (True, d))) s
      (\<lambda>r. wf_answers s (snd r))"
  proof (rule quietly_bind)
    fix h t assume "quiet s t"
    then show "quietly (if h \<noteq> None then alloc_answers (host_answers h flush bye) d else return (True, d)) t
        (\<lambda>r. wf_answers s (snd r))"
      using quietly_alloc_answers [of t "host_answers h flush bye" d] assms(3) by (simp add: quiet_wf)
  qed
  then show ?thesis using True by (simp add: mdns_append_host_list_in_services_def)
qed (use assms quietly_append_hosts_of_services in \<open>simp add: mdns_append_host_list_in_services_def\<close>)

lemma quietly_announce_services:
  "\<forall>a\<in>set as. live s a \<Longrightarrow> wf_answers s d \<Longrightarrow> quietly (announce_services as d) s (\<lambda>r. wf_answers s (snd r))"
proof (induction as arbitrary: d s)
  case (Cons a as)
  show ?case
    unfolding announce_services.simps split_beta
  proof (rule quietly_bind [OF quietly_alloc_answers])
    fix r :: "bool \<times> out_answer list" and t
    assume "wf_answers s (snd r)" "quiet s t"
    then show "quietly (if fst r then announce_services as (snd r) else return (False, snd r)) t (\<lambda>r. wf_answers s (snd r))"
      using Cons.IH [of t "snd r"] Cons.prems by (simp add: quiet_wf)
  qed (use Cons.prems in simp_all)
qed simp

lemma quietly_announce_claimed:
  "wf_answers s cs \<Longrightarrow> server_hostname s \<noteq> None \<Longrightarrow> wf_answers s d \<Longrightarrow>
   quietly (announce_claimed cs d) s (\<lambda>r. wf_answers s (snd r))"
proof (induction cs arbitrary: d s)
  case (Cons c cs)
  have rest: "quietly (if fst r then announce_claimed cs (snd r) else return (False, snd r)) t (\<lambda>r. wf_answers s (snd r))"
    if "wf_answers s (snd r)" "quiet s t" for r :: "bool \<times> out_answer list" and t
    using that Cons.IH [of t "snd r"] Cons.prems by (simp add: quiet_wf quiet_same)
  show ?case
  proof (cases "a_type c = MDNS_TYPE_SRV")
    case True
    then obtain a where a: "a_service c = Some a" "live s a" using Cons.prems(1) by (auto simp: wf_answer_def)
    have "quietly (bind (alloc_answers (service_answers a) d) (\<lambda>r. if \<not> fst r then return (False, snd r)
        else bind (host_of_service a) (\<lambda>h. bind (alloc_answers (host_answers h True False) (snd r))
          (\<lambda>r. if fst r then announce_claimed cs (snd r) else return (False, snd r))))) s (\<lambda>r. wf_answers s (snd r))"
    proof (rule quietly_bind [OF quietly_alloc_answers])
      fix r :: "bool \<times> out_answer list" and t
      assume r: "wf_answers s (snd r)" and t: "quiet s t"
      have "quietly (bind (host_of_service a) (\<lambda>h. bind (alloc_answers (host_answers h True False) (snd r))
          (\<lambda>r. if fst r then announce_claimed cs (snd r) else return (False, snd r)))) t (\<lambda>r. wf_answers s (snd r))"
      proof (rule quietly_bind [OF quietly_host_of_service [of _ _ "\<lambda>_. True"]])
        fix h u assume u: "quiet t u"
        have "quietly (alloc_answers (host_answers h True False) (snd r)) u (\<lambda>r. wf_answers s (snd r))"
          using quietly_alloc_answers [of u "host_answers h True False" "snd r"] r t u by (simp add: quiet_wf)
        then show "quietly (bind (alloc_answers (host_answers h True False) (snd r))
            (\<lambda>r. if fst r then announce_claimed cs (snd r) else return (False, snd r))) u (\<lambda>r. wf_answers s (snd r))"
          by (rule quietly_bind) (use t u in \<open>blast intro: rest quiet_trans\<close>)
      qed (use a t Cons.prems in \<open>simp_all add: quiet_wf quiet_same\<close>)
      then show "quietly (if \<not> fst r then return (False, snd r) else bind (host_of_service a) (\<lambda>h.
          bind (alloc_answers (host_answers h True False) (snd r))
            (\<lambda>r. if fst r then announce_claimed cs (snd r) else return (False, snd r)))) t (\<lambda>r. wf_answers s (snd r))"
        using r by simp
    qed (use a Cons.prems in simp_all)
    then show ?thesis unfolding announce_claimed.simps case_prod_unfold by (simp add: True a)
  next
    case False
    have "quietly (bind (mdns_alloc_answer (answer (a_type c) None (a_host c) True False) d)
        (\<lambda>r. if fst r then announce_claimed cs (snd r) else return (False, snd r))) s (\<lambda>r. wf_answers s (snd r))"
      by (rule quietly_bind [OF quietly_alloc_answer]) (use False Cons.prems rest in auto)
    then show ?thesis using False Cons by (simp add: case_prod_unfold)
  qed
qed simp

lemma wf_tx_new [simp]: "wf_tx s (new_packet ifc prot a)"
  by (simp add: wf_tx_def)

text \<open>A packet under construction: of its interface, not handed over, with well-formed answers.\<close>

definition good_tx :: "mdns_responder \<Rightarrow> nat \<Rightarrow> ip_protocol \<Rightarrow> tx_packet \<Rightarrow> bool" where
  "good_tx s ifc prot p \<longleftrightarrow> wf_tx s p \<and> tx_if p = ifc \<and> tx_proto p = prot \<and> \<not> tx_queued p"

lemma quietly_append_host_question:
  "quietly (mdns_append_host_question h unicst qs) s (\<lambda>_. True)"
  unfolding mdns_append_host_question_def
  by (rule quietly_bind [OF quietly_malloc [of "\<lambda>_. True"]]) (simp_all add: Let_def)

lemma quietly_append_hosts_questions:
  "\<forall>a\<in>set as. live s a \<Longrightarrow> quietly (append_hosts_questions as unicst qs) s (\<lambda>_. True)"
proof (induction as arbitrary: qs s)
  case (Cons a as)
  show ?case
    unfolding append_hosts_questions.simps case_prod_unfold
  proof (rule quietly_bind [OF quietly_service_item [of _ _ "\<lambda>_. True"]], use Cons.prems in simp_all)
    fix i t assume t: "quiet s t"
    show "quietly (bind (mdns_append_host_question (hostname_ptr a i) unicst qs)
        (\<lambda>r. if fst r then append_hosts_questions as unicst (snd r) else return (False, snd r))) t (\<lambda>_. True)"
      by (rule quietly_bind [OF quietly_append_host_question])
        (use Cons t in \<open>simp add: quiet_wf\<close>)
  qed
qed simp

lemma quietly_append_host_questions_for_services:
  "\<forall>a\<in>set as. live s a \<Longrightarrow> quietly (mdns_append_host_questions_for_services as unicst qs) s (\<lambda>_. True)"
  unfolding mdns_append_host_questions_for_services_def case_prod_unfold
  by (rule quietly_bind [of _ _ "\<lambda>_. True"])
    (auto intro!: quietly_append_hosts_questions quietly_bind [OF quietly_append_host_question] simp: quiet_wf)

lemma quietly_probe_one:
  assumes "live s a" "good_tx s ifc prot p"
  shows "quietly (probe_one a unicst p) s (\<lambda>r. good_tx s ifc prot (snd r))"
  unfolding probe_one_def case_prod_unfold Let_def
proof (rule quietly_bind [OF quietly_malloc [of "\<lambda>_. True"]])
  fix ok t
  assume t: "quiet s t"
  let ?a = "answer MDNS_TYPE_SRV (Some a) None False False"
  let ?add = "\<lambda>h. if h = None \<or> mdns_question_exists (probe_question a unicst h) (tx_questions p) then return (True, p)
      else bind (mdns_alloc_answer ?a (tx_servers p)) (\<lambda>d. return (fst d,
        p\<lparr>tx_questions := tx_questions p @ [probe_question a unicst h], tx_servers := snd d\<rparr>))"
  have add: "quietly (?add h) u (\<lambda>r. good_tx s ifc prot (snd r))" if "quiet s u" for h u
  proof -
    have "quietly (bind (mdns_alloc_answer ?a (tx_servers p)) (\<lambda>d. return (fst d,
        p\<lparr>tx_questions := tx_questions p @ [probe_question a unicst h], tx_servers := snd d\<rparr>))) u
        (\<lambda>r. good_tx s ifc prot (snd r))"
      by (rule quietly_bind [OF quietly_alloc_answer])
        (use assms that in \<open>auto simp: quiet_wf good_tx_def wf_tx_def\<close>)
    then show ?thesis using assms(2) by simp
  qed
  have "live t a" using assms(1) t by (simp add: quiet_wf)
  then have "quietly (bind (service_item a) (\<lambda>i. bind (gets (\<lambda>s. instance_ptr s a i)) ?add)) t
      (\<lambda>r. good_tx s ifc prot (snd r))"
  proof (rule quietly_bind [OF quietly_service_item [of _ _ "\<lambda>_. True"]])
    fix i u
    assume "quiet t u"
    then have "quiet s u" using t by (rule quiet_trans [rotated])
    then show "quietly (bind (gets (\<lambda>s. instance_ptr s a i)) ?add) u (\<lambda>r. good_tx s ifc prot (snd r))"
      unfolding quietly_bind_gets by (rule add)
  qed simp
  then show "quietly (if \<not> ok then return (False, p)
      else bind (service_item a) (\<lambda>i. bind (gets (\<lambda>s. instance_ptr s a i)) ?add)) t (\<lambda>r. good_tx s ifc prot (snd r))"
    using assms(2) by simp
qed simp

lemma quietly_probe_questions:
  "\<forall>a\<in>set as. live s a \<Longrightarrow> good_tx s ifc prot p \<Longrightarrow>
   quietly (probe_questions as unicst p) s (\<lambda>r. good_tx s ifc prot (snd r))"
proof (induction as arbitrary: p s)
  case (Cons a as)
  show ?case
    unfolding probe_questions.simps case_prod_unfold
  proof (rule quietly_bind [OF quietly_probe_one])
    fix r :: "bool \<times> tx_packet" and t
    assume "good_tx s ifc prot (snd r)" "quiet s t"
    then show "quietly (if fst r then probe_questions as unicst (snd r) else return (False, snd r)) t
        (\<lambda>r. good_tx s ifc prot (snd r))"
      using Cons.IH [of t "snd r"] Cons.prems by (simp add: quiet_wf good_tx_def)
  qed (use Cons.prems in simp_all)
qed simp

text \<open>The three makers of packets end in a good packet or in none.\<close>

definition made :: "mdns_responder \<Rightarrow> nat \<Rightarrow> ip_protocol \<Rightarrow> tx_packet option \<Rightarrow> bool" where
  "made s ifc prot pkt \<longleftrightarrow> (\<forall>p. pkt = Some p \<longrightarrow> good_tx s ifc prot p)"

lemma made_simps [simp]: "made s ifc prot None" "made s ifc prot (Some p) = good_tx s ifc prot p"
  by (auto simp: made_def)

lemma good_new [simp]: "good_tx s ifc prot (new_packet ifc prot a)"
  by (simp add: good_tx_def)

lemma quiet_good: "quiet s t \<Longrightarrow> good_tx t = good_tx s" "quiet s t \<Longrightarrow> made t = made s"
  by (simp_all add: fun_eq_iff good_tx_def made_def quiet_wf)

lemma quietly_create:
  assumes "\<And>a t. quiet s t \<Longrightarrow> quietly (k (new_packet ifc prot a)) t (made s ifc prot)"
  shows "quietly (bind (mdns_alloc_packet_default ifc prot) (\<lambda>pkt. case pkt of None \<Rightarrow> return None | Some p \<Rightarrow> k p)) s
    (made s ifc prot)"
  by (rule quietly_bind [OF quietly_new_packet [of "\<lambda>pkt. pkt = None \<or> (\<exists>a. pkt = Some (new_packet ifc prot a))"]])
    (auto intro: assms)

lemma quietly_create_announce_from_probe:
  assumes "wf_answers s (tx_servers p)" "server_hostname s \<noteq> None"
  shows "quietly (mdns_create_announce_from_probe p) s (made s (tx_if p) (tx_proto p))"
  unfolding mdns_create_announce_from_probe_def case_prod_unfold
proof (rule quietly_create, rule quietly_bind [OF quietly_announce_claimed])
  fix a t u and r :: "bool \<times> out_answer list"
  assume "quiet s t" "wf_answers t (snd r)"
  then show "quietly (return (if fst r then Some (new_packet (tx_if p) (tx_proto p) a
      \<lparr>tx_flags := MDNS_FLAGS_QR_AUTHORITATIVE, tx_answers := snd r\<rparr>) else None)) u (made s (tx_if p) (tx_proto p))"
    by (simp add: good_tx_def wf_tx_def quiet_wf)
qed (use assms in \<open>simp_all add: quiet_wf quiet_same\<close>)

lemma quietly_create_announce_packet:
  assumes "\<forall>a\<in>set ss. live s a" "server_hostname s \<noteq> None"
  shows "quietly (mdns_create_announce_packet ifc prot ss include_ip) s (made s ifc prot)"
  unfolding mdns_create_announce_packet_def case_prod_unfold
proof (rule quietly_create, rule quietly_bind [OF quietly_announce_services])
  fix a t u and r :: "bool \<times> out_answer list"
  assume q: "quiet s t" "quiet t u" and r: "wf_answers t (snd r)"
  let ?p = "new_packet ifc prot a\<lparr>tx_flags := MDNS_FLAGS_QR_AUTHORITATIVE, tx_answers := snd r\<rparr>"
  have "quietly (bind (mdns_append_host_list_in_services ss True False [])
      (\<lambda>d. return (if fst d then Some (?p\<lparr>tx_servers := snd d\<rparr>) else None))) u (made s ifc prot)"
    by (rule quietly_bind [OF quietly_append_host_list])
      (use assms q r in \<open>auto simp: quiet_wf quiet_same good_tx_def wf_tx_def\<close>)
  then show "quietly (if \<not> fst r then return None else if \<not> include_ip then return (Some ?p)
      else bind (mdns_append_host_list_in_services ss True False [])
        (\<lambda>d. return (if fst d then Some (new_packet ifc prot a\<lparr>tx_flags := MDNS_FLAGS_QR_AUTHORITATIVE,
           tx_answers := snd r, tx_servers := snd d\<rparr>) else None))) u (made s ifc prot)"
    using q r by (simp add: good_tx_def wf_tx_def quiet_wf)
qed (use assms in \<open>simp_all add: quiet_wf\<close>)

lemma quietly_create_probe_packet:
  assumes "\<forall>a\<in>set ss. live s a" "server_hostname s \<noteq> None"
  shows "quietly (mdns_create_probe_packet ifc prot ss unicst include_ip) s (made s ifc prot)"
  unfolding mdns_create_probe_packet_def case_prod_unfold
proof (rule quietly_create, rule quietly_bind [OF quietly_probe_questions])
  fix a t u and r :: "bool \<times> tx_packet"
  assume q: "quiet s t" "quiet t u" and r: "good_tx t ifc prot (snd r)"
  have servers: "quietly (bind (mdns_append_host_list_in_services ss False False (tx_servers (snd r)))
      (\<lambda>d. return (if fst d then Some ((snd r)\<lparr>tx_questions := qs, tx_servers := snd d\<rparr>) else None))) v (made s ifc prot)"
    if "quiet u v" for qs v
    by (rule quietly_bind [OF quietly_append_host_list])
      (use assms q r that in \<open>auto simp: quiet_wf quiet_same good_tx_def wf_tx_def\<close>)
  have "quietly (bind (mdns_append_host_questions_for_services ss unicst (tx_questions (snd r)))
      (\<lambda>q. if \<not> fst q then return None
           else bind (mdns_append_host_list_in_services ss False False (tx_servers (snd r)))
             (\<lambda>d. return (if fst d then Some ((snd r)\<lparr>tx_questions := snd q, tx_servers := snd d\<rparr>) else None)))) u
      (made s ifc prot)"
    by (rule quietly_bind [OF quietly_append_host_questions_for_services])
      (use assms q servers in \<open>simp_all add: quiet_wf\<close>)
  then show "quietly (if \<not> fst r then return None else if \<not> include_ip then return (Some (snd r))
      else bind (mdns_append_host_questions_for_services ss unicst (tx_questions (snd r)))
        (\<lambda>q. if \<not> fst q then return None
             else bind (mdns_append_host_list_in_services ss False False (tx_servers (snd r)))
               (\<lambda>d. return (if fst d then Some ((snd r)\<lparr>tx_questions := snd q, tx_servers := snd d\<rparr>) else None)))) u
      (made s ifc prot)"
    using q r by (simp add: quiet_good)
qed (use assms in \<open>simp_all add: quiet_wf\<close>)

section \<open>The operations keep the responder well-formed\<close>

text \<open>\<open>upholds\<close>: the program ends without a fault, keeps the registry and well-formedness.\<close>

definition same_registry :: "mdns_responder \<Rightarrow> mdns_responder \<Rightarrow> bool" where
  "same_registry s t \<longleftrightarrow>
     services t = services s \<and> server_hostname t = server_hostname s \<and> server_instance t = server_instance s
     \<and> host_list t = host_list s \<and> netif_ready t = netif_ready s"

definition upholds :: "'a rsp_prog \<Rightarrow> mdns_responder \<Rightarrow> bool" where
  "upholds p s \<longleftrightarrow> runs_to p s (\<lambda>_ t. wf_responder t \<and> same_registry s t)"

lemma same_registry_refl [simp]: "same_registry s s"
  by (simp add: same_registry_def)

lemma same_registry_trans: "same_registry s t \<Longrightarrow> same_registry t u \<Longrightarrow> same_registry s u"
  by (simp add: same_registry_def)

lemma quiet_registry: "quiet s t \<Longrightarrow> same_registry s t"
  by (simp add: same_registry_def quiet_same)

lemma same_registry_wf:
  assumes "same_registry s t"
  shows "live t = live s" "wf_answers t = wf_answers s" "wf_tx t = wf_tx s" "wf_pcb t = wf_pcb s" "good_tx t = good_tx s"
  using assms
  by (simp_all add: fun_eq_iff live_def wf_answers_def wf_answer_def wf_tx_def wf_pcb_def good_tx_def same_registry_def)

lemma upholds_return [simp]: "upholds (return r) s = wf_responder s"
  by (simp add: upholds_def)

lemma upholds_bind_gets: "upholds (bind (gets f) k) s = upholds (k (f s)) s"
  by (simp add: upholds_def)

lemma upholds_after: "upholds p t \<Longrightarrow> same_registry s t \<Longrightarrow> runs_to p t (\<lambda>_ u. wf_responder u \<and> same_registry s u)"
  unfolding upholds_def by (erule runs_to_mono) (auto intro: same_registry_trans)

lemma upholds_bind_quietly:
  "quietly p s R \<Longrightarrow> (\<And>r t. R r \<Longrightarrow> quiet s t \<Longrightarrow> upholds (k r) t) \<Longrightarrow> upholds (bind p k) s"
  unfolding quietly_def upholds_def [of "bind p k"] runs_to_bind
  by (erule runs_to_mono) (auto intro: upholds_after quiet_registry)

lemma upholds_bind:
  "upholds p s \<Longrightarrow> (\<And>r t. wf_responder t \<Longrightarrow> same_registry s t \<Longrightarrow> upholds (k r) t) \<Longrightarrow> upholds (bind p k) s"
  unfolding upholds_def [of p] upholds_def [of "bind p k"] runs_to_bind
  by (erule runs_to_mono) (auto intro: upholds_after)

lemma quiet_upholds: "quietly p s Q \<Longrightarrow> wf_responder s \<Longrightarrow> upholds p s"
  unfolding quietly_def upholds_def by (erule runs_to_mono) (auto simp: quiet_wf quiet_registry)

text \<open>Single statements.\<close>

lemma upholds_schedule_tx: "wf_responder s \<Longrightarrow> wf_tx s p \<Longrightarrow> upholds (schedule_tx p ms) s"
  by (simp add: upholds_def schedule_tx_def same_registry_def wf_responder_def wf_tx_def wf_answers_def wf_answer_def
      wf_pcb_def live_def mdns_schedule_tx_packet_def insert_tx_behind)

lemma upholds_dispatch_tx: "wf_responder s \<Longrightarrow> upholds (dispatch_tx p) s"
  by (simp add: upholds_def dispatch_tx_def same_registry_def wf_responder_def wf_tx_def wf_answers_def wf_answer_def
      wf_pcb_def live_def)

lemma upholds_set_pcb: "wf_responder s \<Longrightarrow> wf_pcb s (f (pcbs s ifc prot)) \<Longrightarrow> upholds (set_pcb ifc prot f) s"
  by (simp add: upholds_def set_pcb_def same_registry_def wf_responder_def wf_tx_def wf_answers_def wf_answer_def
      wf_pcb_def live_def)

lemma upholds_clear_queue:
  "wf_responder s \<Longrightarrow> upholds (modify (\<lambda>s. s\<lparr>tx_queue := mdns_clear_pcb_tx_queue_head ifc prot (tx_queue s)\<rparr>)) s"
  unfolding upholds_def same_registry_def wf_responder_def wf_tx_def wf_answers_def wf_answer_def wf_pcb_def live_def
  by (auto simp: clear_pcb_filter)

lemma upholds_replace_tx: "wf_responder s \<Longrightarrow> wf_tx s p \<Longrightarrow> upholds (replace_tx p) s"
  by (auto simp: upholds_def replace_tx_def same_registry_def wf_responder_def wf_tx_def wf_answers_def wf_answer_def
      wf_pcb_def live_def)

lemma wf_responder_same: "wf_responder s \<Longrightarrow> wf_pcb s (pcbs s ifc prot)"
    "wf_responder s \<Longrightarrow> p \<in> set (tx_queue s) \<Longrightarrow> wf_tx s p"
    "wf_responder s \<Longrightarrow> server_hostname s \<noteq> None" "wf_responder s \<Longrightarrow> \<not> str_null_or_empty (server_hostname s)"
  by (auto simp: wf_responder_def str_null_or_empty_iff)

lemma state_order [simp]:
  "PCB_STATE_IS_PROBING st \<longleftrightarrow> st \<in> {PCB_DUP, PCB_INIT, PCB_PROBE_1, PCB_PROBE_2, PCB_PROBE_3}"
  "PCB_STATE_IS_ANNOUNCING st \<longleftrightarrow> st \<in> {PCB_ANNOUNCE_1, PCB_ANNOUNCE_2, PCB_ANNOUNCE_3}"
  by (cases st; simp add: PCB_STATE_IS_PROBING_def PCB_STATE_IS_ANNOUNCING_def less_pcb_state_def)+

lemma upholds_probe_started:
  assumes "wf_responder s" "wf_tx s p" "\<forall>a\<in>set new. live s a"
  shows "upholds (probe_started ifc prot ip new p ms) s"
  using assms
  by (cases "entropy s")
    (simp_all add: upholds_def probe_started_def set_pcb_def esp_random_def schedule_tx_def same_registry_def
      wf_responder_def wf_tx_def wf_answers_def wf_answer_def wf_pcb_def live_def mdns_schedule_tx_packet_def
      insert_tx_behind)

lemma upholds_start_probe:
  assumes "wf_responder s" "\<forall>a\<in>set new. live s a"
  shows "upholds (start_probe ifc prot ip ms new) s"
  unfolding start_probe_def
proof (rule upholds_bind [OF upholds_set_pcb])
  fix t assume t: "wf_responder t" "same_registry s t"
  have "quietly (mdns_create_probe_packet ifc prot new True ip) t (made t ifc prot)"
    using assms t by (intro quietly_create_probe_packet) (simp_all add: same_registry_wf wf_responder_same)
  then show "upholds (bind (mdns_create_probe_packet ifc prot new True ip)
      (\<lambda>pkt. case pkt of None \<Rightarrow> return () | Some p \<Rightarrow> probe_started ifc prot ip new p ms)) t"
    by (rule upholds_bind_quietly)
      (use t assms in \<open>auto simp: quiet_wf good_tx_def same_registry_wf intro!: upholds_probe_started split: option.splits\<close>)
qed (use assms in \<open>auto simp: wf_pcb_def\<close>)

lemma upholds_init_pcb_probe_new_service:
  assumes wf: "wf_responder s" and ss: "\<forall>a\<in>set ss. live s a"
  shows "upholds (mdns_init_pcb_probe_new_service ifc prot ss with_ip) s"
proof -
  let ?b = "pcbs s ifc prot"
  let ?len = "length ss + (if PCB_STATE_IS_PROBING (pcb_state ?b) then length (probe_services ?b) else 0)"
  have b: "wf_pcb s ?b" by (rule wf_responder_same [OF wf])
  then have fits: "length ss + length (probe_services ?b) \<le> ?len"
    by (auto simp: wf_pcb_def simp del: state_order)
  have live: "\<forall>a\<in>set (ss @ probe_services ?b). live s a" using b ss by (auto simp: wf_pcb_def)
  have "upholds (bind malloc (\<lambda>ok. if \<not> ok then return ()
      else if length ss + length (probe_services ?b) > ?len then fail Out_of_bounds
      else start_probe ifc prot ip ms (ss @ probe_services ?b))) s" for ip ms
    by (rule upholds_bind_quietly [OF quietly_malloc [of "\<lambda>_. True"]])
      (use wf fits live in \<open>auto simp: quiet_wf intro!: upholds_start_probe simp del: state_order\<close>)
  moreover have "upholds (start_probe ifc prot ip ms []) s" for ip ms
    using wf by (intro upholds_start_probe) simp_all
  ultimately show ?thesis
    unfolding mdns_init_pcb_probe_new_service_def get_pcb_def Let_def upholds_bind_gets by simp
qed

lemma upholds_init_pcb_probe:
  assumes wf: "wf_responder s" and ss: "\<forall>a\<in>set ss. live s a"
  shows "upholds (mdns_init_pcb_probe ifc prot ss with_ip) s"
  unfolding mdns_init_pcb_probe_def
proof (rule upholds_bind [OF upholds_clear_queue [OF wf]])
  fix t assume t: "wf_responder t" "same_registry s t"
  have "\<forall>a\<in>set ss. live t a" using ss t by (simp add: same_registry_wf)
  then show "upholds (bind (gets server_hostname) (\<lambda>h.
      if str_null_or_empty h then set_pcb ifc prot (\<lambda>b. b\<lparr>pcb_state := PCB_RUNNING\<rparr>)
      else bind (get_pcb ifc prot) (\<lambda>pcb. if PCB_STATE_IS_PROBING (pcb_state pcb)
        then mdns_init_pcb_probe_new_service ifc prot (filter (\<lambda>a. a \<notin> set (probe_services pcb)) ss) with_ip
        else mdns_init_pcb_probe_new_service ifc prot ss with_ip))) t"
    using t(1) by (auto simp: upholds_bind_gets get_pcb_def wf_responder_same intro!: upholds_init_pcb_probe_new_service)
qed

lemma upholds_restart_pcb: "wf_responder s \<Longrightarrow> upholds (mdns_restart_pcb ifc prot) s"
  unfolding mdns_restart_pcb_def upholds_bind_gets by (rule upholds_init_pcb_probe) (auto simp: live_def)

lemma get_next_in_queue: "mdns_get_next_pcb_packet ifc prot q = Some p \<Longrightarrow> p \<in> set q"
  unfolding mdns_get_next_pcb_packet_def by (induction q) (auto split: if_splits)

lemma dealloc_answer_wf: "wf_answers s as \<Longrightarrow> wf_answers s (mdns_dealloc_answer type x as)"
  by (induction as) auto

text \<open>The queued announcement gets the answers for the services, and is put back.\<close>

lemma upholds_extend_announcement:
  assumes wf: "wf_responder s" and p: "wf_tx s p" and ss: "\<forall>a\<in>set ss. live s a" and st: "probe_services (pcbs s ifc prot) = []"
  shows "upholds (extend_announcement ifc prot ss include_ip p) s"
  unfolding extend_announcement_def case_prod_unfold
proof (rule upholds_bind_quietly [OF quietly_announce_services])
  fix r :: "bool \<times> out_answer list" and t
  assume r: "wf_answers s (snd r)" and t: "quiet s t"
  have put: "upholds (bind (replace_tx p') (\<lambda>_. set_pcb ifc prot (\<lambda>b. b\<lparr>pcb_state := PCB_ANNOUNCE_1\<rparr>))) u"
    if "wf_tx s p'" "quiet t u" for p' u
  proof -
    have su: "quiet s u" using t that(2) by (rule quiet_trans)
    have "wf_responder u" "wf_tx u p'" using su wf that(1) by (simp_all add: quiet_wf)
    moreover have "probe_services (pcbs u ifc prot) = []" using su st by (simp add: quiet_same)
    ultimately show ?thesis
      by (auto simp: upholds_def replace_tx_def set_pcb_def same_registry_def wf_responder_def wf_tx_def wf_answers_def
          wf_answer_def wf_pcb_def live_def)
  qed
  have "quietly (if include_ip
      then bind (mdns_append_host_list_in_services ss True False (snd r)) (\<lambda>q.
        return (p\<lparr>tx_answers := snd q, tx_additional :=
          mdns_dealloc_answer MDNS_TYPE_AAAA None (mdns_dealloc_answer MDNS_TYPE_A None (tx_additional p))\<rparr>))
      else return (p\<lparr>tx_answers := snd r\<rparr>)) t (wf_tx s)"
  proof (cases include_ip)
    case True
    have "quietly (mdns_append_host_list_in_services ss True False (snd r)) t (\<lambda>q. wf_answers s (snd q))"
      using quietly_append_host_list [of ss t "snd r" True False] ss t r wf
      by (simp add: quiet_wf quiet_same wf_responder_same)
    then show ?thesis
      apply (simp only: True if_True)
      apply (erule quietly_bind)
      using p by (simp add: wf_tx_def dealloc_answer_wf)
  qed (use p r in \<open>simp add: wf_tx_def\<close>)
  then show "upholds (bind (if include_ip
      then bind (mdns_append_host_list_in_services ss True False (snd r)) (\<lambda>q.
        return (p\<lparr>tx_answers := snd q, tx_additional :=
          mdns_dealloc_answer MDNS_TYPE_AAAA None (mdns_dealloc_answer MDNS_TYPE_A None (tx_additional p))\<rparr>))
      else return (p\<lparr>tx_answers := snd r\<rparr>))
     (\<lambda>p'. bind (replace_tx p') (\<lambda>_. set_pcb ifc prot (\<lambda>b. b\<lparr>pcb_state := PCB_ANNOUNCE_1\<rparr>)))) t"
    by (rule upholds_bind_quietly) (rule put)
qed (use p ss in \<open>simp_all add: wf_tx_def\<close>)

lemma upholds_announce_pcb:
  assumes wf: "wf_responder s" and ss: "\<forall>a\<in>set ss. live s a"
  shows "upholds (mdns_announce_pcb ifc prot ss include_ip) s"
proof -
  have idle: "probe_services (pcbs s ifc prot) = []" if "\<not> PCB_STATE_IS_PROBING (pcb_state (pcbs s ifc prot))"
    using that wf_responder_same(1) [OF wf, of ifc prot] by (auto simp: wf_pcb_def simp del: state_order)
  have extend: "upholds (case mdns_get_next_pcb_packet ifc prot (tx_queue s) of None \<Rightarrow> return ()
      | Some p \<Rightarrow> extend_announcement ifc prot ss include_ip p) s"
    if "\<not> PCB_STATE_IS_PROBING (pcb_state (pcbs s ifc prot))"
    using wf ss idle [OF that] get_next_in_queue wf_responder_same(2) [OF wf]
    by (fastforce split: option.splits intro: upholds_extend_announcement)
  have new: "upholds (bind (set_pcb ifc prot (\<lambda>b. b\<lparr>pcb_state := PCB_ANNOUNCE_1\<rparr>)) (\<lambda>_.
      bind (mdns_create_announce_packet ifc prot ss include_ip) (\<lambda>pkt. case pkt of None \<Rightarrow> return () | Some p \<Rightarrow>
      schedule_tx p 0))) s"
    if "\<not> PCB_STATE_IS_PROBING (pcb_state (pcbs s ifc prot))"
  proof (rule upholds_bind [OF upholds_set_pcb [OF wf]])
    fix t assume t: "wf_responder t" "same_registry s t"
    have "quietly (mdns_create_announce_packet ifc prot ss include_ip) t (made t ifc prot)"
      using ss t by (intro quietly_create_announce_packet) (simp_all add: same_registry_wf wf_responder_same)
    then show "upholds (bind (mdns_create_announce_packet ifc prot ss include_ip)
        (\<lambda>pkt. case pkt of None \<Rightarrow> return () | Some p \<Rightarrow> schedule_tx p 0)) t"
      by (rule upholds_bind_quietly)
        (use t in \<open>auto simp: quiet_wf good_tx_def intro!: upholds_schedule_tx split: option.splits\<close>)
  qed (use idle [OF that] in \<open>simp add: wf_pcb_def\<close>)
  show ?thesis
    unfolding mdns_announce_pcb_def get_pcb_def upholds_bind_gets
    using wf extend new upholds_init_pcb_probe [OF wf ss] by (simp add: upholds_bind_gets del: state_order)
qed

lemma upholds_announce_probed:
  assumes wf: "wf_responder s" and p: "wf_tx s p" and st: "pcb_state (pcbs s (tx_if p) (tx_proto p)) = PCB_PROBE_3"
  shows "upholds (announce_probed p) s"
  unfolding announce_probed_def advance_state_def
proof (rule upholds_bind_quietly [OF quietly_create_announce_from_probe])
  fix r t assume r: "made s (tx_if p) (tx_proto p) r" and t: "quiet s t"
  show "upholds (case r of None \<Rightarrow> schedule_tx p 250 | Some a \<Rightarrow>
      block [set_pcb (tx_if p) (tx_proto p)
               (\<lambda>b. b\<lparr>probe_running := False, probe_ip := False, failed_probes := 0, probe_services := []\<rparr>),
             schedule_tx a 250, set_pcb (tx_if p) (tx_proto p) (\<lambda>b. b\<lparr>pcb_state := pcb_next (pcb_state b)\<rparr>)]) t"
  proof (cases r)
    case None
    then show ?thesis using upholds_schedule_tx wf p t by (simp add: quiet_wf)
  next
    case (Some a)
    have "wf_responder t" "wf_tx t a" using r t wf Some by (simp_all add: quiet_wf good_tx_def)
    then show ?thesis
      unfolding Some
      by (auto simp: upholds_def set_pcb_def schedule_tx_def same_registry_def wf_responder_def wf_tx_def wf_answers_def
          wf_answer_def wf_pcb_def live_def mdns_schedule_tx_packet_def insert_tx_behind)
  qed
qed (use wf p in \<open>simp_all add: wf_tx_def wf_responder_same\<close>)

lemma upholds_schedule_advance:
  assumes wf: "wf_responder s" and p: "wf_tx s p'" and b: "pcb_state (pcbs s (tx_if p) (tx_proto p)) \<in>
      {PCB_PROBE_1, PCB_PROBE_2, PCB_ANNOUNCE_1, PCB_ANNOUNCE_2}"
  shows "upholds (bind (schedule_tx p' ms) (\<lambda>_. advance_state p)) s"
proof -
  have "wf_pcb s ((pcbs s (tx_if p) (tx_proto p))\<lparr>pcb_state := pcb_next (pcb_state (pcbs s (tx_if p) (tx_proto p)))\<rparr>)"
    using wf_responder_same(1) [OF wf, of "tx_if p" "tx_proto p"] b by (auto simp: wf_pcb_def pcb_next_def)
  then show ?thesis
    using wf p
    by (simp add: upholds_def advance_state_def set_pcb_def schedule_tx_def same_registry_def wf_responder_def wf_tx_def
          wf_answers_def wf_answer_def wf_pcb_def live_def mdns_schedule_tx_packet_def insert_tx_behind)
qed

lemma wf_tx_no_unicast [simp]: "wf_tx s (no_unicast p) = wf_tx s p"
  by (simp add: wf_tx_def no_unicast_def)

lemma upholds_after_dispatch:
  assumes wf: "wf_responder s" and p: "wf_tx s p"
  shows "upholds (after_dispatch p (pcb_state (pcbs s (tx_if p) (tx_proto p)))) s"
  using assms upholds_announce_probed [OF assms] wf_responder_same(1) [OF wf, of "tx_if p" "tx_proto p"]
  by (auto simp: after_dispatch_def wf_pcb_def intro!: upholds_schedule_advance upholds_set_pcb)

lemma upholds_tx_handle_packet:
  assumes wf: "wf_responder s" and p: "wf_tx s p"
  shows "upholds (mdns_tx_handle_packet p) s"
proof -
  let ?t = "s\<lparr>dispatched := dispatched s @ [p]\<rparr>"
  have t: "wf_responder ?t" "same_registry s ?t"
    using upholds_dispatch_tx [OF wf, of p] by (simp_all add: upholds_def dispatch_tx_def)
  have "upholds (after_dispatch p (pcb_state (pcbs ?t (tx_if p) (tx_proto p)))) ?t"
    by (rule upholds_after_dispatch [OF t(1)]) (use p t(2) in \<open>simp add: same_registry_wf\<close>)
  then have "upholds (bind (dispatch_tx p) (\<lambda>_. after_dispatch p (pcb_state (pcbs s (tx_if p) (tx_proto p))))) s"
    using upholds_after [OF _ t(2)] by (simp add: upholds_def [of "bind _ _"] dispatch_tx_def)
  then show ?thesis
    unfolding mdns_tx_handle_packet_def get_pcb_def upholds_bind_gets using wf by simp
qed

lemma upholds_execute_tx_handle: "wf_responder s \<Longrightarrow> upholds (execute_tx_handle a) s"
proof -
  assume wf: "wf_responder s"
  show ?thesis
  proof (cases "take_tx a (tx_queue s)")
    case (Pair taken q')
    show ?thesis
    proof (cases taken)
      case None
      then show ?thesis using Pair wf by (simp add: execute_tx_handle_def upholds_bind_gets)
    next
      case (Some p)
      then obtain p0 where q: "tx_queue s = p0 # q'" "p = p0\<lparr>tx_queued := False\<rparr>"
        using Pair by (auto simp: take_tx_def split: list.splits if_splits)
      have "upholds (modify (\<lambda>s. s\<lparr>tx_queue := q'\<rparr>)) s"
        using wf q by (simp add: upholds_def same_registry_def wf_responder_def wf_tx_def wf_answers_def wf_answer_def
            wf_pcb_def live_def)
      moreover have "wf_tx s p" using wf q by (simp add: wf_responder_def wf_tx_def)
      ultimately have "upholds (bind (modify (\<lambda>s. s\<lparr>tx_queue := q'\<rparr>)) (\<lambda>_. mdns_tx_handle_packet p)) s"
        by (intro upholds_bind) (simp_all add: same_registry_wf upholds_tx_handle_packet)
      then show ?thesis by (simp add: execute_tx_handle_def upholds_bind_gets Pair Some)
    qed
  qed
qed

section \<open>With enough memory\<close>

text \<open>The announcement a probe leads to, as a function of the records the probe claims.\<close>

definition add_answer :: "out_answer \<Rightarrow> out_answer list \<Rightarrow> out_answer list" where
  "add_answer a d = (if \<exists>x\<in>set d. same_answer a x then d else d @ [a])"

definition add_answers :: "out_answer list \<Rightarrow> out_answer list \<Rightarrow> out_answer list" where
  "add_answers as d = foldl (\<lambda>d a. add_answer a d) d as"

definition service_host :: "'a mdns_registry_scheme \<Rightarrow> nat \<Rightarrow> host_ptr option" where
  "service_host s a =
     (case find (\<lambda>i. item_at i = a) (services s) of
        None \<Rightarrow> None
      | Some i \<Rightarrow> (case mdns_get_host_item s (srv_hostname (srv i)) of Inl _ \<Rightarrow> None | Inr h \<Rightarrow> h))"

definition answers_claimed_by :: "'a mdns_registry_scheme \<Rightarrow> out_answer \<Rightarrow> out_answer list" where
  "answers_claimed_by s c =
     (if a_type c = MDNS_TYPE_SRV then service_answers (the (a_service c)) @ host_answers (service_host s (the (a_service c))) True False
      else if a_type c = MDNS_TYPE_A \<or> a_type c = MDNS_TYPE_AAAA then [answer (a_type c) None (a_host c) True False]
      else [])"

definition announcement_of :: "mdns_responder \<Rightarrow> tx_packet \<Rightarrow> tx_packet" where
  "announcement_of s p = (new_packet (tx_if p) (tx_proto p) (next_at s))
     \<lparr>tx_flags := MDNS_FLAGS_QR_AUTHORITATIVE,
      tx_answers := add_answers (concat (map (answers_claimed_by s) (tx_servers p))) []\<rparr>"

lemma alloc_answer_run: "heap s = [] \<Longrightarrow> mdns_alloc_answer a d s = Inr ((True, add_answer a d), s)"
  by (simp add: mdns_alloc_answer_def add_answer_def malloc_def prog_simps)

lemma alloc_answers_run: "heap s = [] \<Longrightarrow> alloc_answers as d s = Inr ((True, add_answers as d), s)"
  by (induction as arbitrary: d) (simp_all add: add_answers_def alloc_answer_run prog_simps)

lemma host_of_service_run:
  assumes "live s a" "server_hostname s \<noteq> None"
  shows "host_of_service a s = Inr (service_host s a, s)"
proof -
  obtain i where "find (\<lambda>i. item_at i = a) (services s) = Some i"
    using assms(1) find_is_Some [of "\<lambda>i. item_at i = a" "services s"] by (auto simp: live_def)
  moreover have "\<exists>h. mdns_get_host_item s (srv_hostname (srv i)) = Inr h"
    using assms(2) by (cases "srv_hostname (srv i)") (auto simp: mdns_get_host_item_def same_string_def split: bool.splits)
  ultimately show ?thesis
    by (auto simp: host_of_service_def service_item_def service_host_def lift_def prog_simps)
qed

lemma add_answers_append: "add_answers (as @ bs) d = add_answers bs (add_answers as d)"
  by (simp add: add_answers_def)

lemma add_answers_Nil [simp]: "add_answers [] d = d"
  by (simp add: add_answers_def)

lemma add_answers_single: "add_answers [a] d = add_answer a d"
  by (simp add: add_answers_def)

lemma announce_claimed_run:
  "heap s = [] \<Longrightarrow> server_hostname s \<noteq> None \<Longrightarrow> wf_answers s cs \<Longrightarrow>
   announce_claimed cs d s = Inr ((True, add_answers (concat (map (answers_claimed_by s) cs)) d), s)"
proof (induction cs arbitrary: d)
  case (Cons c cs)
  show ?case
  proof (cases "a_type c = MDNS_TYPE_SRV")
    case True
    then obtain a where a: "a_service c = Some a" "live s a" using Cons.prems(3) by (auto simp: wf_answer_def)
    then show ?thesis
      using Cons True by (simp add: prog_simps alloc_answers_run host_of_service_run answers_claimed_by_def add_answers_append)
  next
    case False
    then show ?thesis
      using Cons by (simp add: prog_simps alloc_answer_run answers_claimed_by_def add_answers_append flip: add_answers_single)
  qed
qed (simp add: add_answers_def prog_simps)

lemma same_registry_claims:
  assumes "same_registry s t"
  shows "answers_claimed_by t = answers_claimed_by s"
proof -
  have "mdns_get_host_item t = mdns_get_host_item s"
    using assms by (intro ext)
      (simp add: same_registry_def mdns_get_host_item_def cong: option.case_cong sum.case_cong bool.case_cong)
  then show ?thesis
    using assms by (simp add: fun_eq_iff same_registry_def answers_claimed_by_def service_host_def cong: option.case_cong)
qed

lemma create_announce_from_probe_run:
  assumes "heap s = []" "server_hostname s \<noteq> None" "wf_tx s p"
  shows "mdns_create_announce_from_probe p s = Inr (Some (announcement_of s p), s\<lparr>next_at := next_at s + 1\<rparr>)"
proof -
  let ?t = "s\<lparr>next_at := next_at s + 1\<rparr>"
  have wf: "wf_answers ?t (tx_servers p)" using assms(3) by (simp add: wf_tx_def wf_answers_def wf_answer_def live_def)
  have "answers_claimed_by ?t = answers_claimed_by s"
    by (rule same_registry_claims) (simp add: same_registry_def)
  then show ?thesis
    using announce_claimed_run [OF _ _ wf, of "[]"] assms(1,2)
    by (simp add: mdns_create_announce_from_probe_def mdns_alloc_packet_default_def malloc_def announcement_of_def prog_simps)
qed

text \<open>Everything that is claimed is among the answers.\<close>

lemma add_answers_has: "\<forall>x\<in>set as. \<exists>y\<in>set (add_answers as d). same_answer x y"
proof -
  have mono: "set d \<subseteq> set (add_answers as d)" for as d
  proof (induction as arbitrary: d)
    case (Cons a as)
    have "set d \<subseteq> set (add_answer a d)" by (auto simp: add_answer_def)
    then show ?case using Cons.IH [of "add_answer a d"] by (auto simp: add_answers_def)
  qed simp
  show ?thesis
  proof (induction as arbitrary: d)
    case (Cons a as)
    have "\<exists>y\<in>set (add_answer a d). same_answer a y" by (auto simp: add_answer_def same_answer_def)
    then show ?case
      using Cons.IH [of "add_answer a d"] mono [of "add_answer a d" as] by (auto simp: add_answers_def)
  qed simp
qed

section \<open>From the first probe to the last announcement\<close>

text \<open>
  One turn: at time \<open>now\<close> the timer task hands over the packet at the head of the queue, and the
  mDNS task executes the action.
\<close>

definition tx_turn :: "u32 \<Rightarrow> unit rsp_prog" where
  "tx_turn now =
     bind (modify (\<lambda>s. s\<lparr>millis := now, tx_queue := mark_queued (tx_queue s)\<rparr>)) (\<lambda>_.
     bind (gets tx_queue) (\<lambda>q. case q of [] \<Rightarrow> return () | p # _ \<Rightarrow> execute_tx_handle (tx_at p)))"

definition state_of :: "mdns_responder \<Rightarrow> tx_packet \<Rightarrow> pcb_state" where
  "state_of s p = pcb_state (pcbs s (tx_if p) (tx_proto p))"

text \<open>What a turn leaves behind: the packets still queued, the next state, and the packet sent.\<close>

definition turned :: "mdns_responder \<Rightarrow> tx_packet \<Rightarrow> tx_packet list \<Rightarrow> pcb_state \<Rightarrow> mdns_responder \<Rightarrow> bool" where
  "turned s p q st t \<longleftrightarrow>
     tx_queue t = q \<and> state_of t p = st \<and> dispatched t = dispatched s @ [p] \<and> heap t = heap s \<and> same_registry s t
     \<and> (\<forall>a\<in>set q. tx_if a = tx_if p \<and> tx_proto a = tx_proto p \<and> \<not> tx_queued a)"

lemma tx_turn_run:
  assumes "tx_queue s = [p]" "\<not> tx_queued p"
  shows "tx_turn now s = mdns_tx_handle_packet p (s\<lparr>millis := now, tx_queue := []\<rparr>)"
proof -
  have same: "p\<lparr>tx_queued := False\<rparr> = p" using assms(2) by (cases p) simp
  show ?thesis
    using assms by (simp add: tx_turn_def execute_tx_handle_def take_tx_def prog_simps) (simp only: same)
qed

lemma no_unicast_simps [simp]:
  "tx_if (no_unicast p) = tx_if p" "tx_proto (no_unicast p) = tx_proto p" "tx_queued (no_unicast p) = tx_queued p"
  "tx_servers (no_unicast p) = tx_servers p"
  by (simp_all add: no_unicast_def)

lemmas turn_defs = mdns_tx_handle_packet_def after_dispatch_def dispatch_tx_def schedule_tx_def advance_state_def
  get_pcb_def set_pcb_def mdns_schedule_tx_packet_def insert_tx_def turned_def state_of_def same_registry_def pcb_next_def

lemma turn_again:
  assumes "tx_queue s = [p]" "\<not> tx_queued p" "state_of s p \<in> {PCB_PROBE_1, PCB_PROBE_2, PCB_ANNOUNCE_1, PCB_ANNOUNCE_2}"
  defines "q \<equiv> if state_of s p = PCB_PROBE_1 then no_unicast p else p"
    and "ms \<equiv> if state_of s p \<in> {PCB_PROBE_1, PCB_PROBE_2} then 250 else 1000"
  shows "runs_to (tx_turn now) s (\<lambda>_. turned s p [q\<lparr>tx_send_at := now + ms\<rparr>] (pcb_next (state_of s p)))"
  unfolding runs_to_def tx_turn_run [OF assms(1,2)]
  using assms(2,3) by (auto simp: turn_defs q_def ms_def prog_simps)

lemma turn_last:
  assumes "tx_queue s = [p]" "\<not> tx_queued p" "state_of s p = PCB_ANNOUNCE_3"
  shows "runs_to (tx_turn now) s (\<lambda>_. turned s p [] PCB_RUNNING)"
  unfolding runs_to_def tx_turn_run [OF assms(1,2)]
  using assms(2,3) by (simp add: turn_defs prog_simps)

lemma turn_announce:
  assumes "tx_queue s = [p]" "\<not> tx_queued p" "state_of s p = PCB_PROBE_3"
    and "heap s = []" "server_hostname s \<noteq> None" "wf_tx s p"
  shows "runs_to (tx_turn now) s (\<lambda>_ t. turned s p [(announcement_of s p)\<lparr>tx_send_at := now + 250\<rparr>] PCB_ANNOUNCE_1 t
    \<and> \<not> probe_running (pcbs t (tx_if p) (tx_proto p)) \<and> probe_services (pcbs t (tx_if p) (tx_proto p)) = [])"
proof -
  let ?s = "s\<lparr>millis := now, tx_queue := [], dispatched := dispatched s @ [p]\<rparr>"
  have "wf_tx ?s p" using assms(6) by (simp add: wf_tx_def wf_answers_def wf_answer_def live_def)
  moreover have "announcement_of ?s p = announcement_of s p"
    using same_registry_claims [of s ?s] by (simp add: announcement_of_def same_registry_def)
  ultimately have "mdns_create_announce_from_probe p ?s = Inr (Some (announcement_of s p), ?s\<lparr>next_at := next_at s + 1\<rparr>)"
    using create_announce_from_probe_run [of ?s p] assms(4,5) by simp
  then show ?thesis
    unfolding runs_to_def tx_turn_run [OF assms(1,2)]
    using assms(2,3) by (simp add: turn_defs announce_probed_def prog_simps announcement_of_def)
qed

lemma runs_toE: "runs_to p s Q \<Longrightarrow> (\<And>a t. p s = Inr (a, t) \<Longrightarrow> Q a t \<Longrightarrow> thesis) \<Longrightarrow> thesis"
  by (auto simp: runs_to_def split: sum.splits)

lemma runs_to_unitE:
  fixes p :: "unit rsp_prog"
  shows "runs_to p s Q \<Longrightarrow> (\<And>t. p s = Inr ((), t) \<Longrightarrow> Q () t \<Longrightarrow> thesis) \<Longrightarrow> thesis"
  by (auto simp: runs_to_def split: sum.splits)

lemma state_of_same: "tx_if q = tx_if p \<Longrightarrow> tx_proto q = tx_proto p \<Longrightarrow> state_of s q = state_of s p"
  by (simp add: state_of_def)

lemma announcement_has_claims:
  "c \<in> set (tx_servers p) \<Longrightarrow> x \<in> set (answers_claimed_by s c) \<Longrightarrow> \<exists>y\<in>set (tx_answers (announcement_of s p)). same_answer x y"
  using add_answers_has [of "concat (map (answers_claimed_by s) (tx_servers p))" "[]"] by (auto simp: announcement_of_def)

text \<open>A handed over packet is executed in a queue of others.\<close>

lemma execute_tx_handle_run:
  "tx_queue s = p # q \<Longrightarrow> tx_queued p \<Longrightarrow>
   execute_tx_handle (tx_at p) s = mdns_tx_handle_packet (p\<lparr>tx_queued := False\<rparr>) (s\<lparr>tx_queue := q\<rparr>)"
  by (simp add: execute_tx_handle_def take_tx_def prog_simps)

lemma probed_three_times:
  assumes "wf_responder s" "heap s = []" "tx_queue s = [p]" "\<not> tx_queued p" "state_of s p = PCB_PROBE_1"
  shows "runs_to (block (map tx_turn [t1, t2, t3])) s (\<lambda>_ t. \<exists>a.
    tx_queue t = [a\<lparr>tx_send_at := t3 + 250\<rparr>] \<and> tx_if a = tx_if p \<and> tx_proto a = tx_proto p \<and> \<not> tx_queued a
    \<and> state_of t p = PCB_ANNOUNCE_1
    \<and> dispatched t = dispatched s @ [p, (no_unicast p)\<lparr>tx_send_at := t1 + 250\<rparr>, (no_unicast p)\<lparr>tx_send_at := t2 + 250\<rparr>]
    \<and> (\<forall>c\<in>set (tx_servers p). \<forall>x\<in>set (answers_claimed_by s c). \<exists>y\<in>set (tx_answers a). same_answer x y))"
proof -
  let ?p1 = "(no_unicast p)\<lparr>tx_send_at := t1 + 250\<rparr>" and ?p2 = "(no_unicast p)\<lparr>tx_send_at := t2 + 250\<rparr>"
  obtain s1 where s1: "tx_turn t1 s = Inr ((), s1)" "turned s p [?p1] PCB_PROBE_2 s1"
    using turn_again [OF assms(3,4), of t1] assms(5) by (auto simp: pcb_next_def elim: runs_toE)
  have p1: "state_of s1 ?p1 = PCB_PROBE_2" "tx_queue s1 = [?p1]" "\<not> tx_queued ?p1"
    using s1(2) assms(4) by (simp_all add: turned_def state_of_def)
  obtain s2 where s2: "tx_turn t2 s1 = Inr ((), s2)" "turned s1 ?p1 [?p2] PCB_PROBE_3 s2"
    using turn_again [OF p1(2,3), of t2] p1(1) by (auto simp: pcb_next_def elim: runs_toE)
  have p2: "state_of s2 ?p2 = PCB_PROBE_3" "tx_queue s2 = [?p2]" "\<not> tx_queued ?p2" "heap s2 = []" "same_registry s s2"
    using s1(2) s2(2) assms(2,4) by (auto simp: turned_def state_of_def intro: same_registry_trans)
  have "wf_tx s p" using assms(1,3) by (simp add: wf_responder_def)
  then have wf: "wf_tx s2 ?p2" using p2(5) by (simp add: same_registry_wf) (simp add: wf_tx_def no_unicast_def)
  have host: "server_hostname s2 \<noteq> None" using p2(5) wf_responder_same(3) [OF assms(1)] by (simp add: same_registry_def)
  define a where "a = announcement_of s2 ?p2"
  obtain s3 where s3: "tx_turn t3 s2 = Inr ((), s3)" "turned s2 ?p2 [a\<lparr>tx_send_at := t3 + 250\<rparr>] PCB_ANNOUNCE_1 s3"
    using turn_announce [OF p2(2,3,1,4) host wf, of t3] by (auto simp: a_def elim: runs_toE)
  have "\<forall>c\<in>set (tx_servers p). \<forall>x\<in>set (answers_claimed_by s c). \<exists>y\<in>set (tx_answers a). same_answer x y"
    using announcement_has_claims [of _ ?p2 _ s2] same_registry_claims [OF p2(5)] by (simp add: a_def)
  moreover have "tx_if a = tx_if p" "tx_proto a = tx_proto p" "\<not> tx_queued a" by (simp_all add: a_def announcement_of_def)
  ultimately show ?thesis
    using s1 s2 s3 by (auto simp: runs_to_def prog_simps turned_def state_of_def intro!: exI [of _ a])
qed

lemma announced_three_times:
  assumes "tx_queue s = [a]" "\<not> tx_queued a" "state_of s a = PCB_ANNOUNCE_1"
  shows "runs_to (block (map tx_turn [t1, t2, t3])) s (\<lambda>_ t. state_of t a = PCB_RUNNING \<and> tx_queue t = []
    \<and> dispatched t = dispatched s @ [a, a\<lparr>tx_send_at := t1 + 1000\<rparr>, a\<lparr>tx_send_at := t2 + 1000\<rparr>])"
proof -
  let ?a1 = "a\<lparr>tx_send_at := t1 + 1000\<rparr>" and ?a2 = "a\<lparr>tx_send_at := t2 + 1000\<rparr>"
  obtain s1 where s1: "tx_turn t1 s = Inr ((), s1)" "turned s a [?a1] PCB_ANNOUNCE_2 s1"
    using turn_again [OF assms(1,2), of t1] assms(3) by (auto simp: pcb_next_def elim: runs_toE)
  then have a1: "tx_queue s1 = [?a1]" "\<not> tx_queued ?a1" "state_of s1 ?a1 = PCB_ANNOUNCE_2"
    using assms(2) by (simp_all add: turned_def state_of_def)
  obtain s2 where s2: "tx_turn t2 s1 = Inr ((), s2)" "turned s1 ?a1 [?a2] PCB_ANNOUNCE_3 s2"
    using turn_again [OF a1(1,2), of t2] a1(3) by (auto simp: pcb_next_def elim: runs_toE)
  then have a2: "tx_queue s2 = [?a2]" "\<not> tx_queued ?a2" "state_of s2 ?a2 = PCB_ANNOUNCE_3"
    using assms(2) by (simp_all add: turned_def state_of_def)
  obtain s3 where s3: "tx_turn t3 s2 = Inr ((), s3)" "turned s2 ?a2 [] PCB_RUNNING s3"
    using turn_last [OF a2, of t3] by (auto elim: runs_toE)
  show ?thesis
    using s1 s2 s3 by (auto simp: runs_to_def prog_simps turned_def state_of_def)
qed

section \<open>Properties\<close>


text \<open>The witness: the car's responder with its service, idle.\<close>

definition idle_pcb :: mdns_pcb where
  "idle_pcb = \<lparr>pcb_state = PCB_INIT, probe_services = [], probe_ip = False, probe_running = False, failed_probes = 0\<rparr>"

definition car_responder :: mdns_responder where
  "car_responder = \<lparr>server_instance = None, server_hostname = Some (bytes_of ''car1''),
      services = [car_service], host_list = [], tx_queue = [], pcbs = (\<lambda>_ _. idle_pcb), netif_ready = (\<lambda>_ _. True),
      heap = [], entropy = [], next_at = 0, millis = 0, dispatched = []\<rparr>"

lemma wf_car_responder: "wf_responder car_responder"
  by (simp add: wf_responder_def car_responder_def idle_pcb_def wf_pcb_def bytes_of_def)



text \<open>The witness: the car's name, probed at 130, 380, 630 ms.\<close>

definition probe_packet :: tx_packet where
  "probe_packet = (new_packet 0 V4 0)\<lparr>tx_questions := [probe_question 1 True (Some Server_hostname)],
     tx_servers := [answer MDNS_TYPE_SRV (Some 1) None False False, answer MDNS_TYPE_A None (Some Self_host) False False]\<rparr>"

definition probing_responder :: mdns_responder where
  "probing_responder = car_responder\<lparr>tx_queue := [probe_packet], next_at := 1,
     pcbs := (\<lambda>_ _. idle_pcb\<lparr>pcb_state := PCB_PROBE_1, probe_services := [1], probe_running := True\<rparr>)\<rparr>"




text \<open>An answer that is sent while a name is announced is taken for the announcement: it is sent
  a second time a second later, and for it the announcement is sent once less. The packet at address 1 answers
  a question; packet 2 is the announcement, of which only two of three transmissions are left.\<close>

theorem answer_taken_for_announcement:
  "let answering = car_responder\<lparr>tx_queue := [(packet_at 1)\<lparr>tx_send_at := 100\<rparr>, (packet_at 2)\<lparr>tx_send_at := 250\<rparr>],
         pcbs := (\<lambda>_ _. idle_pcb\<lparr>pcb_state := PCB_ANNOUNCE_1\<rparr>)\<rparr>
   in runs_to (block (map tx_turn [100, 250, 1100, 1250])) answering
        (\<lambda>_ t. map tx_at (dispatched t) = [1, 2, 1, 2] \<and> tx_queue t = [] \<and> pcb_state (pcbs t 0 V4) = PCB_RUNNING)"
  by (simp add: Let_def runs_to_def prog_simps tx_turn_def execute_tx_handle_def take_tx_def packet_at_def turn_defs
      car_responder_def idle_pcb_def)

end
