(* ===== verification/Mdns_Actions.thy ===== *)
theory Mdns_Actions
  imports Mdns_Pcb
begin

text \<open>
  What the mDNS task does on the actions that change the registry, of \<open>_mdns_execute_action\<close> in
  \<open>managed_components/espressif__mdns/mdns.c\<close>: services added, changed and removed, a new host
  or instance name, with the goodbyes, probes and announcements these lead to on every interface.

  The theory shows that the actions keep a responder well-formed, that no answer in the queue
  refers to a service after it was removed, and two ways in which a removal goes wrong.

  A service is unlinked and freed at the end of its removal: nothing in between reads the list.
\<close>

section \<open>All interfaces\<close>

definition all_pcbs :: "(nat \<times> ip_protocol) list" where
  "all_pcbs = concat (map (\<lambda>i. [(i, V4), (i, V6)]) [0..<MDNS_MAX_INTERFACES])"

definition for_pcbs :: "(nat \<Rightarrow> ip_protocol \<Rightarrow> unit rsp_prog) \<Rightarrow> unit rsp_prog" where
  "for_pcbs body = block (map (\<lambda>(i, j). body i j) all_pcbs)"

definition mdns_probe_all_pcbs :: "nat list \<Rightarrow> bool \<Rightarrow> bool \<Rightarrow> unit rsp_prog" where
  "mdns_probe_all_pcbs ss with_ip clear_old_probe =
     for_pcbs (\<lambda>i j. bind (gets (\<lambda>s. netif_ready s i j)) (\<lambda>ready.
       if \<not> ready then return ()
       else block
         [if_then clear_old_probe (set_pcb i j (\<lambda>b. b\<lparr>probe_services := [], probe_running := False\<rparr>)),
          mdns_init_pcb_probe i j ss with_ip]))"

definition mdns_announce_all_pcbs :: "nat list \<Rightarrow> bool \<Rightarrow> unit rsp_prog" where
  "mdns_announce_all_pcbs ss include_ip = for_pcbs (\<lambda>i j. mdns_announce_pcb i j ss include_ip)"

definition mdns_pcb_send_bye :: "nat \<Rightarrow> ip_protocol \<Rightarrow> nat list \<Rightarrow> bool \<Rightarrow> unit rsp_prog" where
  "mdns_pcb_send_bye ifc prot ss include_ip =
     bind (mdns_alloc_packet_default ifc prot) (\<lambda>pkt. case pkt of None \<Rightarrow> return () | Some p \<Rightarrow>
     bind (alloc_answers (map (\<lambda>a. answer MDNS_TYPE_PTR (Some a) None True True) ss) []) (\<lambda>(ok, d).
     if \<not> ok then return ()
     else bind (if include_ip then mdns_append_host_list_in_services ss True True d else return (True, d)) (\<lambda>(_, d').
          dispatch_tx (p\<lparr>tx_flags := MDNS_FLAGS_QR_AUTHORITATIVE, tx_answers := d'\<rparr>))))"

definition mdns_send_bye :: "nat list \<Rightarrow> bool \<Rightarrow> unit rsp_prog" where
  "mdns_send_bye ss include_ip =
     bind (gets server_hostname) (\<lambda>h.
     if str_null_or_empty h then return ()
     else for_pcbs (\<lambda>i j. bind (gets (\<lambda>s. netif_ready s i j \<and> pcb_state (pcbs s i j) = PCB_RUNNING)) (\<lambda>running.
            if_then running (mdns_pcb_send_bye i j ss include_ip))))"

definition services_without_instance :: "'a mdns_registry_scheme \<Rightarrow> nat list" where
  "services_without_instance s = map item_at (filter (\<lambda>i. srv_instance (srv i) = None) (services s))"

definition mdns_send_bye_all_pcbs_no_instance :: "bool \<Rightarrow> unit rsp_prog" where
  "mdns_send_bye_all_pcbs_no_instance include_ip =
     bind (gets services_without_instance) (\<lambda>ss. if ss = [] then return () else mdns_send_bye ss include_ip)"

definition mdns_send_final_bye :: "bool \<Rightarrow> unit rsp_prog" where
  "mdns_send_final_bye include_ip =
     bind (gets (\<lambda>s. map item_at (services s))) (\<lambda>ss. if ss = [] then return () else mdns_send_bye ss include_ip)"

definition mdns_restart_all_pcbs_no_instance :: "unit rsp_prog" where
  "mdns_restart_all_pcbs_no_instance =
     bind (gets services_without_instance) (\<lambda>ss. if ss = [] then return () else mdns_probe_all_pcbs ss False True)"

definition mdns_restart_all_pcbs :: "unit rsp_prog" where
  "mdns_restart_all_pcbs =
     bind (modify (\<lambda>s. s\<lparr>tx_queue := []\<rparr>)) (\<lambda>_.
     bind (gets (\<lambda>s. map item_at (services s))) (\<lambda>ss. mdns_probe_all_pcbs ss True True))"

section \<open>Names and services\<close>

text \<open>\<open>strcmp(hostname, old)\<close> needs an old name; a copy that cannot be allocated leaves \<open>NULL\<close>.\<close>

fun remap_hostnames :: "u8 list option \<Rightarrow> u8 list \<Rightarrow> mdns_srv_item list \<Rightarrow> mdns_srv_item list rsp_prog" where
  "remap_hostnames old new [] = return []"
| "remap_hostnames old new (i # is) =
     bind (case srv_hostname (srv i) of
             None \<Rightarrow> return i
           | Some h \<Rightarrow>
               (case old of
                  None \<Rightarrow> fail Null_pointer
                | Some o' \<Rightarrow>
                    if h = o' then bind malloc (\<lambda>ok. return (i\<lparr>srv := (srv i)\<lparr>srv_hostname := if ok then Some new else None\<rparr>\<rparr>))
                    else return i)) (\<lambda>i'.
     bind (remap_hostnames old new is) (\<lambda>is'. return (i' # is')))"

definition mdns_remap_self_service_hostname :: "u8 list option \<Rightarrow> u8 list \<Rightarrow> unit rsp_prog" where
  "mdns_remap_self_service_hostname old new =
     bind (gets services) (\<lambda>ss. bind (remap_hostnames old new ss) (\<lambda>ss'. modify (\<lambda>s. s\<lparr>services := ss'\<rparr>)))"

definition execute_hostname_set :: "u8 list \<Rightarrow> unit rsp_prog" where
  "execute_hostname_set name =
     bind (mdns_send_bye_all_pcbs_no_instance True) (\<lambda>_.
     bind (gets server_hostname) (\<lambda>old.
     block [mdns_remap_self_service_hostname old name,
            modify (\<lambda>s. s\<lparr>server_hostname := Some name\<rparr>),
            mdns_restart_all_pcbs]))"

definition execute_instance_set :: "u8 list option \<Rightarrow> unit rsp_prog" where
  "execute_instance_set name =
     block [mdns_send_bye_all_pcbs_no_instance False,
            modify (\<lambda>s. s\<lparr>server_instance := name\<rparr>),
            mdns_restart_all_pcbs_no_instance]"

definition execute_service_add :: "mdns_srv_item \<Rightarrow> unit rsp_prog" where
  "execute_service_add i =
     block [modify (\<lambda>s. s\<lparr>services := i # services s\<rparr>), mdns_probe_all_pcbs [item_at i] False False]"

text \<open>A field of a service is set through a pointer to its item.\<close>

definition update_service :: "nat \<Rightarrow> (mdns_service \<Rightarrow> mdns_service) \<Rightarrow> unit rsp_prog" where
  "update_service a f =
     bind (service_item a) (\<lambda>_.
     modify (\<lambda>s. s\<lparr>services := map (\<lambda>i. if item_at i = a then i\<lparr>srv := f (srv i)\<rparr> else i) (services s)\<rparr>))"

definition execute_service_instance_set :: "nat \<Rightarrow> u8 list option \<Rightarrow> unit rsp_prog" where
  "execute_service_instance_set a name =
     bind (service_item a) (\<lambda>i.
     block [if_then (srv_instance (srv i) \<noteq> None) (mdns_send_bye [a] False),
            update_service a (\<lambda>v. v\<lparr>srv_instance := name\<rparr>),
            mdns_probe_all_pcbs [a] False False])"

definition execute_service_port_set :: "nat \<Rightarrow> u16 \<Rightarrow> unit rsp_prog" where
  "execute_service_port_set a p =
     block [update_service a (\<lambda>v. v\<lparr>port := p\<rparr>), mdns_announce_all_pcbs [a] True]"

definition execute_service_txt_replace :: "nat \<Rightarrow> mdns_txt_item list \<Rightarrow> unit rsp_prog" where
  "execute_service_txt_replace a txt' =
     block [update_service a (\<lambda>v. v\<lparr>txt_items := txt'\<rparr>), mdns_announce_all_pcbs [a] False]"

text \<open>The first item with a key gets the new value, or is removed. Keys of items are never \<open>NULL\<close>.\<close>

fun set_txt_value :: "u8 list \<Rightarrow> u8 list option \<Rightarrow> u8 \<Rightarrow> mdns_txt_item list \<Rightarrow> mdns_txt_item list" where
  "set_txt_value k v n [] = []"
| "set_txt_value k v n (t # ts) =
     (if key t = Some k then t\<lparr>txt_value := v, value_len := n\<rparr> # ts else t # set_txt_value k v n ts)"

fun delete_txt :: "u8 list \<Rightarrow> mdns_txt_item list \<Rightarrow> mdns_txt_item list" where
  "delete_txt k [] = []"
| "delete_txt k (t # ts) = (if key t = Some k then ts else t # delete_txt k ts)"

definition execute_service_txt_set :: "nat \<Rightarrow> u8 list \<Rightarrow> u8 list option \<Rightarrow> u8 \<Rightarrow> unit rsp_prog" where
  "execute_service_txt_set a k v n =
     bind (service_item a) (\<lambda>i.
     if \<exists>t\<in>set (txt_items (srv i)). key t = Some k then
       block [update_service a (\<lambda>s. s\<lparr>txt_items := set_txt_value k v n (txt_items s)\<rparr>), mdns_announce_all_pcbs [a] False]
     else bind malloc (\<lambda>ok. if_then ok (block
       [update_service a (\<lambda>s. s\<lparr>txt_items := \<lparr>key = Some k, txt_value = v, value_len = n\<rparr> # txt_items s\<rparr>),
        mdns_announce_all_pcbs [a] False])))"

definition execute_service_txt_del :: "nat \<Rightarrow> u8 list \<Rightarrow> unit rsp_prog" where
  "execute_service_txt_del a k =
     bind (service_item a) (\<lambda>i.
     if txt_items (srv i) = [] then return ()
     else block [update_service a (\<lambda>s. s\<lparr>txt_items := delete_txt k (txt_items s)\<rparr>), mdns_announce_all_pcbs [a] False])"

definition execute_service_subtype_add :: "nat \<Rightarrow> u8 list \<Rightarrow> unit rsp_prog" where
  "execute_service_subtype_add a subtype =
     bind malloc (\<lambda>ok. if_then ok (bind (service_item a) (\<lambda>_.
       modify (\<lambda>s. s\<lparr>services := map (\<lambda>i. if item_at i = a then i\<lparr>subtypes := subtype # subtypes i\<rparr> else i) (services s)\<rparr>))))"

section \<open>Removing a service\<close>

text \<open>The string a pointer leads to; a pointer into a freed service is a use after free.\<close>

definition text_at :: "'a mdns_registry_scheme \<Rightarrow> text_ptr \<Rightarrow> fault + u8 list" where
  "text_at s t =
     (let of_item = (\<lambda>a f. case find (\<lambda>i. item_at i = a) (services s) of None \<Rightarrow> Inl Use_after_free | Some i \<Rightarrow> f (srv i));
          get = (\<lambda>x. case x of None \<Rightarrow> Inl Null_pointer | Some str \<Rightarrow> Inr str)
      in case t of
           Instance_of a \<Rightarrow> of_item a (\<lambda>v. get (srv_instance v))
         | Type_of a \<Rightarrow> of_item a (\<lambda>v. Inr (srv_service v))
         | Proto_of a \<Rightarrow> of_item a (\<lambda>v. Inr (srv_proto v))
         | Hostname_of a \<Rightarrow> of_item a (\<lambda>v. get (srv_hostname v))
         | Server_hostname \<Rightarrow> get (server_hostname s)
         | Server_instance \<Rightarrow> get (server_instance s)
         | Local_domain \<Rightarrow> Inr MDNS_DEFAULT_DOMAIN
         | Own_text str \<Rightarrow> Inr str)"

text \<open>\<open>p && strcmp(p, text) == 0\<close>.\<close>

definition points_to :: "'a mdns_registry_scheme \<Rightarrow> text_ptr option \<Rightarrow> u8 list \<Rightarrow> fault + bool" where
  "points_to s p text = (case p of None \<Rightarrow> Inr False | Some t \<Rightarrow> map_sum id (\<lambda>str. str = text) (text_at s t))"

definition asks_type :: "'a mdns_registry_scheme \<Rightarrow> mdns_service \<Rightarrow> tx_question \<Rightarrow> fault + bool" where
  "asks_type s v q =
     and_also (Inr (tq_type q = MDNS_TYPE_ANY))
       (and_also (points_to s (tq_service q) (srv_service v)) (points_to s (tq_proto q) (srv_proto v)))"

text \<open>The first question of a packet that asks for the service's type is removed.\<close>

fun drop_question :: "'a mdns_registry_scheme \<Rightarrow> mdns_service \<Rightarrow> tx_question list \<Rightarrow> fault + tx_question list" where
  "drop_question s v [] = Inr []"
| "drop_question s v (q # qs) =
     (case asks_type s v q of
        Inl f \<Rightarrow> Inl f
      | Inr True \<Rightarrow> Inr qs
      | Inr False \<Rightarrow> map_sum id (Cons q) (drop_question s v qs))"

definition forget_probed :: "nat \<Rightarrow> mdns_pcb \<Rightarrow> mdns_pcb" where
  "forget_probed a b =
     (if length (probe_services b) > 1 then b\<lparr>probe_services := remove1 a (probe_services b)\<rparr>
      else if probe_ip b then b\<lparr>probe_services := []\<rparr>
      else b\<lparr>probe_services := [], probe_running := False, pcb_state := PCB_RUNNING\<rparr>)"

definition without_answers :: "nat \<Rightarrow> tx_packet \<Rightarrow> tx_packet" where
  "without_answers a q =
     q\<lparr>tx_answers := mdns_dealloc_scheduled_service_answers a (tx_answers q),
       tx_additional := mdns_dealloc_scheduled_service_answers a (tx_additional q),
       tx_servers := mdns_dealloc_scheduled_service_answers a (tx_servers q)\<rparr>"

text \<open>
  The body of the loop over the queue, for the packet \<open>q\<close>; \<open>None\<close> when nothing is left of it
  and it is freed.
\<close>

definition unschedule :: "nat \<Rightarrow> mdns_service \<Rightarrow> tx_packet \<Rightarrow> tx_packet option rsp_prog" where
  "unschedule a v q =
     (let q' = without_answers a q in
      bind (gets (\<lambda>s. netif_ready s (tx_if q) (tx_proto q))) (\<lambda>ready.
      bind (get_pcb (tx_if q) (tx_proto q)) (\<lambda>b.
      bind (if ready \<and> PCB_STATE_IS_PROBING (pcb_state b) \<and> a \<in> set (probe_services b) then
              bind (set_pcb (tx_if q) (tx_proto q) (forget_probed a)) (\<lambda>_. lift (\<lambda>s. drop_question s v (tx_questions q')))
            else if ready \<and> PCB_STATE_IS_ANNOUNCING (pcb_state b) \<and> tx_answers q \<noteq> [] \<and> tx_answers q' = [] then
              bind (set_pcb (tx_if q) (tx_proto q) (\<lambda>b. b\<lparr>pcb_state := PCB_RUNNING\<rparr>)) (\<lambda>_. return (tx_questions q'))
            else return (tx_questions q')) (\<lambda>qs.
      return (if qs = [] \<and> tx_answers q' = [] \<and> tx_additional q' = [] \<and> tx_servers q' = [] then None
              else Some (q'\<lparr>tx_questions := qs\<rparr>))))))"

fun unschedule_all :: "nat \<Rightarrow> mdns_service \<Rightarrow> tx_packet list \<Rightarrow> tx_packet list rsp_prog" where
  "unschedule_all a v [] = return []"
| "unschedule_all a v (q # qs) =
     bind (unschedule a v q) (\<lambda>r. bind (unschedule_all a v qs) (\<lambda>rest.
     return (case r of None \<Rightarrow> rest | Some q' \<Rightarrow> q' # rest)))"

definition mdns_remove_scheduled_service_packets :: "nat \<Rightarrow> unit rsp_prog" where
  "mdns_remove_scheduled_service_packets a =
     bind (service_item a) (\<lambda>i. bind (gets tx_queue) (\<lambda>queue.
     bind (unschedule_all a (srv i) queue) (\<lambda>queue'. modify (\<lambda>s. s\<lparr>tx_queue := queue'\<rparr>))))"

definition free_service :: "nat \<Rightarrow> unit rsp_prog" where
  "free_service a = modify (\<lambda>s. s\<lparr>services := filter (\<lambda>i. item_at i \<noteq> a) (services s)\<rparr>)"

text \<open>
  The item is looked for by its address, in a loop that starts at \<open>a->next\<close> of the first item
  when that is another one: with no service left this follows a null pointer.
\<close>

definition execute_service_del :: "nat \<Rightarrow> unit rsp_prog" where
  "execute_service_del a =
     bind (gets services) (\<lambda>ss.
     if ss = [] then fail Null_pointer
     else if a \<in> item_at ` set ss then
       block [mdns_send_bye [a] False, mdns_remove_scheduled_service_packets a, free_service a]
     else return ())"

definition execute_services_clear :: "unit rsp_prog" where
  "execute_services_clear =
     bind (mdns_send_final_bye False) (\<lambda>_.
     bind (gets (\<lambda>s. map item_at (services s))) (\<lambda>ss.
     block (concat (map (\<lambda>a. [mdns_remove_scheduled_service_packets a, free_service a]) ss))))"

section \<open>The actions keep the responder well-formed\<close>

lemma upholds_block:
  "wf_responder s \<Longrightarrow> (\<And>p t. p \<in> set ps \<Longrightarrow> wf_responder t \<Longrightarrow> same_registry s t \<Longrightarrow> upholds p t) \<Longrightarrow> upholds (block ps) s"
proof (induction ps arbitrary: s)
  case (Cons p ps)
  have "upholds (bind p (\<lambda>_. block ps)) s"
  proof (rule upholds_bind)
    show "upholds p s" using Cons.prems by simp
    show "upholds (block ps) t" if "wf_responder t" "same_registry s t" for t
      using that Cons.prems(2) by (intro Cons.IH) (auto intro: same_registry_trans)
  qed
  then show ?case by (simp add: block.simps)
qed (simp add: block.simps)

lemma upholds_for_pcbs:
  "wf_responder s \<Longrightarrow> (\<And>i j t. wf_responder t \<Longrightarrow> same_registry s t \<Longrightarrow> upholds (body i j) t) \<Longrightarrow> upholds (for_pcbs body) s"
  unfolding for_pcbs_def by (rule upholds_block) auto

lemma upholds_if_then: "wf_responder s \<Longrightarrow> (b \<Longrightarrow> upholds p s) \<Longrightarrow> upholds (if_then b p) s"
  by (simp add: if_then_def)

lemma upholds_probe_all_pcbs:
  assumes "wf_responder s" "\<forall>a\<in>set ss. live s a"
  shows "upholds (mdns_probe_all_pcbs ss with_ip clear_old) s"
  unfolding mdns_probe_all_pcbs_def
proof (rule upholds_for_pcbs [OF assms(1)])
  fix i j t
  assume t: "wf_responder t" "same_registry s t"
  have "upholds (block [if_then clear_old (set_pcb i j (\<lambda>b. b\<lparr>probe_services := [], probe_running := False\<rparr>)),
      mdns_init_pcb_probe i j ss with_ip]) t"
    by (rule upholds_block [OF t(1)])
      (use assms(2) t in \<open>auto simp: wf_pcb_def same_registry_wf
        intro!: upholds_if_then upholds_set_pcb upholds_init_pcb_probe\<close>)
  then show "upholds (bind (gets (\<lambda>s. netif_ready s i j)) (\<lambda>ready. if \<not> ready then return ()
      else block [if_then clear_old (set_pcb i j (\<lambda>b. b\<lparr>probe_services := [], probe_running := False\<rparr>)),
        mdns_init_pcb_probe i j ss with_ip])) t"
    using t by (simp add: upholds_bind_gets)
qed

lemma upholds_announce_all_pcbs:
  assumes "wf_responder s" "\<forall>a\<in>set ss. live s a"
  shows "upholds (mdns_announce_all_pcbs ss include_ip) s"
  unfolding mdns_announce_all_pcbs_def
  by (rule upholds_for_pcbs [OF assms(1)]) (use assms(2) in \<open>auto simp: same_registry_wf intro!: upholds_announce_pcb\<close>)

text \<open>A goodbye changes nothing but the log of what was dispatched, and the heap.\<close>

definition spoke :: "mdns_responder \<Rightarrow> mdns_responder \<Rightarrow> bool" where
  "spoke s t \<longleftrightarrow> tx_queue t = tx_queue s \<and> pcbs t = pcbs s \<and> same_registry s t"

definition speaks :: "'a rsp_prog \<Rightarrow> mdns_responder \<Rightarrow> bool" where
  "speaks p s \<longleftrightarrow> runs_to p s (\<lambda>_ t. spoke s t)"

lemma spoke_trans: "spoke s t \<Longrightarrow> spoke t u \<Longrightarrow> spoke s u"
  by (auto simp: spoke_def intro: same_registry_trans)

lemma quiet_spoke: "quiet s t \<Longrightarrow> spoke s t"
  by (simp add: spoke_def quiet_registry quiet_same)

lemma spoke_wf: "spoke s t \<Longrightarrow> wf_responder t = wf_responder s" "spoke s t \<Longrightarrow> live t = live s"
  by (auto simp: spoke_def wf_responder_def same_registry_wf) (simp_all add: same_registry_def)

lemma speaks_upholds: "speaks p s \<Longrightarrow> wf_responder s \<Longrightarrow> upholds p s"
  unfolding speaks_def upholds_def by (erule runs_to_mono) (auto simp: spoke_wf, simp add: spoke_def)

lemma speaks_return [simp]: "speaks (return r) s"
  by (simp add: speaks_def spoke_def)

lemma speaks_bind_gets: "speaks (bind (gets f) k) s = speaks (k (f s)) s"
  by (simp add: speaks_def)

lemma speaks_dispatch_tx: "speaks (dispatch_tx p) s"
  by (simp add: speaks_def dispatch_tx_def spoke_def same_registry_def)

lemma speaks_if_then: "(b \<Longrightarrow> speaks p s) \<Longrightarrow> speaks (if_then b p) s"
  by (simp add: if_then_def)

lemma speaks_after: "speaks p t \<Longrightarrow> spoke s t \<Longrightarrow> runs_to p t (\<lambda>_ u. spoke s u)"
  unfolding speaks_def by (erule runs_to_mono) (rule spoke_trans)

lemma speaks_bind_quietly:
  "quietly p s R \<Longrightarrow> (\<And>r t. R r \<Longrightarrow> quiet s t \<Longrightarrow> speaks (k r) t) \<Longrightarrow> speaks (bind p k) s"
  unfolding quietly_def speaks_def [of "bind p k"] runs_to_bind
  by (erule runs_to_mono) (auto intro: speaks_after quiet_spoke)

lemma speaks_block: "(\<And>p t. p \<in> set ps \<Longrightarrow> spoke s t \<Longrightarrow> speaks p t) \<Longrightarrow> speaks (block ps) s"
proof (induction ps arbitrary: s)
  case (Cons p ps)
  have "speaks p s" using Cons.prems by (simp add: spoke_def)
  then have "runs_to p s (\<lambda>_ t. runs_to (block ps) t (\<lambda>_ u. spoke s u))"
    unfolding speaks_def
  proof (rule runs_to_mono)
    fix t assume t: "spoke s t"
    have "speaks (block ps) t" by (rule Cons.IH) (use Cons.prems t in \<open>auto intro: spoke_trans\<close>)
    then show "runs_to (block ps) t (\<lambda>_ u. spoke s u)" using t by (rule speaks_after)
  qed
  then show ?case by (simp add: speaks_def)
qed (simp add: speaks_def spoke_def)

lemma speaks_for_pcbs: "(\<And>i j t. spoke s t \<Longrightarrow> speaks (body i j) t) \<Longrightarrow> speaks (for_pcbs body) s"
  unfolding for_pcbs_def by (rule speaks_block) auto

lemma speaks_pcb_send_bye:
  assumes "wf_responder s" "\<forall>a\<in>set ss. live s a"
  shows "speaks (mdns_pcb_send_bye ifc prot ss include_ip) s"
  unfolding mdns_pcb_send_bye_def case_prod_unfold
proof (rule speaks_bind_quietly [OF quietly_new_packet [of "\<lambda>_. True"]])
  fix pkt t assume t: "quiet s t"
  have bye: "speaks (bind (alloc_answers (map (\<lambda>a. answer MDNS_TYPE_PTR (Some a) None True True) ss) []) (\<lambda>r.
      if \<not> fst r then return ()
      else bind (if include_ip then mdns_append_host_list_in_services ss True True (snd r) else return (True, snd r))
        (\<lambda>r. dispatch_tx (p\<lparr>tx_flags := MDNS_FLAGS_QR_AUTHORITATIVE, tx_answers := snd r\<rparr>)))) t" for p
  proof (rule speaks_bind_quietly [OF quietly_alloc_answers])
    fix r :: "bool \<times> out_answer list" and u
    assume r: "wf_answers t (snd r)" and u: "quiet t u"
    have "quietly (if include_ip then mdns_append_host_list_in_services ss True True (snd r) else return (True, snd r)) u (\<lambda>_. True)"
      using quietly_append_host_list [of ss u "snd r" True True] assms r t u
      by (auto simp: quiet_wf quiet_same wf_responder_same elim: quietly_mono)
    then have "speaks (bind (if include_ip then mdns_append_host_list_in_services ss True True (snd r) else return (True, snd r))
        (\<lambda>r. dispatch_tx (p\<lparr>tx_flags := MDNS_FLAGS_QR_AUTHORITATIVE, tx_answers := snd r\<rparr>))) u"
      by (rule speaks_bind_quietly) (use assms t u in \<open>auto simp: quiet_wf intro!: speaks_dispatch_tx\<close>)
    then show "speaks (if \<not> fst r then return ()
        else bind (if include_ip then mdns_append_host_list_in_services ss True True (snd r) else return (True, snd r))
          (\<lambda>r. dispatch_tx (p\<lparr>tx_flags := MDNS_FLAGS_QR_AUTHORITATIVE, tx_answers := snd r\<rparr>))) u"
      using assms t u by (simp add: quiet_wf)
  qed (use assms t in \<open>auto simp: wf_answers_def quiet_wf\<close>)
  then show "speaks (case pkt of None \<Rightarrow> return () | Some p \<Rightarrow>
      bind (alloc_answers (map (\<lambda>a. answer MDNS_TYPE_PTR (Some a) None True True) ss) []) (\<lambda>r.
      if \<not> fst r then return ()
      else bind (if include_ip then mdns_append_host_list_in_services ss True True (snd r) else return (True, snd r))
        (\<lambda>r. dispatch_tx (p\<lparr>tx_flags := MDNS_FLAGS_QR_AUTHORITATIVE, tx_answers := snd r\<rparr>)))) t"
    using assms t by (auto simp: quiet_wf split: option.split)
qed simp_all

lemma speaks_send_bye:
  assumes "wf_responder s" "\<forall>a\<in>set ss. live s a"
  shows "speaks (mdns_send_bye ss include_ip) s"
proof -
  have "speaks (for_pcbs (\<lambda>i j. bind (gets (\<lambda>s. netif_ready s i j \<and> pcb_state (pcbs s i j) = PCB_RUNNING)) (\<lambda>running.
      if_then running (mdns_pcb_send_bye i j ss include_ip)))) s"
    by (rule speaks_for_pcbs)
      (use assms in \<open>auto simp: speaks_bind_gets spoke_wf intro!: speaks_if_then speaks_pcb_send_bye\<close>)
  then show ?thesis using assms(1) by (simp add: mdns_send_bye_def speaks_bind_gets)
qed

lemma upholds_send_bye: "wf_responder s \<Longrightarrow> \<forall>a\<in>set ss. live s a \<Longrightarrow> upholds (mdns_send_bye ss include_ip) s"
  by (rule speaks_upholds [OF speaks_send_bye])

lemma live_items: "\<forall>a\<in>set (map item_at (services s)). live s a" "\<forall>a\<in>set (services_without_instance s). live s a"
  by (auto simp: live_def services_without_instance_def)

lemma upholds_bye_no_instance: "wf_responder s \<Longrightarrow> upholds (mdns_send_bye_all_pcbs_no_instance include_ip) s"
  unfolding mdns_send_bye_all_pcbs_no_instance_def upholds_bind_gets
  using upholds_send_bye [OF _ live_items(2)] by simp

lemma upholds_restart_no_instance: "wf_responder s \<Longrightarrow> upholds mdns_restart_all_pcbs_no_instance s"
  unfolding mdns_restart_all_pcbs_no_instance_def upholds_bind_gets
  using upholds_probe_all_pcbs [OF _ live_items(2)] by simp

lemma upholds_restart_all: "wf_responder s \<Longrightarrow> upholds mdns_restart_all_pcbs s"
  unfolding mdns_restart_all_pcbs_def
proof (rule upholds_bind)
  assume "wf_responder s"
  then show "upholds (modify (\<lambda>s. s\<lparr>tx_queue := []\<rparr>)) s"
    by (simp add: upholds_def same_registry_def wf_responder_def wf_pcb_def live_def)
qed (auto simp: upholds_bind_gets live_def intro!: upholds_probe_all_pcbs)

text \<open>Steps that change the registry: what stays live, and well-formedness.\<close>

definition evolves :: "unit rsp_prog \<Rightarrow> mdns_responder \<Rightarrow> bool" where
  "evolves p s \<longleftrightarrow> runs_to p s (\<lambda>_ t. wf_responder t \<and> (\<forall>a. live s a \<longrightarrow> live t a))"

lemma evolves_upholds: "upholds p s \<Longrightarrow> evolves p s"
  unfolding upholds_def evolves_def by (erule runs_to_mono) (auto simp: same_registry_wf)

lemma evolves_block_Cons:
  "evolves p s \<Longrightarrow> (\<And>t. wf_responder t \<Longrightarrow> \<forall>a. live s a \<longrightarrow> live t a \<Longrightarrow> evolves (block ps) t) \<Longrightarrow> evolves (block (p # ps)) s"
  unfolding evolves_def runs_to_block by (erule runs_to_mono, erule conjE, rule runs_to_mono) (assumption | blast)+

lemma evolves_Nil: "wf_responder s \<Longrightarrow> evolves (block []) s"
  by (simp add: evolves_def)

lemma evolves_bind:
  "quietly p s (\<lambda>_. True) \<Longrightarrow> (\<And>r t. quiet s t \<Longrightarrow> evolves (k r) t) \<Longrightarrow> evolves (bind p k) s"
  unfolding quietly_def evolves_def runs_to_bind
  by (erule runs_to_mono) (simp add: quiet_wf [symmetric])

text \<open>Changing the contents of items, but not their addresses.\<close>

lemma wf_items_changed:
  "wf_responder s \<Longrightarrow> item_at ` set ss' = item_at ` set (services s) \<Longrightarrow>
   wf_responder (s\<lparr>services := ss'\<rparr>) \<and> live (s\<lparr>services := ss'\<rparr>) = live s"
  by (simp add: wf_responder_def wf_tx_def wf_answers_def wf_answer_def wf_pcb_def live_def fun_eq_iff)

lemma evolves_update_service:
  assumes "wf_responder s" "live s a"
  shows "evolves (update_service a f) s"
proof -
  let ?ss = "map (\<lambda>i. if item_at i = a then i\<lparr>srv := f (srv i)\<rparr> else i) (services s)"
  obtain i where "find (\<lambda>i. item_at i = a) (services s) = Some i"
    using assms(2) find_is_Some [of "\<lambda>i. item_at i = a" "services s"] by (auto simp: live_def)
  moreover have "item_at ` set ?ss = item_at ` set (services s)"
    unfolding set_map image_image by (rule image_cong) simp_all
  ultimately show ?thesis
    using wf_items_changed [OF assms(1)] by (simp add: evolves_def update_service_def service_item_def)
qed

lemma remap_hostnames_items:
  "server_hostname s \<noteq> None \<Longrightarrow> quietly (remap_hostnames (server_hostname s) new is) s (\<lambda>is'. map item_at is' = map item_at is)"
proof -
  assume "server_hostname s \<noteq> None"
  then obtain old where old: "server_hostname s = Some old" by auto
  have "quietly (remap_hostnames (Some old) new is) t (\<lambda>is'. map item_at is' = map item_at is)" for t
  proof (induction "is" arbitrary: t)
    case (Cons i "is")
    show ?case
      unfolding remap_hostnames.simps
    proof (rule quietly_bind [where R = "\<lambda>i'. item_at i' = item_at i"])
      show "quietly (case srv_hostname (srv i) of None \<Rightarrow> return i
          | Some h \<Rightarrow> (case Some old of None \<Rightarrow> fail Null_pointer
             | Some o' \<Rightarrow> if h = o'
                 then bind malloc (\<lambda>ok. return (i\<lparr>srv := srv i\<lparr>srv_hostname := if ok then Some new else None\<rparr>\<rparr>))
                 else return i)) t (\<lambda>i'. item_at i' = item_at i)"
        by (auto split: option.split intro!: quietly_bind [OF quietly_malloc [of "\<lambda>_. True"]])
      show "quietly (bind (remap_hostnames (Some old) new is) (\<lambda>is'. return (i' # is'))) u
          (\<lambda>is'. map item_at is' = map item_at (i # is))" if "item_at i' = item_at i" for i' u
        by (rule quietly_bind [OF Cons.IH]) (use that in simp)
    qed
  qed simp
  then show ?thesis by (simp add: old)
qed

lemma evolves_remap:
  assumes "wf_responder s"
  shows "evolves (mdns_remap_self_service_hostname (server_hostname s) new) s"
proof -
  have "runs_to (remap_hostnames (server_hostname s) new (services s)) s
      (\<lambda>ss' t. quiet s t \<and> map item_at ss' = map item_at (services s))"
    using remap_hostnames_items [OF wf_responder_same(3) [OF assms]] by (simp add: quietly_def)
  then have "runs_to (remap_hostnames (server_hostname s) new (services s)) s
      (\<lambda>ss' t. wf_responder (t\<lparr>services := ss'\<rparr>) \<and> (\<forall>a. live s a \<longrightarrow> live (t\<lparr>services := ss'\<rparr>) a))"
  proof (rule runs_to_mono, elim conjE)
    fix ss' :: "mdns_srv_item list" and t assume t: "quiet s t" and items: "map item_at ss' = map item_at (services s)"
    have "item_at ` set ss' = item_at ` set (services t)" using arg_cong [OF items, of set] t by (simp add: quiet_same)
    moreover have "wf_responder t" using assms t by (simp add: quiet_wf)
    ultimately show "wf_responder (t\<lparr>services := ss'\<rparr>) \<and> (\<forall>a. live s a \<longrightarrow> live (t\<lparr>services := ss'\<rparr>) a)"
      using wf_items_changed t by (simp add: quiet_wf)
  qed
  then show ?thesis by (simp add: evolves_def mdns_remap_self_service_hostname_def)
qed

lemma evolves_if_then: "wf_responder s \<Longrightarrow> (b \<Longrightarrow> evolves p s) \<Longrightarrow> evolves (if_then b p) s"
  by (simp add: evolves_def if_then_def)

lemma evolves_change_and_announce:
  assumes "wf_responder s" "live s a"
  shows "evolves (block [update_service a f, mdns_announce_all_pcbs [a] include_ip]) s"
  using assms
  by (intro evolves_block_Cons evolves_update_service evolves_upholds upholds_announce_all_pcbs evolves_Nil) simp_all

lemma evolves_new_names:
  "wf_responder s \<Longrightarrow> name \<noteq> [] \<Longrightarrow> evolves (modify (\<lambda>s. s\<lparr>server_hostname := Some name\<rparr>)) s"
  "wf_responder s \<Longrightarrow> evolves (modify (\<lambda>s. s\<lparr>server_instance := name'\<rparr>)) s"
  by (cases name) (simp_all add: evolves_def wf_responder_def wf_tx_def wf_answers_def wf_answer_def wf_pcb_def live_def)

lemma evolves_add: "wf_responder s \<Longrightarrow> evolves (modify (\<lambda>s. s\<lparr>services := i # services s\<rparr>)) s"
  by (auto simp: evolves_def wf_responder_def wf_tx_def wf_answers_def wf_answer_def wf_pcb_def live_def)

lemma evolves_hostname_set:
  assumes "wf_responder s" "name \<noteq> []"
  shows "evolves (execute_hostname_set name) s"
proof -
  have "upholds (mdns_send_bye_all_pcbs_no_instance True) s" by (rule upholds_bye_no_instance [OF assms(1)])
  then have bye: "runs_to (mdns_send_bye_all_pcbs_no_instance True) s (\<lambda>_ t. wf_responder t \<and> live t = live s)"
    unfolding upholds_def by (rule runs_to_mono) (auto simp: same_registry_wf)
  have rest: "evolves (block [mdns_remap_self_service_hostname (server_hostname t) name,
      modify (\<lambda>s. s\<lparr>server_hostname := Some name\<rparr>), mdns_restart_all_pcbs]) t" if "wf_responder t" for t
    using that assms(2)
    by (intro evolves_block_Cons evolves_remap evolves_new_names evolves_upholds upholds_restart_all evolves_Nil) simp_all
  show ?thesis
    unfolding evolves_def execute_hostname_set_def runs_to_bind runs_to_gets
    by (rule runs_to_mono [OF bye]) (use rest in \<open>fastforce simp: evolves_def simp del: runs_to_block\<close>)
qed

lemma evolves_with_item:
  assumes "wf_responder s" "live s a" "\<And>i t. wf_responder t \<Longrightarrow> live t a \<Longrightarrow> evolves (k i) t"
  shows "evolves (bind (service_item a) k) s"
  by (rule evolves_bind [OF quietly_service_item]) (use assms in \<open>auto simp: quiet_wf\<close>)

section \<open>What a removal leaves in the queue\<close>

definition refers_to :: "nat \<Rightarrow> tx_packet \<Rightarrow> bool" where
  "refers_to a q \<longleftrightarrow> (\<exists>x\<in>set (tx_answers q @ tx_servers q @ tx_additional q). a_service x = Some a)"

text \<open>A packet with the answers of one service taken out, and nothing else but questions changed.\<close>

definition stripped :: "nat \<Rightarrow> tx_packet \<Rightarrow> tx_packet \<Rightarrow> bool" where
  "stripped a p q \<longleftrightarrow> q\<lparr>tx_questions := []\<rparr> = (without_answers a p)\<lparr>tx_questions := []\<rparr>"

lemma stripped_clean: "stripped a p q \<Longrightarrow> \<not> refers_to a q"
proof -
  assume "stripped a p q"
  note st = this [unfolded stripped_def]
  have "tx_answers q = tx_answers (without_answers a p)" "tx_servers q = tx_servers (without_answers a p)"
    "tx_additional q = tx_additional (without_answers a p)"
    using arg_cong [OF st, of tx_answers] arg_cong [OF st, of tx_servers] arg_cong [OF st, of tx_additional] by simp_all
  then show ?thesis by (auto simp: refers_to_def without_answers_def dealloc_scheduled_filter)
qed

lemma bind_InrE: "bind p k s = Inr (r, t) \<Longrightarrow> (\<And>x s'. p s = Inr (x, s') \<Longrightarrow> k x s' = Inr (r, t) \<Longrightarrow> thesis) \<Longrightarrow> thesis"
  by (auto simp: bind_run split: sum.splits)

lemma unschedule_stripped: "unschedule a v q s = Inr (r, t) \<Longrightarrow> \<forall>q'. r = Some q' \<longrightarrow> stripped a q q'"
  unfolding unschedule_def Let_def by (elim bind_InrE) (auto simp: return_run stripped_def split: if_splits)

lemma unschedule_all_stripped:
  "unschedule_all a v pkts s = Inr (pkts', t) \<Longrightarrow> \<forall>q\<in>set pkts'. \<exists>p\<in>set pkts. stripped a p q"
proof (induction pkts arbitrary: s pkts' t)
  case (Cons q pkts)
  then obtain r s' rest where *: "unschedule a v q s = Inr (r, s')" "unschedule_all a v pkts s' = Inr (rest, t)"
    "pkts' = (case r of None \<Rightarrow> rest | Some q' \<Rightarrow> q' # rest)"
    by (auto simp: prog_simps split: sum.splits prod.splits)
  then show ?case
    using Cons.IH [OF *(2)] unschedule_stripped [OF *(1)] by (auto split: option.splits)
qed (simp add: prog_simps)

lemma remove_scheduled_run:
  "mdns_remove_scheduled_service_packets a s = Inr (u, t) \<Longrightarrow>
   \<exists>v s'. unschedule_all a v (tx_queue s) s = Inr (tx_queue t, s')"
proof -
  assume run: "mdns_remove_scheduled_service_packets a s = Inr (u, t)"
  obtain i where i: "find (\<lambda>i. item_at i = a) (services s) = Some i"
    using run by (cases "find (\<lambda>i. item_at i = a) (services s)")
      (simp_all add: mdns_remove_scheduled_service_packets_def service_item_def prog_simps)
  show ?thesis
  proof (cases "unschedule_all a (srv i) (tx_queue s) s")
    case (Inr r)
    then have "unschedule_all a (srv i) (tx_queue s) s = Inr (tx_queue t, snd r)"
      using run i by (cases r) (auto simp: mdns_remove_scheduled_service_packets_def service_item_def prog_simps)
    then show ?thesis by blast
  qed (use run i in \<open>simp add: mdns_remove_scheduled_service_packets_def service_item_def prog_simps\<close>)
qed

section \<open>Properties\<close>



text \<open>C26. When a service has been removed, no answer of a queued packet refers to it any more, and
  every packet left was queued before and lost only answers of that service, and questions.\<close>

theorem removed_service_has_no_answers:
  assumes "execute_service_del a s = Inr (u, t)" "live s a" "wf_responder s"
  shows "\<not> live t a \<and> (\<forall>q\<in>set (tx_queue t). \<not> refers_to a q \<and> (\<exists>p\<in>set (tx_queue s). stripped a p q))"
proof -
  have "services s \<noteq> []" "a \<in> item_at ` set (services s)" using assms(2) by (auto simp: live_def)
  then obtain s1 s2 where run: "mdns_send_bye [a] False s = Inr ((), s1)"
      "mdns_remove_scheduled_service_packets a s1 = Inr ((), s2)" "free_service a s2 = Inr ((), t)"
    using assms(1) by (auto simp: execute_service_del_def prog_simps split: sum.splits)
  have "tx_queue s1 = tx_queue s"
    using speaks_send_bye [of s "[a]" False] assms(2,3) run(1) by (simp add: speaks_def runs_to_Inr spoke_def)
  obtain v s3 where q: "unschedule_all a v (tx_queue s1) s1 = Inr (tx_queue s2, s3)"
    using remove_scheduled_run [OF run(2)] by blast
  have "tx_queue t = tx_queue s2" "\<not> live t a" using run(3) by (auto simp: free_service_def live_def prog_simps)
  then show ?thesis using unschedule_all_stripped [OF q] stripped_clean \<open>tx_queue s1 = tx_queue s\<close> by auto
qed

text \<open>The definitions that run an action on a concrete responder.\<close>

lemmas action_run_defs = execute_service_add_def execute_service_del_def mdns_probe_all_pcbs_def for_pcbs_def all_pcbs_def
  mdns_send_bye_def mdns_init_pcb_probe_def mdns_init_pcb_probe_new_service_def start_probe_def probe_started_def
  mdns_create_probe_packet_def mdns_alloc_packet_default_def probe_one_def service_item_def malloc_def esp_random_def
  mdns_alloc_answer_def get_pcb_def set_pcb_def schedule_tx_def mdns_schedule_tx_packet_def insert_tx_def of_pcb_def
  clear_pcb_filter mdns_question_exists_def probe_question_def instance_ptr_def new_packet_def
  mdns_append_host_questions_for_services_def mdns_append_host_list_in_services_def same_answer_def answer_def
  mdns_remove_scheduled_service_packets_def unschedule_def without_answers_def dealloc_scheduled_filter forget_probed_def
  asks_type_def points_to_def text_at_def and_also_def lift_def free_service_def upt_rec numeral_eq_Suc Let_def

text \<open>The witness: the car's service is removed while an answer with its SRV record waits.\<close>

definition answering_responder :: mdns_responder where
  "answering_responder = car_responder\<lparr>tx_queue := [(packet_at 5)\<lparr>
      tx_answers := [answer MDNS_TYPE_SRV (Some 1) None True False, answer MDNS_TYPE_A None (Some Self_host) True False]\<rparr>],
    netif_ready := (\<lambda>_ _. False)\<rparr>"

lemma answering_removed:
  "execute_service_del 1 answering_responder = Inr ((), answering_responder\<lparr>services := [],
     tx_queue := [(packet_at 5)\<lparr>tx_answers := [answer MDNS_TYPE_A None (Some Self_host) True False]\<rparr>]\<rparr>)"
  by (simp add: action_run_defs prog_simps answering_responder_def car_responder_def car_service_def packet_at_def bytes_of_def)

theorem removed_service_has_no_answers_witness:
  "\<not> live (answering_responder\<lparr>services := [],
       tx_queue := [(packet_at 5)\<lparr>tx_answers := [answer MDNS_TYPE_A None (Some Self_host) True False]\<rparr>]\<rparr>) 1"
proof -
  have "wf_responder answering_responder"
    by (simp add: wf_responder_def answering_responder_def car_responder_def car_service_def idle_pcb_def wf_pcb_def wf_tx_def
        live_def packet_at_def bytes_of_def)
  then show ?thesis
    using removed_service_has_no_answers [OF answering_removed] by (simp add: live_def answering_responder_def car_responder_def car_service_def)
qed

text \<open>Removing one of two services of the same type while both are probed removes the wrong
  question: the one of the other service. The question of the removed service stays in the probe, with
  pointers into freed memory that the next transmission follows.\<close>

theorem removal_leaves_dangling_question:
  "let one = car_service\<lparr>srv := (srv car_service)\<lparr>srv_instance := Some (bytes_of ''one'')\<rparr>\<rparr>;
       two = car_service\<lparr>item_at := 2, srv := (srv car_service)\<lparr>srv_instance := Some (bytes_of ''two'')\<rparr>\<rparr>
   in runs_to (block [execute_service_add one, execute_service_add two, execute_service_del 1])
        (car_responder\<lparr>services := [], netif_ready := (\<lambda>i j. i = 0 \<and> j = V4)\<rparr>)
        (\<lambda>_ t. map tq_host (concat (map tx_questions (tx_queue t))) = [Some (Instance_of 1)]
              \<and> text_at t (Instance_of 1) = Inl Use_after_free)"
  by (simp add: runs_to_def action_run_defs prog_simps car_responder_def car_service_def idle_pcb_def bytes_of_def)

text \<open>A service that is removed twice, as two calls of the API before the task runs do, makes the
  task follow a null pointer when no other service is left.\<close>

theorem second_removal_crashes:
  "case block [execute_service_del 1, execute_service_del 1] car_responder of Inl f \<Rightarrow> f = Null_pointer | Inr _ \<Rightarrow> False"
  by code_simp

end
