(* ===== verification/Mdns_Dispatch.thy ===== *)
theory Mdns_Dispatch
  imports Mdns_Actions
begin

text \<open>
  From a packet of the transmit queue to the bytes on the wire, of
  \<open>managed_components/espressif__mdns/mdns.c\<close>: \<open>_mdns_dispatch_tx_packet\<close> appends the questions
  and the answers of a packet and fills in its header.

  The theory shows that a packet whose names fit is serialised without a fault, inside the 1460
  bytes, with a header that counts just the questions and records that were appended, and that a
  packet that refers to a removed delegated host is not.

  The responder is only read; the state is the static array \<open>packet\<close> with the cursor \<open>index\<close>.
  What \<open>esp_netif\<close> knows about the interfaces is the parameter \<open>N\<close>.
\<close>

section \<open>The interfaces\<close>

text \<open>
  \<open>esp_netif\<close> is the handle of an interface (0 is \<open>NULL\<close>); \<open>ip_info\<close>, \<open>all_ip6\<close> and
  \<open>ip6_linklocal\<close> are its addresses, \<open>None\<close> when the call fails; \<open>duplicate\<close> is the interface that
  is expected on the same subnet, or \<open>MDNS_MAX_INTERFACES\<close>.
\<close>

record netifs =
  esp_netif :: "nat \<Rightarrow> nat"
  ip_info :: "nat \<Rightarrow> u32 option"
  all_ip6 :: "nat \<Rightarrow> u8 list list"
  ip6_linklocal :: "nat \<Rightarrow> u8 list option"
  duplicate :: "nat \<Rightarrow> nat"

abbreviation NETIF_IPV6_MAX_NUMS :: nat where "NETIF_IPV6_MAX_NUMS \<equiv> 3"

definition mdns_get_other_if :: "netifs \<Rightarrow> nat \<Rightarrow> nat" where
  "mdns_get_other_if N ifc = (if ifc < MDNS_MAX_INTERFACES then duplicate N ifc else MDNS_MAX_INTERFACES)"

definition mdns_if_is_dup :: "netifs \<Rightarrow> mdns_responder \<Rightarrow> nat \<Rightarrow> bool" where
  "mdns_if_is_dup N s ifc =
     (let other = mdns_get_other_if N ifc in
      other \<noteq> MDNS_MAX_INTERFACES
      \<and> (pcb_state (pcbs s ifc V4) = PCB_DUP \<or> pcb_state (pcbs s ifc V6) = PCB_DUP
         \<or> pcb_state (pcbs s other V4) = PCB_DUP \<or> pcb_state (pcbs s other V6) = PCB_DUP))"

definition ipv6_address_is_zero :: "u8 list \<Rightarrow> bool" where
  "ipv6_address_is_zero ip6 \<longleftrightarrow> list_all (\<lambda>b. b = 0) (take 16 ip6)"

section \<open>Following pointers\<close>

definition known :: "fault + 'a \<Rightarrow> 'a pkt_prog" where
  "known r = (case r of Inl f \<Rightarrow> fail f | Inr a \<Rightarrow> return a)"

definition service_at :: "'a mdns_registry_scheme \<Rightarrow> nat option \<Rightarrow> fault + mdns_srv_item option" where
  "service_at s p =
     (case p of
        None \<Rightarrow> Inr None
      | Some a \<Rightarrow> (case find (\<lambda>i. item_at i = a) (services s) of None \<Rightarrow> Inl Use_after_free | Some i \<Rightarrow> Inr (Some i)))"

definition host_item :: "'a mdns_registry_scheme \<Rightarrow> nat \<Rightarrow> fault + mdns_host_item" where
  "host_item s a =
     (case find (\<lambda>h. host_at h = a) (host_list s) of None \<Rightarrow> Inl Use_after_free | Some h \<Rightarrow> Inr h)"

definition text_of :: "'a mdns_registry_scheme \<Rightarrow> text_ptr option \<Rightarrow> fault + u8 list option" where
  "text_of s p = (case p of None \<Rightarrow> Inr None | Some t \<Rightarrow> map_sum id Some (text_at s t))"

definition out_question :: "'a mdns_registry_scheme \<Rightarrow> tx_question \<Rightarrow> mdns_out_question pkt_prog" where
  "out_question s q =
     bind (known (text_of s (tq_host q))) (\<lambda>h.
     bind (known (text_of s (tq_service q))) (\<lambda>sv.
     bind (known (text_of s (tq_proto q))) (\<lambda>pr.
     bind (known (text_of s (tq_domain q))) (\<lambda>d.
     return \<lparr>q_type = tq_type q, unicast = tq_unicast q, q_host = h, q_service = sv, q_proto = pr, q_domain = d\<rparr>))))"

section \<open>Answers\<close>

text \<open>The loop over the addresses of a host; a record that does not fit ends it.\<close>

fun append_addresses :: "bool \<Rightarrow> u8 list option \<Rightarrow> bool \<Rightarrow> bool \<Rightarrow> mdns_addr list \<Rightarrow> nat \<Rightarrow> nat pkt_prog" where
  "append_addresses v6 h flush bye [] num = return num"
| "append_addresses v6 h flush bye (addr # addrs) num =
     (case addr of
        Ip4 ip \<Rightarrow>
          if v6 then append_addresses v6 h flush bye addrs num
          else bind (mdns_append_a_record h ip flush bye) (\<lambda>n.
               if n = 0 then return num else append_addresses v6 h flush bye addrs ((num + 1) mod 256))
      | Ip6 ip \<Rightarrow>
          if \<not> v6 then append_addresses v6 h flush bye addrs num
          else bind (mdns_append_aaaa_record h ip flush bye) (\<lambda>n.
               if n = 0 then return num else append_addresses v6 h flush bye addrs ((num + 1) mod 256)))"

definition mdns_append_host_answer :: "mdns_host_item \<Rightarrow> bool \<Rightarrow> bool \<Rightarrow> bool \<Rightarrow> nat pkt_prog" where
  "mdns_append_host_answer h v6 flush bye =
     append_addresses v6 (Some (host_name h)) flush bye (address_list h) 0"

fun append_subtypes ::
    "u8 list option \<Rightarrow> mdns_service \<Rightarrow> bool \<Rightarrow> bool \<Rightarrow> u8 list list \<Rightarrow> nat \<Rightarrow> nat pkt_prog" where
  "append_subtypes inst v flush bye [] appended = return appended"
| "append_subtypes inst v flush bye (subtype # subs) appended =
     bind (mdns_append_subtype_ptr_record inst subtype (Some (srv_service v)) (srv_proto v) flush bye) (\<lambda>n.
     append_subtypes inst v flush bye subs ((appended + (if n > 0 then 1 else 0)) mod 256))"

definition mdns_append_service_ptr_answers ::
    "'a mdns_server_scheme \<Rightarrow> mdns_srv_item \<Rightarrow> bool \<Rightarrow> bool \<Rightarrow> nat pkt_prog" where
  "mdns_append_service_ptr_answers server item flush bye =
     (let v = srv item; inst = mdns_get_service_instance_name server v in
      bind (mdns_append_ptr_record inst (Some (srv_service v)) (srv_proto v) flush bye) (\<lambda>n.
      if n = 0 then return 0
      else append_subtypes inst v flush bye (subtypes item) 1))"

text \<open>\<open>r > 0\<close> as a number of records.\<close>

definition one_if :: "nat pkt_prog \<Rightarrow> nat pkt_prog" where
  "one_if p = bind p (\<lambda>n. return (if n > 0 then 1 else 0))"

text \<open>The addresses of this host: of the interface, and of its duplicate on the same subnet.\<close>

definition append_self_a :: "netifs \<Rightarrow> mdns_responder \<Rightarrow> nat \<Rightarrow> bool \<Rightarrow> bool \<Rightarrow> nat pkt_prog" where
  "append_self_a N s ifc flush bye =
     (if \<not> netif_ready s ifc V4 \<and> pcb_state (pcbs s ifc V4) \<noteq> PCB_DUP then return 0
      else case ip_info N ifc of
             None \<Rightarrow> return 0
           | Some ip \<Rightarrow>
               bind (mdns_append_a_record (server_hostname s) ip flush bye) (\<lambda>n.
               if n = 0 then return 0
               else if \<not> mdns_if_is_dup N s ifc then return 1
               else case ip_info N (mdns_get_other_if N ifc) of
                      None \<Rightarrow> return 1
                    | Some ip' \<Rightarrow>
                        bind (mdns_append_a_record (server_hostname s) ip' flush bye) (\<lambda>n.
                        return (if n > 0 then 2 else 1))))"

text \<open>The loop over the IPv6 addresses, \<open>False\<close> when it returns 0 for an empty or unfitting one.\<close>

fun append_ip6s :: "u8 list option \<Rightarrow> bool \<Rightarrow> bool \<Rightarrow> u8 list list \<Rightarrow> bool pkt_prog" where
  "append_ip6s h flush bye [] = return True"
| "append_ip6s h flush bye (ip6 # ip6s) =
     (if ipv6_address_is_zero ip6 then return False
      else bind (mdns_append_aaaa_record h ip6 flush bye) (\<lambda>n.
           if n = 0 then return False else append_ip6s h flush bye ip6s))"

definition append_self_aaaa :: "netifs \<Rightarrow> mdns_responder \<Rightarrow> nat \<Rightarrow> bool \<Rightarrow> bool \<Rightarrow> nat pkt_prog" where
  "append_self_aaaa N s ifc flush bye =
     (if \<not> netif_ready s ifc V6 \<and> pcb_state (pcbs s ifc V6) \<noteq> PCB_DUP then return 0
      else
        (let ip6s = all_ip6 N ifc; n6 = length ip6s in
         if n6 > NETIF_IPV6_MAX_NUMS then fail Abort
         else
           bind (append_ip6s (server_hostname s) flush bye ip6s) (\<lambda>all.
           if \<not> all then return 0
           else if \<not> mdns_if_is_dup N s ifc then return n6
           else case ip6_linklocal N (mdns_get_other_if N ifc) of
                  None \<Rightarrow> return n6
                | Some ip' \<Rightarrow>
                    bind (mdns_append_aaaa_record (server_hostname s) ip' flush bye) (\<lambda>n.
                    return (if n > 0 then 1 + n6 else n6)))))"

definition mdns_append_answer :: "netifs \<Rightarrow> mdns_responder \<Rightarrow> out_answer \<Rightarrow> nat \<Rightarrow> nat pkt_prog" where
  "mdns_append_answer N s a ifc =
     (let flush = a_flush a; bye = a_bye a in
      if a_type a = MDNS_TYPE_PTR then
        (case a_service a of
           Some p \<Rightarrow>
             bind (known (service_at s (Some p))) (\<lambda>i. mdns_append_service_ptr_answers s (the i) flush bye)
         | None \<Rightarrow>
             (case a_custom a of
                None \<Rightarrow> one_if (mdns_append_ptr_record None None [] flush bye)
              | Some (inst, sv, pr) \<Rightarrow> one_if (mdns_append_ptr_record (Some inst) (Some sv) pr flush bye)))
      else if a_type a = MDNS_TYPE_SRV then
        bind (known (service_at s (a_service a))) (\<lambda>i. one_if (mdns_append_srv_record s (map_option srv i) flush bye))
      else if a_type a = MDNS_TYPE_TXT then
        bind (known (service_at s (a_service a))) (\<lambda>i. one_if (mdns_append_txt_record s (map_option srv i) flush bye))
      else if a_type a = MDNS_TYPE_SDPTR then
        bind (known (service_at s (a_service a))) (\<lambda>i. one_if (mdns_append_sdptr_record (map_option srv i) flush bye))
      else if a_type a = MDNS_TYPE_A then
        (case a_host a of
           None \<Rightarrow> return 0
         | Some Self_host \<Rightarrow> append_self_a N s ifc flush bye
         | Some (Host p) \<Rightarrow> bind (known (host_item s p)) (\<lambda>h. mdns_append_host_answer h False flush bye))
      else if a_type a = MDNS_TYPE_AAAA then
        (case a_host a of
           None \<Rightarrow> return 0
         | Some Self_host \<Rightarrow> append_self_aaaa N s ifc flush bye
         | Some (Host p) \<Rightarrow> bind (known (host_item s p)) (\<lambda>h. mdns_append_host_answer h True flush bye))
      else return 0)"

section \<open>Dispatching\<close>

fun append_questions :: "mdns_responder \<Rightarrow> tx_question list \<Rightarrow> nat \<Rightarrow> nat pkt_prog" where
  "append_questions s [] num = return num"
| "append_questions s (q # qs) num =
     bind (out_question s q) (\<lambda>out.
     bind (mdns_append_question out) (\<lambda>n.
     append_questions s qs (if n \<noteq> 0 then (num + 1) mod 256 else num)))"

fun append_answers :: "netifs \<Rightarrow> mdns_responder \<Rightarrow> nat \<Rightarrow> out_answer list \<Rightarrow> nat \<Rightarrow> nat pkt_prog" where
  "append_answers N s ifc [] num = return num"
| "append_answers N s ifc (a # as) num =
     bind (mdns_append_answer N s a ifc) (\<lambda>n. append_answers N s ifc as ((num + n) mod 256))"

text \<open>The number of records of a section goes into the header behind it.\<close>

definition counted :: "nat \<Rightarrow> nat pkt_prog \<Rightarrow> unit pkt_prog" where
  "counted offset p = bind p (\<lambda>num. mdns_set_u16 offset (of_nat num))"

definition mdns_dispatch_tx_packet :: "netifs \<Rightarrow> mdns_responder \<Rightarrow> tx_packet \<Rightarrow> unit pkt_prog" where
  "mdns_dispatch_tx_packet N s p =
     block [modify (\<lambda>k. k\<lparr>pos := 12\<rparr>), set_bytes 0 (replicate 12 0),
            mdns_set_u16 2 (tx_flags p), mdns_set_u16 0 (tx_id p),
            counted 4 (append_questions s (tx_questions p) 0),
            counted 6 (append_answers N s (tx_if p) (tx_answers p) 0),
            counted 8 (append_answers N s (tx_if p) (tx_servers p) 0),
            counted 10 (append_answers N s (tx_if p) (tx_additional p) 0)]"

text \<open>What is handed to \<open>_mdns_udp_pcb_write\<close>: the bytes before the cursor.\<close>

definition wire :: "mdns_packet \<Rightarrow> u8 list" where
  "wire k = take (pos k) (packet k)"

section \<open>Bytes from an offset on\<close>

text \<open>\<open>inside s b hi t\<close>: a packet that differs from \<open>s\<close> at most in the bytes \<open>b .. hi - 1\<close>.\<close>

definition inside :: "mdns_packet \<Rightarrow> nat \<Rightarrow> nat \<Rightarrow> mdns_packet \<Rightarrow> bool" where
  "inside s b hi t \<longleftrightarrow>
     length (packet t) = MDNS_MAX_PACKET_SIZE \<and> b \<le> pos t \<and> pos t \<le> hi
     \<and> (\<forall>i < MDNS_MAX_PACKET_SIZE. i < b \<or> hi \<le> i \<longrightarrow> packet t ! i = packet s ! i)"

lemma inside_refl: "length (packet s) = MDNS_MAX_PACKET_SIZE \<Longrightarrow> inside s (pos s) (pos s) s"
  by (simp add: inside_def)

lemma inside_mono: "inside s b hi t \<Longrightarrow> hi \<le> hi' \<Longrightarrow> inside s b hi' t"
  by (auto simp: inside_def)

lemma inside_trans: "inside s b hi t \<Longrightarrow> inside t (pos t) hi' u \<Longrightarrow> hi \<le> hi' \<Longrightarrow> inside s b hi' u"
  by (fastforce simp: inside_def)

lemma inside_put:
  "inside s b hi t \<Longrightarrow> length w \<le> n \<Longrightarrow> hi + n \<le> MDNS_MAX_PACKET_SIZE \<Longrightarrow> inside s b (hi + n) (put w t)"
  by (auto simp: inside_def nth_overlay put_def)

lemma inside_overlay:
  "inside s b hi t \<Longrightarrow> b \<le> i \<Longrightarrow> i + length w \<le> hi \<Longrightarrow> hi \<le> MDNS_MAX_PACKET_SIZE \<Longrightarrow>
   inside s b hi (t\<lparr>packet := overlay i w (packet t)\<rparr>)"
  by (auto simp: inside_def nth_overlay)

lemma inside_last: "inside s b hi t \<Longrightarrow> hi < MDNS_MAX_PACKET_SIZE \<Longrightarrow> length (packet s) = MDNS_MAX_PACKET_SIZE \<Longrightarrow>
    last (packet t) = last (packet s)"
  by (simp add: inside_def last_packet)

definition short_name :: "u8 list list \<Rightarrow> bool" where
  "short_name ts \<longleftrightarrow> list_all (\<lambda>t. length t < 255) ts \<and> wire_len ts < 250"

definition started :: "mdns_packet \<Rightarrow> nat \<Rightarrow> nat \<Rightarrow> mdns_packet \<Rightarrow> bool" where
  "started s b hi t \<longleftrightarrow> inside s b hi t \<and> hi < MDNS_MAX_PACKET_SIZE \<and> 2 \<le> b \<and> last (packet t) < 0xC0"

text \<open>The steps of a record; programs are taken apart by these rules, not by the simplifier.\<close>

declare runs_to_bind [simp del]

lemma fqdn_step:
  assumes "started s b hi t" "short_name ts" "hi + wire_len ts < MDNS_MAX_PACKET_SIZE"
    "\<And>(n :: nat) u. 0 < n \<Longrightarrow> n < 250 \<Longrightarrow> started s b (hi + wire_len ts) u \<Longrightarrow> pos t \<le> pos u \<Longrightarrow> runs_to (k n) u Q"
  shows "runs_to (bind (mdns_append_fqdn ts) k) t Q"
proof -
  have t: "length (packet t) = MDNS_MAX_PACKET_SIZE" "pos t \<le> hi" "last (packet t) < 0xC0"
    using assms(1) by (auto simp: started_def inside_def)
  obtain w where w: "mdns_append_fqdn ts t = Inr (length w, put w t)" "w \<noteq> []" "length w \<le> wire_len ts"
    using append_fqdn_safe [of ts t] t assms(2,3) by (auto simp: short_name_def)
  have "started s b (hi + wire_len ts) (put w t)"
    using assms(1,3) w(3) inside_put [of s b hi t w "wire_len ts"] last_packet_put [of t w] t by (simp add: started_def)
  then show ?thesis using w assms(2) assms(4) [of "length w" "put w t"] by (simp add: runs_to_def bind_run w(1) short_name_def)
qed

lemma named_step:
  assumes "started s b hi t" "short_name ts" "hi + wire_len ts < MDNS_MAX_PACKET_SIZE"
    "\<And>(n :: nat) u. 0 < n \<Longrightarrow> n < 250 \<Longrightarrow> started s b (hi + wire_len ts) u \<Longrightarrow> pos t \<le> pos u \<Longrightarrow> runs_to (k n) u Q"
  shows "runs_to (bind (mdns_append_fqdn ts) (\<lambda>n. if n mod 256 = 0 then return 0 else k n)) t Q"
  using assms(4) by (intro fqdn_step [OF assms(1-3)]) simp

lemma put_step:
  "started s b hi t \<Longrightarrow> length w \<le> n \<Longrightarrow> hi + n < MDNS_MAX_PACKET_SIZE \<Longrightarrow> started s b (hi + n) (put w t)"
  using inside_put [of s b hi t w n] last_packet_put [of t w] by (auto simp: started_def inside_def)

lemma type_step:
  assumes "started s b hi t" "answer_type type = Some code" "hi + 10 < MDNS_MAX_PACKET_SIZE"
    "\<And>u. started s b (hi + 10) u \<Longrightarrow> pos u = pos t + 10 \<Longrightarrow> runs_to (k 10) u Q"
  shows "runs_to (bind (mdns_append_type type flush ttl) k) t Q"
proof -
  have "length (packet t) = MDNS_MAX_PACKET_SIZE" "pos t \<le> hi" using assms(1) by (auto simp: started_def inside_def)
  then show ?thesis
    using assms(3,4) put_step [OF assms(1), of "header_bytes code flush ttl 0" 10]
    by (simp add: runs_to_def bind_run mdns_append_type_run [OF _ assms(2)])
qed

lemma location_step:
  assumes "started s b hi t" "b + 10 \<le> pos t" "runs_to (k (pos t - 2)) t Q"
  shows "runs_to (bind data_len_location k) t Q"
  using assms data_len_location_run [of t] by (simp add: runs_to_def bind_run started_def inside_def)

lemma set_step:
  assumes "started s b hi t" "b \<le> loc" "loc + 2 \<le> pos t"
    "\<And>u. started s b hi u \<Longrightarrow> pos u = pos t \<Longrightarrow> runs_to (k ()) u Q"
  shows "runs_to (bind (mdns_set_u16 loc v) k) t Q"
proof -
  let ?u = "t\<lparr>packet := overlay loc [hi_byte v, lo_byte v] (packet t)\<rparr>"
  have t: "length (packet t) = MDNS_MAX_PACKET_SIZE" "pos t \<le> hi" "hi < MDNS_MAX_PACKET_SIZE" "length (packet ?u) = MDNS_MAX_PACKET_SIZE"
    using assms(1,3) by (auto simp: started_def inside_def)
  then have "last (packet ?u) = last (packet t)" using assms(3) by (simp add: last_packet nth_overlay)
  then have "started s b hi ?u"
    using assms(1-3) t inside_overlay [of s b hi t loc "[hi_byte v, lo_byte v]"] by (simp add: started_def)
  then show ?thesis using assms(3,4) t by (simp add: runs_to_def bind_run mdns_set_u16_run)
qed

lemma u8_step:
  assumes "started s b hi t" "hi + 1 < MDNS_MAX_PACKET_SIZE"
    "\<And>u. started s b (hi + 1) u \<Longrightarrow> pos u = pos t + 1 \<Longrightarrow> runs_to (k 1) u Q"
  shows "runs_to (bind (mdns_append_u8 v) k) t Q"
proof -
  have "length (packet t) = MDNS_MAX_PACKET_SIZE" "pos t \<le> hi" using assms(1) by (auto simp: started_def inside_def)
  then show ?thesis
    using assms(2,3) put_step [OF assms(1), of "[v]" 1] by (simp add: runs_to_def bind_run mdns_append_u8_run room_def)
qed

lemma u16_step:
  assumes "started s b hi t" "hi + 2 < MDNS_MAX_PACKET_SIZE"
    "\<And>u. started s b (hi + 2) u \<Longrightarrow> pos u = pos t + 2 \<Longrightarrow> runs_to (k 2) u Q"
  shows "runs_to (bind (mdns_append_u16 v) k) t Q"
proof -
  have "length (packet t) = MDNS_MAX_PACKET_SIZE" "pos t \<le> hi" using assms(1) by (auto simp: started_def inside_def)
  then show ?thesis
    using assms(2,3) put_step [OF assms(1), of "[hi_byte v, lo_byte v]" 2] by (simp add: runs_to_def bind_run mdns_append_u16_run room_def)
qed

lemma pos_step: "(runs_to (k (pos t)) t Q) \<Longrightarrow> runs_to (bind (gets pos) k) t Q"
  by (simp add: runs_to_def bind_def gets_def)

text \<open>A test on the cursor that the room rules out.\<close>

lemma guard_step:
  assumes "started s b hi t" "\<And>i. i \<le> hi \<Longrightarrow> \<not> c i" "b \<le> pos t \<Longrightarrow> pos t \<le> hi \<Longrightarrow> runs_to (k (pos t)) t Q"
  shows "runs_to (bind (gets pos) (\<lambda>i. if c i then x else k i)) t Q"
  using assms(2) [of "pos t"] assms(1,3) by (simp add: runs_to_def bind_def gets_def started_def inside_def)

definition adds :: "nat \<Rightarrow> nat pkt_prog \<Rightarrow> bool" where
  "adds n p \<longleftrightarrow>
     (\<forall>s b hi t. started s b hi t \<longrightarrow> hi + n < MDNS_MAX_PACKET_SIZE \<longrightarrow>
        runs_to p t (\<lambda>r u. 0 < r \<and> started s b (hi + n) u))"

lemma started_pos: "started s b hi t \<Longrightarrow> b \<le> pos t \<and> pos t \<le> hi \<and> length (packet t) = MDNS_MAX_PACKET_SIZE"
  by (simp add: started_def inside_def)

lemma started_eq: "started s b hi t \<Longrightarrow> hi = hi' \<Longrightarrow> started s b hi' t"
  by simp

text \<open>All records begin with a name, a header and the place of the data length.\<close>

lemma addsI:
  "(\<And>s b hi t. started s b hi t \<Longrightarrow> b \<le> pos t \<Longrightarrow> hi + n < MDNS_MAX_PACKET_SIZE \<Longrightarrow>
      runs_to p t (\<lambda>r u. 0 < r \<and> started s b (hi + n) u)) \<Longrightarrow> adds n p"
  by (simp add: adds_def started_pos)

lemma header_step:
  assumes "started s b hi t" "short_name ts" "answer_type type = Some code" "hi + wire_len ts + 10 < MDNS_MAX_PACKET_SIZE"
    "\<And>(n :: nat) u. 0 < n \<Longrightarrow> n < 250 \<Longrightarrow> started s b (hi + wire_len ts + 10) u \<Longrightarrow> b + 10 \<le> pos u \<Longrightarrow>
       runs_to (k n 10 (pos u - 2)) u Q"
  shows "runs_to (bind (mdns_append_fqdn ts) (\<lambda>n. if n mod 256 = 0 then return 0 else
      bind (mdns_append_type type flush ttl) (\<lambda>t. if t = 0 then return 0 else
      bind data_len_location (k n t)))) t Q"
proof (rule fqdn_step [OF assms(1,2)])
  show "hi + wire_len ts < MDNS_MAX_PACKET_SIZE" using assms(4) by simp
  fix n :: nat and u assume n: "0 < n" "n < 250" and u: "started s b (hi + wire_len ts) u" "pos t \<le> pos u"
  have "runs_to (bind (mdns_append_type type flush ttl) (\<lambda>t. if t = 0 then return 0 else bind data_len_location (k n t))) u Q"
  proof (rule type_step [OF u(1) assms(3,4)])
    fix v assume v: "started s b (hi + wire_len ts + 10) v" "pos v = pos u + 10"
    have "b + 10 \<le> pos v" using u(2) v(2) started_pos [OF assms(1)] by simp
    then show "runs_to (if (10 :: nat) = 0 then return 0 else bind data_len_location (k n 10)) v Q"
      using location_step [OF v(1), of "k n 10" Q] assms(5) n v(1) by simp
  qed
  with n show "runs_to (if n mod 256 = 0 then return 0 else
      bind (mdns_append_type type flush ttl) (\<lambda>t. if t = 0 then return 0 else bind data_len_location (k n t))) u Q"
    by simp
qed

lemma name_data_step:
  assumes "started s b hi t" "short_name ts" "hi + wire_len ts < MDNS_MAX_PACKET_SIZE" "b + 2 \<le> pos t" "b \<le> loc" "loc + 2 \<le> pos t"
    "\<And>(m :: nat) u. 0 < m \<Longrightarrow> m < 250 \<Longrightarrow> started s b (hi + wire_len ts) u \<Longrightarrow> Q (r m) u"
  shows "runs_to (bind (mdns_append_fqdn ts) (\<lambda>m. if m mod 256 = 0 then return 0 else
      bind (mdns_set_u16 loc (v m)) (\<lambda>_. return (r m)))) t Q"
proof (rule fqdn_step [OF assms(1-3)])
  fix m :: nat and u assume m: "0 < m" "m < 250" and u: "started s b (hi + wire_len ts) u" "pos t \<le> pos u"
  have "runs_to (bind (mdns_set_u16 loc (v m)) (\<lambda>_. return (r m))) u Q"
    by (rule set_step [OF u(1) assms(5)]) (use assms(6,7) m u in auto)
  with m show "runs_to (if m mod 256 = 0 then return 0 else bind (mdns_set_u16 loc (v m)) (\<lambda>_. return (r m))) u Q"
    by simp
qed

lemma adds_ptr:
  assumes "short_name [sv, pr, MDNS_DEFAULT_DOMAIN]" "short_name [inst, sv, pr, MDNS_DEFAULT_DOMAIN]"
    "n = wire_len [sv, pr, MDNS_DEFAULT_DOMAIN] + 10 + wire_len [inst, sv, pr, MDNS_DEFAULT_DOMAIN]"
  shows "adds n (mdns_append_ptr_record (Some inst) (Some sv) pr flush bye)"
  unfolding mdns_append_ptr_record_def option.case not_null_def return_bind
  by (rule addsI, rule header_step, assumption, rule assms(1), simp add: answer_type_def, simp add: assms(3),
      rule name_data_step, assumption, rule assms(2)) (simp_all add: assms(3) ac_simps)

lemma adds_subtype_ptr:
  assumes "short_name [subtype, MDNS_SUB_STR, sv, pr, MDNS_DEFAULT_DOMAIN]" "short_name [inst, sv, pr, MDNS_DEFAULT_DOMAIN]"
    "n = wire_len [subtype, MDNS_SUB_STR, sv, pr, MDNS_DEFAULT_DOMAIN] + 10 + wire_len [inst, sv, pr, MDNS_DEFAULT_DOMAIN]"
  shows "adds n (mdns_append_subtype_ptr_record (Some inst) subtype (Some sv) pr flush bye)"
  unfolding mdns_append_subtype_ptr_record_def option.case not_null_def return_bind
  by (rule addsI, rule header_step, assumption, rule assms(1), simp add: answer_type_def, simp add: assms(3),
      rule name_data_step, assumption, rule assms(2)) (simp_all add: assms(3) ac_simps)

lemma adds_srv:
  assumes "mdns_get_service_instance_name server v = Some inst"
    "(if srv_hostname v \<noteq> None then srv_hostname v else server_hostname server) = Some h" "h \<noteq> []"
    "short_name [inst, srv_service v, srv_proto v, MDNS_DEFAULT_DOMAIN]" "short_name [h, MDNS_DEFAULT_DOMAIN]"
    "n = wire_len [inst, srv_service v, srv_proto v, MDNS_DEFAULT_DOMAIN] + 16 + wire_len [h, MDNS_DEFAULT_DOMAIN]"
  shows "adds n (mdns_append_srv_record server (Some v) flush bye)"
proof -
  have nz: "\<not> str_null_or_empty (Some h)" using assms(3) by (cases h) simp_all
  have six: "\<not> (2 + 2 + 2 \<noteq> (6 :: nat))" by simp
  show ?thesis
    unfolding mdns_append_srv_record_def option.case assms(1,2) Let_def option.sel if_not_P [OF nz]
    by (rule addsI, rule header_step, assumption, rule assms(4), simp add: answer_type_def, simp add: assms(6),
        rule u16_step, assumption, simp add: assms(6), rule u16_step, assumption, simp add: assms(6),
        rule u16_step, assumption, simp add: assms(6), unfold if_not_P [OF six],
        rule name_data_step, assumption, rule assms(5)) (simp_all add: assms(6) ac_simps)
qed

lemma adds_a:
  assumes "h \<noteq> []" "short_name [h, MDNS_DEFAULT_DOMAIN]" "n = wire_len [h, MDNS_DEFAULT_DOMAIN] + 14"
  shows "adds n (mdns_append_a_record (Some h) ip flush bye)"
proof -
  have nz: "\<not> str_null_or_empty (Some h)" using assms(1) by (cases h) simp_all
  show ?thesis
    unfolding mdns_append_a_record_def if_not_P [OF nz] option.sel
    by (rule addsI, rule header_step, assumption, rule assms(2), simp add: answer_type_def, simp add: assms(3),
        rule guard_step, assumption, simp add: assms(3),
        rule u8_step, assumption, simp add: assms(3), rule u8_step, assumption, simp add: assms(3),
        rule u8_step, assumption, simp add: assms(3), rule u8_step, assumption, simp add: assms(3),
        rule set_step, assumption) (simp_all add: assms(3) ac_simps)
qed

lemma adds_sdptr:
  assumes "short_name [srv_service v, srv_proto v, MDNS_DEFAULT_DOMAIN]"
    "n = 40 + wire_len [srv_service v, srv_proto v, MDNS_DEFAULT_DOMAIN]"
  shows "adds n (mdns_append_sdptr_record (Some v) flush bye)"
proof -
  let ?d = "[bytes_of ''_services'', bytes_of ''_dns-sd'', bytes_of ''_udp'', MDNS_DEFAULT_DOMAIN]"
  have d: "short_name ?d" "wire_len ?d = 30" by (simp_all add: short_name_def wire_len_def bytes_of_def)
  show ?thesis
    unfolding mdns_append_sdptr_record_def option.case
    by (rule addsI, rule fqdn_step, assumption, rule d(1), simp add: assms(2) d(2),
        rule type_step, assumption, simp add: answer_type_def, simp add: assms(2) d(2), simp,
        rule location_step, assumption, simp,
        rule name_data_step, assumption, rule assms(1)) (simp_all add: assms(2) d(2) add.assoc)
qed

text \<open>Bytes that are overwritten, and the cursor moved, inside the room.\<close>

lemma started_mono: "started s b hi t \<Longrightarrow> hi \<le> hi' \<Longrightarrow> hi' < MDNS_MAX_PACKET_SIZE \<Longrightarrow> started s b hi' t"
  using inside_mono by (auto simp: started_def)

lemma started_overlay:
  assumes "started s b hi t" "b \<le> i" "i + length w \<le> hi"
  shows "started s b hi (t\<lparr>packet := overlay i w (packet t)\<rparr>)"
proof -
  have t: "length (packet t) = MDNS_MAX_PACKET_SIZE" "hi < MDNS_MAX_PACKET_SIZE" using assms(1) by (auto simp: started_def inside_def)
  then have "last (overlay i w (packet t)) = last (packet t)"
    using assms(3) by (subst (1 2) last_packet) (simp_all add: nth_overlay)
  then show ?thesis using assms t inside_overlay [of s b hi t i w] by (simp add: started_def)
qed

lemma started_advance:
  "started s b hi t \<Longrightarrow> pos t + n \<le> hi \<Longrightarrow> started s b hi (t\<lparr>pos := (pos t + n) mod 65536\<rparr>)"
  by (auto simp: started_def inside_def)

lemma set_bytes_step:
  assumes "started s b hi t" "b \<le> i" "i + length w \<le> hi"
    "\<And>u. started s b hi u \<Longrightarrow> pos u = pos t \<Longrightarrow> runs_to (k ()) u Q"
  shows "runs_to (bind (set_bytes i w) k) t Q"
  using assms(3,4) started_overlay [OF assms(1-3)] assms(1)
  by (simp add: runs_to_def set_bytes_def prog_simps started_def inside_def)

lemma set_byte_step:
  assumes "started s b hi t" "b \<le> i" "i < hi"
    "\<And>u. started s b hi u \<Longrightarrow> pos u = pos t \<Longrightarrow> runs_to (k ()) u Q"
  shows "runs_to (bind (set_byte i v) k) t Q"
proof -
  have i: "i < length (packet t)" using assms(1,3) by (simp add: started_def inside_def)
  then have "set_byte i v t = Inr ((), t\<lparr>packet := overlay i [v] (packet t)\<rparr>)"
    by (simp add: set_byte_def prog_simps overlay_single)
  moreover have "started s b hi (t\<lparr>packet := overlay i [v] (packet t)\<rparr>)"
    using started_overlay [OF assms(1,2), of "[v]"] assms(3) by simp
  ultimately show ?thesis using assms(4) by (simp add: runs_to_def bind_run)
qed

lemma advance_step:
  assumes "started s b hi t" "pos t + n \<le> hi" "\<And>u. started s b hi u \<Longrightarrow> pos u = pos t + n \<Longrightarrow> runs_to (k ()) u Q"
  shows "runs_to (bind (advance n) k) t Q"
  using assms(2,3) started_advance [OF assms(1,2)] assms(1) by (simp add: runs_to_def advance_def prog_simps started_def inside_def)

lemma adds_aaaa:
  assumes "h \<noteq> []" "short_name [h, MDNS_DEFAULT_DOMAIN]" "length ip6 = 16" "n = wire_len [h, MDNS_DEFAULT_DOMAIN] + 26"
  shows "adds n (mdns_append_aaaa_record (Some h) ip6 flush bye)"
proof -
  have nz: "\<not> str_null_or_empty (Some h)" using assms(1) by (cases h) simp_all
  have len: "\<not> length ip6 < 16" using assms(3) by simp
  show ?thesis
    unfolding mdns_append_aaaa_record_def if_not_P [OF nz] option.sel if_not_P [OF len]
    by (rule addsI, rule header_step, assumption, rule assms(2), simp add: answer_type_def, simp add: assms(4),
        rule guard_step, assumption, simp add: assms(4),
        rule set_bytes_step, erule started_mono, rule le_add1 [of _ 16], simp add: assms(4), simp, simp add: assms(3),
        rule advance_step, assumption, simp,
        rule set_step, assumption) (simp_all add: assms(4) ac_simps)
qed

text \<open>TXT entries: each is a length byte, the key, and with a value an equals sign and the value.\<close>

definition entry_room :: "mdns_txt_item \<Rightarrow> nat" where
  "entry_room item =
     (case key item of None \<Rightarrow> 0
      | Some k \<Rightarrow> length k + unat (value_len item) + (if txt_value item \<noteq> None then 1 else 0) + 1)"

definition good_entry :: "mdns_txt_item \<Rightarrow> bool" where
  "good_entry item \<longleftrightarrow> (\<forall>v. txt_value item = Some v \<longrightarrow> unat (value_len item) \<le> length v)"

lemma entry_step:
  assumes "started s b hi t" "good_entry item" "hi + entry_room item < MDNS_MAX_PACKET_SIZE"
    "\<And>l u. l = (if key item = None then - 1 else int (entry_room item)) \<Longrightarrow>
       started s b (hi + entry_room item) u \<Longrightarrow> pos u = pos t + entry_room item \<Longrightarrow> runs_to (k l) u Q"
  shows "runs_to (bind (append_one_txt_record_entry item) k) t Q"
proof (cases "key item")
  case None
  then show ?thesis
    using assms(4) [of "- 1" t] assms(1) by (simp add: append_one_txt_record_entry_def entry_room_def)
next
  case (Some ky)
  define len where "len = length ky + unat (value_len item) + (if txt_value item \<noteq> None then 1 else 0)"
  have room: "entry_room item = len + 1" by (simp add: entry_room_def Some len_def)
  have body: "runs_to (block
        [set_bytes j ky,
         (case txt_value item of None \<Rightarrow> return ()
          | Some v \<Rightarrow> block [set_byte (j + length ky) 61,
              if length v < unat (value_len item) then fail Out_of_bounds
              else set_bytes (j + length ky + 1) (take (unat (value_len item)) v)]),
         advance len]) u (\<lambda>_ v. started s b (hi + len + 1) v \<and> pos v = pos t + len + 1)"
    if u: "started s b (hi + len + 1) u" "pos u = pos t + 1" "j = pos u" for u j
  proof -
    have j: "b \<le> j" "j + len \<le> hi + len + 1" using u started_pos [OF assms(1)] by simp_all
    show ?thesis
    proof (cases "txt_value item")
      case None
      show ?thesis
        unfolding None option.case block.simps bind_assoc return_bind
        apply (rule set_bytes_step [OF u(1) j(1)])
         apply (use j None in \<open>simp add: len_def\<close>)
        apply (rule advance_step, assumption)
         apply (use u j None in \<open>simp_all add: len_def\<close>)
        done
    next
      case (Some v)
      then have v: "unat (value_len item) \<le> length v" using assms(2) by (simp add: good_entry_def)
      have l: "len = length ky + unat (value_len item) + 1" by (simp add: len_def Some)
      show ?thesis
        unfolding Some option.case block.simps bind_assoc return_bind
        apply (rule set_bytes_step [OF u(1) j(1)])
         apply (use j l in simp)
        apply (rule set_byte_step, assumption)
          apply (use j l in simp)
         apply (use j l in simp)
        apply (unfold if_not_P [OF v [folded not_less]])
        apply (rule set_bytes_step, assumption)
          apply (use j l in simp)
         apply (use j l v in simp)
        apply (rule advance_step, assumption)
         apply (use u j l in simp_all)
        done
    qed
  qed
  have "runs_to (append_one_txt_record_entry item) t
      (\<lambda>r v. r = int (len + 1) \<and> started s b (hi + len + 1) v \<and> pos v = pos t + len + 1)"
    unfolding append_one_txt_record_entry_def Some option.case Let_def len_def [symmetric]
  proof (rule pos_step)
    have "\<not> pos t + len + 1 \<ge> MDNS_MAX_PACKET_SIZE" using assms(3) started_pos [OF assms(1)] room by simp
    moreover have "runs_to (bind (mdns_append_u8 (of_nat len)) (\<lambda>_. bind (gets pos) (\<lambda>j. bind (block
        [set_bytes j ky,
         (case txt_value item of None \<Rightarrow> return ()
          | Some v \<Rightarrow> block [set_byte (j + length ky) 61,
              if length v < unat (value_len item) then fail Out_of_bounds
              else set_bytes (j + length ky + 1) (take (unat (value_len item)) v)]),
         advance len]) (\<lambda>_. return (int len + 1))))) t
      (\<lambda>r v. r = int (len + 1) \<and> started s b (hi + len + 1) v \<and> pos v = pos t + len + 1)"
      apply (rule u8_step [OF assms(1)])
       apply (use assms(3) room in simp)
      apply (rule pos_step)
      apply (rule runs_to_bindI [OF body])
         apply (erule started_mono)
          apply (use assms(3) room in simp_all)
      done
    ultimately show "runs_to (if pos t + len + 1 \<ge> MDNS_MAX_PACKET_SIZE then return 0
        else bind (mdns_append_u8 (of_nat len)) (\<lambda>_. bind (gets pos) (\<lambda>j. bind (block
        [set_bytes j ky,
         (case txt_value item of None \<Rightarrow> return ()
          | Some v \<Rightarrow> block [set_byte (j + length ky) 61,
              if length v < unat (value_len item) then fail Out_of_bounds
              else set_bytes (j + length ky + 1) (take (unat (value_len item)) v)]),
         advance len]) (\<lambda>_. return (int len + 1))))) t
      (\<lambda>r v. r = int (len + 1) \<and> started s b (hi + len + 1) v \<and> pos v = pos t + len + 1)"
      by simp
  qed
  then show ?thesis
    by (rule runs_to_bindI) (use assms(4) room Some in \<open>simp add: add.assoc\<close>)
qed

definition entries_room :: "mdns_txt_item list \<Rightarrow> nat" where
  "entries_room items = sum_list (map entry_room items)"

lemma entries_step:
  assumes "started s b hi t" "list_all good_entry items" "hi + entries_room items < MDNS_MAX_PACKET_SIZE"
    "d + entries_room items < 65536"
  shows "runs_to (append_txt_entries items d) t
    (\<lambda>r u. r = Some (d + entries_room items) \<and> started s b (hi + entries_room items) u \<and> pos t \<le> pos u)"
  using assms
proof (induction items arbitrary: hi t d)
  case (Cons item items)
  have room: "entries_room (item # items) = entry_room item + entries_room items" by (simp add: entries_room_def)
  show ?case
    unfolding append_txt_entries.simps
  proof (rule entry_step [OF Cons.prems(1)])
    show "good_entry item" "hi + entry_room item < MDNS_MAX_PACKET_SIZE" using Cons.prems(2,3) room by simp_all
    fix l u assume l: "l = (if key item = None then - 1 else int (entry_room item))"
      and u: "started s b (hi + entry_room item) u" "pos u = pos t + entry_room item"
    have pos: "key item \<noteq> None \<Longrightarrow> 0 < entry_room item" by (auto simp: entry_room_def)
    have zero: "key item = None \<Longrightarrow> entry_room item = 0" by (simp add: entry_room_def)
    have "runs_to (append_txt_entries items (d + entry_room item)) u
        (\<lambda>r v. r = Some (d + entry_room item + entries_room items)
           \<and> started s b (hi + entry_room item + entries_room items) v \<and> pos u \<le> pos v)"
      by (rule Cons.IH [OF u(1)]) (use Cons.prems(2-4) room in simp_all)
    then have ih: "runs_to (append_txt_entries items (d + entry_room item)) u
        (\<lambda>r v. r = Some (d + entries_room (item # items)) \<and> started s b (hi + entries_room (item # items)) v \<and> pos t \<le> pos v)"
      by (rule runs_to_mono) (use u room in \<open>simp add: add.assoc\<close>)
    moreover have "(d + nat (int (entry_room item))) mod 65536 = d + entry_room item" using Cons.prems(4) room by simp
    ultimately show "runs_to (if l > 0 then append_txt_entries items ((d + nat l) mod 65536)
        else if l = 0 then return None else append_txt_entries items d) u
        (\<lambda>r v. r = Some (d + entries_room (item # items)) \<and> started s b (hi + entries_room (item # items)) v \<and> pos t \<le> pos v)"
      using pos zero unfolding l by (cases "key item") simp_all
  qed
qed (simp add: entries_room_def)

lemma adds_txt:
  assumes "mdns_get_service_instance_name server v = Some inst"
    "short_name [inst, srv_service v, srv_proto v, MDNS_DEFAULT_DOMAIN]" "list_all good_entry (txt_items v)"
    "n = wire_len [inst, srv_service v, srv_proto v, MDNS_DEFAULT_DOMAIN] + 10 + max 1 (entries_room (txt_items v))"
  shows "adds n (mdns_append_txt_record server (Some v) flush bye)"
  unfolding mdns_append_txt_record_def option.case assms(1)
proof (rule addsI, rule header_step, assumption, rule assms(2), simp add: answer_type_def, simp add: assms(4))
  fix s b hi t m u
  let ?hi = "hi + wire_len [inst, srv_service v, srv_proto v, MDNS_DEFAULT_DOMAIN] + 10" and ?d = "entries_room (txt_items v)"
  assume st: "started s b hi t" and room: "hi + n < MDNS_MAX_PACKET_SIZE" and m: "0 < m" "m < (250 :: nat)"
    and u: "started s b ?hi u" "b + 10 \<le> pos u"
  have r: "?hi + max 1 ?d < MDNS_MAX_PACKET_SIZE" "hi + n = ?hi + max 1 ?d" using room assms(4) by simp_all
  then have es: "runs_to (append_txt_entries (txt_items v) 0) u
      (\<lambda>r w. r = Some (0 + ?d) \<and> started s b (?hi + ?d) w \<and> pos u \<le> pos w)"
    by (intro entries_step [OF u(1) assms(3)]) (use started_pos [OF st] in simp_all)
  have rest: "runs_to (bind (gets pos) (\<lambda>i. bind (if_then (?d = 0) (block [set_byte i 0, advance 1])) (\<lambda>_.
        bind (mdns_set_u16 (pos u - 2) (of_nat (if ?d = 0 then 1 else ?d))) (\<lambda>_.
        return ((m mod 256 + 10 + (if ?d = 0 then 1 else ?d)) mod 65536))))) w (\<lambda>r u. 0 < r \<and> started s b (hi + n) u)"
    if w: "started s b (?hi + ?d) w" "pos u \<le> pos w" for w
  proof (rule pos_step, cases "?d = 0")
    case True
    show "runs_to (bind (if_then (?d = 0) (block [set_byte (pos w) 0, advance 1])) (\<lambda>_.
        bind (mdns_set_u16 (pos u - 2) (of_nat (if ?d = 0 then 1 else ?d))) (\<lambda>_.
        return ((m mod 256 + 10 + (if ?d = 0 then 1 else ?d)) mod 65536)))) w (\<lambda>r u. 0 < r \<and> started s b (hi + n) u)"
      unfolding if_then_def if_P [OF True] block.simps bind_assoc return_bind
      apply (rule set_byte_step, rule started_mono [OF w(1), of "?hi + 1"])
          apply (use True r u w started_pos [OF w(1)] in simp_all)
      apply (rule advance_step, assumption)
       apply (use True r u w started_pos [OF w(1)] in simp_all)
      apply (rule set_step, assumption)
        apply (use True r u w m in \<open>simp_all add: ac_simps\<close>)
      done
  next
    case False
    then show "runs_to (bind (if_then (?d = 0) (block [set_byte (pos w) 0, advance 1])) (\<lambda>_.
        bind (mdns_set_u16 (pos u - 2) (of_nat (if ?d = 0 then 1 else ?d))) (\<lambda>_.
        return ((m mod 256 + 10 + (if ?d = 0 then 1 else ?d)) mod 65536)))) w (\<lambda>r u. 0 < r \<and> started s b (hi + n) u)"
      unfolding if_then_def if_not_P [OF False] return_bind
      by (intro set_step [OF w(1)]) (use r u w m in \<open>simp_all add: ac_simps\<close>)
  qed
  show "runs_to (bind (append_txt_entries (txt_items v) 0) (\<lambda>entries. case entries of
           None \<Rightarrow> return 0
         | Some d \<Rightarrow> bind (gets pos) (\<lambda>i. bind (if_then (d = 0) (block [set_byte i 0, advance 1])) (\<lambda>_.
             let data_len = if d = 0 then 1 else d in
             bind (mdns_set_u16 (pos u - 2) (of_nat data_len)) (\<lambda>_.
             return ((m mod 256 + 10 + data_len) mod 65536)))))) u (\<lambda>r u. 0 < r \<and> started s b (hi + n) u)"
    by (rule runs_to_bindI [OF es]) (use rest in \<open>simp add: Let_def\<close>)
qed

lemma adds_question:
  assumes "short_name (question_strings q)" "n = wire_len (question_strings q) + 4"
  shows "adds n (mdns_append_question q)"
  unfolding mdns_append_question_def
  by (rule addsI, rule named_step, assumption, rule assms(1), simp add: assms(2),
      rule u16_step, assumption, simp add: assms(2), rule u16_step, assumption)
    (simp add: assms(2), simp, erule started_eq, simp add: assms(2))

section \<open>What a packet says\<close>

text \<open>The specification of a packet: the resource records that its answers stand for.\<close>

datatype rr =
    Ptr_record "u8 list" "u8 list" "u8 list"
  | Subtype_record "u8 list" "u8 list" "u8 list" "u8 list"
  | Sdptr_record mdns_service
  | Srv_record "u8 list" mdns_service "u8 list"
  | Txt_record "u8 list" mdns_service
  | A_record "u8 list" u32
  | Aaaa_record "u8 list" "u8 list"

fun rr_names :: "rr \<Rightarrow> u8 list list list" where
  "rr_names (Ptr_record inst sv pr) = [[sv, pr, MDNS_DEFAULT_DOMAIN], [inst, sv, pr, MDNS_DEFAULT_DOMAIN]]"
| "rr_names (Subtype_record inst t sv pr) =
     [[t, MDNS_SUB_STR, sv, pr, MDNS_DEFAULT_DOMAIN], [inst, sv, pr, MDNS_DEFAULT_DOMAIN]]"
| "rr_names (Sdptr_record v) =
     [[bytes_of ''_services'', bytes_of ''_dns-sd'', bytes_of ''_udp'', MDNS_DEFAULT_DOMAIN],
      [srv_service v, srv_proto v, MDNS_DEFAULT_DOMAIN]]"
| "rr_names (Srv_record inst v h) =
     [[inst, srv_service v, srv_proto v, MDNS_DEFAULT_DOMAIN], [h, MDNS_DEFAULT_DOMAIN]]"
| "rr_names (Txt_record inst v) = [[inst, srv_service v, srv_proto v, MDNS_DEFAULT_DOMAIN]]"
| "rr_names (A_record h ip) = [[h, MDNS_DEFAULT_DOMAIN]]"
| "rr_names (Aaaa_record h ip6) = [[h, MDNS_DEFAULT_DOMAIN]]"

text \<open>The bytes a record takes at most: its names without compression, the header, its data.\<close>

fun rr_data_room :: "rr \<Rightarrow> nat" where
  "rr_data_room (Srv_record inst v h) = 6"
| "rr_data_room (Txt_record inst v) = max 1 (entries_room (txt_items v))"
| "rr_data_room (A_record h ip) = 4"
| "rr_data_room (Aaaa_record h ip6) = 16"
| "rr_data_room _ = 0"

definition rr_room :: "rr \<Rightarrow> nat" where
  "rr_room r = 10 + rr_data_room r + sum_list (map wire_len (rr_names r))"

fun rr_data_fits :: "rr \<Rightarrow> bool" where
  "rr_data_fits (Srv_record inst v h) = (h \<noteq> [])"
| "rr_data_fits (Txt_record inst v) = list_all good_entry (txt_items v)"
| "rr_data_fits (A_record h ip) = (h \<noteq> [])"
| "rr_data_fits (Aaaa_record h ip6) = (h \<noteq> [] \<and> length ip6 = 16)"
| "rr_data_fits _ = True"

definition rr_fits :: "rr \<Rightarrow> bool" where
  "rr_fits r \<longleftrightarrow> list_all short_name (rr_names r) \<and> rr_data_fits r"

definition rrs_room :: "rr list \<Rightarrow> nat" where
  "rrs_room rs = sum_list (map rr_room rs)"

text \<open>\<open>None\<close> for an answer that cannot be written: a dangling pointer, a missing name, an empty IPv6 address.\<close>

definition service_records :: "'a mdns_server_scheme \<Rightarrow> u16 \<Rightarrow> mdns_srv_item \<Rightarrow> rr list option" where
  "service_records server type i =
     (let v = srv i in
      if type = MDNS_TYPE_SDPTR then Some [Sdptr_record v]
      else case mdns_get_service_instance_name server v of
             None \<Rightarrow> None
           | Some inst \<Rightarrow>
               if type = MDNS_TYPE_PTR then
                 Some (Ptr_record inst (srv_service v) (srv_proto v)
                       # map (\<lambda>t. Subtype_record inst t (srv_service v) (srv_proto v)) (subtypes i))
               else if type = MDNS_TYPE_TXT then Some [Txt_record inst v]
               else (case (if srv_hostname v \<noteq> None then srv_hostname v else server_hostname server) of
                       None \<Rightarrow> None | Some h \<Rightarrow> Some [Srv_record inst v h]))"

definition self_a_records :: "netifs \<Rightarrow> mdns_responder \<Rightarrow> nat \<Rightarrow> u8 list \<Rightarrow> rr list" where
  "self_a_records N s ifc h =
     (if \<not> netif_ready s ifc V4 \<and> pcb_state (pcbs s ifc V4) \<noteq> PCB_DUP then []
      else case ip_info N ifc of
             None \<Rightarrow> []
           | Some ip \<Rightarrow>
               A_record h ip #
               (if mdns_if_is_dup N s ifc
                then (case ip_info N (mdns_get_other_if N ifc) of None \<Rightarrow> [] | Some ip' \<Rightarrow> [A_record h ip']) else []))"

definition self_aaaa_records :: "netifs \<Rightarrow> mdns_responder \<Rightarrow> nat \<Rightarrow> u8 list \<Rightarrow> rr list option" where
  "self_aaaa_records N s ifc h =
     (if \<not> netif_ready s ifc V6 \<and> pcb_state (pcbs s ifc V6) \<noteq> PCB_DUP then Some []
      else if length (all_ip6 N ifc) > NETIF_IPV6_MAX_NUMS \<or> list_ex ipv6_address_is_zero (all_ip6 N ifc) then None
      else Some (map (Aaaa_record h) (all_ip6 N ifc) @
        (if mdns_if_is_dup N s ifc
         then (case ip6_linklocal N (mdns_get_other_if N ifc) of None \<Rightarrow> [] | Some ip' \<Rightarrow> [Aaaa_record h ip']) else [])))"

fun address_records :: "bool \<Rightarrow> u8 list \<Rightarrow> mdns_addr list \<Rightarrow> rr list" where
  "address_records v6 h [] = []"
| "address_records v6 h (Ip4 ip # addrs) = (if v6 then [] else [A_record h ip]) @ address_records v6 h addrs"
| "address_records v6 h (Ip6 ip # addrs) = (if v6 then [Aaaa_record h ip] else []) @ address_records v6 h addrs"

definition host_records :: "netifs \<Rightarrow> mdns_responder \<Rightarrow> nat \<Rightarrow> bool \<Rightarrow> host_ptr option \<Rightarrow> rr list option" where
  "host_records N s ifc v6 p =
     (case p of
        None \<Rightarrow> Some []
      | Some Self_host \<Rightarrow>
          (case server_hostname s of None \<Rightarrow> None
           | Some h \<Rightarrow> if v6 then self_aaaa_records N s ifc h else Some (self_a_records N s ifc h))
      | Some (Host a) \<Rightarrow>
          map_option (\<lambda>i. address_records v6 (host_name i) (address_list i)) (find (\<lambda>h. host_at h = a) (host_list s)))"

definition records_of :: "netifs \<Rightarrow> mdns_responder \<Rightarrow> nat \<Rightarrow> out_answer \<Rightarrow> rr list option" where
  "records_of N s ifc a =
     (if a_type a \<in> {MDNS_TYPE_PTR, MDNS_TYPE_SRV, MDNS_TYPE_TXT, MDNS_TYPE_SDPTR} then
        (case a_service a of
           Some p \<Rightarrow> Option.bind (find (\<lambda>i. item_at i = p) (services s)) (service_records s (a_type a))
         | None \<Rightarrow>
             (case a_custom a of
                Some (inst, sv, pr) \<Rightarrow> Some (if a_type a = MDNS_TYPE_PTR then [Ptr_record inst sv pr] else [])
              | None \<Rightarrow> Some []))
      else if a_type a = MDNS_TYPE_A \<or> a_type a = MDNS_TYPE_AAAA then
        host_records N s ifc (a_type a = MDNS_TYPE_AAAA) (a_host a)
      else Some [])"

section \<open>Answers append their records\<close>

text \<open>\<open>appends k rs p\<close>: the program appends the records and returns \<open>k\<close> and their number.\<close>

definition appends :: "nat \<Rightarrow> rr list \<Rightarrow> nat pkt_prog \<Rightarrow> bool" where
  "appends k rs p \<longleftrightarrow>
     (\<forall>s b hi t. started s b hi t \<longrightarrow> hi + rrs_room rs < MDNS_MAX_PACKET_SIZE \<longrightarrow>
        runs_to p t (\<lambda>n u. n = k + length rs \<and> started s b (hi + rrs_room rs) u))"

lemma rrs_room_simps [simp]:
  "rrs_room [] = 0" "rrs_room (r # rs) = rr_room r + rrs_room rs" "rrs_room (rs @ rs') = rrs_room rs + rrs_room rs'"
  by (simp_all add: rrs_room_def)

lemma length_rrs_room: "11 * length rs \<le> rrs_room rs"
proof (induction rs)
  case (Cons r rs)
  have "11 \<le> rr_room r" by (cases r) (simp_all add: rr_room_def wire_len_def)
  then show ?case using Cons by simp
qed simp

lemma few_records: "hi + rrs_room rs < MDNS_MAX_PACKET_SIZE \<Longrightarrow> length rs \<le> 132"
  using length_rrs_room [of rs] by simp

lemma appends_return: "k = n \<Longrightarrow> appends k [] (return n)"
  by (simp add: appends_def)

lemma appends_adds:
  assumes "adds (rr_room r) p" "\<And>n. 0 < n \<Longrightarrow> appends (k + 1) rs (q n)"
  shows "appends k (r # rs) (bind p q)"
  unfolding appends_def
proof (intro allI impI)
  fix s b hi t assume st: "started s b hi t" and room: "hi + rrs_room (r # rs) < MDNS_MAX_PACKET_SIZE"
  have "runs_to p t (\<lambda>n u. 0 < n \<and> started s b (hi + rr_room r) u)"
    using assms(1) st room by (simp add: adds_def)
  then show "runs_to (bind p q) t (\<lambda>n u. n = k + length (r # rs) \<and> started s b (hi + rrs_room (r # rs)) u)"
  proof (rule runs_to_bindI, elim conjE)
    fix n :: nat and u assume "0 < n" and u: "started s b (hi + rr_room r) u"
    then have "runs_to (q n) u (\<lambda>n v. n = k + 1 + length rs \<and> started s b (hi + rr_room r + rrs_room rs) v)"
      using assms(2) [of n] room by (simp add: appends_def)
    then show "runs_to (q n) u (\<lambda>n u. n = k + length (r # rs) \<and> started s b (hi + rrs_room (r # rs)) u)"
      by (simp add: add.assoc)
  qed
qed

lemma appends_one_if: "adds (rr_room r) p \<Longrightarrow> appends 0 [r] (one_if p)"
  unfolding one_if_def by (rule appends_adds) (auto simp: appends_return)

lemma appends_few:
  assumes "length rs \<le> 132 \<Longrightarrow> appends k rs p"
  shows "appends k rs p"
  unfolding appends_def using assms few_records by (auto simp: appends_def)

lemma rr_fits_names:
  "rr_fits r \<Longrightarrow> list_all short_name (rr_names r)" "rr_fits r \<Longrightarrow> rr_data_fits r"
  by (simp_all add: rr_fits_def)

lemma adds_A_record: "rr_fits (A_record h ip) \<Longrightarrow> adds (rr_room (A_record h ip)) (mdns_append_a_record (Some h) ip flush bye)"
  by (rule adds_a) (simp_all add: rr_fits_def rr_room_def)

lemma adds_Aaaa_record:
  "rr_fits (Aaaa_record h ip) \<Longrightarrow> adds (rr_room (Aaaa_record h ip)) (mdns_append_aaaa_record (Some h) ip flush bye)"
  by (rule adds_aaaa) (simp_all add: rr_fits_def rr_room_def)

lemma adds_Ptr_record:
  "rr_fits (Ptr_record inst sv pr) \<Longrightarrow>
   adds (rr_room (Ptr_record inst sv pr)) (mdns_append_ptr_record (Some inst) (Some sv) pr flush bye)"
  by (rule adds_ptr) (simp_all add: rr_fits_def rr_room_def)

lemma adds_Subtype_record:
  "rr_fits (Subtype_record inst t sv pr) \<Longrightarrow>
   adds (rr_room (Subtype_record inst t sv pr)) (mdns_append_subtype_ptr_record (Some inst) t (Some sv) pr flush bye)"
  by (rule adds_subtype_ptr) (simp_all add: rr_fits_def rr_room_def)

lemma adds_Sdptr_record: "rr_fits (Sdptr_record v) \<Longrightarrow> adds (rr_room (Sdptr_record v)) (mdns_append_sdptr_record (Some v) flush bye)"
  by (rule adds_sdptr) (simp_all add: rr_fits_def rr_room_def wire_len_def bytes_of_def)

lemma adds_Srv_record:
  "rr_fits (Srv_record inst v h) \<Longrightarrow> mdns_get_service_instance_name server v = Some inst \<Longrightarrow>
   (if srv_hostname v \<noteq> None then srv_hostname v else server_hostname server) = Some h \<Longrightarrow>
   adds (rr_room (Srv_record inst v h)) (mdns_append_srv_record server (Some v) flush bye)"
  by (rule adds_srv) (simp_all add: rr_fits_def rr_room_def)

lemma adds_Txt_record:
  "rr_fits (Txt_record inst v) \<Longrightarrow> mdns_get_service_instance_name server v = Some inst \<Longrightarrow>
   adds (rr_room (Txt_record inst v)) (mdns_append_txt_record server (Some v) flush bye)"
  by (rule adds_txt) (simp_all add: rr_fits_def rr_room_def)

lemma appends_subtypes:
  "list_all rr_fits (map (\<lambda>t. Subtype_record inst t (srv_service v) (srv_proto v)) ts) \<Longrightarrow> k + length ts < 256 \<Longrightarrow>
   appends k (map (\<lambda>t. Subtype_record inst t (srv_service v) (srv_proto v)) ts) (append_subtypes (Some inst) v flush bye ts k)"
proof (induction ts arbitrary: k)
  case (Cons t ts)
  then show ?case
    unfolding append_subtypes.simps list.map
    by (intro appends_adds adds_Subtype_record) simp_all
qed (simp add: appends_return)

lemma appends_addresses:
  "list_all rr_fits (address_records v6 h addrs) \<Longrightarrow> k + length (address_records v6 h addrs) < 256 \<Longrightarrow>
   appends k (address_records v6 h addrs) (append_addresses v6 (Some h) flush bye addrs k)"
proof (induction addrs arbitrary: k)
  case (Cons addr addrs)
  then show ?case
    by (cases addr; cases v6) (simp_all, (rule appends_adds, simp_all add: adds_A_record adds_Aaaa_record)+)
qed (simp add: appends_return)

lemma appends_ip6s:
  "list_all rr_fits (map (Aaaa_record h) ips) \<Longrightarrow> \<not> list_ex ipv6_address_is_zero ips \<Longrightarrow> started s b hi t \<Longrightarrow>
   hi + rrs_room (map (Aaaa_record h) ips) < MDNS_MAX_PACKET_SIZE \<Longrightarrow>
   runs_to (append_ip6s (Some h) flush bye ips) t (\<lambda>ok u. ok \<and> started s b (hi + rrs_room (map (Aaaa_record h) ips)) u)"
proof (induction ips arbitrary: hi t)
  case (Cons ip ips)
  have fits: "rr_fits (Aaaa_record h ip)" "hi + rr_room (Aaaa_record h ip) < MDNS_MAX_PACKET_SIZE" using Cons.prems by simp_all
  have "runs_to (mdns_append_aaaa_record (Some h) ip flush bye) t (\<lambda>n u. 0 < n \<and> started s b (hi + rr_room (Aaaa_record h ip)) u)"
    using adds_Aaaa_record [OF fits(1)] fits(2) Cons.prems(3) by (simp add: adds_def)
  then have "runs_to (bind (mdns_append_aaaa_record (Some h) ip flush bye) (\<lambda>n. if n = 0 then return False else append_ip6s (Some h) flush bye ips)) t
      (\<lambda>ok u. ok \<and> started s b (hi + rrs_room (map (Aaaa_record h) (ip # ips))) u)"
    by (rule runs_to_bindI) (use Cons.IH [of "hi + rr_room (Aaaa_record h ip)"] Cons.prems in \<open>auto simp: add.assoc\<close>)
  then show ?case using Cons.prems(2) by (simp)
qed simp

lemma appends_self_a:
  assumes "server_hostname s = Some h" "list_all rr_fits (self_a_records N s ifc h)"
  shows "appends 0 (self_a_records N s ifc h) (append_self_a N s ifc flush bye)"
  using assms(2)
  by (auto simp: append_self_a_def self_a_records_def assms(1) split: option.splits
      intro!: appends_return appends_adds adds_A_record)

lemma appends_self_aaaa:
  assumes "server_hostname s = Some h" "self_aaaa_records N s ifc h = Some rs" "list_all rr_fits rs"
  shows "appends 0 rs (append_self_aaaa N s ifc flush bye)"
proof (cases "\<not> netif_ready s ifc V6 \<and> pcb_state (pcbs s ifc V6) \<noteq> PCB_DUP")
  case True
  then show ?thesis using assms(2) by (simp add: append_self_aaaa_def self_aaaa_records_def appends_return)
next
  case False
  define more where "more = (if mdns_if_is_dup N s ifc
    then (case ip6_linklocal N (mdns_get_other_if N ifc) of None \<Rightarrow> [] | Some ip' \<Rightarrow> [Aaaa_record h ip']) else [])"
  let ?ips = "all_ip6 N ifc"
  have ips: "length ?ips \<le> 3" "\<not> list_ex ipv6_address_is_zero ?ips" and rs: "rs = map (Aaaa_record h) ?ips @ more"
    using assms(2) False by (auto simp: self_aaaa_records_def more_def split: if_splits)
  define tail where "tail = (if \<not> mdns_if_is_dup N s ifc then return (length ?ips)
        else case ip6_linklocal N (mdns_get_other_if N ifc) of
               None \<Rightarrow> return (length ?ips)
             | Some ip' \<Rightarrow> bind (mdns_append_aaaa_record (Some h) ip' flush bye) (\<lambda>n. return (if n > 0 then 1 + length ?ips else length ?ips)))"
  have rest: "appends (length ?ips) more tail"
    using assms(3) unfolding rs
    by (auto simp: tail_def more_def split: option.splits intro!: appends_return appends_adds adds_Aaaa_record)
  have "appends 0 rs (bind (append_ip6s (Some h) flush bye ?ips) (\<lambda>all. if \<not> all then return 0 else tail))"
    unfolding appends_def
  proof (intro allI impI)
    fix k b hi t assume st: "started k b hi t" and room: "hi + rrs_room rs < MDNS_MAX_PACKET_SIZE"
    have "runs_to (append_ip6s (Some h) flush bye ?ips) t (\<lambda>ok u. ok \<and> started k b (hi + rrs_room (map (Aaaa_record h) ?ips)) u)"
      using assms(3) st room ips rs by (intro appends_ip6s) simp_all
    then show "runs_to (bind (append_ip6s (Some h) flush bye ?ips) (\<lambda>all. if \<not> all then return 0 else tail)) t
        (\<lambda>n v. n = 0 + length rs \<and> started k b (hi + rrs_room rs) v)"
    proof (rule runs_to_bindI)
      fix ok u assume u: "ok \<and> started k b (hi + rrs_room (map (Aaaa_record h) ?ips)) u"
      then have "runs_to tail u (\<lambda>n v. n = length ?ips + length more
          \<and> started k b (hi + rrs_room (map (Aaaa_record h) ?ips) + rrs_room more) v)"
        using rest room by (simp add: appends_def rs)
      then show "runs_to (if \<not> ok then return 0 else tail) u (\<lambda>n v. n = 0 + length rs \<and> started k b (hi + rrs_room rs) v)"
        using u by (simp add: rs add.assoc)
    qed
  qed
  moreover have "\<not> length ?ips > NETIF_IPV6_MAX_NUMS" using ips(1) by simp
  ultimately show ?thesis
    unfolding append_self_aaaa_def assms(1) Let_def if_not_P [OF False] tail_def by (simp only: if_False)
qed

lemma appends_bind:
  assumes "appends 0 rs p" "appends (k + length rs) rs' (q (length rs))"
  shows "appends k (rs @ rs') (bind p q)"
  unfolding appends_def
proof (intro allI impI)
  fix s b hi t assume st: "started s b hi t" and room: "hi + rrs_room (rs @ rs') < MDNS_MAX_PACKET_SIZE"
  have "runs_to p t (\<lambda>n u. n = 0 + length rs \<and> started s b (hi + rrs_room rs) u)"
    using assms(1) st room by (simp add: appends_def)
  then show "runs_to (bind p q) t (\<lambda>n u. n = k + length (rs @ rs') \<and> started s b (hi + rrs_room (rs @ rs')) u)"
  proof (rule runs_to_bindI)
    fix n u assume u: "n = 0 + length rs \<and> started s b (hi + rrs_room rs) u"
    then have "runs_to (q (length rs)) u (\<lambda>n v. n = k + length rs + length rs' \<and> started s b (hi + rrs_room rs + rrs_room rs') v)"
      using assms(2) room by (simp add: appends_def)
    then show "runs_to (q n) u (\<lambda>n u. n = k + length (rs @ rs') \<and> started s b (hi + rrs_room (rs @ rs')) u)"
      using u by (simp add: add.assoc)
  qed
qed

lemma appends_service_ptr:
  assumes "mdns_get_service_instance_name s (srv i) = Some inst"
    "rs = Ptr_record inst (srv_service (srv i)) (srv_proto (srv i))
            # map (\<lambda>t. Subtype_record inst t (srv_service (srv i)) (srv_proto (srv i))) (subtypes i)"
    "list_all rr_fits rs"
  shows "appends 0 rs (mdns_append_service_ptr_answers s i flush bye)"
proof (rule appends_few)
  assume "length rs \<le> 132"
  then show "appends 0 rs (mdns_append_service_ptr_answers s i flush bye)"
    using assms(3) unfolding assms(2) mdns_append_service_ptr_answers_def assms(1) Let_def
    by (intro appends_adds adds_Ptr_record) (auto intro: appends_subtypes)
qed

lemma appends_service:
  assumes "a_service a = Some p" "find (\<lambda>i. item_at i = p) (services s) = Some i"
    "a_type a \<in> {MDNS_TYPE_PTR, MDNS_TYPE_SRV, MDNS_TYPE_TXT, MDNS_TYPE_SDPTR}"
    "service_records s (a_type a) i = Some rs" "list_all rr_fits rs"
  shows "appends 0 rs (mdns_append_answer N s a ifc)"
proof -
  have at: "known (service_at s (a_service a)) = return (Some i)" "known (service_at s (Some p)) = return (Some i)"
    by (simp_all add: assms(1,2) service_at_def known_def)
  show ?thesis
    using assms(3-5)
    by (auto simp: mdns_append_answer_def at service_records_def Let_def assms(1) split: option.splits if_splits
        intro!: appends_service_ptr appends_one_if adds_Srv_record adds_Txt_record adds_Sdptr_record)
qed

lemma appends_host_answer:
  assumes "list_all rr_fits (address_records v6 (host_name h) (address_list h))"
  shows "appends 0 (address_records v6 (host_name h) (address_list h)) (mdns_append_host_answer h v6 flush bye)"
  by (rule appends_few) (use assms in \<open>simp add: mdns_append_host_answer_def appends_addresses\<close>)

lemma appends_host:
  assumes "a_type a = (if v6 then MDNS_TYPE_AAAA else MDNS_TYPE_A)" "host_records N s ifc v6 (a_host a) = Some rs" "list_all rr_fits rs"
  shows "appends 0 rs (mdns_append_answer N s a ifc)"
  using assms
  by (auto simp: mdns_append_answer_def host_records_def host_item_def known_def Let_def split: option.splits host_ptr.splits if_splits
      intro: appends_return appends_self_a appends_self_aaaa appends_host_answer)

lemma appends_answer:
  assumes "records_of N s ifc a = Some rs" "list_all rr_fits rs"
  shows "appends 0 rs (mdns_append_answer N s a ifc)"
proof (cases "a_type a \<in> {MDNS_TYPE_PTR, MDNS_TYPE_SRV, MDNS_TYPE_TXT, MDNS_TYPE_SDPTR} \<and> a_service a \<noteq> None")
  case True
  then show ?thesis
    using assms appends_service [of a _ s] by (auto simp: records_of_def bind_eq_Some_conv)
next
  case False
  show ?thesis
  proof (cases "a_type a = MDNS_TYPE_A \<or> a_type a = MDNS_TYPE_AAAA")
    case True
    then show ?thesis using assms appends_host [of a True] appends_host [of a False] by (auto simp: records_of_def)
  next
    case no_host: False
    show ?thesis
      using assms False no_host
      by (auto simp: records_of_def mdns_append_answer_def service_at_def known_def one_if_def Let_def
          mdns_append_srv_record_def mdns_append_txt_record_def mdns_append_sdptr_record_def mdns_append_ptr_record_def [of None None]
          split: option.splits if_splits
          intro!: appends_return appends_adds adds_Ptr_record)
  qed
qed

fun answers_records :: "netifs \<Rightarrow> mdns_responder \<Rightarrow> nat \<Rightarrow> out_answer list \<Rightarrow> rr list option" where
  "answers_records N s ifc [] = Some []"
| "answers_records N s ifc (a # as) =
     Option.bind (records_of N s ifc a) (\<lambda>rs. map_option ((@) rs) (answers_records N s ifc as))"

lemma appends_answers:
  "answers_records N s ifc as = Some rs \<Longrightarrow> list_all rr_fits rs \<Longrightarrow> k + length rs < 256 \<Longrightarrow>
   appends k rs (append_answers N s ifc as k)"
proof (induction as arbitrary: rs k)
  case (Cons a as)
  then obtain rs1 rs2 where r: "records_of N s ifc a = Some rs1" "answers_records N s ifc as = Some rs2" "rs = rs1 @ rs2"
    by (auto simp: bind_eq_Some_conv)
  show ?case
    unfolding append_answers.simps r(3)
    by (rule appends_bind [OF appends_answer [OF r(1)]]) (use Cons r in simp_all)
qed (simp add: appends_return)

lemma appends_section:
  "answers_records N s ifc as = Some rs \<Longrightarrow> list_all rr_fits rs \<Longrightarrow> appends 0 rs (append_answers N s ifc as 0)"
  by (rule appends_few) (simp add: appends_answers)

section \<open>Questions and the header\<close>

definition question_of :: "mdns_responder \<Rightarrow> tx_question \<Rightarrow> mdns_out_question option" where
  "question_of s q =
     (case (text_of s (tq_host q), text_of s (tq_service q), text_of s (tq_proto q), text_of s (tq_domain q)) of
        (Inr h, Inr sv, Inr pr, Inr d) \<Rightarrow>
          Some \<lparr>q_type = tq_type q, unicast = tq_unicast q, q_host = h, q_service = sv, q_proto = pr, q_domain = d\<rparr>
      | _ \<Rightarrow> None)"

lemma out_question_return: "question_of s q = Some out \<Longrightarrow> out_question s q = return out"
  by (auto simp: question_of_def out_question_def known_def split: sum.splits)

fun questions_of :: "mdns_responder \<Rightarrow> tx_question list \<Rightarrow> mdns_out_question list option" where
  "questions_of s [] = Some []"
| "questions_of s (q # qs) = Option.bind (question_of s q) (\<lambda>o1. map_option ((#) o1) (questions_of s qs))"

definition questions_room :: "mdns_out_question list \<Rightarrow> nat" where
  "questions_room qs = sum_list (map (\<lambda>q. wire_len (question_strings q) + 4) qs)"

lemma questions_step:
  "questions_of s qs = Some outs \<Longrightarrow> list_all (short_name \<circ> question_strings) outs \<Longrightarrow> started k b hi t \<Longrightarrow>
   hi + questions_room outs < MDNS_MAX_PACKET_SIZE \<Longrightarrow> num + length outs < 256 \<Longrightarrow>
   runs_to (append_questions s qs num) t (\<lambda>n u. n = num + length outs \<and> started k b (hi + questions_room outs) u)"
proof (induction qs arbitrary: outs hi t num)
  case (Cons q qs)
  then obtain o1 os where o1: "question_of s q = Some o1" "questions_of s qs = Some os" "outs = o1 # os"
    by (auto simp: bind_eq_Some_conv)
  let ?n = "wire_len (question_strings o1) + 4"
  have room: "questions_room outs = ?n + questions_room os" by (simp add: questions_room_def o1(3))
  have "runs_to (mdns_append_question o1) t (\<lambda>n u. 0 < n \<and> started k b (hi + ?n) u)"
    using adds_question [of o1 ?n] Cons.prems(2-4) room by (simp add: adds_def o1(3))
  then have "runs_to (bind (mdns_append_question o1) (\<lambda>n. append_questions s qs (if n \<noteq> 0 then (num + 1) mod 256 else num))) t
      (\<lambda>n u. n = num + length outs \<and> started k b (hi + questions_room outs) u)"
  proof (rule runs_to_bindI, elim conjE)
    fix n :: nat and u assume n: "0 < n" and u: "started k b (hi + ?n) u"
    have "runs_to (append_questions s qs (num + 1)) u
        (\<lambda>n v. n = num + 1 + length os \<and> started k b (hi + ?n + questions_room os) v)"
      by (rule Cons.IH [OF o1(2) _ u]) (use Cons.prems(2,4,5) room o1(3) in simp_all)
    then show "runs_to (append_questions s qs (if n \<noteq> 0 then (num + 1) mod 256 else num)) u
        (\<lambda>n u. n = num + length outs \<and> started k b (hi + questions_room outs) u)"
      using n Cons.prems(5) room by (simp add: o1(3) add.assoc)
  qed
  then show ?case by (simp add: out_question_return [OF o1(1)])
qed (simp add: questions_room_def)

lemma started_self: "started s b hi t \<Longrightarrow> started t b hi t"
  by (simp add: started_def inside_def)

lemma started_header:
  assumes "started s b hi t" "length (packet s) = MDNS_MAX_PACKET_SIZE"
  shows "take b (packet t) = take b (packet s)"
  using assms by (intro nth_equalityI) (auto simp: started_def inside_def)

lemma counted_step:
  assumes "started t 12 hi t" "runs_to p t (\<lambda>n u. n = m \<and> started t 12 hi' u)" "offset + 2 \<le> 12"
    "\<And>u. started u 12 hi' u \<Longrightarrow>
       take 12 (packet u) = overlay offset [hi_byte (of_nat m), lo_byte (of_nat m)] (take 12 (packet t)) \<Longrightarrow>
       runs_to (k ()) u Q"
  shows "runs_to (bind (counted offset p) k) t Q"
proof -
  have "runs_to (bind (mdns_set_u16 offset (of_nat m)) k) u Q" if u: "started t 12 hi' u" for u
  proof -
    let ?w = "[hi_byte (of_nat m), lo_byte (of_nat m)]"
    let ?u = "u\<lparr>packet := overlay offset ?w (packet u)\<rparr>"
    have len: "length (packet u) = MDNS_MAX_PACKET_SIZE" "length (packet t) = MDNS_MAX_PACKET_SIZE"
      using u assms(1) by (simp_all add: started_def inside_def)
    have "last (packet ?u) = last (packet u)"
      using len assms(3) by (subst (1 2) last_packet) (simp_all add: nth_overlay)
    then have "started ?u 12 hi' ?u" using u assms(3) len by (simp add: started_def inside_def)
    moreover have "take 12 (packet ?u) = overlay offset ?w (take 12 (packet t))"
      unfolding started_header [OF u len(2), symmetric]
      using len assms(3) by (intro nth_equalityI) (simp_all add: nth_overlay)
    moreover have "mdns_set_u16 offset (of_nat m) u = Inr ((), ?u)" using len assms(3) by (simp add: mdns_set_u16_run)
    ultimately show ?thesis using assms(4) [of ?u] by (simp add: runs_to_def bind_run)
  qed
  then show ?thesis
    unfolding counted_def bind_assoc by (intro runs_to_bindI [OF assms(2)]) simp
qed

text \<open>The header of a packet with \<open>q\<close> questions and \<open>a\<close>, \<open>n\<close> and \<open>x\<close> records in its sections.\<close>

definition header_of :: "tx_packet \<Rightarrow> nat \<Rightarrow> nat \<Rightarrow> nat \<Rightarrow> nat \<Rightarrow> u8 list" where
  "header_of p q a n x =
     concat (map (\<lambda>w. [hi_byte w, lo_byte w]) [tx_id p, tx_flags p, of_nat q, of_nat a, of_nat n, of_nat x])"

lemma overlay_count_words:
  "overlay 4 [a, b] [h0, h1, h2, h3, h4, h5, h6, h7, h8, h9, h10, h11] = [h0, h1, h2, h3, a, b, h6, h7, h8, h9, h10, h11]"
  "overlay 6 [a, b] [h0, h1, h2, h3, h4, h5, h6, h7, h8, h9, h10, h11] = [h0, h1, h2, h3, h4, h5, a, b, h8, h9, h10, h11]"
  "overlay 8 [a, b] [h0, h1, h2, h3, h4, h5, h6, h7, h8, h9, h10, h11] = [h0, h1, h2, h3, h4, h5, h6, h7, a, b, h10, h11]"
  "overlay 10 [a, b] [h0, h1, h2, h3, h4, h5, h6, h7, h8, h9, h10, h11] = [h0, h1, h2, h3, h4, h5, h6, h7, h8, h9, a, b]"
  by (simp_all add: overlay_def)

lemma fresh_header_step:
  assumes "length (packet k) = MDNS_MAX_PACKET_SIZE" "last (packet k) < 0xC0"
    "\<And>u. started u 12 12 u \<Longrightarrow>
       take 12 (packet u) = [hi_byte i, lo_byte i, hi_byte g, lo_byte g, 0, 0, 0, 0, 0, 0, 0, 0] \<Longrightarrow> runs_to (c ()) u Q"
  shows "runs_to (bind (modify (\<lambda>k. k\<lparr>pos := 12\<rparr>)) (\<lambda>_. bind (set_bytes 0 (replicate 12 0)) (\<lambda>_.
           bind (mdns_set_u16 2 g) (\<lambda>_. bind (mdns_set_u16 0 i) c)))) k Q"
proof -
  define d where "d = drop 12 (packet k)"
  let ?h = "[hi_byte i, lo_byte i, hi_byte g, lo_byte g, 0, 0, 0, 0, 0, 0, 0, 0]"
  let ?u = "k\<lparr>pos := 12, packet := ?h @ d\<rparr>"
  have d: "length d = 1448" "last d = last (packet k)" using assms(1) by (simp_all add: d_def)
  have "set_bytes 0 (replicate 12 0) (k\<lparr>pos := 12\<rparr>) = Inr ((), k\<lparr>pos := 12, packet := replicate 12 0 @ d\<rparr>)"
    using assms(1) by (simp add: set_bytes_def prog_simps overlay_def d_def)
  moreover have "mdns_set_u16 2 g (k\<lparr>pos := 12, packet := replicate 12 0 @ d\<rparr>)
      = Inr ((), k\<lparr>pos := 12, packet := [0, 0, hi_byte g, lo_byte g, 0, 0, 0, 0, 0, 0, 0, 0] @ d\<rparr>)"
    using d by (simp add: mdns_set_u16_run overlay_def eval_nat_numeral)
  moreover have "mdns_set_u16 0 i (k\<lparr>pos := 12, packet := [0, 0, hi_byte g, lo_byte g, 0, 0, 0, 0, 0, 0, 0, 0] @ d\<rparr>) = Inr ((), ?u)"
    using d by (simp add: mdns_set_u16_run overlay_def)
  moreover have "started ?u 12 12 ?u" using d assms(2) by (auto simp: started_def inside_def)
  ultimately show ?thesis using assms(3) [of ?u] by (simp add: runs_to_def bind_run modify_def)
qed

section \<open>The packet on the wire\<close>

text \<open>What the packet stands for: its questions and the records of its three sections.\<close>

definition packet_says ::
    "netifs \<Rightarrow> mdns_responder \<Rightarrow> tx_packet \<Rightarrow> mdns_out_question list \<Rightarrow> rr list \<Rightarrow> rr list \<Rightarrow> rr list \<Rightarrow> bool" where
  "packet_says N s p qs ans ns add \<longleftrightarrow>
     questions_of s (tx_questions p) = Some qs
     \<and> answers_records N s (tx_if p) (tx_answers p) = Some ans
     \<and> answers_records N s (tx_if p) (tx_servers p) = Some ns
     \<and> answers_records N s (tx_if p) (tx_additional p) = Some add"

definition packet_room :: "mdns_out_question list \<Rightarrow> rr list \<Rightarrow> nat" where
  "packet_room qs rs = 12 + questions_room qs + rrs_room rs"

text \<open>
  C17. A packet whose questions and answers can be resolved, and whose names, TXT data and total
  size fit, is written without a fault into the 1460 bytes, in at most the room it needs without
  compression, behind a header that holds its id and flags and counts in its four words just
  the questions and the resource records of the three sections: a service pointer answer counts
  once more for each subtype, an address answer once for each address, and no count of records
  wraps at 256 (11 bytes a record; questions of 5 bytes are bounded by hypothesis).
\<close>

theorem dispatch_counts_records:
  assumes "length (packet k) = MDNS_MAX_PACKET_SIZE" "last (packet k) < 0xC0"
    "packet_says N s p qs ans ns add" "list_all (short_name \<circ> question_strings) qs" "list_all rr_fits (ans @ ns @ add)"
    "packet_room qs (ans @ ns @ add) < MDNS_MAX_PACKET_SIZE" "length qs < 256"
  shows "\<exists>k'. mdns_dispatch_tx_packet N s p k = Inr ((), k')
    \<and> length (wire k') \<le> packet_room qs (ans @ ns @ add)
    \<and> take 12 (wire k') = header_of p (length qs) (length ans) (length ns) (length add)"
proof -
  note says = assms(3) [unfolded packet_says_def]
  let ?Q = "\<lambda>_ u. started u 12 (packet_room qs (ans @ ns @ add)) u
      \<and> take 12 (packet u) = header_of p (length qs) (length ans) (length ns) (length add)"
  have part: "runs_to (append_answers N s (tx_if p) as 0) u (\<lambda>n v. n = length rs \<and> started u 12 (hi + rrs_room rs) v)"
    if "started u 12 hi u" "answers_records N s (tx_if p) as = Some rs" "list_all rr_fits rs" "hi + rrs_room rs < MDNS_MAX_PACKET_SIZE" for u hi as rs
    using appends_section [OF that(2,3)] that(1,4) by (simp add: appends_def)
  have quest: "runs_to (append_questions s (tx_questions p) 0) u (\<lambda>n v. n = length qs \<and> started u 12 (12 + questions_room qs) v)"
    if "started u 12 12 u" for u
    using questions_step [OF _ assms(4) that, of s "tx_questions p" 0] says assms(6,7) by (simp add: packet_room_def)
  have "runs_to (mdns_dispatch_tx_packet N s p) k ?Q"
    unfolding mdns_dispatch_tx_packet_def block.simps
  proof (rule fresh_header_step [OF assms(1,2)], rule counted_step [OF _ quest], assumption, assumption, simp)
    fix t u
    assume t: "take 12 (packet t) = [hi_byte (tx_id p), lo_byte (tx_id p), hi_byte (tx_flags p), lo_byte (tx_flags p), 0, 0, 0, 0, 0, 0, 0, 0]"
      and u: "started u 12 (12 + questions_room qs) u"
        "take 12 (packet u) = overlay 4 [hi_byte (of_nat (length qs)), lo_byte (of_nat (length qs))] (take 12 (packet t))"
    show "runs_to (bind (counted 6 (append_answers N s (tx_if p) (tx_answers p) 0)) (\<lambda>_.
        bind (counted 8 (append_answers N s (tx_if p) (tx_servers p) 0)) (\<lambda>_.
        bind (counted 10 (append_answers N s (tx_if p) (tx_additional p) 0)) (\<lambda>_. return ())))) u ?Q"
      apply (rule counted_step [OF u(1) part [OF u(1)]], use says in simp, use assms(5) in simp, use assms(6) in \<open>simp add: packet_room_def\<close>, simp)
      apply (rule counted_step, assumption, rule part, assumption, use says in simp, use assms(5) in simp, use assms(6) in \<open>simp add: packet_room_def\<close>, simp)
      apply (rule counted_step, assumption, rule part, assumption, use says in simp, use assms(5) in simp, use assms(6) in \<open>simp add: packet_room_def\<close>, simp)
      apply (simp add: u(2) t overlay_count_words header_of_def packet_room_def add.assoc)
      done
  qed
  then show ?thesis
    by (auto simp: runs_to_def wire_def started_def inside_def min_def split: sum.splits)
qed

text \<open>The witness: a probe for the car's name that carries its service, pointer and address records.\<close>

definition car_netifs :: netifs where
  "car_netifs = \<lparr>esp_netif = id, ip_info = (\<lambda>_. Some 0x0101A8C0), all_ip6 = (\<lambda>_. []), ip6_linklocal = (\<lambda>_. None),
     duplicate = (\<lambda>_. MDNS_MAX_INTERFACES)\<rparr>"

definition car_answer :: "u16 \<Rightarrow> out_answer" where
  "car_answer type = \<lparr>a_type = type, a_service = Some 1, a_host = Some Self_host, a_flush = True, a_bye = False, a_custom = None\<rparr>"

definition car_packet :: tx_packet where
  "car_packet = (packet_at 5)\<lparr>tx_flags := 0x8400, tx_id := 7,
     tx_questions := [\<lparr>tq_type = 0xFF, tq_unicast = True, tq_host = Some Server_hostname, tq_service = Some (Type_of 1),
        tq_proto = Some (Proto_of 1), tq_domain = Some Local_domain\<rparr>],
     tx_servers := map car_answer [MDNS_TYPE_SRV, MDNS_TYPE_TXT, MDNS_TYPE_PTR, MDNS_TYPE_A]\<rparr>"

definition blank_packet :: mdns_packet where
  "blank_packet = \<lparr>packet = replicate 1460 0, pos = 0\<rparr>"

theorem dispatch_counts_records_witness:
  "\<exists>k'. mdns_dispatch_tx_packet car_netifs car_responder car_packet blank_packet = Inr ((), k')
    \<and> take 12 (wire k') = [0, 7, 0x84, 0, 0, 1, 0, 0, 0, 4, 0, 0]"
proof -
  let ?inst = "bytes_of ''car1''" and ?v = "srv car_service"
  let ?ns = "[Srv_record ?inst ?v ?inst, Txt_record ?inst ?v, Ptr_record ?inst (srv_service ?v) (srv_proto ?v), A_record ?inst 0x0101A8C0]"
  let ?q = "\<lparr>q_type = 0xFF, unicast = True, q_host = Some ?inst, q_service = Some (srv_service ?v), q_proto = Some (srv_proto ?v),
    q_domain = Some MDNS_DEFAULT_DOMAIN\<rparr>"
  have says: "packet_says car_netifs car_responder car_packet [?q] [] ?ns []"
    by (simp add: packet_says_def car_packet_def packet_at_def question_of_def text_of_def text_at_def car_responder_def car_service_def
        car_answer_def records_of_def service_records_def host_records_def self_a_records_def car_netifs_def mdns_if_is_dup_def
        mdns_get_other_if_def mdns_get_service_instance_name_def mdns_get_default_instance_name_def str_null_or_empty_def bytes_of_def Let_def)
  have fits: "list_all (short_name \<circ> question_strings) [?q]" "list_all rr_fits ([] @ ?ns @ [])"
    "packet_room [?q] ([] @ ?ns @ []) < MDNS_MAX_PACKET_SIZE"
    by (simp_all add: rr_fits_def rr_room_def short_name_def question_strings_def wire_len_def entries_room_def packet_room_def
        questions_room_def car_service_def bytes_of_def)
  show ?thesis
    using dispatch_counts_records [of blank_packet, OF _ _ says fits]
    by (auto simp: blank_packet_def header_of_def car_packet_def packet_at_def hi_byte_def lo_byte_def)
qed

end
