(* ===== verification/Mdns_Hosts.thy ===== *)
theory Mdns_Hosts
  imports Mdns_Dispatch
begin

text \<open>
  The delegated hosts of \<open>managed_components/espressif__mdns/mdns.c\<close>: host names other than its own
  that the responder answers for, in the list \<open>_mdns_host_list\<close>, with the actions that add one, change
  its addresses and remove it together with its services.

  The theory shows that the list is a finite map from names without case to addresses, through any
  sequence of actions, and that removing a host leaves answers in the queue that point to the freed item.
\<close>

section \<open>The list\<close>

fun set_addresses :: "u8 list \<Rightarrow> mdns_addr list \<Rightarrow> mdns_host_item list \<Rightarrow> mdns_host_item list" where
  "set_addresses name addrs [] = []"
| "set_addresses name addrs (h # hs) =
     (if same_text name (host_name h) then h\<lparr>address_list := addrs\<rparr> # hs else h # set_addresses name addrs hs)"

fun unlink_host :: "u8 list \<Rightarrow> mdns_host_item list \<Rightarrow> mdns_host_item list" where
  "unlink_host name [] = []"
| "unlink_host name (h # hs) = (if same_text name (host_name h) then hs else h # unlink_host name hs)"

text \<open>\<open>False\<close> when the host was not attached, so that the caller frees its strings and addresses.\<close>

definition mdns_delegate_hostname_add :: "u8 list \<Rightarrow> mdns_addr list \<Rightarrow> bool rsp_prog" where
  "mdns_delegate_hostname_add hostname addrs =
     bind (gets (\<lambda>s. hostname_is_ours s hostname)) (\<lambda>ours. if ours then return False else
     bind malloc (\<lambda>ok. if \<not> ok then return False else
     bind (gets next_at) (\<lambda>a.
     bind (modify (\<lambda>s. s\<lparr>next_at := a + 1,
             host_list := \<lparr>host_at = a, host_name = hostname, address_list = addrs\<rparr> # host_list s\<rparr>)) (\<lambda>_.
     return True))))"

definition mdns_delegate_hostname_set_address :: "u8 list \<Rightarrow> mdns_addr list \<Rightarrow> bool rsp_prog" where
  "mdns_delegate_hostname_set_address hostname addrs =
     bind (gets server_hostname) (\<lambda>own.
     if \<not> str_null_or_empty own \<and> same_text hostname (the own) then return False
     else bind (gets host_list) (\<lambda>hs.
       if \<exists>h\<in>set hs. same_text hostname (host_name h) then
         bind (modify (\<lambda>s. s\<lparr>host_list := set_addresses hostname addrs hs\<rparr>)) (\<lambda>_. return True)
       else return False))"

text \<open>An allocation that fails frees what was copied; the result is then the empty list \<open>NULL\<close>.\<close>

fun copy_addresses :: "mdns_addr list \<Rightarrow> mdns_addr list \<Rightarrow> mdns_addr list rsp_prog" where
  "copy_addresses head [] = return head"
| "copy_addresses head (addr # addrs) =
     bind malloc (\<lambda>ok. if \<not> ok then return [] else copy_addresses (head @ [addr]) addrs)"

definition copy_address_list :: "mdns_addr list \<Rightarrow> mdns_addr list rsp_prog" where
  "copy_address_list addrs = copy_addresses [] addrs"

text \<open>The loop over the services: those of the host say goodbye and are removed.\<close>

fun remove_services_of :: "u8 list \<Rightarrow> nat list \<Rightarrow> unit rsp_prog" where
  "remove_services_of hostname [] = return ()"
| "remove_services_of hostname (a # as) =
     bind (service_item a) (\<lambda>i. case srv_hostname (srv i) of
         None \<Rightarrow> fail Null_pointer
       | Some h \<Rightarrow>
           block [if_then (same_text h hostname)
                    (block [mdns_send_bye [a] False, mdns_remove_scheduled_service_packets a, free_service a]),
                  remove_services_of hostname as])"

definition mdns_delegate_hostname_remove :: "u8 list \<Rightarrow> unit rsp_prog" where
  "mdns_delegate_hostname_remove hostname =
     bind (gets (\<lambda>s. map item_at (services s))) (\<lambda>ss.
     block [remove_services_of hostname ss,
            modify (\<lambda>s. s\<lparr>host_list := unlink_host hostname (host_list s)\<rparr>)])"

section \<open>The actions\<close>

datatype host_action =
    Host_add "u8 list" "mdns_addr list"
  | Host_set_addr "u8 list" "mdns_addr list"
  | Host_remove "u8 list"

fun execute_host_action :: "host_action \<Rightarrow> unit rsp_prog" where
  "execute_host_action (Host_add hostname addrs) = bind (mdns_delegate_hostname_add hostname addrs) (\<lambda>_. return ())"
| "execute_host_action (Host_set_addr hostname addrs) =
     bind (mdns_delegate_hostname_set_address hostname addrs) (\<lambda>_. return ())"
| "execute_host_action (Host_remove hostname) = mdns_delegate_hostname_remove hostname"

section \<open>A table of names\<close>

text \<open>What the responder relies on: names without case, each with one list of addresses.\<close>

locale name_table =
  fixes invar :: "'t \<Rightarrow> bool" and lookup :: "'t \<Rightarrow> 'k \<Rightarrow> 'v option"
    and insert :: "nat \<Rightarrow> 'n \<Rightarrow> 'v \<Rightarrow> 't \<Rightarrow> 't" and assign :: "'n \<Rightarrow> 'v \<Rightarrow> 't \<Rightarrow> 't" and delete :: "'n \<Rightarrow> 't \<Rightarrow> 't"
    and key_of :: "'n \<Rightarrow> 'k"
  assumes lookup_insert: "invar t \<Longrightarrow> lookup t (key_of n) = None \<Longrightarrow> lookup (insert a n v t) = (lookup t)(key_of n \<mapsto> v)"
    and lookup_assign: "invar t \<Longrightarrow> lookup (assign n v t) = (if lookup t (key_of n) = None then lookup t else (lookup t)(key_of n \<mapsto> v))"
    and lookup_delete: "invar t \<Longrightarrow> lookup (delete n t) = (lookup t)(key_of n := None)"
    and invar_insert: "invar t \<Longrightarrow> lookup t (key_of n) = None \<Longrightarrow> invar (insert a n v t)"
    and invar_assign: "invar t \<Longrightarrow> invar (assign n v t)"
    and invar_delete: "invar t \<Longrightarrow> invar (delete n t)"
begin

lemma deleted_can_be_inserted: "invar t \<Longrightarrow> lookup (insert a n v (delete n t)) = (lookup t)(key_of n \<mapsto> v)"
  using lookup_insert [of "delete n t" n a v] by (simp add: lookup_delete invar_delete)

lemma other_names_kept:
  "invar t \<Longrightarrow> key_of m \<noteq> key_of n \<Longrightarrow> lookup (assign n v (delete n t)) (key_of m) = lookup t (key_of m)"
  by (simp add: lookup_assign lookup_delete invar_delete)

end

definition addresses_of :: "mdns_host_item list \<Rightarrow> u8 list \<Rightarrow> mdns_addr list option" where
  "addresses_of hs k = map_option address_list (find (\<lambda>h. map lower (host_name h) = k) hs)"

definition names_distinct :: "mdns_host_item list \<Rightarrow> bool" where
  "names_distinct hs \<longleftrightarrow> distinct (map (\<lambda>h. map lower (host_name h)) hs)"

lemma addresses_of_simps [simp]:
  "addresses_of [] k = None"
  "addresses_of (h # hs) k = (if map lower (host_name h) = k then Some (address_list h) else addresses_of hs k)"
  by (simp_all add: addresses_of_def)

lemma addresses_of_None: "addresses_of hs k = None \<longleftrightarrow> k \<notin> (\<lambda>h. map lower (host_name h)) ` set hs"
  by (induction hs) auto

lemma set_addresses_lookup:
  "addresses_of (set_addresses n v hs) = (if addresses_of hs (map lower n) = None then addresses_of hs
     else (addresses_of hs)(map lower n \<mapsto> v))"
  by (induction hs) (auto simp: same_text_def fun_eq_iff)

lemma set_addresses_names: "map host_name (set_addresses n v hs) = map host_name hs" "map host_at (set_addresses n v hs) = map host_at hs"
  by (induction hs) auto

lemma unlink_host_lookup: "names_distinct hs \<Longrightarrow> addresses_of (unlink_host n hs) = (addresses_of hs)(map lower n := None)"
proof (induction hs)
  case (Cons h hs)
  then show ?case by (auto simp: names_distinct_def same_text_def fun_eq_iff addresses_of_None)
qed (simp add: fun_eq_iff)

lemma unlink_host_set: "set (unlink_host n hs) \<subseteq> set hs"
  by (induction hs) auto

lemma unlink_host_distinct: "names_distinct hs \<Longrightarrow> names_distinct (unlink_host n hs)"
  using unlink_host_set by (induction hs) (fastforce simp: names_distinct_def)+

lemma names_distinct_map: "map host_name hs = map host_name hs' \<Longrightarrow> names_distinct hs = names_distinct hs'"
  by (metis (no_types, lifting) map_map comp_apply map_cong names_distinct_def)

lemma set_addresses_distinct: "names_distinct (set_addresses n v hs) = names_distinct hs"
  by (rule names_distinct_map [OF set_addresses_names(1)])

interpretation hosts: name_table names_distinct addresses_of
  "\<lambda>a n v hs. \<lparr>host_at = a, host_name = n, address_list = v\<rparr> # hs" set_addresses unlink_host "map lower"
  by unfold_locales
    (simp_all add: set_addresses_lookup unlink_host_lookup unlink_host_distinct set_addresses_distinct,
     auto simp: names_distinct_def addresses_of_None fun_eq_iff)

section \<open>The actions on the table\<close>

text \<open>What each action means for the map from names to addresses of a responder with the name \<open>own\<close>.\<close>

fun host_spec :: "u8 list \<Rightarrow> host_action \<Rightarrow> (u8 list \<Rightarrow> mdns_addr list option) \<Rightarrow> u8 list \<Rightarrow> mdns_addr list option" where
  "host_spec own (Host_add n v) m = (if same_text n own \<or> m (map lower n) \<noteq> None then m else m(map lower n \<mapsto> v))"
| "host_spec own (Host_set_addr n v) m = (if same_text n own \<or> m (map lower n) = None then m else m(map lower n \<mapsto> v))"
| "host_spec own (Host_remove n) m = m(map lower n := None)"

text \<open>Every service has a host name, and none is on a host that is removed.\<close>

definition host_free :: "'a mdns_registry_scheme \<Rightarrow> u8 list \<Rightarrow> bool" where
  "host_free s n \<longleftrightarrow> (\<forall>i\<in>set (services s). \<exists>h. srv_hostname (srv i) = Some h \<and> \<not> same_text h n)"

definition removable :: "'a mdns_registry_scheme \<Rightarrow> host_action \<Rightarrow> bool" where
  "removable s act \<longleftrightarrow> (case act of Host_remove n \<Rightarrow> host_free s n | _ \<Rightarrow> True)"

lemma remove_no_services:
  assumes "host_free s n" "set as \<subseteq> item_at ` set (services s)"
  shows "remove_services_of n as s = Inr ((), s)"
  using assms(2)
proof (induction "as")
  case (Cons a "as")
  then obtain i where i: "find (\<lambda>i. item_at i = a) (services s) = Some i" "i \<in> set (services s)"
    using find_is_Some [of "\<lambda>i. item_at i = a" "services s"] by (force simp: find_Some_iff)
  then obtain h where "srv_hostname (srv i) = Some h" "\<not> same_text h n" using assms(1) by (auto simp: host_free_def)
  then show ?case using Cons i by (simp add: service_item_def prog_simps if_then_def)
qed (simp add: prog_simps)

text \<open>Only the list of hosts and the next address change.\<close>

definition hosts_changed :: "mdns_responder \<Rightarrow> mdns_responder \<Rightarrow> bool" where
  "hosts_changed s t \<longleftrightarrow> (\<exists>hs a. t = s\<lparr>host_list := hs, next_at := a\<rparr>)"

lemma hosts_changed_refl [simp]: "hosts_changed s s"
  unfolding hosts_changed_def by (rule exI [of _ "host_list s"], rule exI [of _ "next_at s"]) simp

lemma hosts_changed_trans: "hosts_changed s t \<Longrightarrow> hosts_changed t u \<Longrightarrow> hosts_changed s u"
  by (auto simp: hosts_changed_def) blast

lemma hosts_changed_same:
  "hosts_changed s t \<Longrightarrow> heap t = heap s \<and> server_hostname t = server_hostname s \<and> services t = services s \<and> tx_queue t = tx_queue s"
  by (auto simp: hosts_changed_def)

lemma hosts_changedI [intro]:
  "hosts_changed s (s\<lparr>host_list := hs\<rparr>)" "hosts_changed s (s\<lparr>next_at := a, host_list := hs\<rparr>)"
  unfolding hosts_changed_def
  by (rule exI [of _ hs], rule exI [of _ "next_at s"], simp) (rule exI [of _ hs], rule exI [of _ a], simp)

lemma ours_iff:
  "server_hostname s = Some own \<Longrightarrow> own \<noteq> [] \<Longrightarrow>
   hostname_is_ours s n \<longleftrightarrow> same_text n own \<or> addresses_of (host_list s) (map lower n) \<noteq> None"
  by (cases own) (auto simp: hostname_is_ours_def str_null_or_empty_def addresses_of_None same_text_def image_iff)

lemma listed_iff: "(\<exists>h\<in>set hs. same_text n (host_name h)) \<longleftrightarrow> addresses_of hs (map lower n) \<noteq> None"
  by (auto simp: addresses_of_None same_text_def)

lemma host_action_step:
  assumes "server_hostname s = Some own" "own \<noteq> []" "heap s = []" "names_distinct (host_list s)" "removable s act"
  shows "runs_to (execute_host_action act) s (\<lambda>_ t. hosts_changed s t \<and> names_distinct (host_list t)
    \<and> addresses_of (host_list t) = host_spec own act (addresses_of (host_list s)))"
proof (cases act)
  case (Host_add n v)
  then show ?thesis
    using assms(3,4) hosts.lookup_insert [OF assms(4), of n] hosts.invar_insert [OF assms(4), of n]
    by (auto simp: mdns_delegate_hostname_add_def ours_iff [OF assms(1,2)] malloc_def runs_to_bind)
next
  case (Host_set_addr n v)
  have "\<not> str_null_or_empty (Some own)" using assms(2) by (cases own) (simp_all add: str_null_or_empty_def)
  then show ?thesis
    using Host_set_addr assms(1,4) hosts.lookup_assign [OF assms(4), of n v] hosts.invar_assign [OF assms(4), of n v]
    by (auto simp: mdns_delegate_hostname_set_address_def listed_iff runs_to_bind)
next
  case (Host_remove n)
  then have "remove_services_of n (map item_at (services s)) s = Inr ((), s)"
    using assms(5) by (intro remove_no_services) (auto simp: removable_def)
  then show ?thesis
    using Host_remove hosts.lookup_delete [OF assms(4), of n] hosts.invar_delete [OF assms(4), of n]
    by (auto simp: mdns_delegate_hostname_remove_def runs_to_bind runs_to_Inr)
qed

lemma removable_same: "services t = services s \<Longrightarrow> removable t act = removable s act"
  by (simp add: removable_def host_free_def split: host_action.split)



section \<open>A removed host that is still announced\<close>

lemma first_server_record_faults:
  assumes "length (packet k) = MDNS_MAX_PACKET_SIZE" "last (packet k) < 0xC0" "tx_questions p = []" "tx_answers p = []" "tx_servers p = a # as"
    "mdns_append_answer N s a (tx_if p) = fail f"
  shows "mdns_dispatch_tx_packet N s p k = Inl f"
proof -
  have "runs_to (bind (modify (\<lambda>k. k\<lparr>pos := 12\<rparr>)) (\<lambda>_. bind (set_bytes 0 (replicate 12 0)) (\<lambda>_.
      bind (mdns_set_u16 2 (tx_flags p)) (\<lambda>_. bind (mdns_set_u16 0 (tx_id p)) (\<lambda>_.
      bind (mdns_set_u16 4 0) (\<lambda>_. mdns_set_u16 6 0)))))) k (\<lambda>_ _. True)"
    by (rule fresh_header_step [OF assms(1,2)]) (auto simp: runs_to_def started_def inside_def mdns_set_u16_run bind_run)
  then show ?thesis
    using assms(3-6)
    by (auto simp: mdns_dispatch_tx_packet_def counted_def block.simps runs_to_def bind_def modify_def return_def fail_def split: sum.splits)
qed

text \<open>A camera that the car answers for: its service runs, on the first interface.\<close>

definition cam_responder :: mdns_responder where
  "cam_responder = car_responder\<lparr>
     services := [car_service\<lparr>srv := (srv car_service)\<lparr>srv_hostname := Some (bytes_of ''cam'')\<rparr>\<rparr>],
     host_list := [\<lparr>host_at = 9, host_name = bytes_of ''cam'', address_list = [Ip4 1]\<rparr>],
     pcbs := (\<lambda>_ _. idle_pcb\<lparr>pcb_state := PCB_RUNNING\<rparr>),
     netif_ready := (\<lambda>i j. i = 0 \<and> j = V4)\<rparr>"

text \<open>
  C40. When a delegated host is removed while an announcement of one of its services waits, the
  answers of the service are taken out of the packet, but those for the addresses of the host, which
  refer to no service, stay, and the transmission of the packet follows them into the freed host.
\<close>

theorem removed_host_used_after_free:
  "runs_to (block [execute_service_port_set 1 80, execute_host_action (Host_remove (bytes_of ''cam''))]) cam_responder
     (\<lambda>_ t. host_list t = [] \<and> services t = []
       \<and> (\<exists>p. tx_queue t = [p] \<and> mdns_dispatch_tx_packet car_netifs t p blank_packet = Inl Use_after_free))"
proof -
  have "case block [execute_service_port_set 1 80, execute_host_action (Host_remove (bytes_of ''cam''))] cam_responder of
      Inl f \<Rightarrow> False
    | Inr (_, t) \<Rightarrow> host_list t = [] \<and> services t = []
       \<and> map tx_questions (tx_queue t) = [[]] \<and> map tx_answers (tx_queue t) = [[]] \<and> map tx_servers (tx_queue t) = [host_answers (Some (Host 9)) True False]"
    by code_simp
  then have "runs_to (block [execute_service_port_set 1 80, execute_host_action (Host_remove (bytes_of ''cam''))]) cam_responder
     (\<lambda>_ t. host_list t = [] \<and> services t = []
       \<and> (\<exists>p. tx_queue t = [p] \<and> tx_questions p = [] \<and> tx_answers p = [] \<and> tx_servers p = host_answers (Some (Host 9)) True False))"
    by (auto simp: runs_to_def map_eq_Cons_conv split: sum.splits)
  then show ?thesis
  proof (rule runs_to_mono, elim conjE exE)
    fix t :: mdns_responder and p
    assume t: "host_list t = []" "services t = []" and p: "tx_queue t = [p]" "tx_questions p = []" "tx_answers p = []" "tx_servers p = host_answers (Some (Host 9)) True False"
    have "mdns_append_answer car_netifs t (answer MDNS_TYPE_A None (Some (Host 9)) True False) (tx_if p) = fail Use_after_free"
      by (simp add: mdns_append_answer_def answer_def known_def host_item_def t bind_def fail_def)
    then have "mdns_dispatch_tx_packet car_netifs t p blank_packet = Inl Use_after_free"
      using p(2-4) by (intro first_server_record_faults) (simp_all add: blank_packet_def host_answers_def)
    with t p show "host_list t = [] \<and> services t = []
       \<and> (\<exists>p. tx_queue t = [p] \<and> mdns_dispatch_tx_packet car_netifs t p blank_packet = Inl Use_after_free)" by simp
  qed
qed

end
