(* ===== verification/Mdns_Answer.thy ===== *)
theory Mdns_Answer
  imports Mdns_Hosts
begin

text \<open>
  How the responder answers the questions of a received packet, of
  \<open>managed_components/espressif__mdns/mdns.c\<close>: \<open>_mdns_create_answer_from_parsed_packet\<close> with the
  answers from a service, from a host name and from all hosts, and the decision when and where
  the packet goes.

  The theory shows that with memory the packet holds exactly the records its questions ask for, and
  that a question for any record of the hosts passes over a delegated host.

  The static \<open>share_step\<close> is an argument and the result. Reverse queries are not configured.
\<close>

section \<open>Data\<close>

text \<open>The fields of \<open>mdns_parsed_packet_t\<close> that answering reads.\<close>

record mdns_parsed_packet =
  pp_if :: nat
  pp_proto :: ip_protocol
  pp_src :: mdns_addr
  src_port :: u16
  probe :: bool
  pp_distributed :: bool
  pp_questions :: "mdns_parsed_question list"
  pp_id :: u16

section \<open>Answers into a packet\<close>

definition alloc_in :: "bool \<Rightarrow> out_answer \<Rightarrow> tx_packet \<Rightarrow> (bool \<times> tx_packet) rsp_prog" where
  "alloc_in extra a p =
     (if extra then bind (mdns_alloc_answer a (tx_additional p)) (\<lambda>(ok, d). return (ok, p\<lparr>tx_additional := d\<rparr>))
      else bind (mdns_alloc_answer a (tx_answers p)) (\<lambda>(ok, d). return (ok, p\<lparr>tx_answers := d\<rparr>)))"

text \<open>A chain \<open>!_mdns_alloc_answer(..) || ..\<close> over two lists: \<open>True\<close> marks the additional section.\<close>

fun alloc_all :: "(bool \<times> out_answer) list \<Rightarrow> tx_packet \<Rightarrow> (bool \<times> tx_packet) rsp_prog" where
  "alloc_all [] p = return (True, p)"
| "alloc_all (r # rs) p =
     bind (alloc_in (fst r) (snd r) p) (\<lambda>(ok, p'). if ok then alloc_all rs p' else return (False, p'))"

definition service_reply :: "u16 \<Rightarrow> nat \<Rightarrow> host_ptr option \<Rightarrow> bool \<Rightarrow> bool \<Rightarrow> (bool \<times> out_answer) list" where
  "service_reply type a h shared send_flush =
     (let is_delegated = h \<noteq> Some Self_host in
      if type = MDNS_TYPE_PTR \<or> type = MDNS_TYPE_ANY then
        [(False, answer MDNS_TYPE_PTR (Some a) None False False),
         (is_delegated, answer MDNS_TYPE_SRV (Some a) None send_flush False),
         (is_delegated, answer MDNS_TYPE_TXT (Some a) None send_flush False),
         (shared \<or> is_delegated, answer MDNS_TYPE_A (Some a) h send_flush False),
         (shared \<or> is_delegated, answer MDNS_TYPE_AAAA (Some a) h send_flush False)]
      else if type = MDNS_TYPE_SRV then
        [(False, answer MDNS_TYPE_SRV (Some a) None send_flush False),
         (True, answer MDNS_TYPE_A (Some a) h send_flush False),
         (True, answer MDNS_TYPE_AAAA (Some a) h send_flush False)]
      else if type = MDNS_TYPE_TXT then [(False, answer MDNS_TYPE_TXT (Some a) None send_flush False)]
      else if type = MDNS_TYPE_SDPTR then [(False, answer MDNS_TYPE_SDPTR (Some a) None False False)]
      else [])"

definition mdns_create_answer_from_service ::
    "tx_packet \<Rightarrow> mdns_srv_item \<Rightarrow> mdns_parsed_question \<Rightarrow> bool \<Rightarrow> bool \<Rightarrow> (bool \<times> tx_packet) rsp_prog" where
  "mdns_create_answer_from_service p i q shared send_flush =
     bind (lift (\<lambda>s. mdns_get_host_item s (srv_hostname (srv i)))) (\<lambda>h.
     alloc_all (service_reply (pq_type q) (item_at i) h shared send_flush) p)"

definition mdns_create_answer_from_hostname :: "tx_packet \<Rightarrow> u8 list option \<Rightarrow> bool \<Rightarrow> (bool \<times> tx_packet) rsp_prog" where
  "mdns_create_answer_from_hostname p hostname send_flush =
     bind (lift (\<lambda>s. mdns_get_host_item s hostname)) (\<lambda>h.
     alloc_all (map (Pair False) (host_answers h send_flush False)) p)"

text \<open>The item is advanced before its records are appended: the first host is passed over.\<close>

fun append_next_hosts :: "bool \<Rightarrow> bool \<Rightarrow> mdns_host_item list \<Rightarrow> out_answer list \<Rightarrow> (bool \<times> out_answer list) rsp_prog" where
  "append_next_hosts flush bye [] destination = return (True, destination)"
| "append_next_hosts flush bye (h # hs) destination =
     (let next = (case hs of [] \<Rightarrow> None | h' # _ \<Rightarrow> Some (Host (host_at h'))) in
      bind (alloc_answers (host_answers next flush bye) destination) (\<lambda>(ok, d).
      if ok then append_next_hosts flush bye hs d else return (False, d)))"

definition mdns_append_host_list :: "bool \<Rightarrow> bool \<Rightarrow> out_answer list \<Rightarrow> (bool \<times> out_answer list) rsp_prog" where
  "mdns_append_host_list flush bye destination =
     bind (gets server_hostname) (\<lambda>own.
     bind (if str_null_or_empty own then return (True, destination)
           else bind (lift (\<lambda>s. mdns_get_host_item s own)) (\<lambda>h. alloc_answers (host_answers h flush bye) destination))
       (\<lambda>(ok, d). if \<not> ok then return (False, d)
          else bind (gets host_list) (\<lambda>hs. append_next_hosts flush bye hs d)))"

section \<open>Which services a question asks for\<close>

text \<open>The loop over the subtypes of the service; \<open>strcasecmp\<close> needs both strings.\<close>

fun has_subtype :: "u8 list option \<Rightarrow> u8 list list \<Rightarrow> fault + bool" where
  "has_subtype h [] = Inr False"
| "has_subtype h (t # ts) =
     (case same_string (Some t) h of Inl f \<Rightarrow> Inl f | Inr True \<Rightarrow> Inr True | Inr False \<Rightarrow> has_subtype h ts)"

definition mdns_service_match_ptr_question ::
    "'a mdns_registry_scheme \<Rightarrow> mdns_srv_item \<Rightarrow> mdns_parsed_question \<Rightarrow> fault + bool" where
  "mdns_service_match_ptr_question s i q =
     (if \<not> mdns_service_match (srv i) (pq_service q) (pq_proto q) None then Inr False
      else if pq_sub q then has_subtype (pq_host q) (subtypes i)
      else if pq_host q \<noteq> None then same_string (mdns_get_service_instance_name s (srv i)) (pq_host q)
      else Inr True)"

fun answer_from_services ::
    "mdns_srv_item list \<Rightarrow> mdns_parsed_question \<Rightarrow> bool \<Rightarrow> bool \<Rightarrow> tx_packet \<Rightarrow> (bool \<times> tx_packet) rsp_prog" where
  "answer_from_services [] q shared send_flush p = return (True, p)"
| "answer_from_services (i # is) q shared send_flush p =
     bind (lift (\<lambda>s. mdns_service_match_ptr_question s i q)) (\<lambda>m.
     bind (if m then mdns_create_answer_from_service p i q shared send_flush else return (True, p)) (\<lambda>(ok, p').
     if ok then answer_from_services is q shared send_flush p' else return (False, p')))"

section \<open>Answering\<close>

definition question_shared :: "bool \<Rightarrow> mdns_parsed_question \<Rightarrow> bool" where
  "question_shared probing q \<longleftrightarrow> pq_type q = MDNS_TYPE_PTR \<or> pq_type q = MDNS_TYPE_SDPTR \<or> \<not> probing"

definition answer_question :: "bool \<Rightarrow> bool \<Rightarrow> mdns_parsed_question \<Rightarrow> tx_packet \<Rightarrow> (bool \<times> tx_packet) rsp_prog" where
  "answer_question shared send_flush q p =
     (if pq_type q = MDNS_TYPE_SRV \<or> pq_type q = MDNS_TYPE_TXT then
        bind (lift (\<lambda>s. mdns_get_service_item_instance s (pq_host q) (pq_service q) (pq_proto q) None)) (\<lambda>r.
        case r of None \<Rightarrow> return (False, p)
        | Some i \<Rightarrow> mdns_create_answer_from_service p i q shared send_flush)
      else if pq_service q \<noteq> None \<and> pq_proto q \<noteq> None then
        bind (gets services) (\<lambda>ss. answer_from_services ss q shared send_flush p)
      else if pq_type q = MDNS_TYPE_A \<or> pq_type q = MDNS_TYPE_AAAA then
        mdns_create_answer_from_hostname p (pq_host q) send_flush
      else if pq_type q = MDNS_TYPE_ANY then
        bind (mdns_append_host_list send_flush False (tx_answers p)) (\<lambda>(ok, d). return (ok, p\<lparr>tx_answers := d\<rparr>))
      else alloc_in False (answer (pq_type q) None None send_flush False) p)"

text \<open>A one-shot query gets its question back, with the strings of the parsed one.\<close>

definition repeated :: "mdns_parsed_question \<Rightarrow> tx_question" where
  "repeated q =
     \<lparr>tq_type = pq_type q, tq_unicast = pq_unicast q, tq_host = map_option Own_text (pq_host q),
      tq_service = map_option Own_text (pq_service q), tq_proto = map_option Own_text (pq_proto q),
      tq_domain = map_option Own_text (pq_domain q)\<rparr>"

definition repeat_question :: "u16 \<Rightarrow> mdns_parsed_question \<Rightarrow> tx_packet \<Rightarrow> (bool \<times> tx_packet) rsp_prog" where
  "repeat_question prt q p =
     (if prt \<noteq> MDNS_SERVICE_PORT \<and> pq_type q \<in> {MDNS_TYPE_ANY, MDNS_TYPE_A, MDNS_TYPE_AAAA} then
        bind malloc (\<lambda>ok. return (ok, if ok then p\<lparr>tx_questions := tx_questions p @ [repeated q]\<rparr> else p))
      else return (True, p))"

text \<open>The loop over the questions, with \<open>unicast\<close> and \<open>shared\<close>; \<open>None\<close> when the packet is freed.\<close>

fun answer_questions ::
    "mdns_parsed_packet \<Rightarrow> mdns_parsed_question list \<Rightarrow> bool \<Rightarrow> bool \<Rightarrow> tx_packet \<Rightarrow> (tx_packet \<times> bool \<times> bool) option rsp_prog" where
  "answer_questions pp [] unicst shared p = return (Some (p, unicst, shared))"
| "answer_questions pp (q # qs) unicst shared p =
     (let shared' = question_shared (probe pp) q in
      bind (answer_question shared' (src_port pp = MDNS_SERVICE_PORT) q p) (\<lambda>(ok, p1).
      if \<not> ok then return None
      else bind (repeat_question (src_port pp) q p1) (\<lambda>(ok, p2).
      if \<not> ok then return None
      else answer_questions pp qs (unicst \<or> pq_unicast q) shared' p2)))"

definition mdns_create_answer_from_parsed_packet :: "mdns_parsed_packet \<Rightarrow> nat \<Rightarrow> nat rsp_prog" where
  "mdns_create_answer_from_parsed_packet pp share_step =
     (if pp_questions pp = [] then return share_step
      else bind (mdns_alloc_packet_default (pp_if pp) (pp_proto pp)) (\<lambda>pkt. case pkt of None \<Rightarrow> return share_step | Some p \<Rightarrow>
      bind (answer_questions pp (pp_questions pp) False False
              (p\<lparr>tx_flags := MDNS_FLAGS_QR_AUTHORITATIVE, tx_distributed := pp_distributed pp, tx_id := pp_id pp\<rparr>)) (\<lambda>r.
      case r of None \<Rightarrow> return share_step
      | Some (p, unicst, shared) \<Rightarrow>
          (let p' = (if unicst \<or> src_port pp \<noteq> MDNS_SERVICE_PORT then p\<lparr>tx_dst := pp_src pp, tx_port := src_port pp\<rparr> else p) in
           if shared then bind (schedule_tx p' (of_nat (25 + share_step * 25))) (\<lambda>_. return ((share_step + 1) mod 4))
           else bind (dispatch_tx p') (\<lambda>_. return share_step)))))"

section \<open>What a question asks for\<close>

text \<open>A record is known by its type and by the service and the host it is about.\<close>

definition about :: "out_answer \<Rightarrow> u16 \<times> nat option \<times> host_ptr option" where
  "about a = (a_type a, a_service a, a_host a)"

definition content :: "tx_packet \<Rightarrow> (u16 \<times> nat option \<times> host_ptr option) set" where
  "content p = about ` set (tx_answers p @ tx_additional p)"

definition the_host :: "'a mdns_registry_scheme \<Rightarrow> u8 list option \<Rightarrow> host_ptr option" where
  "the_host s h = (case mdns_get_host_item s h of Inl _ \<Rightarrow> None | Inr p \<Rightarrow> p)"

text \<open>The service is of the type in the question, and its instance or one of its subtypes is the host there.\<close>

definition asks_about :: "'a mdns_registry_scheme \<Rightarrow> mdns_parsed_question \<Rightarrow> mdns_srv_item \<Rightarrow> bool" where
  "asks_about s q i \<longleftrightarrow>
     (case (pq_service q, pq_proto q) of (Some sv, Some pr) \<Rightarrow> serves (srv i) sv pr | _ \<Rightarrow> False)
     \<and> (if pq_sub q \<and> pq_type q \<notin> {MDNS_TYPE_SRV, MDNS_TYPE_TXT} then \<exists>t\<in>set (subtypes i). str_is (pq_host q) t
        else pq_host q = None \<or> (\<exists>inst. mdns_get_service_instance_name s (srv i) = Some inst \<and> str_is (pq_host q) inst))"

text \<open>A question for a unique record is answered by the first service it asks about.\<close>

definition asked_services :: "'a mdns_registry_scheme \<Rightarrow> mdns_parsed_question \<Rightarrow> mdns_srv_item list" where
  "asked_services s q =
     (if pq_type q \<in> {MDNS_TYPE_SRV, MDNS_TYPE_TXT} then take 1 (filter (asks_about s q) (services s))
      else filter (asks_about s q) (services s))"

definition reply_kinds :: "u16 \<Rightarrow> host_ptr option \<Rightarrow> (u16 \<times> host_ptr option) set" where
  "reply_kinds type h =
     (if type = MDNS_TYPE_PTR \<or> type = MDNS_TYPE_ANY then
        {(MDNS_TYPE_PTR, None), (MDNS_TYPE_SRV, None), (MDNS_TYPE_TXT, None), (MDNS_TYPE_A, h), (MDNS_TYPE_AAAA, h)}
      else if type = MDNS_TYPE_SRV then {(MDNS_TYPE_SRV, None), (MDNS_TYPE_A, h), (MDNS_TYPE_AAAA, h)}
      else if type \<in> {MDNS_TYPE_TXT, MDNS_TYPE_SDPTR} then {(type, None)} else {})"

definition service_records_asked :: "'a mdns_registry_scheme \<Rightarrow> u16 \<Rightarrow> mdns_srv_item \<Rightarrow> (u16 \<times> nat option \<times> host_ptr option) set" where
  "service_records_asked s type i =
     (\<lambda>(t, h). (t, Some (item_at i), h)) ` reply_kinds type (the_host s (srv_hostname (srv i)))"

definition asked_records :: "'a mdns_registry_scheme \<Rightarrow> mdns_parsed_question \<Rightarrow> (u16 \<times> nat option \<times> host_ptr option) set" where
  "asked_records s q =
     (if pq_service q \<noteq> None \<and> pq_proto q \<noteq> None then
        \<Union>(service_records_asked s (pq_type q) ` set (asked_services s q))
      else if pq_type q \<in> {MDNS_TYPE_A, MDNS_TYPE_AAAA, MDNS_TYPE_ANY} then
        (\<lambda>t. (t, None, if pq_type q = MDNS_TYPE_ANY then Some Self_host else the_host s (pq_host q))) ` {MDNS_TYPE_A, MDNS_TYPE_AAAA}
      else {(pq_type q, None, None)})"

text \<open>The questions that have an answer; one for all records of the hosts, as long as none is delegated.\<close>

definition answerable :: "'a mdns_registry_scheme \<Rightarrow> mdns_parsed_question \<Rightarrow> bool" where
  "answerable s q \<longleftrightarrow>
     (if pq_type q \<in> {MDNS_TYPE_SRV, MDNS_TYPE_TXT} then pq_host q \<noteq> None \<and> (\<exists>i\<in>set (services s). asks_about s q i)
      else if pq_service q \<noteq> None \<and> pq_proto q \<noteq> None then (pq_sub q \<longrightarrow> pq_host q \<noteq> None)
      else pq_type q = MDNS_TYPE_ANY \<longrightarrow> host_list s = [])"

section \<open>Packets that grow\<close>

text \<open>All that is not questions and answers.\<close>

definition envelope :: "tx_packet \<Rightarrow> tx_packet" where
  "envelope p = p\<lparr>tx_questions := [], tx_answers := [], tx_additional := []\<rparr>"

lemma envelope_updates [simp]:
  "envelope (p\<lparr>tx_questions := qs\<rparr>) = envelope p" "envelope (p\<lparr>tx_answers := as\<rparr>) = envelope p"
  "envelope (p\<lparr>tx_additional := as\<rparr>) = envelope p"
  by (simp_all add: envelope_def)

lemma envelope_fields:
  "envelope p = envelope q \<Longrightarrow> tx_dst p = tx_dst q \<and> tx_port p = tx_port q \<and> tx_id p = tx_id q"
  by (cases p; cases q) (simp add: envelope_def)

definition grows :: "(u16 \<times> nat option \<times> host_ptr option) set \<Rightarrow> tx_packet \<Rightarrow> tx_packet \<Rightarrow> bool" where
  "grows X p p' \<longleftrightarrow> content p' = content p \<union> X
     \<and> tx_questions p' = tx_questions p \<and> envelope p' = envelope p"

lemma grows_refl [simp]: "grows {} p p"
  by (simp add: grows_def)

lemma grows_trans: "grows X p p' \<Longrightarrow> grows Y p' p'' \<Longrightarrow> X \<union> Y = Z \<Longrightarrow> grows Z p p''"
  by (auto simp: grows_def)

text \<open>With memory nothing but the packet changes.\<close>

definition fills :: "mdns_responder \<Rightarrow> (u16 \<times> nat option \<times> host_ptr option) set \<Rightarrow> tx_packet \<Rightarrow> (bool \<times> tx_packet) rsp_prog \<Rightarrow> bool" where
  "fills s X p prg \<longleftrightarrow> runs_to prg s (\<lambda>r t. t = s \<and> fst r \<and> grows X p (snd r))"

lemma same_answer_about: "same_answer a d \<longleftrightarrow> about d = about a"
  by (auto simp: same_answer_def about_def)

lemma alloc_answer_about:
  assumes "heap s = []"
  shows "mdns_alloc_answer a d s = Inr ((True, if about a \<in> about ` set d then d else d @ [a]), s)"
  using assms by (auto simp: mdns_alloc_answer_def same_answer_about malloc_def prog_simps image_iff)

lemma fills_alloc_in: "heap s = [] \<Longrightarrow> fills s {about a} p (alloc_in extra a p)"
  by (auto simp: fills_def alloc_in_def runs_to_bind runs_to_Inr [OF alloc_answer_about] grows_def content_def)

lemma fills_return: "fills s {} p (return (True, p))"
  by (simp add: fills_def)

lemma fills_bind:
  assumes "fills s X p prg" "\<And>p'. grows X p p' \<Longrightarrow> fills s Y p' (k p')" "X \<union> Y = Z"
  shows "fills s Z p (bind prg (\<lambda>(ok, p'). if ok then k p' else return (False, p')))"
proof -
  have "runs_to (case r of (ok, p') \<Rightarrow> if ok then k p' else return (False, p')) s (\<lambda>r t. t = s \<and> fst r \<and> grows Z p (snd r))"
    if r: "fst r" "grows X p (snd r)" for r
  proof -
    have "runs_to (k (snd r)) s (\<lambda>r' t. t = s \<and> fst r' \<and> grows Y (snd r) (snd r'))"
      using assms(2) [OF r(2)] by (simp add: fills_def)
    then have "runs_to (k (snd r)) s (\<lambda>r t. t = s \<and> fst r \<and> grows Z p (snd r))"
      by (rule runs_to_mono) (use r(2) assms(3) in \<open>auto intro: grows_trans\<close>)
    then show ?thesis using r(1) by (cases r) simp
  qed
  then show ?thesis
    using assms(1) unfolding fills_def by (auto elim!: runs_to_bindI)
qed

lemma fills_alloc_all: "heap s = [] \<Longrightarrow> fills s ((about \<circ> snd) ` set rs) p (alloc_all rs p)"
proof (induction rs arbitrary: p)
  case (Cons r rs)
  show ?case
    unfolding alloc_all.simps by (rule fills_bind [OF fills_alloc_in Cons.IH]) (use Cons.prems in auto)
qed (simp add: fills_return)

lemma fills_lift: "fills s X p (bind (lift f) k) = (case f s of Inl _ \<Rightarrow> False | Inr h \<Rightarrow> fills s X p (k h))"
  by (simp add: fills_def runs_to_def bind_def lift_def split: sum.split)

lemma fills_gets: "fills s X p (k (f s)) \<Longrightarrow> fills s X p (bind (gets f) k)"
  by (simp add: fills_def runs_to_bind)

section \<open>Questions are answered in full\<close>

lemma the_host_run: "wf_registry s \<Longrightarrow> mdns_get_host_item s h = Inr (the_host s h)"
  by (auto simp: wf_registry_def the_host_def mdns_get_host_item_def same_string_def str_null_or_empty_iff split: option.splits bool.splits)

lemma the_host_self: "wf_registry s \<Longrightarrow> the_host s (server_hostname s) = Some Self_host"
  by (auto simp: wf_registry_def the_host_def mdns_get_host_item_def same_string_def same_text_def str_null_or_empty_iff)

lemma service_reply_about:
  "(about \<circ> snd) ` set (service_reply type a h shared flush) = (\<lambda>(t, h). (t, Some a, h)) ` reply_kinds type h"
  by (auto simp: service_reply_def reply_kinds_def about_def answer_def Let_def)

lemma fills_from_service:
  assumes "wf_registry s" "heap s = []"
  shows "fills s (service_records_asked s (pq_type q) i) p (mdns_create_answer_from_service p i q shared flush)"
  unfolding mdns_create_answer_from_service_def
  using fills_alloc_all [OF assms(2), of "service_reply (pq_type q) (item_at i) (the_host s (srv_hostname (srv i))) shared flush" p,
      unfolded service_reply_about]
  by (simp add: fills_lift the_host_run [OF assms(1)] service_records_asked_def)

lemma has_subtype_iff: "h \<noteq> None \<Longrightarrow> has_subtype h ts = Inr (\<exists>t\<in>set ts. str_is h t)"
  by (induction ts) (auto simp: same_string_def str_is_def split: bool.splits)

lemma match_ptr_question:
  assumes "wf_registry s" "i \<in> set (services s)" "pq_service q \<noteq> None" "pq_proto q \<noteq> None" "pq_sub q \<Longrightarrow> pq_host q \<noteq> None"
    "pq_type q \<notin> {MDNS_TYPE_SRV, MDNS_TYPE_TXT}"
  shows "mdns_service_match_ptr_question s i q = Inr (asks_about s q i)"
proof -
  obtain sv pr where sv: "pq_service q = Some sv" "pq_proto q = Some pr" using assms(3,4) by auto
  obtain inst where inst: "mdns_get_service_instance_name s (srv i) = Some inst" using instance_name_wf [OF assms(1,2)] by metis
  have "srv_hostname (srv i) \<noteq> None" using assms(1,2) by (simp add: wf_registry_def)
  then show ?thesis
    using assms(5,6) inst
    by (auto simp: mdns_service_match_ptr_question_def asks_about_def sv match_wf has_subtype_iff same_string_def str_is_def
        split: option.splits)
qed

lemma fills_from_services:
  assumes "wf_registry s" "heap s = []" "pq_service q \<noteq> None" "pq_proto q \<noteq> None" "pq_sub q \<Longrightarrow> pq_host q \<noteq> None"
    "pq_type q \<notin> {MDNS_TYPE_SRV, MDNS_TYPE_TXT}" "set is \<subseteq> set (services s)"
  shows "fills s (\<Union>(service_records_asked s (pq_type q) ` set (filter (asks_about s q) is))) p (answer_from_services is q shared flush p)"
  using assms(7)
proof (induction "is" arbitrary: p)
  case (Cons i "is")
  have m: "mdns_service_match_ptr_question s i q = Inr (asks_about s q i)"
    using assms Cons.prems by (intro match_ptr_question) auto
  have "fills s (if asks_about s q i then service_records_asked s (pq_type q) i else {}) p
      (if asks_about s q i then mdns_create_answer_from_service p i q shared flush else return (True, p))"
    using fills_from_service [OF assms(1,2)] by (simp add: fills_return)
  then show ?case
    unfolding answer_from_services.simps fills_lift m sum.case
    by (rule fills_bind [OF _ Cons.IH]) (use Cons.prems in auto)
qed (simp add: fills_return)

lemma alloc_answers_about:
  "heap s = [] \<Longrightarrow> \<exists>d'. alloc_answers as d s = Inr ((True, d'), s) \<and> about ` set d' = about ` set d \<union> about ` set as"
proof (induction "as" arbitrary: d)
  case (Cons a "as")
  obtain d' where "alloc_answers as (if about a \<in> about ` set d then d else d @ [a]) s = Inr ((True, d'), s)"
    "about ` set d' = about ` set (if about a \<in> about ` set d then d else d @ [a]) \<union> about ` set as"
    using Cons by blast
  then show ?case using Cons.prems by (auto simp: bind_run alloc_answer_about)
qed (simp add: return_def)

text \<open>With no delegated host, the hosts are this host.\<close>

lemma fills_own_hosts:
  assumes "wf_registry s" "heap s = []" "host_list s = []" "\<not> str_null_or_empty (server_hostname s)"
  shows "fills s ((\<lambda>t. (t, None, Some Self_host)) ` {MDNS_TYPE_A, MDNS_TYPE_AAAA}) p
    (bind (mdns_append_host_list flush False (tx_answers p)) (\<lambda>(ok, d). return (ok, p\<lparr>tx_answers := d\<rparr>)))"
proof -
  obtain d where d: "alloc_answers (host_answers (Some Self_host) flush False) (tx_answers p) s = Inr ((True, d), s)"
      "about ` set d = about ` set (tx_answers p) \<union> about ` set (host_answers (Some Self_host) flush False)"
    using alloc_answers_about [OF assms(2)] by blast
  have "mdns_append_host_list flush False (tx_answers p) s = Inr ((True, d), s)"
    using assms(3,4) d(1) the_host_run [OF assms(1), of "server_hostname s"] the_host_self [OF assms(1)]
    by (simp add: mdns_append_host_list_def lift_def prog_simps)
  moreover have "grows ((\<lambda>t. (t, None, Some Self_host)) ` {MDNS_TYPE_A, MDNS_TYPE_AAAA}) p (p\<lparr>tx_answers := d\<rparr>)"
    using d(2) by (auto simp: grows_def content_def image_Un host_answers_def about_def answer_def)
  ultimately show ?thesis by (simp add: fills_def runs_to_bind runs_to_Inr)
qed

lemma find_hd_filter: "filter P xs = y # ys \<Longrightarrow> find P xs = Some y"
  by (induction xs) (auto split: if_splits)

lemma fills_question:
  assumes "wf_registry s" "heap s = []" "answerable s q"
  shows "fills s (asked_records s q) p (answer_question shared flush q p)"
proof (cases "pq_type q \<in> {MDNS_TYPE_SRV, MDNS_TYPE_TXT}")
  case True
  then obtain i h where i: "i \<in> set (services s)" "asks_about s q i" and h: "pq_host q = Some h"
    using assms(3) by (auto simp: answerable_def)
  then obtain sv pr where sv: "pq_service q = Some sv" "pq_proto q = Some pr"
    by (auto simp: asks_about_def split: option.splits)
  have eq: "is_instance s h sv pr = asks_about s q"
    using True by (auto simp: fun_eq_iff is_instance_def asks_about_def sv h str_is_def same_text_sym)
  obtain j js where js: "filter (asks_about s q) (services s) = j # js"
    using i by (cases "filter (asks_about s q) (services s)") (auto simp: filter_empty_conv)
  then have "find (asks_about s q) (services s) = Some j" by (rule find_hd_filter)
  then have found: "mdns_get_service_item_instance s (pq_host q) (pq_service q) (pq_proto q) None = Inr (Some j)"
    using find_instance_wf [OF assms(1) subset_refl, of h sv pr] by (simp add: mdns_get_service_item_instance_def h sv eq)
  have "asked_records s q = service_records_asked s (pq_type q) j"
    using True by (auto simp: asked_records_def asked_services_def sv js)
  then show ?thesis
    using True found fills_from_service [OF assms(1,2)] by (auto simp: answer_question_def fills_lift)
next
  case no_instance: False
  show ?thesis
  proof (cases "pq_service q \<noteq> None \<and> pq_proto q \<noteq> None")
    case True
    then show ?thesis
      using no_instance assms(3) fills_from_services [OF assms(1,2) _ _ _ no_instance subset_refl, of p shared flush]
      by (auto simp: answer_question_def asked_records_def asked_services_def answerable_def intro!: fills_gets)
  next
    case no_service: False
    show ?thesis
    proof (cases "pq_type q \<in> {MDNS_TYPE_A, MDNS_TYPE_AAAA}")
      case True
      have "asked_records s q = (about \<circ> snd) ` set (map (Pair False) (host_answers (the_host s (pq_host q)) flush False))"
        using True no_service by (auto simp: asked_records_def host_answers_def about_def answer_def)
      then show ?thesis
        using True no_service no_instance
          fills_alloc_all [OF assms(2), of "map (Pair False) (host_answers (the_host s (pq_host q)) flush False)" p]
        by (auto simp: answer_question_def mdns_create_answer_from_hostname_def fills_lift the_host_run [OF assms(1)])
    next
      case no_host: False
      show ?thesis
      proof (cases "pq_type q = MDNS_TYPE_ANY")
        case True
        then have "host_list s = []" using assms(3) no_service by (simp add: answerable_def)
        moreover have "\<not> str_null_or_empty (server_hostname s)" using assms(1) by (simp add: wf_registry_def)
        ultimately have "fills s (asked_records s q) p
            (bind (mdns_append_host_list flush False (tx_answers p)) (\<lambda>(ok, d). return (ok, p\<lparr>tx_answers := d\<rparr>)))"
          using True no_service fills_own_hosts [OF assms(1,2)] by (auto simp: asked_records_def)
        then show ?thesis using True no_service by (auto simp: answer_question_def)
      next
        case False
        then show ?thesis
          using no_instance no_service no_host fills_alloc_in [OF assms(2), of "answer (pq_type q) None None flush False" p False]
          by (auto simp: answer_question_def asked_records_def about_def answer_def)
      qed
    qed
  qed
qed

definition repeats :: "u16 \<Rightarrow> mdns_parsed_question \<Rightarrow> bool" where
  "repeats prt q \<longleftrightarrow> prt \<noteq> MDNS_SERVICE_PORT \<and> pq_type q \<in> {MDNS_TYPE_ANY, MDNS_TYPE_A, MDNS_TYPE_AAAA}"

lemma repeat_question_run:
  "heap s = [] \<Longrightarrow> repeat_question prt q p s
     = Inr ((True, if repeats prt q then p\<lparr>tx_questions := tx_questions p @ [repeated q]\<rparr> else p), s)"
  by (simp add: repeat_question_def repeats_def malloc_def prog_simps)

definition answered ::
    "mdns_responder \<Rightarrow> u16 \<Rightarrow> mdns_parsed_question list \<Rightarrow> tx_packet \<Rightarrow> tx_packet \<Rightarrow> bool" where
  "answered s prt qs p p' \<longleftrightarrow> content p' = content p \<union> \<Union>(asked_records s ` set qs)
     \<and> tx_questions p' = tx_questions p @ map repeated (filter (repeats prt) qs) \<and> envelope p' = envelope p"

lemma questions_step_answered:
  assumes "wf_registry s" "heap s = []" "list_all (answerable s) qs"
  shows "\<exists>p'. answer_questions pp qs unicst shared p s
      = Inr (Some (p', unicst \<or> (\<exists>q\<in>set qs. pq_unicast q), if qs = [] then shared else question_shared (probe pp) (last qs)), s)
    \<and> answered s (src_port pp) qs p p'"
  using assms(3)
proof (induction qs arbitrary: unicst shared p)
  case (Cons q qs)
  let ?sh = "question_shared (probe pp) q"
  have "fills s (asked_records s q) p (answer_question ?sh (src_port pp = MDNS_SERVICE_PORT) q p)"
    using fills_question [OF assms(1,2)] Cons.prems by simp
  then obtain p1 where p1: "answer_question ?sh (src_port pp = MDNS_SERVICE_PORT) q p s = Inr ((True, p1), s)" "grows (asked_records s q) p p1"
    by (auto simp: fills_def runs_to_def split: sum.splits)
  define p2 where "p2 = (if repeats (src_port pp) q then p1\<lparr>tx_questions := tx_questions p1 @ [repeated q]\<rparr> else p1)"
  have p2: "answered s (src_port pp) [q] p p2"
    using p1(2) by (simp add: answered_def grows_def p2_def content_def)
  obtain p' where p': "answer_questions pp qs (unicst \<or> pq_unicast q) ?sh p2 s
      = Inr (Some (p', (unicst \<or> pq_unicast q) \<or> (\<exists>q\<in>set qs. pq_unicast q), if qs = [] then ?sh else question_shared (probe pp) (last qs)), s)"
    "answered s (src_port pp) qs p2 p'"
    using Cons.IH Cons.prems by fastforce
  have "answered s (src_port pp) (q # qs) p p'" using p2 p'(2) by (auto simp: answered_def)
  moreover have "answer_questions pp (q # qs) unicst shared p s = answer_questions pp qs (unicst \<or> pq_unicast q) ?sh p2 s"
    using p1(1) repeat_question_run [OF assms(2)] by (simp add: bind_run p2_def Let_def)
  ultimately show ?case using p'(1) by auto
qed (simp add: return_def answered_def)

lemma next_at_names:
  "mdns_get_host_item (s\<lparr>next_at := n\<rparr>) = mdns_get_host_item s" "wf_registry (s\<lparr>next_at := n\<rparr>) = wf_registry s"
  "mdns_get_service_instance_name (s\<lparr>next_at := n\<rparr>) = mdns_get_service_instance_name s"
  for s :: mdns_responder
  by (simp_all add: fun_eq_iff mdns_get_host_item_def mdns_get_service_instance_name_def mdns_get_default_instance_name_def wf_registry_def
      cong: option.case_cong sum.case_cong bool.case_cong)

lemma next_at_asks:
  "the_host (s\<lparr>next_at := n\<rparr>) = the_host s" "asks_about (s\<lparr>next_at := n\<rparr>) = asks_about s" for s :: mdns_responder
  unfolding fun_eq_iff the_host_def asks_about_def next_at_names by (rule allI refl)+

lemma next_at_asked:
  "asked_records (s\<lparr>next_at := n\<rparr>) = asked_records s" "answerable (s\<lparr>next_at := n\<rparr>) = answerable s" for s :: mdns_responder
  by (simp_all add: fun_eq_iff asked_records_def answerable_def service_records_asked_def asked_services_def next_at_asks)

section \<open>The answer\<close>

text \<open>The packet goes to the group, unless a question asks for a unicast answer or comes from another port.\<close>

definition reply_to :: "mdns_parsed_packet \<Rightarrow> mdns_addr \<times> u16" where
  "reply_to pp =
     (if (\<exists>q\<in>set (pp_questions pp). pq_unicast q) \<or> src_port pp \<noteq> MDNS_SERVICE_PORT then (pp_src pp, src_port pp)
      else (tx_dst (new_packet (pp_if pp) (pp_proto pp) 0), MDNS_SERVICE_PORT))"

text \<open>A shared answer waits 25, 50, 75 or 100 ms, in turn; one to a probe is sent at once.\<close>

definition answer_sent :: "mdns_parsed_packet \<Rightarrow> nat \<Rightarrow> tx_packet \<Rightarrow> mdns_responder \<Rightarrow> nat \<times> mdns_responder" where
  "answer_sent pp share_step p s =
     (if question_shared (probe pp) (last (pp_questions pp)) then
        ((share_step + 1) mod 4, s\<lparr>next_at := next_at s + 1,
           tx_queue := mdns_schedule_tx_packet (millis s) p (of_nat (25 + 25 * share_step)) (tx_queue s)\<rparr>)
      else (share_step, s\<lparr>next_at := next_at s + 1, dispatched := dispatched s @ [p]\<rparr>))"

text \<open>
  C15. With memory, a packet of questions that can be answered gets one answer packet, with its id, that
  holds exactly the records the questions ask for: all records of each service they are about, and
  the addresses of the host; the questions of a one-shot query are repeated in it. It is addressed to the
  group or to the asker, and sent at once or queued with the next delay of the four.
\<close>

theorem questions_answered_exactly:
  assumes "wf_registry s" "heap s = []" "pp_questions pp \<noteq> []" "list_all (answerable s) (pp_questions pp)"
  shows "\<exists>p. mdns_create_answer_from_parsed_packet pp share_step s = Inr (answer_sent pp share_step p s)
    \<and> content p = \<Union>(asked_records s ` set (pp_questions pp))
    \<and> tx_questions p = map repeated (filter (repeats (src_port pp)) (pp_questions pp))
    \<and> (tx_dst p, tx_port p) = reply_to pp \<and> tx_id p = pp_id pp"
proof -
  let ?p0 = "(new_packet (pp_if pp) (pp_proto pp) (next_at s))\<lparr>tx_flags := MDNS_FLAGS_QR_AUTHORITATIVE,
      tx_distributed := pp_distributed pp, tx_id := pp_id pp\<rparr>"
  let ?s = "s\<lparr>next_at := next_at s + 1\<rparr>"
  have new: "mdns_alloc_packet_default (pp_if pp) (pp_proto pp) s = Inr (Some (new_packet (pp_if pp) (pp_proto pp) (next_at s)), ?s)"
    using assms(2) by (simp add: mdns_alloc_packet_default_def malloc_def prog_simps)
  obtain p' where r: "answer_questions pp (pp_questions pp) False False ?p0 ?s = Inr (Some (p', \<exists>q\<in>set (pp_questions pp). pq_unicast q,
        question_shared (probe pp) (last (pp_questions pp))), ?s)"
      and p': "answered ?s (src_port pp) (pp_questions pp) ?p0 p'"
    using questions_step_answered [of ?s "pp_questions pp" pp False False ?p0] assms by (auto simp: next_at_names next_at_asked)
  have c: "content p' = \<Union>(asked_records s ` set (pp_questions pp))"
    and q: "tx_questions p' = map repeated (filter (repeats (src_port pp)) (pp_questions pp))" and e: "envelope p' = envelope ?p0"
    using p' by (simp_all add: answered_def next_at_asked content_def)
  define p where "p = (if (\<exists>q\<in>set (pp_questions pp). pq_unicast q) \<or> src_port pp \<noteq> MDNS_SERVICE_PORT
      then p'\<lparr>tx_dst := pp_src pp, tx_port := src_port pp\<rparr> else p')"
  have "mdns_create_answer_from_parsed_packet pp share_step s = Inr (answer_sent pp share_step p s)"
    using assms(3) new r
    by (simp add: mdns_create_answer_from_parsed_packet_def bind_run answer_sent_def p_def Let_def schedule_tx_def dispatch_tx_def
        modify_def return_def mult.commute)
  moreover have "content p = content p'" by (simp add: p_def content_def)
  moreover have "tx_questions p = map repeated (filter (repeats (src_port pp)) (pp_questions pp))" "tx_id p = pp_id pp"
    using q envelope_fields [OF e] by (simp_all add: p_def)
  moreover have "(tx_dst p, tx_port p) = reply_to pp"
    using envelope_fields [OF e] by (simp add: p_def reply_to_def new_packet_def)
  ultimately show ?thesis using c by blast
qed

text \<open>The witness: the car is browsed for its service, from the mDNS port.\<close>

definition browse_packet :: mdns_parsed_packet where
  "browse_packet = \<lparr>pp_if = 0, pp_proto = V4, pp_src = Ip4 1, src_port = 5353, probe = False, pp_distributed = False,
     pp_questions = [\<lparr>pq_type = MDNS_TYPE_PTR, pq_sub = False, pq_unicast = False, pq_host = None,
        pq_service = Some (bytes_of ''_CAR''), pq_proto = Some (bytes_of ''_udp''), pq_domain = Some MDNS_DEFAULT_DOMAIN\<rparr>],
     pp_id = 0\<rparr>"

theorem questions_answered_exactly_witness:
  "\<exists>p. mdns_create_answer_from_parsed_packet browse_packet 2 car_responder
      = Inr (3, car_responder\<lparr>next_at := 1, tx_queue := [p\<lparr>tx_send_at := 75\<rparr>]\<rparr>)
    \<and> content p = {(MDNS_TYPE_PTR, Some 1, None), (MDNS_TYPE_SRV, Some 1, None), (MDNS_TYPE_TXT, Some 1, None),
        (MDNS_TYPE_A, Some 1, Some Self_host), (MDNS_TYPE_AAAA, Some 1, Some Self_host)}"
proof -
  have wf: "wf_registry car_responder" by (simp add: wf_registry_def car_responder_def car_service_def str_null_or_empty_def bytes_of_def)
  have "asks_about car_responder (hd (pp_questions browse_packet)) car_service"
    by (simp add: asks_about_def browse_packet_def car_service_def serves_def same_text_def lower_def bytes_of_def)
  moreover have "the_host car_responder (srv_hostname (srv car_service)) = Some Self_host"
    using the_host_self [OF wf] by (simp add: car_responder_def car_service_def)
  ultimately have asked: "asked_records car_responder (hd (pp_questions browse_packet))
      = {(MDNS_TYPE_PTR, Some 1, None), (MDNS_TYPE_SRV, Some 1, None), (MDNS_TYPE_TXT, Some 1, None),
         (MDNS_TYPE_A, Some 1, Some Self_host), (MDNS_TYPE_AAAA, Some 1, Some Self_host)}"
    by (auto simp: asked_records_def asked_services_def service_records_asked_def reply_kinds_def browse_packet_def
        car_responder_def [THEN arg_cong, of services] car_service_def)
  show ?thesis
    using questions_answered_exactly [OF wf, of browse_packet 2] asked
    by (auto simp: browse_packet_def answerable_def answer_sent_def question_shared_def car_responder_def
        mdns_schedule_tx_packet_def insert_tx_def)
qed

text \<open>
  A question for any record of the host names passes over the delegated host that was added last,
  and answers for a host that is none instead: with one delegated host, no record of it is in the answer.
\<close>

theorem any_question_passes_over_host:
  "case mdns_create_answer_from_parsed_packet (browse_packet\<lparr>probe := True, pp_questions := [\<lparr>pq_type = MDNS_TYPE_ANY,
       pq_sub = False, pq_unicast = False, pq_host = Some (bytes_of ''cam''), pq_service = None, pq_proto = None,
       pq_domain = Some MDNS_DEFAULT_DOMAIN\<rparr>]\<rparr>) 0 cam_responder of
     Inl f \<Rightarrow> False
   | Inr (_, t) \<Rightarrow> map host_at (host_list t) = [9]
       \<and> map (map about \<circ> tx_answers) (dispatched t)
         = [[(MDNS_TYPE_A, None, Some Self_host), (MDNS_TYPE_AAAA, None, Some Self_host), (MDNS_TYPE_A, None, None), (MDNS_TYPE_AAAA, None, None)]]
       \<and> map tx_additional (dispatched t) = [[]]"
  by code_simp

end
