(* ===== verification/Mdns_Search.thy ===== *)
theory Mdns_Search
  imports Mdns_Answer
begin

text \<open>
  Searches for services and hosts, of \<open>managed_components/espressif__mdns/mdns.c\<close>: a search and its
  results, the query packets it sends, the search a received record belongs to, and its life from the
  call of the API over the timer and the mDNS task to the client that frees it.

  The theory shows that a search without a limit of results is never touched after it was freed and
  never lost, and that a search with a limit, or one deleted by its client, can be.

  A search is known by its address; \<open>objects\<close> holds those not freed. Addresses are not used again.
\<close>

section \<open>Data\<close>

datatype search_state = SEARCH_OFF | SEARCH_INIT | SEARCH_RUNNING

record mdns_result =
  r_netif :: nat
  r_ttl :: u32
  r_ip_protocol :: ip_protocol
  r_instance :: "u8 list option"
  r_service :: "u8 list option"
  r_proto :: "u8 list option"
  r_hostname :: "u8 list option"
  r_port :: u16
  r_txt :: "mdns_txt_item list"
  r_addr :: "mdns_addr list"

text \<open>\<open>done_semaphore\<close> is whether the semaphore has been given.\<close>

record mdns_search =
  search_state :: search_state
  started_at :: u32
  sent_at :: u32
  search_timeout :: u32
  has_notifier :: bool
  done_semaphore :: bool
  search_type :: u16
  search_unicast :: bool
  max_results :: u8
  num_results :: u8
  search_instance :: "u8 list option"
  search_service :: "u8 list option"
  search_proto :: "u8 list option"
  results :: "mdns_result list"

section \<open>Results\<close>

definition no_result :: mdns_result where
  "no_result = \<lparr>r_netif = 0, r_ttl = 0, r_ip_protocol = V4, r_instance = None, r_service = None, r_proto = None,
     r_hostname = None, r_port = 0, r_txt = [], r_addr = []\<rparr>"

definition strdup :: "u8 list \<Rightarrow> u8 list option rsp_prog" where
  "strdup text = bind malloc (\<lambda>ok. return (if ok then Some text else None))"

text \<open>The loop over the results that changes the first that meets a condition.\<close>

fun update_first :: "('a \<Rightarrow> bool) \<Rightarrow> ('a \<Rightarrow> 'a rsp_prog) \<Rightarrow> 'a list \<Rightarrow> 'a list option rsp_prog" where
  "update_first P f [] = return None"
| "update_first P f (x # xs) =
     (if P x then bind (f x) (\<lambda>x'. return (Some (x' # xs)))
      else bind (update_first P f xs) (\<lambda>r. return (map_option (Cons x) r)))"

definition result_on :: "netifs \<Rightarrow> nat \<Rightarrow> ip_protocol \<Rightarrow> mdns_result \<Rightarrow> bool" where
  "result_on N ifc prot r \<longleftrightarrow> r_netif r = esp_netif N ifc \<and> r_ip_protocol r = prot"

text \<open>\<open>!_str_null_or_empty(p) && !strcasecmp(text, p)\<close>.\<close>

definition named_as :: "u8 list \<Rightarrow> u8 list option \<Rightarrow> bool" where
  "named_as text p \<longleftrightarrow> \<not> str_null_or_empty p \<and> same_text text (the p)"

definition mdns_result_update_ttl :: "u32 \<Rightarrow> mdns_result \<Rightarrow> mdns_result" where
  "mdns_result_update_ttl t r = r\<lparr>r_ttl := if r_ttl r < t then r_ttl r else t\<rparr>"

definition mdns_result_add_ip :: "mdns_addr \<Rightarrow> mdns_result \<Rightarrow> mdns_result rsp_prog" where
  "mdns_result_add_ip ip r =
     (if ip \<in> set (r_addr r) then return r
      else bind malloc (\<lambda>ok. return (if ok then r\<lparr>r_addr := ip # r_addr r\<rparr> else r)))"

definition has_room :: "mdns_search \<Rightarrow> bool" where
  "has_room s \<longleftrightarrow> max_results s = 0 \<or> num_results s < max_results s"

definition add_result :: "mdns_result \<Rightarrow> mdns_search \<Rightarrow> mdns_search" where
  "add_result r s = s\<lparr>results := r # results s, num_results := num_results s + 1\<rparr>"

definition address_kind :: "u16 \<Rightarrow> mdns_addr \<Rightarrow> bool" where
  "address_kind type ip \<longleftrightarrow>
     (case ip of Ip4 _ \<Rightarrow> type = MDNS_TYPE_A | Ip6 _ \<Rightarrow> type = MDNS_TYPE_AAAA) \<or> type = MDNS_TYPE_ANY"

definition mdns_search_result_add_ip ::
    "netifs \<Rightarrow> mdns_search \<Rightarrow> u8 list \<Rightarrow> mdns_addr \<Rightarrow> nat \<Rightarrow> ip_protocol \<Rightarrow> u32 \<Rightarrow> mdns_search rsp_prog" where
  "mdns_search_result_add_ip N s hostname ip ifc prot t =
     (let add = (\<lambda>r. bind (mdns_result_add_ip ip r) (\<lambda>r'. return (mdns_result_update_ttl t r'))) in
      if address_kind (search_type s) ip then
        bind (update_first (result_on N ifc prot) add (results s)) (\<lambda>rs. case rs of
            Some rs' \<Rightarrow> return (s\<lparr>results := rs'\<rparr>)
          | None \<Rightarrow>
              if \<not> has_room s then return s
              else bind malloc (\<lambda>ok. if \<not> ok then return s
              else bind malloc (\<lambda>ok. if \<not> ok then return s
              else bind (strdup hostname) (\<lambda>h.
                return (add_result (no_result\<lparr>r_hostname := h, r_addr := [ip], r_netif := esp_netif N ifc,
                  r_ip_protocol := prot, r_ttl := t\<rparr>) s)))))
      else if search_type s = MDNS_TYPE_PTR \<or> search_type s = MDNS_TYPE_SRV then
        bind (update_first (\<lambda>r. result_on N ifc prot r \<and> named_as hostname (r_hostname r)) add (results s)) (\<lambda>rs.
        return (case rs of Some rs' \<Rightarrow> s\<lparr>results := rs'\<rparr> | None \<Rightarrow> s))
      else return s)"

text \<open>The place of the first result that meets a condition.\<close>

fun index_of :: "('a \<Rightarrow> bool) \<Rightarrow> 'a list \<Rightarrow> nat option" where
  "index_of P [] = None"
| "index_of P (x # xs) = (if P x then Some 0 else map_option Suc (index_of P xs))"

text \<open>The result is returned as its place; \<open>service_type\<close> and \<open>proto\<close> may stay \<open>NULL\<close>.\<close>

definition mdns_search_result_add_ptr ::
    "netifs \<Rightarrow> mdns_search \<Rightarrow> u8 list \<Rightarrow> u8 list \<Rightarrow> u8 list \<Rightarrow> nat \<Rightarrow> ip_protocol \<Rightarrow> u32 \<Rightarrow> (mdns_search \<times> nat option) rsp_prog" where
  "mdns_search_result_add_ptr N s inst service_type prt ifc prot t =
     (case index_of (\<lambda>r. result_on N ifc prot r \<and> named_as inst (r_instance r)) (results s) of
        Some j \<Rightarrow> return (s\<lparr>results := (results s)[j := mdns_result_update_ttl t (results s ! j)]\<rparr>, Some j)
      | None \<Rightarrow>
          if \<not> has_room s then return (s, None)
          else bind malloc (\<lambda>ok. if \<not> ok then return (s, None)
          else bind (strdup inst) (\<lambda>i. bind (strdup service_type) (\<lambda>sv. bind (strdup prt) (\<lambda>pr.
            if i = None then return (s, None)
            else return (add_result (no_result\<lparr>r_instance := i, r_service := sv, r_proto := pr, r_netif := esp_netif N ifc,
                   r_ip_protocol := prot, r_ttl := t\<rparr>) s, Some 0))))))"

definition strdup_ptr :: "u8 list option \<Rightarrow> u8 list option rsp_prog" where
  "strdup_ptr p = (case p of None \<Rightarrow> fail Null_pointer | Some text \<Rightarrow> strdup text)"

definition mdns_search_result_add_srv ::
    "netifs \<Rightarrow> mdns_search \<Rightarrow> u8 list \<Rightarrow> u16 \<Rightarrow> nat \<Rightarrow> ip_protocol \<Rightarrow> u32 \<Rightarrow> mdns_search rsp_prog" where
  "mdns_search_result_add_srv N s hostname prt ifc prot t =
     bind (update_first (\<lambda>r. result_on N ifc prot r \<and> named_as hostname (r_hostname r))
             (\<lambda>r. return (mdns_result_update_ttl t r)) (results s)) (\<lambda>rs. case rs of
         Some rs' \<Rightarrow> return (s\<lparr>results := rs'\<rparr>)
       | None \<Rightarrow>
           if \<not> has_room s then return s
           else bind malloc (\<lambda>ok. if \<not> ok then return s
           else bind (strdup hostname) (\<lambda>h. if h = None then return s
           else bind (if search_instance s = None then return None else strdup_ptr (search_instance s)) (\<lambda>i.
           bind (strdup_ptr (search_service s)) (\<lambda>sv. bind (strdup_ptr (search_proto s)) (\<lambda>pr.
           return (add_result (no_result\<lparr>r_hostname := h, r_instance := i, r_service := sv, r_proto := pr, r_port := prt,
             r_netif := esp_netif N ifc, r_ip_protocol := prot, r_ttl := t\<rparr>) s)))))))"

definition mdns_search_result_add_txt ::
    "netifs \<Rightarrow> mdns_search \<Rightarrow> mdns_txt_item list \<Rightarrow> nat \<Rightarrow> ip_protocol \<Rightarrow> u32 \<Rightarrow> mdns_search rsp_prog" where
  "mdns_search_result_add_txt N s items ifc prot t =
     bind (update_first (result_on N ifc prot)
             (\<lambda>r. return (if r_txt r \<noteq> [] then r else mdns_result_update_ttl t (r\<lparr>r_txt := items\<rparr>))) (results s)) (\<lambda>rs. case rs of
         Some rs' \<Rightarrow> return (s\<lparr>results := rs'\<rparr>)
       | None \<Rightarrow>
           if \<not> has_room s then return s
           else bind malloc (\<lambda>ok. return (if \<not> ok then s
             else add_result (no_result\<lparr>r_txt := items, r_netif := esp_netif N ifc, r_ip_protocol := prot, r_ttl := t\<rparr>) s)))"

section \<open>The packets of a search\<close>

text \<open>
  The question points at the strings of the search, for as long as the packet lives. The known answers of
  a browse are the results that are complete; their \<open>host\<close> is not set, and not read.
\<close>

definition search_question :: "mdns_search \<Rightarrow> tx_question" where
  "search_question s =
     \<lparr>tq_type = search_type s, tq_unicast = search_unicast s, tq_host = map_option Own_text (search_instance s),
      tq_service = map_option Own_text (search_service s), tq_proto = map_option Own_text (search_proto s),
      tq_domain = Some Local_domain\<rparr>"

definition known_answer :: "mdns_search \<Rightarrow> mdns_result \<Rightarrow> out_answer" where
  "known_answer s r =
     \<lparr>a_type = MDNS_TYPE_PTR, a_service = None, a_host = None, a_flush = False, a_bye = False,
      a_custom = (case (r_instance r, search_service s, search_proto s) of
         (Some i, Some sv, Some pr) \<Rightarrow> Some (i, sv, pr) | _ \<Rightarrow> None)\<rparr>"

definition complete_result :: "netifs \<Rightarrow> nat \<Rightarrow> ip_protocol \<Rightarrow> mdns_result \<Rightarrow> bool" where
  "complete_result N ifc prot r \<longleftrightarrow>
     result_on N ifc prot r \<and> r_instance r \<noteq> None \<and> r_hostname r \<noteq> None \<and> r_addr r \<noteq> []"

fun append_known :: "netifs \<Rightarrow> mdns_search \<Rightarrow> nat \<Rightarrow> ip_protocol \<Rightarrow> mdns_result list \<Rightarrow> tx_packet \<Rightarrow> tx_packet option rsp_prog" where
  "append_known N s ifc prot [] p = return (Some p)"
| "append_known N s ifc prot (r # rs) p =
     (if \<not> complete_result N ifc prot r then append_known N s ifc prot rs p
      else bind malloc (\<lambda>ok. if \<not> ok then return None
      else append_known N s ifc prot rs (p\<lparr>tx_answers := tx_answers p @ [known_answer s r]\<rparr>)))"

definition mdns_create_search_packet :: "netifs \<Rightarrow> mdns_search \<Rightarrow> nat \<Rightarrow> ip_protocol \<Rightarrow> tx_packet option rsp_prog" where
  "mdns_create_search_packet N s ifc prot =
     bind (mdns_alloc_packet_default ifc prot) (\<lambda>pkt. case pkt of None \<Rightarrow> return None | Some p \<Rightarrow>
     bind malloc (\<lambda>ok. if \<not> ok then return None else
     let p' = p\<lparr>tx_questions := [search_question s]\<rparr> in
     if search_type s = MDNS_TYPE_PTR then append_known N s ifc prot (results s) p' else return (Some p')))"

definition mdns_search_send_pcb :: "netifs \<Rightarrow> mdns_search \<Rightarrow> nat \<Rightarrow> ip_protocol \<Rightarrow> unit rsp_prog" where
  "mdns_search_send_pcb N s ifc prot =
     bind (gets (\<lambda>u. netif_ready u ifc prot \<and> pcb_state (pcbs u ifc prot) > PCB_INIT)) (\<lambda>up.
     if \<not> up then return ()
     else bind (mdns_create_search_packet N s ifc prot) (\<lambda>pkt. case pkt of None \<Rightarrow> return () | Some p \<Rightarrow> dispatch_tx p))"

section \<open>The life of a search\<close>

datatype search_action = Search_add nat | Search_send nat | Search_end nat

text \<open>
  The chain \<open>search_once\<close> holds addresses; \<open>posted\<close> is the action queue, \<open>accepted\<close> the outcomes of
  \<open>xQueueSend\<close> to come, all of which succeed when it is used up; \<open>waiting\<close> are the searches whose client
  is blocked in \<open>mdns_query\<close>; \<open>notified\<close> logs the calls of notifiers.
\<close>

record search_sys =
  responder :: mdns_responder
  objects :: "nat \<Rightarrow> mdns_search option"
  next_search :: nat
  search_once :: "nat list"
  posted :: "search_action list"
  accepted :: "bool list"
  waiting :: "nat list"
  notified :: "nat list"

type_synonym 'a sys_prog = "(search_sys, 'a) prog"

definition rsp :: "'a rsp_prog \<Rightarrow> 'a sys_prog" where
  "rsp p = (\<lambda>s. case p (responder s) of Inl f \<Rightarrow> Inl f | Inr (a, r) \<Rightarrow> Inr (a, s\<lparr>responder := r\<rparr>))"

definition search_object :: "nat \<Rightarrow> mdns_search sys_prog" where
  "search_object a = bind (gets objects) (\<lambda>obs. case obs a of None \<Rightarrow> fail Use_after_free | Some s \<Rightarrow> return s)"

definition update_search :: "nat \<Rightarrow> (mdns_search \<Rightarrow> mdns_search) \<Rightarrow> unit sys_prog" where
  "update_search a f = bind (search_object a) (\<lambda>o'. modify (\<lambda>s. s\<lparr>objects := (objects s)(a := Some (f o'))\<rparr>))"

definition free_search :: "nat \<Rightarrow> unit sys_prog" where
  "free_search a = bind (search_object a) (\<lambda>_. modify (\<lambda>s. s\<lparr>objects := (objects s)(a := None)\<rparr>))"

text \<open>Following the \<open>next\<close> pointers of a part of the chain.\<close>

fun touch :: "nat list \<Rightarrow> unit sys_prog" where
  "touch [] = return ()"
| "touch (a # as) = bind (search_object a) (\<lambda>_. touch as)"

definition queue_detach :: "nat \<Rightarrow> unit sys_prog" where
  "queue_detach a =
     bind (gets search_once) (\<lambda>c.
     if a \<in> set c then
       bind (touch (takeWhile (\<lambda>b. b \<noteq> a) c @ [a])) (\<lambda>_. modify (\<lambda>s. s\<lparr>search_once := remove1 a c\<rparr>))
     else touch c)"

definition mdns_search_finish :: "nat \<Rightarrow> unit sys_prog" where
  "mdns_search_finish a =
     block [update_search a (\<lambda>o'. o'\<lparr>search_state := SEARCH_OFF\<rparr>),
            queue_detach a,
            bind (search_object a) (\<lambda>o'. if_then (has_notifier o') (modify (\<lambda>s. s\<lparr>notified := notified s @ [a]\<rparr>))),
            update_search a (\<lambda>o'. o'\<lparr>done_semaphore := True\<rparr>)]"

definition mdns_search_add :: "nat \<Rightarrow> unit sys_prog" where
  "mdns_search_add a = bind (search_object a) (\<lambda>_. modify (\<lambda>s. s\<lparr>search_once := a # search_once s\<rparr>))"

fun finish_full :: "nat list \<Rightarrow> unit sys_prog" where
  "finish_full [] = return ()"
| "finish_full (a # as) =
     bind (search_object a) (\<lambda>o'.
     bind (if_then (max_results o' \<noteq> 0 \<and> num_results o' \<ge> max_results o') (mdns_search_finish a)) (\<lambda>_. finish_full as))"

definition mdns_search_finish_done :: "unit sys_prog" where
  "mdns_search_finish_done = bind (gets search_once) finish_full"

definition mdns_search_send :: "netifs \<Rightarrow> nat \<Rightarrow> unit sys_prog" where
  "mdns_search_send N a =
     bind (gets search_once) (\<lambda>c.
     bind (touch (takeWhile (\<lambda>b. b \<noteq> a) c)) (\<lambda>_.
     if a \<notin> set c then return ()
     else bind (search_object a) (\<lambda>o'. rsp (for_pcbs (\<lambda>i j. mdns_search_send_pcb N o' i j)))))"

definition mdns_send_search_action :: "search_action \<Rightarrow> bool sys_prog" where
  "mdns_send_search_action act =
     bind (rsp malloc) (\<lambda>ok. if \<not> ok then return False
     else bind (gets accepted) (\<lambda>acc.
       bind (modify (\<lambda>s. s\<lparr>accepted := tl acc\<rparr>)) (\<lambda>_.
       if acc = [] \<or> hd acc then bind (modify (\<lambda>s. s\<lparr>posted := posted s @ [act]\<rparr>)) (\<lambda>_. return True)
       else return False)))"

text \<open>The turn of the timer for one search; the sum and the difference wrap at 32 bits.\<close>

definition run_search :: "nat \<Rightarrow> unit sys_prog" where
  "run_search a =
     bind (search_object a) (\<lambda>o'. bind (gets (\<lambda>s. millis (responder s))) (\<lambda>now.
     if search_state o' = SEARCH_OFF then return ()
     else if now > started_at o' + search_timeout o' then
       bind (update_search a (\<lambda>o'. o'\<lparr>search_state := SEARCH_OFF\<rparr>)) (\<lambda>_.
       bind (mdns_send_search_action (Search_end a)) (\<lambda>ok.
       if_then (\<not> ok) (update_search a (\<lambda>o'. o'\<lparr>search_state := SEARCH_RUNNING\<rparr>))))
     else if search_state o' = SEARCH_INIT \<or> now - sent_at o' > 1000 then
       bind (update_search a (\<lambda>o'. o'\<lparr>search_state := SEARCH_RUNNING, sent_at := now\<rparr>)) (\<lambda>_.
       bind (mdns_send_search_action (Search_send a)) (\<lambda>ok.
       if_then (\<not> ok) (update_search a (\<lambda>o'. o'\<lparr>sent_at := sent_at o' - 1000\<rparr>))))
     else return ()))"

definition mdns_search_run :: "unit sys_prog" where
  "mdns_search_run = bind (gets search_once) (\<lambda>c. block (map run_search c))"

fun execute_search_action :: "netifs \<Rightarrow> search_action \<Rightarrow> unit sys_prog" where
  "execute_search_action N (Search_add a) = mdns_search_add a"
| "execute_search_action N (Search_send a) = mdns_search_send N a"
| "execute_search_action N (Search_end a) = mdns_search_finish a"

text \<open>The mDNS task takes the first action.\<close>

definition task_turn :: "netifs \<Rightarrow> unit sys_prog" where
  "task_turn N =
     bind (gets posted) (\<lambda>acts. case acts of [] \<Rightarrow> return ()
       | act # rest \<Rightarrow> bind (modify (\<lambda>s. s\<lparr>posted := rest\<rparr>)) (\<lambda>_. execute_search_action N act))"

section \<open>The calls of the API\<close>

text \<open>What a client asks for: an instance or host name, a type of service, a type of record.\<close>

record query =
  query_name :: "u8 list option"
  query_service :: "u8 list option"
  query_proto :: "u8 list option"
  query_type :: u16
  query_unicast :: bool
  query_timeout :: u32
  query_max :: u8
  query_notifies :: bool

text \<open>\<open>strndup(str, MDNS_NAME_BUF_LEN - 1)\<close> unless the string is \<open>NULL\<close> or empty.\<close>

definition copy_name :: "u8 list option \<Rightarrow> (bool \<times> u8 list option) sys_prog" where
  "copy_name p =
     (if str_null_or_empty p then return (True, None)
      else bind (rsp malloc) (\<lambda>ok. return (ok, if ok then map_option (take (MDNS_NAME_BUF_LEN - 1)) p else None)))"

definition mdns_search_init :: "query \<Rightarrow> nat option sys_prog" where
  "mdns_search_init q =
     bind (rsp malloc) (\<lambda>ok. if \<not> ok then return None
     else bind (rsp malloc) (\<lambda>ok. if \<not> ok then return None
     else bind (copy_name (query_name q)) (\<lambda>(ok, n). if \<not> ok then return None
     else bind (copy_name (query_service q)) (\<lambda>(ok, sv). if \<not> ok then return None
     else bind (copy_name (query_proto q)) (\<lambda>(ok, pr). if \<not> ok then return None
     else bind (gets next_search) (\<lambda>a. bind (gets (\<lambda>s. millis (responder s))) (\<lambda>now.
       let o' = \<lparr>search_state = SEARCH_INIT, started_at = now, sent_at = 0, search_timeout = query_timeout q,
              has_notifier = query_notifies q, done_semaphore = False, search_type = query_type q,
              search_unicast = query_unicast q, max_results = query_max q, num_results = 0, search_instance = n,
              search_service = sv, search_proto = pr, results = []\<rparr>
       in bind (modify (\<lambda>s. s\<lparr>objects := (objects s)(a \<mapsto> o'), next_search := a + 1\<rparr>)) (\<lambda>_. return (Some a)))))))))"

text \<open>\<open>mdns_query_async_new\<close>, and \<open>mdns_query_generic\<close> up to where it waits for the semaphore.\<close>

definition mdns_query_start :: "query \<Rightarrow> nat option sys_prog" where
  "mdns_query_start q =
     (if query_timeout q = 0 \<or> str_null_or_empty (query_service q) \<noteq> str_null_or_empty (query_proto q) then return None
      else bind (mdns_search_init q) (\<lambda>r. case r of None \<Rightarrow> return None
      | Some a \<Rightarrow> bind (mdns_send_search_action (Search_add a)) (\<lambda>ok.
          if ok then return (Some a) else bind (free_search a) (\<lambda>_. return None))))"

definition mdns_query_wait :: "query \<Rightarrow> unit sys_prog" where
  "mdns_query_wait q =
     bind (mdns_query_start q) (\<lambda>r. case r of None \<Rightarrow> return () | Some a \<Rightarrow> modify (\<lambda>s. s\<lparr>waiting := a # waiting s\<rparr>))"

text \<open>The rest of \<open>mdns_query_generic\<close>, when the semaphore has been given.\<close>

definition mdns_query_wake :: "nat \<Rightarrow> mdns_result list sys_prog" where
  "mdns_query_wake a =
     bind (search_object a) (\<lambda>o'.
     bind (free_search a) (\<lambda>_.
     bind (modify (\<lambda>s. s\<lparr>waiting := remove1 a (waiting s)\<rparr>)) (\<lambda>_. return (results o'))))"

definition mdns_query_async_delete :: "nat \<Rightarrow> bool sys_prog" where
  "mdns_query_async_delete a =
     bind (search_object a) (\<lambda>o'.
     if search_state o' \<noteq> SEARCH_OFF then return False else bind (free_search a) (\<lambda>_. return True))"

section \<open>Interleavings\<close>

text \<open>
  One step is a call of a client, a wake-up, a turn of the timer, the next action of the mDNS task, or
  what a received packet does to the searches: it adds results to a search of the chain, and an
  authoritative one finishes the searches that are full. \<open>unlimited\<close> queries have no maximum of results.
\<close>

inductive search_step :: "netifs \<Rightarrow> (query \<Rightarrow> bool) \<Rightarrow> bool \<Rightarrow> search_sys \<Rightarrow> search_sys \<Rightarrow> bool" for N ok_query async where
  surroundings: "search_step N ok_query async s (s\<lparr>responder := r, accepted := acc\<rparr>)"
| query: "ok_query q \<Longrightarrow> mdns_query_wait q s = Inr ((), t) \<Longrightarrow> search_step N ok_query async s t"
| wake: "a \<in> set (waiting s) \<Longrightarrow> objects s a = Some o' \<Longrightarrow> done_semaphore o' \<Longrightarrow>
    mdns_query_wake a s = Inr (rs, t) \<Longrightarrow> search_step N ok_query async s t"
| timer: "mdns_search_run s = Inr ((), t) \<Longrightarrow> search_step N ok_query async s t"
| task: "task_turn N s = Inr ((), t) \<Longrightarrow> search_step N ok_query async s t"
| received: "a \<in> set (search_once s) \<Longrightarrow> objects s a = Some o' \<Longrightarrow>
    search_step N ok_query async s (s\<lparr>objects := (objects s)(a \<mapsto> o'\<lparr>results := rs, num_results := n\<rparr>)\<rparr>)"
| full: "mdns_search_finish_done s = Inr ((), t) \<Longrightarrow> search_step N ok_query async s t"
| start: "async \<Longrightarrow> mdns_query_start q s = Inr (r, t) \<Longrightarrow> search_step N ok_query async s t"
| delete: "async \<Longrightarrow> mdns_query_async_delete a s = Inr (b, t) \<Longrightarrow> search_step N ok_query async s t"

inductive search_reachable :: "netifs \<Rightarrow> (query \<Rightarrow> bool) \<Rightarrow> bool \<Rightarrow> search_sys \<Rightarrow> bool" for N ok_query async where
  start: "search_reachable N ok_query async \<lparr>responder = r, objects = Map.empty, next_search = 0, search_once = [],
     posted = [], accepted = acc, waiting = [], notified = []\<rparr>"
| step: "search_reachable N ok_query async s \<Longrightarrow> search_step N ok_query async s t \<Longrightarrow> search_reachable N ok_query async t"

definition unlimited :: "query \<Rightarrow> bool" where
  "unlimited q \<longleftrightarrow> query_max q = 0"

section \<open>The invariant of unlimited queries\<close>

definition adds_of :: "search_action list \<Rightarrow> nat list" where
  "adds_of acts = List.map_filter (\<lambda>act. case act of Search_add a \<Rightarrow> Some a | _ \<Rightarrow> None) acts"

definition ends_of :: "search_action list \<Rightarrow> nat list" where
  "ends_of acts = List.map_filter (\<lambda>act. case act of Search_end a \<Rightarrow> Some a | _ \<Rightarrow> None) acts"

lemma actions_of_simps [simp]:
  "adds_of [] = []" "ends_of [] = []" "adds_of (as @ bs) = adds_of as @ adds_of bs" "ends_of (as @ bs) = ends_of as @ ends_of bs"
  "adds_of (Search_add a # as) = a # adds_of as" "adds_of (Search_send a # as) = adds_of as" "adds_of (Search_end a # as) = adds_of as"
  "ends_of (Search_add a # as) = ends_of as" "ends_of (Search_send a # as) = ends_of as" "ends_of (Search_end a # as) = a # ends_of as"
  by (simp_all add: adds_of_def ends_of_def map_filter_def)

text \<open>
  A search that is not freed is one of a waiting client, and in just one of three places: its add
  action is pending, it is in the chain, or its semaphore has been given. It is off in the chain just
  when its end action is pending.
\<close>

definition place_ok :: "nat list \<Rightarrow> nat list \<Rightarrow> nat list \<Rightarrow> nat \<Rightarrow> mdns_search \<Rightarrow> bool" where
  "place_ok adding c ends a o' \<longleftrightarrow>
     max_results o' = 0
     \<and> (if done_semaphore o' then a \<notin> set adding \<and> a \<notin> set c \<and> a \<notin> set ends
        else if a \<in> set adding then a \<notin> set c \<and> a \<notin> set ends \<and> search_state o' \<noteq> SEARCH_OFF
        else a \<in> set c \<and> (a \<in> set ends \<longleftrightarrow> search_state o' = SEARCH_OFF))"

definition consistent ::
    "(nat \<Rightarrow> mdns_search option) \<Rightarrow> nat \<Rightarrow> nat list \<Rightarrow> search_action list \<Rightarrow> nat list \<Rightarrow> bool" where
  "consistent obs new c acts w \<longleftrightarrow>
     distinct c \<and> distinct (adds_of acts) \<and> distinct (ends_of acts) \<and> distinct w
     \<and> set c \<subseteq> set w \<and> set (adds_of acts) \<subseteq> set w \<and> set (ends_of acts) \<subseteq> set w
     \<and> dom obs = set w \<and> (\<forall>a\<in>set w. a < new)
     \<and> (\<forall>a o'. obs a = Some o' \<longrightarrow> place_ok (adds_of acts) c (ends_of acts) a o')"

definition search_inv :: "search_sys \<Rightarrow> bool" where
  "search_inv s \<longleftrightarrow> consistent (objects s) (next_search s) (search_once s) (posted s) (waiting s)"

lemma search_inv_start: "search_inv \<lparr>responder = r, objects = Map.empty, next_search = 0, search_once = [],
     posted = [], accepted = acc, waiting = [], notified = []\<rparr>"
  by (simp add: search_inv_def consistent_def)

text \<open>What does not matter.\<close>

lemma search_inv_frame [simp]:
  "search_inv (s\<lparr>responder := r\<rparr>) = search_inv s" "search_inv (s\<lparr>accepted := acc\<rparr>) = search_inv s"
  "search_inv (s\<lparr>notified := ns\<rparr>) = search_inv s"
  by (simp_all add: search_inv_def)

definition keeps_inv :: "'a sys_prog \<Rightarrow> search_sys \<Rightarrow> bool" where
  "keeps_inv p s \<longleftrightarrow> runs_to p s (\<lambda>_ t. search_inv t)"

lemma runs_search_object: "objects s a = Some o' \<Longrightarrow> runs_to (search_object a) s Q = Q o' s"
  by (simp add: search_object_def runs_to_bind)

lemma runs_update_search:
  "objects s a = Some o' \<Longrightarrow> runs_to (update_search a f) s Q = Q () (s\<lparr>objects := (objects s)(a \<mapsto> f o')\<rparr>)"
  by (simp add: update_search_def runs_to_bind runs_search_object)

lemma touch_run: "set as \<subseteq> dom (objects s) \<Longrightarrow> touch as s = Inr ((), s)"
  by (induction "as") (auto simp: search_object_def prog_simps)

lemma runs_rsp: "runs_to p (responder s) (\<lambda>r u. Q r (s\<lparr>responder := u\<rparr>)) \<Longrightarrow> runs_to (rsp p) s Q"
  by (auto simp: runs_to_def rsp_def split: sum.splits)

lemma runs_malloc: "(\<And>ok h. Q ok (s\<lparr>responder := (responder s)\<lparr>heap := h\<rparr>\<rparr>)) \<Longrightarrow> (\<And>ok. Q ok s) \<Longrightarrow> runs_to (rsp malloc) s Q"
  by (rule runs_rsp) (auto simp: malloc_def runs_to_bind split: list.split)

text \<open>An action is posted or not; nothing else that matters changes.\<close>

definition same_searches :: "search_sys \<Rightarrow> search_sys \<Rightarrow> bool" where
  "same_searches s t \<longleftrightarrow> objects t = objects s \<and> next_search t = next_search s \<and> search_once t = search_once s
     \<and> posted t = posted s \<and> waiting t = waiting s"

lemma same_searches_refl [simp]: "same_searches s s" "same_searches s (s\<lparr>responder := r\<rparr>)" "same_searches s (s\<lparr>accepted := acc\<rparr>)"
  "same_searches s (s\<lparr>responder := r, accepted := acc\<rparr>)"
  by (simp_all add: same_searches_def)

lemma same_searches_inv: "same_searches s t \<Longrightarrow> search_inv t = search_inv s"
  by (simp add: same_searches_def search_inv_def)

lemma same_searches_trans: "same_searches s t \<Longrightarrow> same_searches t u \<Longrightarrow> same_searches s u"
  by (simp add: same_searches_def)

lemma runs_send_action:
  assumes "\<And>t. same_searches s t \<Longrightarrow> Q True (t\<lparr>posted := posted t @ [act]\<rparr>)" "\<And>t. same_searches s t \<Longrightarrow> Q False t"
  shows "runs_to (mdns_send_search_action act) s Q"
proof -
  have "runs_to (bind (gets accepted) (\<lambda>acc. bind (modify (\<lambda>s. s\<lparr>accepted := tl acc\<rparr>)) (\<lambda>_.
      if acc = [] \<or> hd acc then bind (modify (\<lambda>s. s\<lparr>posted := posted s @ [act]\<rparr>)) (\<lambda>_. return True) else return False))) t Q"
    if "same_searches s t" for t
  proof -
    have u: "same_searches s (t\<lparr>accepted := tl (accepted t)\<rparr>)" using that by (simp add: same_searches_def)
    have "Q True (t\<lparr>accepted := tl (accepted t), posted := posted t @ [act]\<rparr>)" using assms(1) [OF u] by simp
    then show ?thesis using assms(2) [OF u] by (simp add: runs_to_bind)
  qed
  then show ?thesis
    unfolding mdns_send_search_action_def runs_to_bind [of "rsp malloc"]
    by (intro runs_malloc) (auto simp: assms(2))
qed

section \<open>Each step keeps it\<close>

text \<open>A search changes in place.\<close>

lemma consistent_object:
  assumes "consistent obs new c acts0 w" "obs a = Some o'" "place_ok (adds_of acts) c (ends_of acts) a n"
    "set (adds_of acts) = set (adds_of acts0)" "set (ends_of acts) - {a} = set (ends_of acts0) - {a}"
    "distinct (adds_of acts)" "distinct (ends_of acts)"
  shows "consistent (obs(a \<mapsto> n)) new c acts w"
proof -
  note inv = assms(1) [unfolded consistent_def]
  have a: "a \<in> set w" using inv assms(2) by blast
  have "place_ok (adds_of acts) c (ends_of acts) b ob" if "(obs(a \<mapsto> n)) b = Some ob" for b ob
  proof (cases "b = a")
    case False
    then have "place_ok (adds_of acts0) c (ends_of acts0) b ob" using that inv by simp
    moreover have "b \<in> set (ends_of acts) \<longleftrightarrow> b \<in> set (ends_of acts0)" using assms(5) False by blast
    ultimately show ?thesis using assms(4) by (simp add: place_ok_def)
  qed (use that assms(3) in simp)
  moreover have "set (ends_of acts) \<subseteq> set w" using assms(5) inv a by blast
  moreover have "dom (obs(a \<mapsto> n)) = set w" using inv a by auto
  ultimately show ?thesis using inv assms(4,6,7) by (simp add: consistent_def del: dom_fun_upd fun_upd_apply)
qed

lemma search_inv_place: "search_inv s \<Longrightarrow> objects s a = Some o' \<Longrightarrow> place_ok (adds_of (posted s)) (search_once s) (ends_of (posted s)) a o'"
  by (simp add: search_inv_def consistent_def)

lemma search_inv_chain: "search_inv s \<Longrightarrow> a \<in> set (search_once s) \<Longrightarrow> \<exists>o'. objects s a = Some o' \<and> \<not> done_semaphore o'"
proof -
  assume inv: "search_inv s" and a: "a \<in> set (search_once s)"
  then have "a \<in> dom (objects s)" unfolding search_inv_def consistent_def by blast
  then obtain o' where o': "objects s a = Some o'" by blast
  then show ?thesis using search_inv_place [OF inv o'] a by (cases "done_semaphore o'") (auto simp: place_ok_def)
qed

lemma run_search_inv:
  assumes "search_inv s" "a \<in> set (search_once s)"
  shows "runs_to (run_search a) s (\<lambda>_ t. search_inv t \<and> search_once t = search_once s)"
proof -
  obtain o' where o': "objects s a = Some o'" "\<not> done_semaphore o'" using search_inv_chain [OF assms] by blast
  have place: "a \<notin> set (adds_of (posted s))" "a \<in> set (ends_of (posted s)) \<longleftrightarrow> search_state o' = SEARCH_OFF" "max_results o' = 0"
    using search_inv_place [OF assms(1) o'(1)] assms(2) o'(2) by (auto simp: place_ok_def split: if_splits)
  have dist: "distinct (adds_of (posted s))" "distinct (ends_of (posted s))"
    using assms(1) by (simp_all add: search_inv_def consistent_def)
  note cons = assms(1) [unfolded search_inv_def]
  have upd: "consistent ((objects s)(a \<mapsto> n)) (next_search s) (search_once s) (posted s) (waiting s)"
    if "place_ok (adds_of (posted s)) (search_once s) (ends_of (posted s)) a n" for n
    by (rule consistent_object [OF cons o'(1) that]) (simp_all add: dist)
  show ?thesis
  proof (cases "search_state o' = SEARCH_OFF")
    case True
    then show ?thesis using assms(1) by (simp add: run_search_def runs_to_bind runs_search_object [OF o'(1)])
  next
    case False
    let ?now = "millis (responder s)"
    let ?off = "s\<lparr>objects := (objects s)(a \<mapsto> o'\<lparr>search_state := SEARCH_OFF\<rparr>)\<rparr>"
    have ended: "runs_to (bind (mdns_send_search_action (Search_end a)) (\<lambda>ok.
        if_then (\<not> ok) (update_search a (\<lambda>o'. o'\<lparr>search_state := SEARCH_RUNNING\<rparr>)))) ?off
        (\<lambda>_ t. search_inv t \<and> search_once t = search_once s)"
      unfolding runs_to_bind
    proof (rule runs_send_action)
      fix t assume t: "same_searches ?off t"
      have "consistent ((objects s)(a \<mapsto> o'\<lparr>search_state := SEARCH_OFF\<rparr>)) (next_search s) (search_once s) (posted s @ [Search_end a]) (waiting s)"
        by (rule consistent_object [OF cons o'(1)]) (use place dist False assms(2) o'(2) in \<open>auto simp: place_ok_def\<close>)
      then show "runs_to (if_then (\<not> True) (update_search a (\<lambda>o'. o'\<lparr>search_state := SEARCH_RUNNING\<rparr>))) (t\<lparr>posted := posted t @ [Search_end a]\<rparr>)
          (\<lambda>_ t. search_inv t \<and> search_once t = search_once s)"
        using t by (simp add: same_searches_def search_inv_def)
      have "consistent ((objects s)(a \<mapsto> o'\<lparr>search_state := SEARCH_RUNNING\<rparr>)) (next_search s) (search_once s) (posted s) (waiting s)"
        by (rule upd) (use place False assms(2) o'(2) in \<open>auto simp: place_ok_def\<close>)
      then show "runs_to (if_then (\<not> False) (update_search a (\<lambda>o'. o'\<lparr>search_state := SEARCH_RUNNING\<rparr>))) t
          (\<lambda>_ t. search_inv t \<and> search_once t = search_once s)"
        using t by (simp add: runs_update_search [of t a "o'\<lparr>search_state := SEARCH_OFF\<rparr>"] same_searches_def search_inv_def)
    qed
    let ?run = "s\<lparr>objects := (objects s)(a \<mapsto> o'\<lparr>search_state := SEARCH_RUNNING, sent_at := ?now\<rparr>)\<rparr>"
    have run: "consistent ((objects s)(a \<mapsto> o'\<lparr>search_state := SEARCH_RUNNING, sent_at := n\<rparr>)) (next_search s) (search_once s) (posted s) (waiting s)" for n
      by (rule upd) (use place False assms(2) o'(2) in \<open>auto simp: place_ok_def\<close>)
    have posting: "consistent ((objects s)(a \<mapsto> o'\<lparr>search_state := SEARCH_RUNNING, sent_at := n\<rparr>)) (next_search s) (search_once s) (posted s @ [Search_send a]) (waiting s)" for n
      by (rule consistent_object [OF cons o'(1)]) (use place dist False assms(2) o'(2) in \<open>auto simp: place_ok_def\<close>)
    have sent: "runs_to (bind (mdns_send_search_action (Search_send a)) (\<lambda>ok.
        if_then (\<not> ok) (update_search a (\<lambda>o'. o'\<lparr>sent_at := sent_at o' - 1000\<rparr>)))) ?run
        (\<lambda>_ t. search_inv t \<and> search_once t = search_once s)"
      unfolding runs_to_bind
    proof (rule runs_send_action)
      fix t assume t: "same_searches ?run t"
      show "runs_to (if_then (\<not> True) (update_search a (\<lambda>o'. o'\<lparr>sent_at := sent_at o' - 1000\<rparr>))) (t\<lparr>posted := posted t @ [Search_send a]\<rparr>)
          (\<lambda>_ t. search_inv t \<and> search_once t = search_once s)"
        using t posting [of ?now] by (simp add: same_searches_def search_inv_def)
      show "runs_to (if_then (\<not> False) (update_search a (\<lambda>o'. o'\<lparr>sent_at := sent_at o' - 1000\<rparr>))) t
          (\<lambda>_ t. search_inv t \<and> search_once t = search_once s)"
        using t run [of "?now - 1000"]
        by (simp add: runs_update_search [of t a "o'\<lparr>search_state := SEARCH_RUNNING, sent_at := ?now\<rparr>"] same_searches_def search_inv_def)
    qed
    show ?thesis
      using False assms(1) ended sent
      by (simp add: run_search_def runs_to_bind [of "search_object a"] runs_to_bind [of "gets f" for f]
          runs_to_bind [of "update_search a f" for f] runs_search_object [OF o'(1)] runs_update_search [OF o'(1)])
  qed
qed

lemma search_run_inv: "search_inv s \<Longrightarrow> runs_to mdns_search_run s (\<lambda>_ t. search_inv t)"
proof -
  have "runs_to (block (map run_search as)) t (\<lambda>_ t. search_inv t)"
    if "search_inv t" "set as \<subseteq> set (search_once t)" for "as" t
    using that
  proof (induction "as" arbitrary: t)
    case (Cons a "as")
    have "runs_to (run_search a) t (\<lambda>_ u. search_inv u \<and> search_once u = search_once t)"
      using Cons.prems by (intro run_search_inv) simp_all
    then show ?case
      unfolding list.map runs_to_block
      by (rule runs_to_mono) (use Cons in \<open>simp del: runs_to_block\<close>)
  qed simp
  then show "search_inv s \<Longrightarrow> runs_to mdns_search_run s (\<lambda>_ t. search_inv t)"
    by (simp add: mdns_search_run_def runs_to_bind del: runs_to_block)
qed

lemma search_inv_sets:
  assumes "search_inv s"
  shows "dom (objects s) = set (waiting s)" "set (search_once s) \<subseteq> dom (objects s)" "set (adds_of (posted s)) \<subseteq> dom (objects s)"
    "set (ends_of (posted s)) \<subseteq> dom (objects s)" "next_search s \<notin> dom (objects s)"
  using assms unfolding search_inv_def consistent_def by auto

lemma consistent_finish:
  assumes "consistent obs new c (Search_end a # acts) w" "obs a = Some o'" "done_semaphore n" "max_results n = 0"
  shows "consistent (obs(a \<mapsto> n)) new (remove1 a c) acts w"
proof -
  note inv = assms(1) [unfolded consistent_def actions_of_simps]
  have a: "a \<in> set w" "a \<notin> set (ends_of acts)" using inv by auto
  have na: "a \<notin> set (adds_of acts)" using inv assms(2) by (fastforce simp: place_ok_def split: if_splits)
  have c: "set (remove1 a c) = set c - {a}" using inv by (simp add: set_remove1_eq)
  have "place_ok (adds_of acts) (remove1 a c) (ends_of acts) b ob" if "(obs(a \<mapsto> n)) b = Some ob" for b ob
  proof (cases "b = a")
    case True
    then show ?thesis using that assms(3,4) a na c by (simp add: place_ok_def)
  next
    case False
    then have "place_ok (adds_of acts) c (a # ends_of acts) b ob" using that inv by simp
    then show ?thesis using False c by (cases "done_semaphore ob"; cases "b \<in> set (adds_of acts)") (simp_all add: place_ok_def)
  qed
  moreover have "dom (obs(a \<mapsto> n)) = set w" using inv a by auto
  moreover have "set (remove1 a c) \<subseteq> set w" using inv c by blast
  ultimately show ?thesis using inv by (simp add: consistent_def del: dom_fun_upd fun_upd_apply)
qed

lemma finish_inv:
  assumes "search_inv s" "posted s = Search_end a # acts"
  shows "runs_to (mdns_search_finish a) (s\<lparr>posted := acts\<rparr>) (\<lambda>_ t. search_inv t)"
proof -
  have a: "a \<in> dom (objects s)" using search_inv_sets(4) [OF assms(1)] assms(2) by auto
  then obtain o' where o': "objects s a = Some o'" by blast
  have place: "a \<in> set (search_once s)" "max_results o' = 0"
    using search_inv_place [OF assms(1) o'] assms(2) by (auto simp: place_ok_def split: if_splits)
  let ?off = "o'\<lparr>search_state := SEARCH_OFF\<rparr>" and ?s = "s\<lparr>posted := acts\<rparr>"
  let ?t = "?s\<lparr>objects := (objects s)(a \<mapsto> ?off)\<rparr>"
  have "touch (takeWhile (\<lambda>b. b \<noteq> a) (search_once s) @ [a]) ?t = Inr ((), ?t)"
    using search_inv_sets(2) [OF assms(1)] by (intro touch_run) (auto dest: set_takeWhileD)
  then have "queue_detach a ?t = Inr ((), ?t\<lparr>search_once := remove1 a (search_once s)\<rparr>)"
    using place(1) by (simp add: queue_detach_def prog_simps)
  then have queue_detach: "runs_to (queue_detach a) ?t Q \<longleftrightarrow> Q () (?t\<lparr>search_once := remove1 a (search_once s)\<rparr>)" for Q
    by (rule runs_to_Inr)
  have "consistent ((objects s)(a \<mapsto> ?off\<lparr>done_semaphore := True\<rparr>)) (next_search s) (remove1 a (search_once s)) acts (waiting s)"
    by (rule consistent_finish [where obs = "objects s" and c = "search_once s" and a = a and acts = acts and o' = o'])
      (use assms place o' in \<open>simp_all add: search_inv_def\<close>)
  then show ?thesis
    by (simp add: mdns_search_finish_def runs_to_bind runs_update_search [of _ a o'] runs_update_search [of _ a ?off] o'
        runs_search_object [of _ a ?off] queue_detach if_then_def search_inv_def)
qed

lemma add_inv:
  assumes "search_inv s" "posted s = Search_add a # acts"
  shows "runs_to (mdns_search_add a) (s\<lparr>posted := acts\<rparr>) (\<lambda>_ t. search_inv t)"
proof -
  have "a \<in> dom (objects s)" using search_inv_sets(3) [OF assms(1)] assms(2) by auto
  then obtain o' where o': "objects s a = Some o'" by blast
  note inv = assms(1) [unfolded search_inv_def consistent_def assms(2) actions_of_simps]
  have a: "a \<notin> set (search_once s)" "a \<notin> set (ends_of acts)" "a \<in> set (waiting s)"
    using search_inv_place [OF assms(1) o'] inv assms(2) by (auto simp: place_ok_def split: if_splits)
  have "place_ok (adds_of acts) (a # search_once s) (ends_of acts) b ob" if "objects s b = Some ob" for b ob
  proof -
    have "place_ok (a # adds_of acts) (search_once s) (ends_of acts) b ob" using inv that by blast
    then show ?thesis using inv a by (cases "b = a") (auto simp: place_ok_def split: if_splits)
  qed
  then have "consistent (objects s) (next_search s) (a # search_once s) acts (waiting s)"
    using inv a unfolding consistent_def by simp
  then show ?thesis by (simp add: mdns_search_add_def runs_to_bind runs_search_object [of _ a o'] o' search_inv_def)
qed

text \<open>Sending changes nothing but the responder.\<close>

lemma quietly_append_known: "quietly (append_known N o' ifc prot rs p) r (\<lambda>_. True)"
proof (induction rs arbitrary: p r)
  case (Cons x rs)
  then show ?case by (auto intro!: quietly_bind [OF quietly_malloc [of "\<lambda>_. True"]])
qed simp

lemma speaks_search_send_pcb: "speaks (mdns_search_send_pcb N o' ifc prot) r"
proof -
  have "quietly (mdns_create_search_packet N o' ifc prot) u (\<lambda>_. True)" for u
    unfolding mdns_create_search_packet_def
    by (rule quietly_bind [OF quietly_new_packet [of "\<lambda>_. True"]])
      (auto split: option.split simp: Let_def quietly_append_known intro!: quietly_bind [OF quietly_malloc [of "\<lambda>_. True"]])
  then show ?thesis
    by (auto simp: mdns_search_send_pcb_def speaks_bind_gets split: option.split
        intro!: speaks_bind_quietly [where R = "\<lambda>_. True"] speaks_dispatch_tx)
qed

lemma send_inv:
  assumes "search_inv s"
  shows "runs_to (mdns_search_send N a) s (\<lambda>_ t. search_inv t)"
proof -
  have "touch (takeWhile (\<lambda>b. b \<noteq> a) (search_once s)) s = Inr ((), s)"
    using search_inv_sets(2) [OF assms] by (intro touch_run) (auto dest: set_takeWhileD)
  moreover have "runs_to (bind (search_object a) (\<lambda>o'. rsp (for_pcbs (\<lambda>i j. mdns_search_send_pcb N o' i j)))) s (\<lambda>_ t. search_inv t)"
    if a: "a \<in> set (search_once s)"
  proof -
    obtain o' where o': "objects s a = Some o'" using search_inv_chain [OF assms a] by blast
    have "speaks (for_pcbs (\<lambda>i j. mdns_search_send_pcb N o' i j)) (responder s)"
      by (rule speaks_for_pcbs) (rule speaks_search_send_pcb)
    then have "runs_to (for_pcbs (\<lambda>i j. mdns_search_send_pcb N o' i j)) (responder s) (\<lambda>_ u. search_inv (s\<lparr>responder := u\<rparr>))"
      unfolding speaks_def by (rule runs_to_mono) (simp add: assms)
    then show ?thesis by (simp add: runs_to_bind runs_search_object [OF o'] runs_rsp)
  qed
  ultimately show ?thesis using assms by (simp add: mdns_search_send_def runs_to_bind [of "gets f" for f] runs_to_bind [of "touch as" for "as"] runs_to_Inr)
qed

lemma task_inv: "search_inv s \<Longrightarrow> runs_to (task_turn N) s (\<lambda>_ t. search_inv t)"
proof (cases "posted s")
  case (Cons act acts)
  assume inv: "search_inv s"
  have "runs_to (execute_search_action N act) (s\<lparr>posted := acts\<rparr>) (\<lambda>_ t. search_inv t)"
  proof (cases act)
    case (Search_send a)
    then have "search_inv (s\<lparr>posted := acts\<rparr>)" using inv Cons by (simp add: search_inv_def consistent_def)
    then show ?thesis using Search_send send_inv by simp
  qed (use inv Cons finish_inv add_inv in simp_all)
  then show ?thesis using Cons by (simp add: task_turn_def runs_to_bind)
qed (simp add: task_turn_def runs_to_bind)

lemma finish_full_unlimited:
  "\<forall>a\<in>set as. \<exists>o'. objects s a = Some o' \<and> max_results o' = 0 \<Longrightarrow> finish_full as s = Inr ((), s)"
  by (induction "as") (auto simp: search_object_def prog_simps if_then_def)

lemma finish_done_inv: "search_inv s \<Longrightarrow> mdns_search_finish_done s = Inr ((), s)"
proof -
  assume inv: "search_inv s"
  have "\<exists>o'. objects s a = Some o' \<and> max_results o' = 0" if a: "a \<in> set (search_once s)" for a
    using search_inv_chain [OF inv a] search_inv_place [OF inv] by (auto simp: place_ok_def)
  then show ?thesis by (simp add: mdns_search_finish_done_def prog_simps finish_full_unlimited)
qed

lemma wake_inv:
  assumes "search_inv s" "objects s a = Some o'" "done_semaphore o'" "mdns_query_wake a s = Inr (rs, t)"
  shows "search_inv t"
proof -
  note inv = assms(1) [unfolded search_inv_def consistent_def]
  have a: "a \<notin> set (adds_of (posted s))" "a \<notin> set (search_once s)" "a \<notin> set (ends_of (posted s))"
    using search_inv_place [OF assms(1,2)] assms(3) by (simp_all add: place_ok_def)
  have t: "t = s\<lparr>objects := (objects s)(a := None), waiting := remove1 a (waiting s)\<rparr>"
    using assms(2,4) by (simp add: mdns_query_wake_def free_search_def search_object_def prog_simps)
  have "consistent ((objects s)(a := None)) (next_search s) (search_once s) (posted s) (remove1 a (waiting s))"
    using inv a unfolding consistent_def by (auto simp: set_remove1_eq)
  then show ?thesis by (simp add: t search_inv_def)
qed

text \<open>A new search is at an address of its own.\<close>

lemma consistent_new:
  assumes "consistent obs new c acts w" "max_results n = 0" "\<not> done_semaphore n" "search_state n \<noteq> SEARCH_OFF"
  shows "consistent (obs(new \<mapsto> n)) (Suc new) c (acts @ [Search_add new]) (new # w)"
proof -
  note inv = assms(1) [unfolded consistent_def]
  have new: "new \<notin> set w" using inv by blast
  then have fresh: "new \<notin> set c" "new \<notin> set (adds_of acts)" "new \<notin> set (ends_of acts)" using inv by blast+
  have "place_ok (adds_of acts @ [new]) c (ends_of acts) b ob" if "(obs(new \<mapsto> n)) b = Some ob" for b ob
  proof (cases "b = new")
    case True
    then show ?thesis using that assms(2-4) fresh by (simp add: place_ok_def)
  next
    case False
    then have "place_ok (adds_of acts) c (ends_of acts) b ob" using that inv by simp
    then show ?thesis using False by (simp add: place_ok_def)
  qed
  moreover have "dom (obs(new \<mapsto> n)) = set (new # w)" using inv by auto
  ultimately show ?thesis using inv new fresh
    by (simp add: consistent_def less_Suc_eq subset_insertI2 del: dom_fun_upd fun_upd_apply)
qed

lemma same_searches_runs_malloc:
  "(\<And>ok t. same_searches s t \<Longrightarrow> Q ok t) \<Longrightarrow> runs_to (rsp malloc) s Q"
  by (rule runs_malloc) simp_all

lemma runs_copy_name: "(\<And>r t. same_searches s t \<Longrightarrow> Q r t) \<Longrightarrow> runs_to (copy_name p) s Q"
  by (auto simp: copy_name_def runs_to_bind intro!: same_searches_runs_malloc)

lemma runs_search_init:
  assumes "\<And>t. same_searches s t \<Longrightarrow> Q None t"
    "\<And>t (n :: mdns_search). same_searches s t \<Longrightarrow> max_results n = query_max q \<Longrightarrow> \<not> done_semaphore n \<Longrightarrow> search_state n = SEARCH_INIT \<Longrightarrow>
       Q (Some (next_search t)) (t\<lparr>objects := (objects t)(next_search t \<mapsto> n), next_search := Suc (next_search t)\<rparr>)"
  shows "runs_to (mdns_search_init q) s Q"
proof -
  have copy: "runs_to (bind (copy_name p) (\<lambda>(ok, n). if \<not> ok then return None else k n)) t Q"
    if "same_searches s t" "\<And>n u. same_searches s u \<Longrightarrow> runs_to (k n) u Q" for p k t
    unfolding runs_to_bind
    by (rule runs_copy_name) (use that same_searches_trans assms(1) in \<open>fastforce split: prod.split\<close>)
  have alloc: "runs_to (bind (rsp malloc) (\<lambda>ok. if \<not> ok then return None else k)) t Q"
    if "same_searches s t" "\<And>u. same_searches s u \<Longrightarrow> runs_to k u Q" for k t
    unfolding runs_to_bind
    by (rule same_searches_runs_malloc) (use that same_searches_trans assms(1) in \<open>fastforce\<close>)
  show ?thesis
    unfolding mdns_search_init_def
    by (intro alloc copy same_searches_refl) (auto simp: runs_to_bind Let_def intro: assms(2))
qed

lemma consistent_later: "consistent obs new c acts w \<Longrightarrow> consistent obs (Suc new) c acts w"
  unfolding consistent_def by (meson less_Suc_eq)

lemma query_inv:
  assumes "search_inv s" "unlimited q"
  shows "runs_to (mdns_query_wait q) s (\<lambda>_ t. search_inv t)"
proof -
  let ?Q = "\<lambda>r t. runs_to (case r of None \<Rightarrow> return () | Some a \<Rightarrow> modify (\<lambda>s. s\<lparr>waiting := a # waiting s\<rparr>)) t (\<lambda>_ t. search_inv t)"
  have kept: "search_inv t" if "same_searches s t" for t
    using same_searches_inv [OF that] assms(1) by simp
  have "runs_to (mdns_search_init q) s (\<lambda>r t. runs_to (case r of None \<Rightarrow> return None
      | Some a \<Rightarrow> bind (mdns_send_search_action (Search_add a)) (\<lambda>ok.
          if ok then return (Some a) else bind (free_search a) (\<lambda>_. return None))) t ?Q)"
  proof (rule runs_search_init)
    fix t :: search_sys and n :: mdns_search
    assume t: "same_searches s t" and n: "max_results n = query_max q" "\<not> done_semaphore n" "search_state n = SEARCH_INIT"
    let ?a = "next_search t"
    let ?t = "t\<lparr>objects := (objects t)(?a \<mapsto> n), next_search := Suc ?a\<rparr>"
    have new: "consistent ((objects t)(?a \<mapsto> n)) (Suc ?a) (search_once t) (posted t @ [Search_add ?a]) (?a # waiting t)"
      using kept [OF t] n assms(2) by (intro consistent_new) (simp_all add: search_inv_def unlimited_def)
    have later: "consistent (objects t) (Suc ?a) (search_once t) (posted t) (waiting t)"
      using kept [OF t] by (intro consistent_later) (simp add: search_inv_def)
    have gone: "(objects t)(?a := None) = objects t"
      using search_inv_sets(5) [OF kept [OF t]] by (auto simp: domIff)
    have "runs_to (bind (mdns_send_search_action (Search_add ?a)) (\<lambda>ok.
          if ok then return (Some ?a) else bind (free_search ?a) (\<lambda>_. return None))) ?t ?Q"
      unfolding runs_to_bind
    proof (rule runs_send_action)
      fix u assume u: "same_searches ?t u"
      show "runs_to (if True then return (Some ?a) else bind (free_search ?a) (\<lambda>_. return None)) (u\<lparr>posted := posted u @ [Search_add ?a]\<rparr>) ?Q"
        using new u by (simp add: search_inv_def same_searches_def)
      show "runs_to (if False then return (Some ?a) else bind (free_search ?a) (\<lambda>_. return None)) u ?Q"
        using later gone u
        by (simp add: search_inv_def same_searches_def free_search_def runs_to_bind runs_search_object [of u ?a n])
    qed
    then show "runs_to (case Some ?a of None \<Rightarrow> return None
      | Some a \<Rightarrow> bind (mdns_send_search_action (Search_add a)) (\<lambda>ok.
          if ok then return (Some a) else bind (free_search a) (\<lambda>_. return None))) ?t ?Q" by simp
  qed (simp add: kept)
  then show ?thesis
    using assms(1) by (simp add: mdns_query_wait_def mdns_query_start_def runs_to_bind)
qed

lemma runs_to_Inr_dest: "runs_to p s (\<lambda>_ t. Q t) \<Longrightarrow> p s = Inr (a, t) \<Longrightarrow> Q t"
  by (simp add: runs_to_def)

lemma search_step_inv: "search_step N unlimited False s t \<Longrightarrow> search_inv s \<Longrightarrow> search_inv t"
proof (induction rule: search_step.induct)
  case (received a s o' n rs)
  then have "place_ok (adds_of (posted s)) (search_once s) (ends_of (posted s)) a (o'\<lparr>results := rs, num_results := n\<rparr>)"
    using search_inv_place [of s a o'] by (cases "done_semaphore o'"; cases "a \<in> set (adds_of (posted s))") (simp_all add: place_ok_def)
  moreover have "distinct (adds_of (posted s))" "distinct (ends_of (posted s))"
    using received(3) by (simp_all add: search_inv_def consistent_def)
  ultimately show ?case using received consistent_object by (simp add: search_inv_def)
next
  case (query q s t)
  then show ?case using runs_to_Inr_dest [OF query_inv] by blast
next
  case (timer s t)
  then show ?case using runs_to_Inr_dest [OF search_run_inv] by blast
next
  case (task s t)
  then show ?case using runs_to_Inr_dest [OF task_inv] by blast
next
  case (full s t)
  then show ?case using finish_done_inv by simp
qed (auto dest: wake_inv)

lemma search_reachable_inv: "search_reachable N unlimited False s \<Longrightarrow> search_inv s"
  by (induction rule: search_reachable.induct) (auto simp: search_inv_start dest: search_step_inv)


section \<open>Every search stays live, and some do not\<close>

text \<open>
  C6. As long as every query is one that waits for its results and has no maximum of them, whatever the
  order of calls, wake-ups, turns of the timer and of the mDNS task, received packets, failed
  allocations and refused actions: the next turn of the timer and of the task and the end of the full
  searches touch no search that was freed; just the searches of waiting clients are allocated; and none is lost:
  it has its result, or its action is pending, or it is in the chain, and when it is off there, then the action that
  ends it is pending.
\<close>

theorem unlimited_searches_stay_live:
  assumes "search_reachable N unlimited False s"
  shows "(\<exists>t. mdns_search_run s = Inr ((), t)) \<and> (\<exists>t. task_turn N s = Inr ((), t))
    \<and> mdns_search_finish_done s = Inr ((), s)
    \<and> dom (objects s) = set (waiting s) \<and> set (search_once s) \<subseteq> set (waiting s)
    \<and> (\<forall>a o'. objects s a = Some o' \<longrightarrow>
         done_semaphore o' \<or> Search_add a \<in> set (posted s)
         \<or> a \<in> set (search_once s) \<and> (search_state o' = SEARCH_OFF \<longrightarrow> Search_end a \<in> set (posted s)))"
proof -
  note inv = search_reachable_inv [OF assms]
  have "\<exists>t. p s = Inr ((), t)" if "runs_to p s (\<lambda>_ t. search_inv t)" for p :: "unit sys_prog"
    using that by (auto simp: runs_to_def split: sum.splits)
  moreover have "Search_add a \<in> set acts" if "a \<in> set (adds_of acts)" for a acts
    using that by (auto simp: adds_of_def map_filter_def split: search_action.splits)
  moreover have "Search_end a \<in> set acts" if "a \<in> set (ends_of acts)" for a acts
    using that by (auto simp: ends_of_def map_filter_def split: search_action.splits)
  moreover have "place_ok (adds_of (posted s)) (search_once s) (ends_of (posted s)) a o'" if "objects s a = Some o'" for a o'
    by (rule search_inv_place [OF inv that])
  ultimately show ?thesis
    using search_run_inv [OF inv] task_inv [OF inv] finish_done_inv [OF inv] search_inv_sets [OF inv]
    by (fastforce simp: place_ok_def split: if_splits)
qed

definition no_searches :: search_sys where
  "no_searches = \<lparr>responder = car_responder, objects = Map.empty, next_search = 0, search_once = [], posted = [],
     accepted = [], waiting = [], notified = []\<rparr>"

definition browse :: query where
  "browse = \<lparr>query_name = None, query_service = Some (bytes_of ''_car''), query_proto = Some (bytes_of ''_udp''),
     query_type = MDNS_TYPE_PTR, query_unicast = False, query_timeout = 3000, query_max = 0, query_notifies = False\<rparr>"

definition at_time :: "u32 \<Rightarrow> unit sys_prog" where
  "at_time now = modify (\<lambda>s. s\<lparr>responder := (responder s)\<lparr>millis := now\<rparr>\<rparr>)"

text \<open>The query is added, times out and its end is still pending.\<close>

definition after :: "unit sys_prog \<Rightarrow> search_sys \<Rightarrow> search_sys" where
  "after p s = (case p s of Inl _ \<Rightarrow> s | Inr (_, t) \<Rightarrow> t)"

definition browsed :: search_sys where
  "browsed = after mdns_search_run (after (at_time 4000) (after (task_turn car_netifs) (after (mdns_query_wait browse) no_searches)))"

lemma after_reachable:
  assumes "search_reachable N unlimited False s" "\<And>t. p s = Inr ((), t) \<Longrightarrow> search_step N unlimited False s t"
  shows "search_reachable N unlimited False (after p s)"
proof (cases "p s")
  case (Inr r)
  then have "p s = Inr ((), snd r)" by (cases r) simp
  then show ?thesis using assms search_reachable.step by (simp add: after_def)
qed (simp add: after_def assms(1))

lemma browsed_reachable: "search_reachable car_netifs unlimited False browsed"
proof -
  have "search_step N P b s t" if "at_time n s = Inr ((), t)" for N P b s t n
  proof -
    have "t = s\<lparr>responder := (responder s)\<lparr>millis := n\<rparr>, accepted := accepted s\<rparr>"
      using that by (cases s) (auto simp: at_time_def prog_simps)
    then show ?thesis using search_step.surroundings [where s = s and r = "(responder s)\<lparr>millis := n\<rparr>" and acc = "accepted s"] by simp
  qed
  moreover have "search_reachable car_netifs unlimited False no_searches"
    unfolding no_searches_def by (rule search_reachable.start)
  moreover have "unlimited browse" by (simp add: unlimited_def browse_def)
  ultimately show ?thesis unfolding browsed_def by (intro after_reachable) (auto intro: search_step.intros)
qed

theorem unlimited_searches_stay_live_witness:
  "search_reachable car_netifs unlimited False browsed
    \<and> waiting browsed = [0] \<and> search_once browsed = [0] \<and> posted browsed = [Search_end 0]
    \<and> map_option search_state (objects browsed 0) = Some SEARCH_OFF
    \<and> (\<exists>t. mdns_search_run browsed = Inr ((), t)) \<and> (\<exists>t. task_turn car_netifs browsed = Inr ((), t))
    \<and> dom (objects browsed) = {0}"
proof -
  have "waiting browsed = [0]" "search_once browsed = [0]" "posted browsed = [Search_end 0]"
    "map_option search_state (objects browsed 0) = Some SEARCH_OFF"
    by code_simp+
  then show ?thesis using unlimited_searches_stay_live [OF browsed_reachable] browsed_reachable by simp
qed

text \<open>A limited query, as those for one SRV, TXT or A record are, and one that its client deletes.\<close>

definition one_result :: query where
  "one_result = browse\<lparr>query_type := MDNS_TYPE_SRV, query_name := Some (bytes_of ''car1''), query_max := 1\<rparr>"

definition receive :: "mdns_result \<Rightarrow> nat \<Rightarrow> unit sys_prog" where
  "receive r a = update_search a (add_result r)"

definition delete_search :: "nat \<Rightarrow> unit sys_prog" where
  "delete_search a = bind (mdns_query_async_delete a) (\<lambda>_. return ())"

text \<open>
  A search with a maximum of results, as those for one SRV, TXT or A record have, is full and off, its end pending, when a
  packet finishes it; its client frees it, and then the pending action finishes it again.
\<close>

theorem limited_search_used_after_free:
  "case block [mdns_query_wait one_result, task_turn car_netifs, receive no_result 0, at_time 4000, mdns_search_run,
      mdns_search_finish_done, bind (mdns_query_wake 0) (\<lambda>_. return ()), task_turn car_netifs] no_searches of
     Inl f \<Rightarrow> f = Use_after_free | Inr _ \<Rightarrow> False"
  by code_simp

text \<open>A client that need not wait deletes a search that the timer has turned off, while it is in the chain.\<close>

theorem deleted_search_used_after_free:
  "case block [bind (mdns_query_start browse) (\<lambda>_. return ()), task_turn car_netifs, at_time 4000, mdns_search_run,
      delete_search 0, task_turn car_netifs] no_searches of
     Inl f \<Rightarrow> f = Use_after_free | Inr _ \<Rightarrow> False"
  by code_simp


section \<open>Which search a record belongs to\<close>

definition compare_with :: "u8 list \<Rightarrow> u8 list option \<Rightarrow> bool sys_prog" where
  "compare_with text p = (case p of None \<Rightarrow> fail Null_pointer | Some t \<Rightarrow> return (same_text text t))"

definition compare_service :: "mdns_name \<Rightarrow> mdns_search \<Rightarrow> bool sys_prog" where
  "compare_service name o' =
     bind (compare_with (mdns_name.service name) (search_service o')) (\<lambda>same.
     if same then compare_with (mdns_name.proto name) (search_proto o') else return False)"

text \<open>One turn of the loop of \<open>_mdns_search_find_from\<close>: whether it returns this search.\<close>

definition search_takes :: "netifs \<Rightarrow> mdns_name \<Rightarrow> u16 \<Rightarrow> nat \<Rightarrow> ip_protocol \<Rightarrow> mdns_search \<Rightarrow> bool sys_prog" where
  "search_takes N name type ifc prot o' =
     (let st = search_type o' in
      if search_state o' = SEARCH_OFF then return False
      else if type = MDNS_TYPE_A \<or> type = MDNS_TYPE_AAAA then
        if st = MDNS_TYPE_ANY \<and> search_service o' \<noteq> None
           \<or> st \<noteq> MDNS_TYPE_ANY \<and> st \<noteq> type \<and> st \<noteq> MDNS_TYPE_PTR \<and> st \<noteq> MDNS_TYPE_SRV then return False
        else if st \<noteq> MDNS_TYPE_PTR \<and> st \<noteq> MDNS_TYPE_SRV then compare_with (mdns_name.host name) (search_instance o')
        else return (\<exists>r\<in>set (results o'). result_on N ifc prot r \<and> named_as (mdns_name.host name) (r_hostname r))
      else if type = MDNS_TYPE_SRV \<or> type = MDNS_TYPE_TXT then
        if st = MDNS_TYPE_ANY \<and> search_service o' = None
           \<or> st \<noteq> MDNS_TYPE_ANY \<and> st \<noteq> type \<and> st \<noteq> MDNS_TYPE_PTR then return False
        else bind (compare_service name o') (\<lambda>same.
          if \<not> same then return False
          else if st \<noteq> MDNS_TYPE_PTR then
            return (case search_instance o' of None \<Rightarrow> False | Some i \<Rightarrow> same_text (mdns_name.host name) i)
          else return True)
      else if type = MDNS_TYPE_PTR \<and> type = st then compare_service name o'
      else return False)"

fun mdns_search_find_from :: "netifs \<Rightarrow> nat list \<Rightarrow> mdns_name \<Rightarrow> u16 \<Rightarrow> nat \<Rightarrow> ip_protocol \<Rightarrow> nat option sys_prog" where
  "mdns_search_find_from N [] name type ifc prot = return None"
| "mdns_search_find_from N (a # as) name type ifc prot =
     bind (search_object a) (\<lambda>o'. bind (search_takes N name type ifc prot o') (\<lambda>taken.
     if taken then return (Some a) else mdns_search_find_from N as name type ifc prot))"

text \<open>What the calls for one type of record give a search: a host and no service, or a service.\<close>

definition well_asked :: "mdns_search \<Rightarrow> bool" where
  "well_asked o' \<longleftrightarrow>
     (search_service o' \<noteq> None \<longleftrightarrow> search_proto o' \<noteq> None)
     \<and> (search_type o' \<in> {MDNS_TYPE_PTR, MDNS_TYPE_SRV, MDNS_TYPE_TXT} \<longrightarrow> search_service o' \<noteq> None)
     \<and> (search_type o' \<in> {MDNS_TYPE_A, MDNS_TYPE_AAAA} \<or> search_type o' = MDNS_TYPE_ANY \<and> search_service o' = None
         \<longrightarrow> search_instance o' \<noteq> None)"

definition steady :: "bool sys_prog \<Rightarrow> search_sys \<Rightarrow> bool" where
  "steady p s \<longleftrightarrow> (\<exists>b. p s = Inr (b, s))"

lemma steady_intros:
  "steady (return b) s" "p \<noteq> None \<Longrightarrow> steady (compare_with text p) s"
  "search_service o' \<noteq> None \<Longrightarrow> search_proto o' \<noteq> None \<Longrightarrow> steady (compare_service name o') s"
  "(c \<Longrightarrow> steady p1 s) \<Longrightarrow> (\<not> c \<Longrightarrow> steady p2 s) \<Longrightarrow> steady (if c then p1 else p2) s"
  "steady q s \<Longrightarrow> (\<And>b. steady (k b) s) \<Longrightarrow> steady (bind q k) s"
  by (auto simp: steady_def compare_with_def compare_service_def prog_simps split: option.splits)

lemma search_takes_steady: "well_asked o' \<Longrightarrow> steady (search_takes N name type ifc prot o') s"
  unfolding search_takes_def Let_def well_asked_def insert_iff empty_iff
  by (intro steady_intros) (blast | metis)+

text \<open>A search is found that runs, or none is.\<close>

lemma find_from_run:
  assumes "\<forall>a\<in>set as. \<exists>o'. objects s a = Some o' \<and> well_asked o'"
  shows "\<exists>r. mdns_search_find_from N as name type ifc prot s = Inr (r, s)
    \<and> (\<forall>a. r = Some a \<longrightarrow> a \<in> set as \<and> (\<exists>o'. objects s a = Some o' \<and> search_state o' \<noteq> SEARCH_OFF))"
  using assms
proof (induction "as")
  case (Cons a as)
  then obtain o' where o': "objects s a = Some o'" "well_asked o'" by auto
  then obtain taken where t: "search_takes N name type ifc prot o' s = Inr (taken, s)"
    using search_takes_steady unfolding steady_def by blast
  have "search_state o' \<noteq> SEARCH_OFF" if taken
    using t that by (auto simp: search_takes_def return_def)
  then show ?case using Cons o' t by (cases taken) (auto simp: search_object_def prog_simps)
qed (simp add: return_def)

section \<open>The results stay within their maximum\<close>

definition results_counted :: "mdns_search \<Rightarrow> bool" where
  "results_counted o' \<longleftrightarrow> num_results o' = of_nat (length (results o'))
     \<and> (max_results o' \<noteq> 0 \<longrightarrow> length (results o') \<le> unat (max_results o'))"

lemma counted_add: "results_counted o' \<Longrightarrow> has_room o' \<Longrightarrow> results_counted (add_result r o')"
proof -
  assume o': "results_counted o'" "has_room o'"
  have "length (results o') < unat (max_results o')" if "max_results o' \<noteq> 0"
  proof -
    have le: "length (results o') \<le> unat (max_results o')" using o' that by (simp add: results_counted_def)
    moreover have "unat (max_results o') < 256" using unsigned_less [where w = "max_results o'"] by simp
    ultimately have "length (results o') < 256" by simp
    then have "unat (num_results o') = length (results o')" using o' by (simp add: results_counted_def unsigned_of_nat take_bit_nat_eq_self)
    moreover have "num_results o' < max_results o'" using o'(2) that by (simp add: has_room_def)
    ultimately show ?thesis by (simp add: word_less_nat_alt)
  qed
  then show ?thesis using o'(1) by (auto simp: results_counted_def add_result_def Suc_le_eq add.commute)
qed

lemma counted_same: "results_counted o' \<Longrightarrow> length rs = length (results o') \<Longrightarrow> results_counted (o'\<lparr>results := rs\<rparr>)"
  by (simp add: results_counted_def)

lemma add_result_max [simp]: "max_results (add_result r o') = max_results o'"
  by (simp add: add_result_def)

lemma quietly_update_first:
  assumes "\<And>x s. quietly (f x) s (\<lambda>_. True)"
  shows "quietly (update_first P f xs) s (\<lambda>r. \<forall>xs'. r = Some xs' \<longrightarrow> length xs' = length xs)"
proof (induction xs arbitrary: s)
  case (Cons x xs)
  then show ?case by (auto intro!: quietly_bind [OF assms] quietly_bind [OF Cons.IH])
qed simp

lemma quietly_strdup: "(\<And>t. Q t) \<Longrightarrow> quietly (strdup text) s Q"
  by (auto simp: strdup_def intro!: quietly_bind [OF quietly_malloc [of "\<lambda>_. True"]])

definition keeps_count :: "mdns_search \<Rightarrow> mdns_search \<Rightarrow> bool" where
  "keeps_count o' n \<longleftrightarrow> results_counted n \<and> max_results n = max_results o'"

lemma keeps_count_simps [simp]:
  "results_counted o' \<Longrightarrow> keeps_count o' o'" "results_counted o' \<Longrightarrow> has_room o' \<Longrightarrow> keeps_count o' (add_result r o')"
  "results_counted o' \<Longrightarrow> length rs = length (results o') \<Longrightarrow> keeps_count o' (o'\<lparr>results := rs\<rparr>)"
  by (simp_all add: keeps_count_def counted_add counted_same)

lemmas quiet_steps = quietly_bind [OF quietly_malloc [of "\<lambda>_. True"]] quietly_bind [OF quietly_strdup [of "\<lambda>_. True"]]

lemma quietly_add_ip: "quietly (mdns_result_add_ip ip r) s (\<lambda>_. True)"
  by (auto simp: mdns_result_add_ip_def intro!: quiet_steps)

lemma counted_add_ip: "results_counted o' \<Longrightarrow> quietly (mdns_search_result_add_ip N o' hostname ip ifc prot t) s (keeps_count o')"
  unfolding mdns_search_result_add_ip_def Let_def
  by (auto split: option.split intro!: quiet_steps quietly_bind [OF quietly_update_first] quietly_bind [OF quietly_add_ip])

lemma counted_add_txt: "results_counted o' \<Longrightarrow> quietly (mdns_search_result_add_txt N o' items ifc prot t) s (keeps_count o')"
  unfolding mdns_search_result_add_txt_def
  by (auto split: option.split intro!: quiet_steps quietly_bind [OF quietly_update_first])

lemma counted_add_srv:
  "results_counted o' \<Longrightarrow> search_service o' \<noteq> None \<Longrightarrow> search_proto o' \<noteq> None \<Longrightarrow>
   quietly (mdns_search_result_add_srv N o' hostname prt ifc prot t) s (keeps_count o')"
  unfolding mdns_search_result_add_srv_def
  by (auto simp: strdup_ptr_def split: option.split intro!: quiet_steps quietly_bind [OF quietly_update_first])

lemma counted_add_ptr:
  "results_counted o' \<Longrightarrow> quietly (mdns_search_result_add_ptr N o' inst sv prt ifc prot t) s
     (\<lambda>(n, j). keeps_count o' n \<and> (\<forall>i. j = Some i \<longrightarrow> i < length (results n)))"
proof -
  have "j < length xs" if "index_of P xs = Some j" for P j and xs :: "mdns_result list"
    using that by (induction xs arbitrary: j) (auto split: if_splits)
  then show "results_counted o' \<Longrightarrow> ?thesis"
    unfolding mdns_search_result_add_ptr_def
    by (auto simp: add_result_def [THEN arg_cong, of results] split: option.split intro!: quiet_steps)
qed


definition asked_search :: mdns_search where
  "asked_search = \<lparr>search_state = SEARCH_RUNNING, started_at = 0, sent_at = 0, search_timeout = 3000, has_notifier = False,
     done_semaphore = False, search_type = MDNS_TYPE_PTR, search_unicast = False, max_results = 1, num_results = 1,
     search_instance = None, search_service = Some (bytes_of ''_car''), search_proto = Some (bytes_of ''_udp''),
     results = [no_result]\<rparr>"


text \<open>A search for a PTR record that has an instance and no service, and one for an SRV record of a host.\<close>

theorem search_without_service_faults:
  "case block [mdns_query_wait (browse\<lparr>query_name := Some (bytes_of ''car1''), query_service := None, query_proto := None\<rparr>),
      task_turn car_netifs, bind (mdns_search_find_from car_netifs [0] name0 MDNS_TYPE_PTR 0 V4) (\<lambda>_. return ())] no_searches of
     Inl f \<Rightarrow> f = Null_pointer | Inr _ \<Rightarrow> False"
  by code_simp

end
