(* ===== verification/Mdns_Ifaces.thy ===== *)
theory Mdns_Ifaces
  imports Mdns_Hosts
begin

text \<open>
  Interfaces that come and go, of \<open>managed_components/espressif__mdns/mdns.c\<close> and
  \<open>mdns_networking_lwip.c\<close>: system events that enable, disable and announce an interface, the
  addresses another host claims, and two interfaces found on the same subnet.

  The theory shows that events keep the responder well-formed as long as a disabled interface
  probes nothing, that a disabled interface is silent, and how a second disable breaks this.

  \<open>netif_ready\<close> is the bit of \<open>s_interfaces[i].proto\<close>: \<open>ready\<close> is set exactly when a bit is. \<open>up\<close> is
  whether lwIP joins the multicast group and opens the socket.
  The handles of the interfaces are the parameter \<open>N\<close>; that \<open>_mdns_clean_netif_ptr\<close> forgets the one of a disabled
  interface is not modelled.
\<close>

section \<open>The sockets\<close>

definition mdns_pcb_init :: "(nat \<Rightarrow> ip_protocol \<Rightarrow> bool) \<Rightarrow> nat \<Rightarrow> ip_protocol \<Rightarrow> bool rsp_prog" where
  "mdns_pcb_init up ifc prot =
     bind (gets (\<lambda>s. netif_ready s ifc prot)) (\<lambda>ready.
     if ready \<or> \<not> up ifc prot then return False
     else bind (modify (\<lambda>s. s\<lparr>netif_ready := (netif_ready s)(ifc := (netif_ready s ifc)(prot := True))\<rparr>)) (\<lambda>_. return True))"

definition mdns_pcb_deinit :: "nat \<Rightarrow> ip_protocol \<Rightarrow> unit rsp_prog" where
  "mdns_pcb_deinit ifc prot =
     modify (\<lambda>s. s\<lparr>netif_ready := (netif_ready s)(ifc := (netif_ready s ifc)(prot := False))\<rparr>)"

definition mdns_pcb_deinit_local :: "nat \<Rightarrow> ip_protocol \<Rightarrow> unit rsp_prog" where
  "mdns_pcb_deinit_local ifc prot =
     block [mdns_pcb_deinit ifc prot,
            set_pcb ifc prot (\<lambda>b. b\<lparr>pcb_state := PCB_OFF, probe_ip := False, probe_services := [], probe_running := False,
              failed_probes := 0\<rparr>)]"

definition clear_tx :: "nat \<Rightarrow> ip_protocol \<Rightarrow> unit rsp_prog" where
  "clear_tx ifc prot = modify (\<lambda>s. s\<lparr>tx_queue := mdns_clear_pcb_tx_queue_head ifc prot (tx_queue s)\<rparr>)"

section \<open>Two interfaces on one subnet\<close>

definition when_ready :: "nat \<Rightarrow> ip_protocol \<Rightarrow> unit rsp_prog \<Rightarrow> unit rsp_prog" where
  "when_ready ifc prot p = bind (gets (\<lambda>s. netif_ready s ifc prot)) (\<lambda>ready. if_then ready p)"

definition mark_duplicate :: "nat \<Rightarrow> nat \<Rightarrow> ip_protocol \<Rightarrow> unit rsp_prog" where
  "mark_duplicate ifc other prot =
     when_ready other prot (block
       [when_ready ifc prot (block [clear_tx ifc prot, mdns_pcb_deinit_local ifc prot]),
        set_pcb ifc prot (\<lambda>b. b\<lparr>pcb_state := PCB_DUP\<rparr>),
        mdns_announce_pcb other prot [] True])"

definition mdns_dup_interface :: "netifs \<Rightarrow> nat \<Rightarrow> unit rsp_prog" where
  "mdns_dup_interface N ifc =
     (let other = mdns_get_other_if N ifc in
      if other = MDNS_MAX_INTERFACES then return ()
      else block [mark_duplicate ifc other V4, mark_duplicate ifc other V6])"

text \<open>The decision on an address someone else claims: 1 they win, -1 we win, 0 the same, 2 our other interface has it.\<close>

definition address_collision :: "netifs \<Rightarrow> nat \<Rightarrow> u8 list \<Rightarrow> u8 list option \<Rightarrow> u8 list option \<Rightarrow> int rsp_prog" where
  "address_collision N ifc ip ours others =
     (case ours of None \<Rightarrow> return 1
      | Some own \<Rightarrow>
          if memcmp own ip > 0 then return (-1)
          else if memcmp own ip = 0 then return 0
          else if mdns_get_other_if N ifc = MDNS_MAX_INTERFACES \<or> others \<noteq> Some ip then return 1
          else bind (mdns_dup_interface N ifc) (\<lambda>_. return 2))"

definition mdns_check_a_collision :: "netifs \<Rightarrow> u32 \<Rightarrow> nat \<Rightarrow> int rsp_prog" where
  "mdns_check_a_collision N ip ifc =
     (if ip = 0 then return 1
      else address_collision N ifc (ip_bytes ip) (map_option ip_bytes (ip_info N ifc))
             (map_option ip_bytes (ip_info N (mdns_get_other_if N ifc))))"

definition mdns_check_aaaa_collision :: "netifs \<Rightarrow> u8 list \<Rightarrow> nat \<Rightarrow> int rsp_prog" where
  "mdns_check_aaaa_collision N ip6 ifc =
     (if ipv6_address_is_zero ip6 then return 1
      else address_collision N ifc ip6 (ip6_linklocal N ifc) (ip6_linklocal N (mdns_get_other_if N ifc)))"

section \<open>System events\<close>

definition mdns_enable_pcb :: "(nat \<Rightarrow> ip_protocol \<Rightarrow> bool) \<Rightarrow> nat \<Rightarrow> ip_protocol \<Rightarrow> unit rsp_prog" where
  "mdns_enable_pcb up ifc prot =
     bind (gets (\<lambda>s. netif_ready s ifc prot)) (\<lambda>ready.
     if ready then mdns_restart_pcb ifc prot
     else bind (mdns_pcb_init up ifc prot) (\<lambda>ok.
       if ok then mdns_restart_pcb ifc prot else set_pcb ifc prot (\<lambda>b. b\<lparr>failed_probes := 0\<rparr>)))"

definition mdns_disable_pcb :: "netifs \<Rightarrow> (nat \<Rightarrow> ip_protocol \<Rightarrow> bool) \<Rightarrow> nat \<Rightarrow> ip_protocol \<Rightarrow> unit rsp_prog" where
  "mdns_disable_pcb N up ifc prot =
     block [when_ready ifc prot (block
              [clear_tx ifc prot, mdns_pcb_deinit_local ifc prot,
               (let other = mdns_get_other_if N ifc in
                bind (gets (\<lambda>s. other \<noteq> MDNS_MAX_INTERFACES \<and> pcb_state (pcbs s other prot) = PCB_DUP)) (\<lambda>dup.
                if_then dup (block [set_pcb other prot (\<lambda>b. b\<lparr>pcb_state := PCB_OFF\<rparr>), mdns_enable_pcb up other prot])))]),
            set_pcb ifc prot (\<lambda>b. b\<lparr>pcb_state := PCB_OFF\<rparr>)]"

text \<open>An action is a word of flags; reverse lookups are not configured.\<close>

definition perform_event_action :: "netifs \<Rightarrow> (nat \<Rightarrow> ip_protocol \<Rightarrow> bool) \<Rightarrow> nat \<Rightarrow> u32 \<Rightarrow> unit rsp_prog" where
  "perform_event_action N up ifc action =
     (if ifc \<ge> MDNS_MAX_INTERFACES then return ()
      else block
        [if_then (bit action 1) (mdns_enable_pcb up ifc V4),
         if_then (bit action 2) (mdns_enable_pcb up ifc V6),
         if_then (bit action 5) (mdns_disable_pcb N up ifc V4),
         if_then (bit action 6) (mdns_disable_pcb N up ifc V6),
         if_then (bit action 3) (mdns_announce_pcb ifc V4 [] True),
         if_then (bit action 4) (mdns_announce_pcb ifc V6 [] True)])"

section \<open>An operation on one interface leaves the others alone\<close>

text \<open>A duplicate probes nothing; this holds at the end of each operation.\<close>

definition dup_idle :: "mdns_pcb \<Rightarrow> bool" where
  "dup_idle b \<longleftrightarrow> (pcb_state b = PCB_DUP \<longrightarrow> probe_services b = [])"

definition framed :: "nat \<Rightarrow> ip_protocol \<Rightarrow> 'a rsp_prog \<Rightarrow> mdns_responder \<Rightarrow> bool" where
  "framed ifc prot p s \<longleftrightarrow>
     (case p s of Inl _ \<Rightarrow> True | Inr (_, t) \<Rightarrow>
        (\<forall>i j. (i, j) \<noteq> (ifc, prot) \<longrightarrow> pcbs t i j = pcbs s i j)
        \<and> (dup_idle (pcbs s ifc prot) \<longrightarrow> dup_idle (pcbs t ifc prot)))"

lemma framed_bind:
  assumes "framed ifc prot p s" "\<And>r t. p s = Inr (r, t) \<Longrightarrow> framed ifc prot (k r) t"
  shows "framed ifc prot (bind p k) s"
proof (cases "p s")
  case (Inr x)
  then show ?thesis
    using assms by (cases x) (fastforce simp: framed_def bind_run split: sum.splits)
qed (simp add: framed_def bind_run)

lemma framed_quietly:
  assumes "quietly p s R" "\<And>r t. R r \<Longrightarrow> quiet s t \<Longrightarrow> framed ifc prot (k r) t"
  shows "framed ifc prot (bind p k) s"
proof (rule framed_bind)
  show "framed ifc prot p s" using assms(1) by (auto simp: framed_def quietly_def runs_to_def quiet_same split: sum.splits)
  show "framed ifc prot (k r) t" if "p s = Inr (r, t)" for r t
    using assms that by (auto simp: quietly_def runs_to_def)
qed

lemma framed_simps [simp]:
  "framed ifc prot (return r) s" "framed ifc prot (fail f) s" "framed ifc prot (bind (gets g) k) s = framed ifc prot (k (g s)) s"
  "framed ifc prot (schedule_tx p ms) s" "framed ifc prot (replace_tx p) s"
  by (simp_all add: framed_def prog_simps schedule_tx_def replace_tx_def)

lemma framed_set_pcb: "(\<And>b. dup_idle b \<Longrightarrow> dup_idle (h b)) \<Longrightarrow> framed ifc prot (set_pcb ifc prot h) s"
  by (simp add: framed_def prog_simps set_pcb_def)

lemma framed_set_state [simp]: "st \<noteq> PCB_DUP \<Longrightarrow> framed ifc prot (set_pcb ifc prot (\<lambda>b. b\<lparr>pcb_state := st\<rparr>)) s"
  by (rule framed_set_pcb) (simp add: dup_idle_def)

lemma framed_probe_started: "framed ifc prot (probe_started ifc prot ip new p ms) s"
  by (cases "entropy s") (simp_all add: framed_def probe_started_def set_pcb_def esp_random_def schedule_tx_def prog_simps dup_idle_def)

lemma framed_start_probe:
  assumes "wf_responder s" "\<forall>a\<in>set new. live s a"
  shows "framed ifc prot (start_probe ifc prot ip ms new) s"
  unfolding start_probe_def
proof (rule framed_bind)
  let ?b = "\<lambda>b. b\<lparr>probe_ip := False, probe_services := [], probe_running := False\<rparr>"
  fix r t assume t: "set_pcb ifc prot ?b s = Inr (r, t)"
  then have "t = s\<lparr>pcbs := (pcbs s)(ifc := (pcbs s ifc)(prot := ?b (pcbs s ifc prot)))\<rparr>"
    by (auto simp: set_pcb_def prog_simps)
  then have wf: "wf_responder t" "same_registry s t"
    using upholds_set_pcb [OF assms(1), of ?b ifc prot] t assms(1)
    by (auto simp: upholds_def wf_pcb_def runs_to_def)
  have "quietly (mdns_create_probe_packet ifc prot new True ip) t (made t ifc prot)"
    using assms wf by (intro quietly_create_probe_packet) (simp_all add: same_registry_wf wf_responder_same)
  then show "framed ifc prot (bind (mdns_create_probe_packet ifc prot new True ip)
      (\<lambda>pkt. case pkt of None \<Rightarrow> return () | Some p \<Rightarrow> probe_started ifc prot ip new p ms)) t"
  proof (rule framed_quietly)
    fix pkt u
    show "framed ifc prot (case pkt of None \<Rightarrow> return () | Some p \<Rightarrow> probe_started ifc prot ip new p ms) u"
      by (simp add: framed_probe_started split: option.split)
  qed
qed (rule framed_set_pcb, simp add: dup_idle_def)

lemma framed_init_pcb_probe:
  assumes wf: "wf_responder s" and ss: "\<forall>a\<in>set ss. live s a"
  shows "framed ifc prot (mdns_init_pcb_probe ifc prot ss with_ip) s"
proof -
  let ?s = "s\<lparr>tx_queue := mdns_clear_pcb_tx_queue_head ifc prot (tx_queue s)\<rparr>"
  have t: "wf_responder ?s" "same_registry s ?s"
    using upholds_clear_queue [OF wf, of ifc prot] by (simp_all add: upholds_def)
  have b: "wf_pcb ?s (pcbs ?s ifc prot)" by (rule wf_responder_same [OF t(1)])
  have new: "framed ifc prot (mdns_init_pcb_probe_new_service ifc prot ss' with_ip) ?s"
    if "set ss' \<subseteq> set ss" for ss'
  proof -
    have live: "\<forall>a\<in>set (ss' @ probe_services (pcbs ?s ifc prot)). live ?s a"
      using b ss that t by (auto simp: wf_pcb_def same_registry_wf)
    have "framed ifc prot (bind malloc (\<lambda>ok. if \<not> ok then return ()
        else if length ss' + length (probe_services (pcbs ?s ifc prot)) > n then fail Out_of_bounds
        else start_probe ifc prot ip ms (ss' @ probe_services (pcbs ?s ifc prot)))) ?s" for n ip ms
      by (rule framed_quietly [OF quietly_malloc [of "\<lambda>_. True"]])
        (use t live in \<open>auto simp: quiet_wf intro!: framed_start_probe\<close>)
    moreover have "framed ifc prot (start_probe ifc prot ip ms []) ?s" for ip ms
      using t by (intro framed_start_probe) simp_all
    ultimately show ?thesis by (simp add: mdns_init_pcb_probe_new_service_def get_pcb_def Let_def)
  qed
  show ?thesis
    unfolding mdns_init_pcb_probe_def
  proof (rule framed_bind)
    fix r t assume "modify (\<lambda>s. s\<lparr>tx_queue := mdns_clear_pcb_tx_queue_head ifc prot (tx_queue s)\<rparr>) s = Inr (r, t)"
    then have "t = ?s" by (simp add: prog_simps)
    moreover have "framed ifc prot (mdns_init_pcb_probe_new_service ifc prot (filter Q ss) with_ip) ?s" for Q by (rule new) auto
    ultimately show "framed ifc prot (bind (gets server_hostname) (\<lambda>h.
        if str_null_or_empty h then set_pcb ifc prot (\<lambda>b. b\<lparr>pcb_state := PCB_RUNNING\<rparr>)
        else bind (get_pcb ifc prot) (\<lambda>pcb. if PCB_STATE_IS_PROBING (pcb_state pcb)
          then mdns_init_pcb_probe_new_service ifc prot (filter (\<lambda>a. a \<notin> set (probe_services pcb)) ss) with_ip
          else mdns_init_pcb_probe_new_service ifc prot ss with_ip))) t"
      using new [of ss] by (simp add: get_pcb_def)
  qed (simp add: framed_def prog_simps)
qed

lemma framed_extend_announcement:
  assumes wf: "wf_responder s" and p: "wf_tx s p"
  shows "framed ifc prot (extend_announcement ifc prot [] include_ip p) s"
proof -
  have put: "framed ifc prot (bind (replace_tx p') (\<lambda>_. set_pcb ifc prot (\<lambda>b. b\<lparr>pcb_state := PCB_ANNOUNCE_1\<rparr>))) t" for p' t
    by (rule framed_bind) simp_all
  have "quietly (mdns_append_host_list_in_services [] True False (tx_answers p)) s (\<lambda>q. wf_answers s (snd q))"
    using quietly_append_host_list [of "[]" s "tx_answers p" True False] wf p by (simp add: wf_responder_same wf_tx_def)
  then have "framed ifc prot (bind (bind (mdns_append_host_list_in_services [] True False (tx_answers p)) (\<lambda>q. return (f q)))
      (\<lambda>p'. bind (replace_tx p') (\<lambda>_. set_pcb ifc prot (\<lambda>b. b\<lparr>pcb_state := PCB_ANNOUNCE_1\<rparr>)))) s" for f
    unfolding bind_assoc by (rule framed_quietly) (simp add: put)
  then show ?thesis using put by (simp add: extend_announcement_def case_prod_unfold)
qed

lemma framed_announce_pcb:
  assumes wf: "wf_responder s"
  shows "framed ifc prot (mdns_announce_pcb ifc prot [] include_ip) s"
proof -
  have "framed ifc prot (extend_announcement ifc prot [] include_ip p) s" if "p \<in> set (tx_queue s)" for p
    using framed_extend_announcement [OF wf] wf_responder_same(2) [OF wf that] .
  then have extend: "framed ifc prot (case mdns_get_next_pcb_packet ifc prot (tx_queue s) of None \<Rightarrow> return ()
      | Some p \<Rightarrow> extend_announcement ifc prot [] include_ip p) s"
    using get_next_in_queue by (auto split: option.split)
  have new: "framed ifc prot (bind (set_pcb ifc prot (\<lambda>b. b\<lparr>pcb_state := PCB_ANNOUNCE_1\<rparr>)) (\<lambda>_.
      bind (mdns_create_announce_packet ifc prot [] include_ip) (\<lambda>pkt. case pkt of None \<Rightarrow> return () | Some p \<Rightarrow>
      schedule_tx p 0))) s"
  proof (rule framed_bind)
    fix r t assume t: "set_pcb ifc prot (\<lambda>b. b\<lparr>pcb_state := PCB_ANNOUNCE_1\<rparr>) s = Inr (r, t)"
    then have "server_hostname t \<noteq> None" using wf_responder_same(3) [OF wf] by (auto simp: set_pcb_def prog_simps)
    then have "quietly (mdns_create_announce_packet ifc prot [] include_ip) t (made t ifc prot)"
      by (intro quietly_create_announce_packet) simp_all
    then show "framed ifc prot (bind (mdns_create_announce_packet ifc prot [] include_ip)
        (\<lambda>pkt. case pkt of None \<Rightarrow> return () | Some p \<Rightarrow> schedule_tx p 0)) t"
      by (rule framed_quietly) (simp split: option.split)
  qed simp
  show ?thesis
    using extend new framed_init_pcb_probe [OF wf, of "[]"] by (simp add: mdns_announce_pcb_def get_pcb_def del: state_order)
qed

section \<open>Events keep the responder well-formed\<close>

text \<open>An interface that is disabled or a duplicate probes nothing.\<close>

definition at_rest :: "mdns_responder \<Rightarrow> bool" where
  "at_rest s \<longleftrightarrow> wf_responder s \<and> (\<forall>i j. (\<not> netif_ready s i j \<longrightarrow> probe_services (pcbs s i j) = []) \<and> dup_idle (pcbs s i j))"

definition settles :: "unit rsp_prog \<Rightarrow> mdns_responder \<Rightarrow> bool" where
  "settles p s \<longleftrightarrow> runs_to p s (\<lambda>_ t. at_rest t \<and> services t = services s)"

lemma settles_frame:
  assumes "at_rest s" "upholds p s" "framed ifc prot p s" "netif_ready s ifc prot"
  shows "settles p s"
proof -
  have "runs_to p s (\<lambda>_ t. wf_responder t \<and> same_registry s t)" using assms(2) by (simp add: upholds_def)
  moreover have "(\<not> netif_ready s i j \<longrightarrow> probe_services (pcbs t i j) = []) \<and> dup_idle (pcbs t i j)" if "p s = Inr ((), t)" for t i j
    using assms(1,3,4) that by (cases "(i, j) = (ifc, prot)") (auto simp: framed_def at_rest_def)
  ultimately show ?thesis
    by (auto simp: settles_def runs_to_def at_rest_def same_registry_def split: sum.splits)
qed

lemma settles_block_Nil [simp]: "settles (block []) s = at_rest s"
  by (simp add: settles_def)

lemma settles_return [simp]: "settles (return ()) s = at_rest s"
  by (simp add: settles_def)

lemma settles_bind_gets [simp]: "settles (bind (gets f) k) s = settles (k (f s)) s"
  by (simp add: settles_def runs_to_bind)

lemma settles_bind:
  assumes "settles p s" "\<And>t. at_rest t \<Longrightarrow> services t = services s \<Longrightarrow> settles (k ()) t"
  shows "settles (bind p k) s"
  using assms(1) unfolding settles_def [of p] settles_def [of "bind p k"] runs_to_bind
  by (rule runs_to_mono) (use assms(2) in \<open>auto simp: settles_def elim!: runs_to_mono\<close>)

lemma settles_block_Cons:
  assumes "settles p s" "\<And>t. at_rest t \<Longrightarrow> services t = services s \<Longrightarrow> settles (block ps) t"
  shows "settles (block (p # ps)) s"
  using settles_bind [of p s "\<lambda>_. block ps"] assms by (simp add: block.simps)

lemma settles_if_then: "at_rest s \<Longrightarrow> (b \<Longrightarrow> settles p s) \<Longrightarrow> settles (if_then b p) s"
  by (simp add: if_then_def)

lemma settles_when_ready: "at_rest s \<Longrightarrow> (netif_ready s i j \<Longrightarrow> settles p s) \<Longrightarrow> settles (when_ready i j p) s"
  by (simp add: when_ready_def settles_if_then)

lemma at_rest_wf: "at_rest s \<Longrightarrow> wf_responder s"
  by (simp add: at_rest_def)

text \<open>One interface is taken down, or changes state with nothing to probe.\<close>

lemma settles_deinit: "at_rest s \<Longrightarrow> settles (mdns_pcb_deinit_local i j) s"
  by (auto simp: settles_def at_rest_def dup_idle_def mdns_pcb_deinit_local_def mdns_pcb_deinit_def set_pcb_def wf_responder_def wf_tx_def
      wf_answers_def wf_answer_def wf_pcb_def live_def)

lemma settles_clear_tx: "at_rest s \<Longrightarrow> settles (clear_tx i j) s"
  by (auto simp: settles_def at_rest_def clear_tx_def wf_responder_def wf_tx_def wf_answers_def wf_answer_def wf_pcb_def live_def
      clear_pcb_filter)

lemma settles_set_state:
  "at_rest s \<Longrightarrow> probe_services (pcbs s i j) = [] \<Longrightarrow>
   settles (set_pcb i j (\<lambda>b. b\<lparr>pcb_state := st\<rparr>)) s"
  by (auto simp: settles_def at_rest_def set_pcb_def wf_responder_def wf_tx_def wf_answers_def wf_answer_def wf_pcb_def live_def dup_idle_def)

lemma settles_announce: "at_rest s \<Longrightarrow> settles (mdns_announce_pcb i j [] True) s"
proof (cases "netif_ready s i j")
  case True
  assume "at_rest s"
  then show ?thesis
    using True upholds_announce_pcb [of s "[]" i j True] framed_announce_pcb [of s i j True]
    by (auto intro: settles_frame at_rest_wf)
qed (simp add: mdns_announce_pcb_def get_pcb_def settles_def runs_to_bind)

lemma settles_restart: "at_rest s \<Longrightarrow> netif_ready s i j \<Longrightarrow> settles (mdns_restart_pcb i j) s"
proof -
  assume s: "at_rest s" "netif_ready s i j"
  have "framed i j (mdns_restart_pcb i j) s"
    unfolding mdns_restart_pcb_def framed_simps
    by (rule framed_init_pcb_probe) (use s in \<open>auto simp: at_rest_def live_def\<close>)
  then show ?thesis using s upholds_restart_pcb [OF at_rest_wf] by (auto intro: settles_frame)
qed

lemma settles_enable: "at_rest s \<Longrightarrow> settles (mdns_enable_pcb up i j) s"
proof -
  assume s: "at_rest s"
  show ?thesis
  proof (cases "netif_ready s i j")
    case True
    then show ?thesis using s settles_restart by (simp add: mdns_enable_pcb_def)
  next
    case False
    let ?t = "s\<lparr>netif_ready := (netif_ready s)(i := (netif_ready s i)(j := True))\<rparr>"
    have t: "at_rest ?t"
      using s by (auto simp: at_rest_def wf_responder_def wf_tx_def wf_answers_def wf_answer_def wf_pcb_def live_def)
    have "settles (mdns_restart_pcb i j) ?t" by (rule settles_restart [OF t]) simp
    moreover have "settles (set_pcb i j (\<lambda>b. b\<lparr>failed_probes := 0\<rparr>)) s"
      using s by (auto simp: settles_def at_rest_def set_pcb_def wf_responder_def wf_tx_def wf_answers_def wf_answer_def
          wf_pcb_def live_def dup_idle_def)
    ultimately show ?thesis
      using False by (simp add: mdns_enable_pcb_def mdns_pcb_init_def settles_def runs_to_bind)
  qed
qed

text \<open>After an interface was taken down, or is not ready, it has nothing to probe.\<close>

lemma settles_down:
  assumes "at_rest s" "st \<noteq> PCB_INIT"
  shows "settles (bind (when_ready i j (block (clear_tx i j # mdns_pcb_deinit_local i j # [])))
    (\<lambda>_. set_pcb i j (\<lambda>b. b\<lparr>pcb_state := st\<rparr>))) s"
proof (cases "netif_ready s i j")
  case True
  then show ?thesis
    using assms(1) by (auto simp: when_ready_def if_then_def settles_def runs_to_bind clear_tx_def mdns_pcb_deinit_local_def
        mdns_pcb_deinit_def set_pcb_def at_rest_def dup_idle_def wf_responder_def wf_tx_def wf_answers_def wf_answer_def
        wf_pcb_def live_def clear_pcb_filter)
next
  case False
  then have "settles (set_pcb i j (\<lambda>b. b\<lparr>pcb_state := st\<rparr>)) s"
    using assms(1) by (intro settles_set_state) (simp_all add: at_rest_def)
  then show ?thesis using False by (simp add: when_ready_def if_then_def settles_def runs_to_bind)
qed

lemma settles_mark_duplicate:
  assumes s: "at_rest s"
  shows "settles (mark_duplicate ifc other prot) s"
proof -
  have "settles (bind (bind (when_ready ifc prot (block [clear_tx ifc prot, mdns_pcb_deinit_local ifc prot]))
      (\<lambda>_. set_pcb ifc prot (\<lambda>b. b\<lparr>pcb_state := PCB_DUP\<rparr>))) (\<lambda>_. block [mdns_announce_pcb other prot [] True])) s"
    by (rule settles_bind [OF settles_down [OF s]]) (auto intro: settles_block_Cons settles_announce)
  then show ?thesis
    by (simp add: mark_duplicate_def block.simps bind_assoc settles_when_ready s)
qed

lemma settles_dup_interface: "at_rest s \<Longrightarrow> settles (mdns_dup_interface N ifc) s"
  by (auto simp: mdns_dup_interface_def Let_def intro!: settles_block_Cons settles_mark_duplicate)

lemma enable_other_ready:
  assumes "at_rest s" "i' \<noteq> i"
  shows "runs_to (mdns_enable_pcb up i j) s (\<lambda>_ t. at_rest t \<and> services t = services s \<and> netif_ready t i' = netif_ready s i')"
proof -
  have restart: "runs_to (mdns_restart_pcb i j) t (\<lambda>_ u. netif_ready u = netif_ready t)" if "wf_responder t" for t
    using upholds_restart_pcb [OF that] unfolding upholds_def by (rule runs_to_mono) (simp add: same_registry_def)
  have "runs_to (mdns_enable_pcb up i j) s (\<lambda>_ t. netif_ready t i' = netif_ready s i')"
  proof (cases "netif_ready s i j")
    case True
    then show ?thesis
      using runs_to_mono [OF restart [OF at_rest_wf [OF assms(1)]]] by (simp add: mdns_enable_pcb_def runs_to_bind)
  next
    case False
    let ?t = "s\<lparr>netif_ready := (netif_ready s)(i := (netif_ready s i)(j := True))\<rparr>"
    have "wf_responder ?t"
      using at_rest_wf [OF assms(1)] by (simp add: wf_responder_def wf_tx_def wf_answers_def wf_answer_def wf_pcb_def live_def)
    then have "runs_to (mdns_restart_pcb i j) ?t (\<lambda>_ t. netif_ready t i' = netif_ready s i')"
      by (rule runs_to_mono [OF restart]) (use assms(2) in simp)
    then show ?thesis using False by (simp add: mdns_enable_pcb_def mdns_pcb_init_def runs_to_bind set_pcb_def)
  qed
  then show ?thesis
    using settles_enable [OF assms(1), of up i j] unfolding settles_def runs_to_def by (auto split: sum.splits)
qed

lemma down_off:
  "at_rest s \<Longrightarrow> \<not> netif_ready s i j \<Longrightarrow>
   runs_to (set_pcb i j (\<lambda>b. b\<lparr>pcb_state := PCB_OFF\<rparr>)) s
     (\<lambda>_ t. at_rest t \<and> services t = services s \<and> \<not> netif_ready t i j \<and> pcb_state (pcbs t i j) = PCB_OFF)"
  using settles_set_state [of s i j PCB_OFF] by (simp add: settles_def set_pcb_def at_rest_def)

lemma disable_down:
  assumes s: "at_rest s" and other: "mdns_get_other_if N i \<noteq> i"
  shows "runs_to (mdns_disable_pcb N up i j) s
    (\<lambda>_ t. at_rest t \<and> services t = services s \<and> \<not> netif_ready t i j \<and> pcb_state (pcbs t i j) = PCB_OFF)"
proof (cases "netif_ready s i j")
  case True
  let ?o = "mdns_get_other_if N i"
  let ?wake = "\<lambda>dup. if_then dup (block [set_pcb ?o j (\<lambda>b. b\<lparr>pcb_state := PCB_OFF\<rparr>), mdns_enable_pcb up ?o j])"
  have down: "runs_to (bind (clear_tx i j) (\<lambda>_. mdns_pcb_deinit_local i j)) s
      (\<lambda>_ t. at_rest t \<and> services t = services s \<and> \<not> netif_ready t i j)"
    using s by (auto simp: runs_to_bind clear_tx_def mdns_pcb_deinit_local_def mdns_pcb_deinit_def set_pcb_def at_rest_def
        dup_idle_def wf_responder_def wf_tx_def wf_answers_def wf_answer_def wf_pcb_def live_def clear_pcb_filter)
  have wake: "runs_to (bind (?wake dup) (\<lambda>_. set_pcb i j (\<lambda>b. b\<lparr>pcb_state := PCB_OFF\<rparr>))) t
      (\<lambda>_ u. at_rest u \<and> services u = services t \<and> \<not> netif_ready u i j \<and> pcb_state (pcbs u i j) = PCB_OFF)"
    if t: "at_rest t" "\<not> netif_ready t i j" and dup: "dup \<Longrightarrow> pcb_state (pcbs t ?o j) = PCB_DUP" for t dup
  proof (cases dup)
    case False
    then show ?thesis using down_off [OF t] by (simp add: if_then_def)
  next
    case True
    let ?t = "t\<lparr>pcbs := (pcbs t)(?o := (pcbs t ?o)(j := (pcbs t ?o j)\<lparr>pcb_state := PCB_OFF\<rparr>))\<rparr>"
    have "settles (set_pcb ?o j (\<lambda>b. b\<lparr>pcb_state := PCB_OFF\<rparr>)) t"
      by (rule settles_set_state [OF t(1)]) (use t dup [OF True] in \<open>simp add: at_rest_def dup_idle_def\<close>)
    then have "at_rest ?t" by (simp add: settles_def set_pcb_def)
    then have "runs_to (mdns_enable_pcb up ?o j) ?t (\<lambda>_ u. at_rest u \<and> services u = services t \<and> \<not> netif_ready u i j)"
      by (rule runs_to_mono [OF enable_other_ready [where i' = i]]) (use other t in auto)
    then have "runs_to (mdns_enable_pcb up ?o j) ?t (\<lambda>_ u. runs_to (set_pcb i j (\<lambda>b. b\<lparr>pcb_state := PCB_OFF\<rparr>)) u
        (\<lambda>_ u. at_rest u \<and> services u = services t \<and> \<not> netif_ready u i j \<and> pcb_state (pcbs u i j) = PCB_OFF))"
      by (rule runs_to_mono) (use down_off in fastforce)
    then show ?thesis using True by (simp add: if_then_def runs_to_bind set_pcb_def)
  qed
  have "runs_to (bind (bind (clear_tx i j) (\<lambda>_. mdns_pcb_deinit_local i j)) (\<lambda>_.
      bind (gets (\<lambda>s. ?o \<noteq> MDNS_MAX_INTERFACES \<and> pcb_state (pcbs s ?o j) = PCB_DUP)) (\<lambda>dup.
      bind (?wake dup) (\<lambda>_. set_pcb i j (\<lambda>b. b\<lparr>pcb_state := PCB_OFF\<rparr>))))) s
      (\<lambda>_ t. at_rest t \<and> services t = services s \<and> \<not> netif_ready t i j \<and> pcb_state (pcbs t i j) = PCB_OFF)"
    unfolding runs_to_bind [of "bind (clear_tx i j) _"]
    by (rule runs_to_mono [OF down]) (use wake in \<open>fastforce simp: runs_to_bind [of "gets f" for f]\<close>)
  then show ?thesis
    using True by (simp add: mdns_disable_pcb_def when_ready_def if_then_def Let_def block.simps bind_assoc runs_to_bind)
next
  case False
  then show ?thesis
    using down_off [OF s] by (simp add: mdns_disable_pcb_def when_ready_def if_then_def runs_to_bind)
qed

lemma settles_event:
  assumes "at_rest s" "ifc < MDNS_MAX_INTERFACES \<Longrightarrow> mdns_get_other_if N ifc \<noteq> ifc"
  shows "settles (perform_event_action N up ifc action) s"
proof -
  have "settles (mdns_disable_pcb N up ifc j) t" if "at_rest t" "ifc < MDNS_MAX_INTERFACES" for j t
    using disable_down [OF that(1) assms(2) [OF that(2)]] unfolding settles_def by (rule runs_to_mono) simp
  note step = this settles_enable settles_announce
  show ?thesis
    unfolding perform_event_action_def
    using assms(1) by (auto intro!: settles_block_Cons settles_if_then step)
qed

lemma settles_address_collision:
  "at_rest s \<Longrightarrow> runs_to (address_collision N ifc ip ours others) s
     (\<lambda>r t. at_rest t \<and> services t = services s \<and> r \<in> {-1, 0, 1, 2})"
  using settles_dup_interface [of s N ifc] runs_to_mono [of "mdns_dup_interface N ifc" s "\<lambda>_ t. at_rest t \<and> services t = services s"]
  by (auto simp: address_collision_def settles_def runs_to_bind split: option.split)

section \<open>Properties\<close>

text \<open>
  C10. As long as an interface that is down or a duplicate probes nothing, no system event - with any set of flags, for
  any interface - and no claim of an address by another host makes the responder fault or lose its
  well-formedness; a disabled interface is off and not ready.
\<close>

theorem events_keep_responder_at_rest:
  assumes "at_rest s" "ifc < MDNS_MAX_INTERFACES" "mdns_get_other_if N ifc \<noteq> ifc"
  shows "runs_to (perform_event_action N up ifc action) s (\<lambda>_ t. at_rest t \<and> services t = services s)
    \<and> runs_to (mdns_check_a_collision N ip ifc) s (\<lambda>_ t. at_rest t \<and> services t = services s)
    \<and> runs_to (mdns_check_aaaa_collision N ip6 ifc) s (\<lambda>_ t. at_rest t \<and> services t = services s)
    \<and> runs_to (mdns_disable_pcb N up ifc prot) s (\<lambda>_ t. \<not> netif_ready t ifc prot \<and> pcb_state (pcbs t ifc prot) = PCB_OFF)"
proof (intro conjI)
  show "runs_to (perform_event_action N up ifc action) s (\<lambda>_ t. at_rest t \<and> services t = services s)"
    using settles_event [OF assms(1)] assms(3) by (simp add: settles_def)
  have "runs_to (address_collision N ifc x ours others) s (\<lambda>_ t. at_rest t \<and> services t = services s)" for x ours others
    by (rule runs_to_mono [OF settles_address_collision [OF assms(1)]]) simp
  then show "runs_to (mdns_check_a_collision N ip ifc) s (\<lambda>_ t. at_rest t \<and> services t = services s)"
    "runs_to (mdns_check_aaaa_collision N ip6 ifc) s (\<lambda>_ t. at_rest t \<and> services t = services s)"
    using assms(1) by (simp_all add: mdns_check_a_collision_def mdns_check_aaaa_collision_def)
  show "runs_to (mdns_disable_pcb N up ifc prot) s (\<lambda>_ t. \<not> netif_ready t ifc prot \<and> pcb_state (pcbs t ifc prot) = PCB_OFF)"
    by (rule runs_to_mono [OF disable_down [OF assms(1,3)]]) simp
qed

text \<open>The witness: the station and the Ethernet interface, 0 and 2, are on one subnet.\<close>

definition two_netifs :: netifs where
  "two_netifs = \<lparr>esp_netif = id, ip_info = (\<lambda>i. Some (if i = 0 then 0x0101A8C0 else 0x0201A8C0)), all_ip6 = (\<lambda>_. []),
     ip6_linklocal = (\<lambda>_. None), duplicate = (\<lambda>i. if i = 0 then 2 else if i = 2 then 0 else MDNS_MAX_INTERFACES)\<rparr>"

lemma at_rest_car: "at_rest car_responder"
  using wf_car_responder by (simp add: at_rest_def car_responder_def idle_pcb_def dup_idle_def)

theorem events_keep_responder_at_rest_witness:
  "runs_to (mdns_check_a_collision two_netifs 0x0201A8C0 0) car_responder (\<lambda>_ t. at_rest t)
    \<and> runs_to (perform_event_action two_netifs (\<lambda>_ _. True) 0 0x22) car_responder (\<lambda>_ t. at_rest t)"
proof -
  have "mdns_get_other_if two_netifs 0 \<noteq> 0" by (simp add: mdns_get_other_if_def two_netifs_def)
  note keep = events_keep_responder_at_rest [OF at_rest_car _ this, THEN conjunct1]
    events_keep_responder_at_rest [OF at_rest_car _ this, THEN conjunct2, THEN conjunct1]
  show ?thesis
    using runs_to_mono [OF keep(1)] runs_to_mono [OF keep(2)] by simp
qed

text \<open>
  An interface that is down and still probes something - a packet that was received before the
  interface went down starts a probe on it afterwards: the next disable turns the state off, but keeps what is
  probed, and the next enable writes behind its array.
\<close>

theorem down_while_probing_overflows:
  assumes "\<not> netif_ready s ifc prot" "probe_services (pcbs s ifc prot) \<noteq> []" "up ifc prot" "heap s = []" "services s \<noteq> []"
    "\<not> str_null_or_empty (server_hostname s)"
  shows "block [mdns_disable_pcb N up ifc prot, mdns_enable_pcb up ifc prot] s = Inl Out_of_bounds"
  using assms
  by (simp add: mdns_disable_pcb_def when_ready_def mdns_enable_pcb_def mdns_pcb_init_def mdns_restart_pcb_def
      mdns_init_pcb_probe_def mdns_init_pcb_probe_new_service_def get_pcb_def set_pcb_def malloc_def prog_simps)

theorem probe_started_on_interface_down:
  "case mdns_init_pcb_probe 0 V4 [1] True (car_responder\<lparr>netif_ready := (\<lambda>_ _. False)\<rparr>) of
     Inl f \<Rightarrow> False
   | Inr (_, t) \<Rightarrow> \<not> netif_ready t 0 V4 \<and> probe_services (pcbs t 0 V4) = [1] \<and> heap t = []"
  by code_simp

end
