(* ===== verification/Mdns_Parse.thy ===== *)
theory Mdns_Parse
  imports Mdns_Search Mdns_Ifaces
begin

text \<open>
  Received packets, of \<open>managed_components/espressif__mdns/mdns.c\<close>: \<open>mdns_parse_packet\<close> from the bytes
  of a packet to the questions that are answered, the results that searches get, the scheduled
  answers that need not be sent any more, and the names that are given up after a collision.

  The theory shows that no packet makes the responder touch freed memory or lose its
  well-formedness, that what a packet does to the searches is a sequence of steps of
  \<open>search_step\<close>, three packets that make it fault and one in which a claim goes unnoticed.

  A pointer into the packet is its offset. \<open>txt_heap\<close> gives the outcomes of the allocations for TXT items,
  \<open>junk\<close> the bytes of an array that is not initialised.
\<close>

section \<open>Data\<close>

record rx_packet =
  rx_if :: nat
  rx_proto :: ip_protocol
  rx_src :: mdns_addr
  rx_port :: u16
  rx_data :: "u8 list"

record mdns_header =
  hd_id :: u16
  hd_flags :: u16
  hd_questions :: u16
  hd_answers :: u16
  hd_servers :: u16
  hd_additional :: u16

record surroundings =
  netifs :: netifs
  txt_heap :: "nat \<Rightarrow> bool"
  junk :: "nat \<Rightarrow> u8"

text \<open>The variables of the parser: \<open>parsed_packet\<close>, \<open>search_result\<close> and \<open>do_not_reply\<close>.\<close>

record parsing =
  sys :: search_sys
  pp :: mdns_parsed_packet
  authoritative :: bool
  discovery :: bool
  search_result :: "nat option"
  do_not_reply :: bool

type_synonym 'a parse_prog = "(parsing, 'a) prog"

definition on_sys :: "'a sys_prog \<Rightarrow> 'a parse_prog" where
  "on_sys p = (\<lambda>s. case p (sys s) of Inl f \<Rightarrow> Inl f | Inr (a, t) \<Rightarrow> Inr (a, s\<lparr>sys := t\<rparr>))"

definition on_rsp :: "'a rsp_prog \<Rightarrow> 'a parse_prog" where
  "on_rsp p = on_sys (rsp p)"

definition evaluate :: "fault + 'a \<Rightarrow> 'a parse_prog" where
  "evaluate r = (case r of Inl f \<Rightarrow> fail f | Inr a \<Rightarrow> return a)"

definition get_rsp :: "(mdns_responder \<Rightarrow> 'a) \<Rightarrow> 'a parse_prog" where
  "get_rsp f = gets (\<lambda>s. f (responder (sys s)))"

definition get_pp :: "(mdns_parsed_packet \<Rightarrow> 'a) \<Rightarrow> 'a parse_prog" where
  "get_pp f = gets (\<lambda>s. f (pp s))"

definition set_questions :: "mdns_parsed_question list \<Rightarrow> unit parse_prog" where
  "set_questions qs = modify (\<lambda>s. s\<lparr>pp := (pp s)\<lparr>pp_questions := qs\<rparr>\<rparr>)"

section \<open>Questions\<close>

text \<open>\<open>_mdns_strdup_check\<close>: an empty string becomes \<open>NULL\<close>; \<open>False\<close> when there is no memory.\<close>

definition mdns_strdup_check :: "u8 list \<Rightarrow> (bool \<times> u8 list option) rsp_prog" where
  "mdns_strdup_check text =
     (if text = [] then return (True, None)
      else bind (strdup text) (\<lambda>p. return (p \<noteq> None, p)))"

definition add_question :: "mdns_parsed_question \<Rightarrow> unit parse_prog" where
  "add_question q = bind (get_pp pp_questions) (\<lambda>qs. set_questions (q # qs))"

text \<open>\<open>False\<close> stands for \<open>goto clear_rx_packet\<close>, after which the questions are freed.\<close>

fun discover_services :: "bool \<Rightarrow> mdns_srv_item list \<Rightarrow> bool parse_prog" where
  "discover_services unicst [] = return True"
| "discover_services unicst (i # is) =
     bind (on_rsp malloc) (\<lambda>ok. if \<not> ok then return False
     else bind (on_rsp (strdup (srv_service (srv i)))) (\<lambda>sv.
     bind (on_rsp (strdup (srv_proto (srv i)))) (\<lambda>pr.
     bind (on_rsp (strdup MDNS_DEFAULT_DOMAIN)) (\<lambda>dom.
     bind (add_question \<lparr>pq_type = MDNS_TYPE_SDPTR, pq_sub = False, pq_unicast = unicst, pq_host = None, pq_service = sv,
        pq_proto = pr, pq_domain = dom\<rparr>) (\<lambda>_.
     if sv = None \<or> pr = None \<or> dom = None then return False else discover_services unicst is)))))"

definition copy_question :: "mdns_name \<Rightarrow> u16 \<Rightarrow> bool \<Rightarrow> bool parse_prog" where
  "copy_question nm type unicst =
     bind (on_rsp malloc) (\<lambda>ok. if \<not> ok then return False
     else bind (on_rsp (mdns_strdup_check (mdns_name.host nm))) (\<lambda>(ok, h). if \<not> ok then return False
     else bind (on_rsp (mdns_strdup_check (mdns_name.service nm))) (\<lambda>(ok, sv). if \<not> ok then return False
     else bind (on_rsp (mdns_strdup_check (mdns_name.proto nm))) (\<lambda>(ok, pr). if \<not> ok then return False
     else bind (on_rsp (mdns_strdup_check (mdns_name.domain nm))) (\<lambda>(ok, dom). if \<not> ok then return False
     else bind (add_question \<lparr>pq_type = type, pq_sub = sub nm \<noteq> 0, pq_unicast = unicst, pq_host = h, pq_service = sv,
        pq_proto = pr, pq_domain = dom\<rparr>) (\<lambda>_. return True))))))"

definition take_question :: "mdns_name \<Rightarrow> u16 \<Rightarrow> u16 \<Rightarrow> bool parse_prog" where
  "take_question nm type class =
     (let unicst = bit class 15 in
      if class AND 0x7FFF \<noteq> 1 \<or> invalid nm then return True
      else if mdns_name_is_discovery nm type then
        bind (modify (\<lambda>s. s\<lparr>discovery := True\<rparr>)) (\<lambda>_. bind (get_rsp services) (discover_services unicst))
      else bind (on_rsp (lift (\<lambda>r. mdns_name_is_ours r nm))) (\<lambda>ours.
        if \<not> ours then return True
        else bind (if_then (type = MDNS_TYPE_ANY \<and> mdns_name.host nm \<noteq> [])
                     (modify (\<lambda>s. s\<lparr>pp := (pp s)\<lparr>probe := True\<rparr>\<rparr>))) (\<lambda>_. copy_question nm type unicst)))"

text \<open>The loop over the questions, of which \<open>uint8_t\<close> counts at most 255; the offset behind them.\<close>

fun parse_questions :: "u8 list \<Rightarrow> nat \<Rightarrow> nat \<Rightarrow> nat option parse_prog" where
  "parse_questions b 0 off = return (Some off)"
| "parse_questions b (Suc n) off =
     bind (evaluate (mdns_parse_fqdn b off)) (\<lambda>(end, nm). case end of None \<Rightarrow> return None | Some c \<Rightarrow>
     if c + 3 \<ge> length b then return None
     else bind (evaluate (mdns_read_u16 b c)) (\<lambda>type. bind (evaluate (mdns_read_u16 b (c + 2))) (\<lambda>class.
       bind (take_question nm type class) (\<lambda>ok. if ok then parse_questions b n (c + 4) else return None))))"

section \<open>Names given up after a collision\<close>

definition string_of :: "u8 list \<Rightarrow> string" where
  "string_of text = map (\<lambda>b. char_of (unat b)) text"

definition mangle :: "u8 list option \<Rightarrow> u8 list option rsp_prog" where
  "mangle p =
     (case p of None \<Rightarrow> fail Null_pointer
      | Some text \<Rightarrow> bind malloc (\<lambda>ok. lift (\<lambda>_. map_sum id (map_option bytes_of) (mdns_mangle_name ok (string_of text)))))"

definition rename_host :: "unit rsp_prog" where
  "rename_host =
     bind (gets server_hostname) (\<lambda>old. bind (mangle old) (\<lambda>new. case new of None \<Rightarrow> return ()
       | Some h \<Rightarrow> block [mdns_remap_self_service_hostname old h, modify (\<lambda>s. s\<lparr>server_hostname := Some h\<rparr>)]))"

definition rename_instance :: "unit rsp_prog" where
  "rename_instance =
     bind (gets server_instance) (\<lambda>old. bind (mangle old) (\<lambda>new. case new of None \<Rightarrow> return ()
       | Some n \<Rightarrow> modify (\<lambda>s. s\<lparr>server_instance := Some n\<rparr>)))"

definition rename_service :: "mdns_srv_item \<Rightarrow> unit rsp_prog" where
  "rename_service i =
     bind (mangle (srv_instance (srv i))) (\<lambda>new. case new of None \<Rightarrow> return ()
       | Some n \<Rightarrow> update_service (item_at i) (\<lambda>v. v\<lparr>srv_instance := Some n\<rparr>))"

definition failed_probe :: "nat \<Rightarrow> ip_protocol \<Rightarrow> unit rsp_prog" where
  "failed_probe ifc prot = set_pcb ifc prot (\<lambda>b. b\<lparr>failed_probes := failed_probes b + 1\<rparr>)"

definition give_up_host :: "nat \<Rightarrow> ip_protocol \<Rightarrow> unit rsp_prog" where
  "give_up_host ifc prot = block [failed_probe ifc prot, rename_host, mdns_restart_all_pcbs]"

definition give_up_service :: "nat \<Rightarrow> ip_protocol \<Rightarrow> mdns_srv_item \<Rightarrow> unit rsp_prog" where
  "give_up_service ifc prot i =
     bind (failed_probe ifc prot) (\<lambda>_. bind (gets server_instance) (\<lambda>inst.
     if \<not> str_null_or_empty (srv_instance (srv i)) then block [rename_service i, mdns_probe_all_pcbs [item_at i] False False]
     else if \<not> str_null_or_empty inst then block [rename_instance, mdns_restart_all_pcbs_no_instance]
     else block [rename_host, mdns_restart_all_pcbs]))"

definition lost_service :: "nat \<Rightarrow> ip_protocol \<Rightarrow> mdns_srv_item \<Rightarrow> unit rsp_prog" where
  "lost_service ifc prot i =
     bind (gets (\<lambda>r. probe_running (pcbs r ifc prot))) (\<lambda>running.
     if running then give_up_service ifc prot i
     else block [mdns_pcb_send_bye ifc prot [item_at i] False, mdns_init_pcb_probe ifc prot [item_at i] False])"

definition remove_scheduled :: "nat \<Rightarrow> ip_protocol \<Rightarrow> u16 \<Rightarrow> mdns_srv_item option \<Rightarrow> unit rsp_prog" where
  "remove_scheduled ifc prot type i =
     modify (\<lambda>s. s\<lparr>tx_queue := mdns_remove_scheduled_answer ifc prot type (map_option item_at i) (tx_queue s)\<rparr>)"

section \<open>Records\<close>

record rx_record =
  rr_name :: mdns_name
  rr_type :: u16
  rr_class :: u16
  rr_ttl :: u32
  rr_at :: nat
  rr_len :: nat
  rr_server :: bool

text \<open>The record at an offset; none when it is malformed. \<open>rr_server\<close> is whether it is in the second section.\<close>

definition next_record :: "mdns_header \<Rightarrow> u8 list \<Rightarrow> nat \<Rightarrow> u16 \<Rightarrow> fault + rx_record option" where
  "next_record head b off i =
     (case mdns_parse_fqdn b off of
        Inl f \<Rightarrow> Inl f
      | Inr (None, nm) \<Rightarrow> Inr None
      | Inr (Some c, nm) \<Rightarrow>
          if c + 9 \<ge> length b then Inr None
          else (case (mdns_read_u16 b c, mdns_read_u16 b (c + 2), mdns_read_u32 b (c + 4), mdns_read_u16 b (c + 8)) of
            (Inr type, Inr class, Inr t, Inr len) \<Rightarrow>
              if c + 10 + unat len > length b then Inr None
              else Inr (Some \<lparr>rr_name = nm, rr_type = type, rr_class = class AND 0x7FFF, rr_ttl = t, rr_at = c + 10,
                     rr_len = unat len,
                     rr_server = (unat (hd_answers head) \<le> unat i \<and> unat i < unat (hd_answers head) + unat (hd_servers head))\<rparr>)
          | _ \<Rightarrow> Inl Out_of_bounds))"

datatype record_owner = Discovery | Ours "mdns_srv_item option" | Other

definition ours_or_fault :: "mdns_name \<Rightarrow> bool parse_prog" where
  "ours_or_fault nm = (if sub nm \<noteq> 0 then return False else on_rsp (lift (\<lambda>r. mdns_name_is_ours r nm)))"

definition service_named :: "mdns_name \<Rightarrow> mdns_srv_item option parse_prog" where
  "service_named nm = get_rsp (\<lambda>r. mdns_get_service_item r (Some (mdns_name.service nm)) (Some (mdns_name.proto nm)) None)"

text \<open>Whose record it is; nobody's when it is skipped. The search is kept when the record is not for one.\<close>

definition whose_record :: "surroundings \<Rightarrow> mdns_header \<Rightarrow> rx_record \<Rightarrow> record_owner option parse_prog" where
  "whose_record U head r =
     bind (gets discovery) (\<lambda>d.
     if d \<and> mdns_name_is_discovery (rr_name r) (rr_type r) then return (Some Discovery)
     else bind (ours_or_fault (rr_name r)) (\<lambda>ours.
     if ours then
       if mdns_name.service (rr_name r) \<noteq> [] \<and> mdns_name.proto (rr_name r) \<noteq> []
       then bind (service_named (rr_name r)) (\<lambda>i. return (Some (Ours i))) else return (Some (Ours None))
     else if hd_flags head AND 0x8000 = 0 \<or> rr_server r then return None
     else bind (get_pp (\<lambda>q. (pp_if q, pp_proto q))) (\<lambda>(ifc, prot).
          bind (on_sys (bind (gets search_once) (\<lambda>c. mdns_search_find_from (netifs U) c (rr_name r) (rr_type r) ifc prot))) (\<lambda>a.
          bind (modify (\<lambda>s. s\<lparr>search_result := a\<rparr>)) (\<lambda>_. return (Some Other))))))"

definition with_search :: "nat \<Rightarrow> (mdns_search \<Rightarrow> (mdns_search \<times> 'a) rsp_prog) \<Rightarrow> 'a parse_prog" where
  "with_search a f = on_sys (bind (search_object a) (\<lambda>o'. bind (rsp (f o')) (\<lambda>(n, r).
     bind (update_search a (\<lambda>_. n)) (\<lambda>_. return r))))"

definition change_search :: "nat \<Rightarrow> (mdns_search \<Rightarrow> mdns_search rsp_prog) \<Rightarrow> unit parse_prog" where
  "change_search a f = with_search a (\<lambda>o'. bind (f o') (\<lambda>n. return (n, ())))"

definition drop_parsed :: "u16 \<Rightarrow> mdns_srv_item option \<Rightarrow> unit parse_prog" where
  "drop_parsed type i =
     bind (get_pp pp_questions) (\<lambda>qs.
     bind (on_rsp (lift (\<lambda>r. mdns_remove_parsed_question r qs type i))) set_questions)"

definition no_reply :: "unit parse_prog" where
  "no_reply = modify (\<lambda>s. s\<lparr>do_not_reply := True\<rparr>)"

abbreviation HALF_TTL :: u32 where "HALF_TTL \<equiv> 2250"

definition take_ptr :: "surroundings \<Rightarrow> u8 list \<Rightarrow> rx_record \<Rightarrow> record_owner \<Rightarrow> unit parse_prog" where
  "take_ptr U b r ow =
     bind (evaluate (mdns_parse_fqdn b (rr_at r))) (\<lambda>(end, nm). if end = None then return () else
     bind (get_pp id) (\<lambda>q. bind (gets search_result) (\<lambda>found. case found of
         Some a \<Rightarrow> bind (with_search a (\<lambda>o'. mdns_search_result_add_ptr (netifs U) o' (mdns_name.host nm)
             (mdns_name.service nm) (mdns_name.proto nm) (pp_if q) (pp_proto q) (rr_ttl r))) (\<lambda>_. return ())
       | None \<Rightarrow>
           if ow = Other then return ()
           else bind (ours_or_fault nm) (\<lambda>ours. if \<not> ours then return ()
           else case ow of
             Discovery \<Rightarrow> bind (service_named nm) (\<lambda>i. if_then (i \<noteq> None) (drop_parsed MDNS_TYPE_SDPTR i))
           | Ours (Some i) \<Rightarrow>
               if pp_questions q \<noteq> [] \<and> \<not> probe q then drop_parsed (rr_type r) (Some i)
               else if_then (rr_ttl r > HALF_TTL) (on_rsp (remove_scheduled (pp_if q) (pp_proto q) (rr_type r) (Some i)))
           | _ \<Rightarrow> return ()))))"

text \<open>The result of a browse a record is about: the one with its instance, or a new one.\<close>

definition result_of :: "netifs \<Rightarrow> mdns_name \<Rightarrow> nat \<Rightarrow> ip_protocol \<Rightarrow> u32 \<Rightarrow> mdns_search \<Rightarrow> (mdns_search \<times> nat option) rsp_prog" where
  "result_of N nm ifc prot t o' =
     (case index_of (\<lambda>r. result_on N ifc prot r \<and> r_instance r = Some (mdns_name.host nm)) (results o') of
        Some j \<Rightarrow> return (o', Some j)
      | None \<Rightarrow> mdns_search_result_add_ptr N o' (mdns_name.host nm) (mdns_name.service nm) (mdns_name.proto nm) ifc prot t)"

definition set_host_of :: "nat \<Rightarrow> u8 list \<Rightarrow> u16 \<Rightarrow> mdns_search \<Rightarrow> mdns_search rsp_prog" where
  "set_host_of j h prt o' =
     (if r_hostname (results o' ! j) \<noteq> None then return o'
      else bind (strdup h) (\<lambda>t. return (o'\<lparr>results := (results o')[j := (results o' ! j)\<lparr>r_port := prt, r_hostname := t\<rparr>]\<rparr>)))"

text \<open>The decision on a record of an own service: by its class, or by its data when the service exists.\<close>

definition class_collision :: "u16 \<Rightarrow> int \<Rightarrow> int" where
  "class_collision class col = (if class > 1 then 1 else if class = 0 then -1 else col)"

definition is_unasked :: "parsing \<Rightarrow> bool" where
  "is_unasked s \<longleftrightarrow> \<not> authoritative s \<and> \<not> probe (pp s) \<and> pp_questions (pp s) = []"

text \<open>
  An SRV record of an own name: a known answer, the answer of another interface, or the claim of
  another host to the service.
\<close>

definition own_srv :: "rx_record \<Rightarrow> mdns_name \<Rightarrow> bool \<Rightarrow> mdns_srv_item option \<Rightarrow> u16 \<Rightarrow> u16 \<Rightarrow> u16 \<Rightarrow> unit parse_prog" where
  "own_srv r aim selfhosted item prio weigh prt =
     bind (get_pp id) (\<lambda>q. let ifc = pp_if q; prot = pp_proto q in
     if pp_questions q \<noteq> [] \<and> \<not> probe q then drop_parsed (rr_type r) item
     else if pp_distributed q then on_rsp (remove_scheduled ifc prot (rr_type r) item)
     else if \<not> selfhosted then return ()
     else bind (get_rsp (\<lambda>s. case item of None \<Rightarrow> 0
         | Some i \<Rightarrow> mdns_check_srv_collision s (srv i) prio weigh prt (mdns_name.host aim) (mdns_name.domain aim))) (\<lambda>data.
       let col = class_collision (rr_class r) data in
       bind (gets (\<lambda>s. (authoritative s, is_unasked s))) (\<lambda>(auth, unasked).
       case item of
         Some i \<Rightarrow>
           if col \<noteq> 0 \<and> (probe q \<or> auth) then
             if_then (col > 0 \<or> prt = 0) (block [no_reply, on_rsp (lost_service ifc prot i)])
           else if_then (rr_ttl r > 60 \<and> col = 0 \<and> unasked) (on_rsp (remove_scheduled ifc prot (rr_type r) item))
       | None \<Rightarrow> if_then (rr_ttl r > 60 \<and> col = 0 \<and> unasked) (on_rsp (remove_scheduled ifc prot (rr_type r) item)))))"

text \<open>A program that may end the turn of the loop: \<open>continue\<close>.\<close>

definition unless :: "bool \<Rightarrow> bool parse_prog \<Rightarrow> bool parse_prog" where
  "unless b p = (if b then return True else p)"

definition search_type_of :: "nat option \<Rightarrow> u16 option parse_prog" where
  "search_type_of found =
     (case found of None \<Rightarrow> return None
      | Some a \<Rightarrow> on_sys (bind (search_object a) (\<lambda>o'. return (Some (search_type o')))))"

text \<open>The place of the result a browse has for the record; the turn ends when there is none.\<close>

definition browsed_result :: "netifs \<Rightarrow> rx_record \<Rightarrow> nat option \<Rightarrow> u16 option \<Rightarrow> nat option parse_prog" where
  "browsed_result N r found st =
     (case found of
        Some a \<Rightarrow> if st = Some MDNS_TYPE_PTR
          then bind (get_pp id) (\<lambda>q. with_search a (result_of N (rr_name r) (pp_if q) (pp_proto q) (rr_ttl r)))
          else return None
      | None \<Rightarrow> return None)"

definition take_srv :: "surroundings \<Rightarrow> u8 list \<Rightarrow> rx_record \<Rightarrow> record_owner \<Rightarrow> bool parse_prog" where
  "take_srv U b r ow =
     bind (gets search_result) (\<lambda>found. bind (search_type_of found) (\<lambda>st.
     bind (browsed_result (netifs U) r found st) (\<lambda>j.
     unless (st = Some MDNS_TYPE_PTR \<and> j = None)
    (bind (on_rsp (lift (\<lambda>s. mdns_name_is_selfhosted s (rr_name r)))) (\<lambda>selfhosted.
     bind (evaluate (mdns_parse_fqdn b (rr_at r + 6))) (\<lambda>(end, nm). unless (end = None)
    (if rr_at r + 5 \<ge> length b then return False
     else bind (evaluate (mdns_read_u16 b (rr_at r))) (\<lambda>prio. bind (evaluate (mdns_read_u16 b (rr_at r + 2))) (\<lambda>weigh.
     bind (evaluate (mdns_read_u16 b (rr_at r + 4))) (\<lambda>prt. bind (get_pp id) (\<lambda>q.
     bind (case found of
         Some a \<Rightarrow> (case j of
             Some j' \<Rightarrow> change_search a (set_host_of j' (mdns_name.host nm) prt)
           | None \<Rightarrow> change_search a (\<lambda>o'. mdns_search_result_add_srv (netifs U) o' (mdns_name.host nm) prt
               (pp_if q) (pp_proto q) (rr_ttl r)))
       | None \<Rightarrow> (case ow of Ours item \<Rightarrow> own_srv r nm selfhosted item prio weigh prt | _ \<Rightarrow> return ())) (\<lambda>_.
     return True))))))))))))"

definition txt_data :: "u8 list \<Rightarrow> rx_record \<Rightarrow> u8 list" where
  "txt_data b r = take (rr_len r) (drop (rr_at r) b)"

definition set_txt_of :: "surroundings \<Rightarrow> nat \<Rightarrow> u8 list \<Rightarrow> mdns_search \<Rightarrow> mdns_search rsp_prog" where
  "set_txt_of U j data o' =
     (if r_txt (results o' ! j) \<noteq> [] then return o'
      else bind (lift (\<lambda>_. mdns_result_txt_create (txt_heap U) data)) (\<lambda>ts. return (case ts of
          Some (t # ts') \<Rightarrow> o'\<lparr>results := (results o')[j := (results o' ! j)\<lparr>r_txt := t # ts'\<rparr>]\<rparr>
        | _ \<Rightarrow> o')))"

definition add_txt_of :: "surroundings \<Rightarrow> nat \<Rightarrow> ip_protocol \<Rightarrow> u32 \<Rightarrow> u8 list \<Rightarrow> mdns_search \<Rightarrow> mdns_search rsp_prog" where
  "add_txt_of U ifc prot t data o' =
     bind (lift (\<lambda>_. mdns_result_txt_create (txt_heap U) data)) (\<lambda>ts. case ts of
         Some (i # is) \<Rightarrow> mdns_search_result_add_txt (netifs U) o' (i # is) ifc prot t
       | _ \<Rightarrow> return o')"

definition own_txt :: "surroundings \<Rightarrow> u8 list \<Rightarrow> rx_record \<Rightarrow> mdns_srv_item option \<Rightarrow> unit parse_prog" where
  "own_txt U data r item =
     bind (get_pp id) (\<lambda>q. let ifc = pp_if q; prot = pp_proto q in
     if pp_questions q \<noteq> [] \<and> \<not> probe q \<and> item \<noteq> None then drop_parsed (rr_type r) item
     else bind (on_rsp (lift (\<lambda>s. mdns_name_is_selfhosted s (rr_name r)))) (\<lambda>selfhosted.
     if \<not> selfhosted then return ()
     else let col = class_collision (rr_class r) (case item of None \<Rightarrow> 0
            | Some i \<Rightarrow> mdns_check_txt_collision (junk U) (txt_items (srv i)) data) in
     bind (get_rsp (\<lambda>s. probe_running (pcbs s ifc prot))) (\<lambda>running.
     bind (gets is_unasked) (\<lambda>unasked.
     case item of
       Some i \<Rightarrow> if col \<noteq> 0 \<and> \<not> running then block [no_reply, on_rsp (mdns_init_pcb_probe ifc prot [item_at i] True)]
         else if_then (rr_ttl r > HALF_TTL \<and> col = 0 \<and> unasked \<and> \<not> running) (on_rsp (remove_scheduled ifc prot (rr_type r) item))
     | None \<Rightarrow> if_then (rr_ttl r > HALF_TTL \<and> col = 0 \<and> unasked \<and> \<not> running) (on_rsp (remove_scheduled ifc prot (rr_type r) item))))))"

definition take_txt :: "surroundings \<Rightarrow> u8 list \<Rightarrow> rx_record \<Rightarrow> record_owner \<Rightarrow> bool parse_prog" where
  "take_txt U b r ow =
     bind (gets search_result) (\<lambda>found. bind (search_type_of found) (\<lambda>st.
     bind (browsed_result (netifs U) r found st) (\<lambda>j.
     unless (st = Some MDNS_TYPE_PTR \<and> j = None) (bind (get_pp id) (\<lambda>q.
     bind (case found of
         Some a \<Rightarrow> (case j of
             Some j' \<Rightarrow> change_search a (set_txt_of U j' (txt_data b r))
           | None \<Rightarrow> change_search a (add_txt_of U (pp_if q) (pp_proto q) (rr_ttl r) (txt_data b r)))
       | None \<Rightarrow> (case ow of Ours item \<Rightarrow> own_txt U (txt_data b r) r item | _ \<Rightarrow> return ())) (\<lambda>_. return True))))))"

text \<open>\<open>memcpy\<close> of the bytes of an address, whatever the length of the record.\<close>

definition copy_bytes :: "u8 list \<Rightarrow> nat \<Rightarrow> nat \<Rightarrow> fault + u8 list" where
  "copy_bytes b i n = (if i + n \<le> length b then Inr (take n (drop i b)) else Inl Out_of_bounds)"

definition ip4_of :: "u8 list \<Rightarrow> u32" where
  "ip4_of bs = foldr (\<lambda>x v. push_bit 8 v OR ucast x) bs 0"

text \<open>An address goes to its search and to every one behind it that takes the record.\<close>

fun feed_searches ::
    "netifs \<Rightarrow> rx_record \<Rightarrow> nat \<Rightarrow> ip_protocol \<Rightarrow> (mdns_search \<Rightarrow> mdns_search rsp_prog) \<Rightarrow> nat list \<Rightarrow> unit parse_prog" where
  "feed_searches N r ifc prot f [] = modify (\<lambda>s. s\<lparr>search_result := None\<rparr>)"
| "feed_searches N r ifc prot f (a # as) =
     bind (on_sys (bind (search_object a) (search_takes N (rr_name r) (rr_type r) ifc prot))) (\<lambda>taken.
     bind (if_then taken (change_search a f)) (\<lambda>_. feed_searches N r ifc prot f as))"

text \<open>Another host claims an address for an own host name. \<open>False\<close> when the packet is dropped.\<close>

definition own_address :: "surroundings \<Rightarrow> rx_record \<Rightarrow> int rsp_prog \<Rightarrow> bool parse_prog" where
  "own_address U r check =
     bind (get_pp id) (\<lambda>q. let ifc = pp_if q; prot = pp_proto q in
     if pp_questions q \<noteq> [] \<and> \<not> probe q then bind (drop_parsed (rr_type r) None) (\<lambda>_. return True)
     else bind (on_rsp (lift (\<lambda>s. mdns_name_is_selfhosted s (rr_name r)))) (\<lambda>selfhosted.
     unless (\<not> selfhosted)
    (bind (if rr_class r > 1 then return 1 else if rr_class r = 0 then return (-1) else on_rsp check) (\<lambda>col.
     bind (get_rsp (\<lambda>s. probe_running (pcbs s ifc prot))) (\<lambda>running.
     bind (gets (\<lambda>s. (authoritative s, is_unasked s))) (\<lambda>(auth, unasked).
     if col = 2 then return False
     else bind (if col = 1 then block [no_reply, on_rsp (if running then if_then (probe q \<or> auth) (give_up_host ifc prot)
                   else mdns_init_pcb_probe ifc prot [] True)]
                else if_then (rr_ttl r > 60 \<and> col = 0 \<and> unasked \<and> \<not> running)
                  (on_rsp (remove_scheduled ifc prot (rr_type r) None))) (\<lambda>_. return True)))))))"

definition take_address :: "surroundings \<Rightarrow> rx_record \<Rightarrow> record_owner \<Rightarrow> mdns_addr \<Rightarrow> int rsp_prog \<Rightarrow> bool parse_prog" where
  "take_address U r ow ip check =
     bind (gets search_result) (\<lambda>found. case found of
         Some a \<Rightarrow> bind (get_pp id) (\<lambda>q.
           let add = (\<lambda>o'. mdns_search_result_add_ip (netifs U) o' (mdns_name.host (rr_name r)) ip (pp_if q) (pp_proto q) (rr_ttl r)) in
           bind (change_search a add) (\<lambda>_. bind (gets (\<lambda>s. search_once (sys s))) (\<lambda>c.
           bind (feed_searches (netifs U) r (pp_if q) (pp_proto q) add (tl (dropWhile (\<lambda>x. x \<noteq> a) c))) (\<lambda>_. return True))))
       | None \<Rightarrow> (case ow of Ours item \<Rightarrow> own_address U r check | _ \<Rightarrow> return True))"

definition take_aaaa :: "surroundings \<Rightarrow> u8 list \<Rightarrow> rx_record \<Rightarrow> record_owner \<Rightarrow> bool parse_prog" where
  "take_aaaa U b r ow =
     bind (evaluate (copy_bytes b (rr_at r) 16)) (\<lambda>ip6. bind (get_pp pp_if) (\<lambda>ifc.
     take_address U r ow (Ip6 ip6) (mdns_check_aaaa_collision (netifs U) ip6 ifc)))"

definition take_a :: "surroundings \<Rightarrow> u8 list \<Rightarrow> rx_record \<Rightarrow> record_owner \<Rightarrow> bool parse_prog" where
  "take_a U b r ow =
     bind (evaluate (copy_bytes b (rr_at r) 4)) (\<lambda>bs. bind (get_pp pp_if) (\<lambda>ifc.
     take_address U r ow (Ip4 (ip4_of bs)) (mdns_check_a_collision (netifs U) (ip4_of bs) ifc)))"

text \<open>One turn of the loop over the records; NSEC and OPT records are skipped.\<close>

definition take_record :: "surroundings \<Rightarrow> mdns_header \<Rightarrow> u8 list \<Rightarrow> rx_record \<Rightarrow> bool parse_prog" where
  "take_record U head b r =
     (if rr_type r = 0x002F \<or> rr_type r = 0x0029 then return True
      else bind (whose_record U head r) (\<lambda>w. case w of None \<Rightarrow> return True | Some ow \<Rightarrow>
        if rr_type r = MDNS_TYPE_PTR then bind (take_ptr U b r ow) (\<lambda>_. return True)
        else if rr_type r = MDNS_TYPE_SRV then take_srv U b r ow
        else if rr_type r = MDNS_TYPE_TXT then take_txt U b r ow
        else if rr_type r = MDNS_TYPE_AAAA then take_aaaa U b r ow
        else if rr_type r = MDNS_TYPE_A then take_a U b r ow
        else return True))"

lemma parse_fqdn_forward:
  "mdns_parse_fqdn b off = Inr (Some q, nm) \<Longrightarrow> off \<le> length b \<Longrightarrow> off < q"
  using mdns_read_fqdn_safe [of name0 off off b]
  by (auto simp: mdns_parse_fqdn_def Let_def split: sum.splits option.splits if_splits)

text \<open>The loop over the records: each starts behind the one before.\<close>

function parse_records :: "surroundings \<Rightarrow> mdns_header \<Rightarrow> u8 list \<Rightarrow> nat \<Rightarrow> u16 \<Rightarrow> bool parse_prog" where
  "parse_records U head b off i =
     (if off < length b then
        (case next_record head b off i of
           Inl f \<Rightarrow> fail f
         | Inr None \<Rightarrow> return False
         | Inr (Some r) \<Rightarrow>
             bind (take_record U head b r) (\<lambda>ok.
             if ok then parse_records U head b (rr_at r + rr_len r) (i + 1) else return False))
      else return True)"
  by pat_completeness auto
termination
  by (relation "measure (\<lambda>(U, head, b, off, i). length b - off)")
    (auto simp: next_record_def dest!: parse_fqdn_forward split: sum.splits option.splits if_splits)

declare parse_records.simps [simp del]

section \<open>A packet\<close>

definition read_header :: "u8 list \<Rightarrow> fault + mdns_header" where
  "read_header b =
     (case (mdns_read_u16 b 0, mdns_read_u16 b 2, mdns_read_u16 b 4, mdns_read_u16 b 6, mdns_read_u16 b 8, mdns_read_u16 b 10) of
        (Inr i, Inr flags, Inr qs, Inr an, Inr ns, Inr ad) \<Rightarrow>
          Inr \<lparr>hd_id = i, hd_flags = flags, hd_questions = qs, hd_answers = an, hd_servers = ns, hd_additional = ad\<rparr>
      | _ \<Rightarrow> Inl Out_of_bounds)"

text \<open>A packet this device has sent itself.\<close>

definition is_own_packet :: "netifs \<Rightarrow> rx_packet \<Rightarrow> bool" where
  "is_own_packet N rx \<longleftrightarrow>
     (case rx_proto rx of
        V4 \<Rightarrow> (case ip_info N (rx_if rx) of None \<Rightarrow> False | Some ip \<Rightarrow> rx_src rx = Ip4 ip)
      | V6 \<Rightarrow> (case ip6_linklocal N (rx_if rx) of None \<Rightarrow> False | Some ip6 \<Rightarrow> rx_src rx = Ip6 ip6))"

definition start_parsing :: "rx_packet \<Rightarrow> mdns_header \<Rightarrow> search_sys \<Rightarrow> parsing" where
  "start_parsing rx head s =
     \<lparr>sys = s,
      pp = \<lparr>pp_if = rx_if rx, pp_proto = rx_proto rx, pp_src = rx_src rx, src_port = rx_port rx, probe = False,
        pp_distributed = (hd_flags head = 0x0200), pp_questions = [], pp_id = hd_id head\<rparr>,
      authoritative = (hd_flags head = MDNS_FLAGS_QR_AUTHORITATIVE), discovery = False, search_result = None,
      do_not_reply = False\<rparr>"

text \<open>From the questions to the reply; \<open>share_step\<close> is the static counter of the replies.\<close>

definition parse_body :: "surroundings \<Rightarrow> rx_packet \<Rightarrow> mdns_header \<Rightarrow> nat \<Rightarrow> nat parse_prog" where
  "parse_body U rx head share_step =
     bind (parse_questions (rx_data rx) (unat (ucast (hd_questions head) :: u8)) 12) (\<lambda>end. case end of
         None \<Rightarrow> return share_step
       | Some off \<Rightarrow>
         bind (gets (\<lambda>s. pp_questions (pp s) = [] \<and> \<not> discovery s)) (\<lambda>nothing.
         if hd_questions head \<noteq> 0 \<and> nothing \<and> hd_answers head = 0 then return share_step
         else bind (if hd_answers head = 0 \<and> hd_servers head = 0 \<and> hd_additional head = 0 then return True
                    else bind (parse_records U head (rx_data rx) off 0) (\<lambda>ok. if \<not> ok then return False
                      else bind (gets authoritative) (\<lambda>auth.
                        bind (if_then auth (on_sys mdns_search_finish_done)) (\<lambda>_. return True)))) (\<lambda>ok.
         if \<not> ok then return share_step
         else bind (gets (\<lambda>s. \<not> do_not_reply s \<and> pcb_state (pcbs (responder (sys s)) (rx_if rx) (rx_proto rx)) > PCB_PROBE_3
                  \<and> (pp_questions (pp s) \<noteq> [] \<or> discovery s))) (\<lambda>reply.
           if \<not> reply then return share_step
           else bind (get_pp id) (\<lambda>q. on_rsp (mdns_create_answer_from_parsed_packet q share_step))))))"

definition mdns_parse_packet :: "surroundings \<Rightarrow> rx_packet \<Rightarrow> nat \<Rightarrow> nat sys_prog" where
  "mdns_parse_packet U rx share_step =
     (if is_own_packet (netifs U) rx \<or> length (rx_data rx) \<le> 10 then return share_step
      else bind (rsp malloc) (\<lambda>ok. if \<not> ok then return share_step
      else (\<lambda>s. case read_header (rx_data rx) of
          Inl f \<Rightarrow> Inl f
        | Inr head \<Rightarrow>
            if hd_flags head = MDNS_FLAGS_QR_AUTHORITATIVE \<and> rx_port rx \<noteq> MDNS_SERVICE_PORT then Inr (share_step, s)
            else if hd_questions head \<noteq> 0 \<and> hd_answers head = 0 \<and> str_null_or_empty (server_hostname (responder s))
            then Inr (share_step, s)
            else (case parse_body U rx head share_step (start_parsing rx head s) of
                Inl f \<Rightarrow> Inl f
              | Inr (n, t) \<Rightarrow> Inr (n, sys t)))))"

section \<open>Some packets\<close>

definition car_surroundings :: surroundings where
  "car_surroundings = \<lparr>netifs = car_netifs, txt_heap = (\<lambda>_. True), junk = (\<lambda>_. 0)\<rparr>"

definition running_system :: search_sys where
  "running_system = no_searches\<lparr>responder := car_responder\<lparr>pcbs := (\<lambda>_ _. idle_pcb\<lparr>pcb_state := PCB_RUNNING\<rparr>)\<rparr>\<rparr>"

definition received :: "u8 list \<Rightarrow> rx_packet" where
  "received b = \<lparr>rx_if = 0, rx_proto = V4, rx_src = Ip4 7, rx_port = 5353, rx_data = b\<rparr>"

definition labels :: "u8 list list \<Rightarrow> u8 list" where
  "labels ls = concat (map (\<lambda>l. of_nat (length l) # l) ls) @ [0]"

definition packet_head :: "u16 \<Rightarrow> u16 \<Rightarrow> u16 \<Rightarrow> u8 list" where
  "packet_head flags qs answers = concat (map u16_bytes [0, flags, qs, answers, 0, 0])"

definition local_name :: "string list \<Rightarrow> u8 list" where
  "local_name ls = labels (map bytes_of ls @ [bytes_of ''local''])"

definition question_bytes :: "string list \<Rightarrow> u16 \<Rightarrow> u8 list" where
  "question_bytes nm type = local_name nm @ u16_bytes type @ u16_bytes 1"

definition record_bytes :: "string list \<Rightarrow> u16 \<Rightarrow> u8 list \<Rightarrow> u8 list" where
  "record_bytes nm type data = local_name nm @ concat (map u16_bytes [type, 1, 0, 120, of_nat (length data)]) @ data"

text \<open>A client looks for televisions; there is one, and another host claims this device's service.\<close>

definition tv_search :: mdns_search where
  "tv_search = \<lparr>search_state = SEARCH_RUNNING, started_at = 0, sent_at = 0, search_timeout = 3000, has_notifier = False,
     done_semaphore = False, search_type = MDNS_TYPE_PTR, search_unicast = False, max_results = 0, num_results = 0,
     search_instance = None, search_service = Some (bytes_of ''_tv''), search_proto = Some (bytes_of ''_udp''), results = []\<rparr>"

definition searching :: search_sys where
  "searching = running_system\<lparr>objects := [0 \<mapsto> tv_search], next_search := 1, search_once := [0]\<rparr>"

definition tv_answer :: "u8 list" where
  "tv_answer = record_bytes [''_tv'', ''_udp''] MDNS_TYPE_PTR (local_name [''lounge'', ''_tv'', ''_udp''])"

definition car_claim :: "u8 list" where
  "car_claim = record_bytes [''car1'', ''_car'', ''_udp''] MDNS_TYPE_SRV
     (concat (map u16_bytes [0, 0, 9999]) @ local_name [''another''])"

text \<open>All services are asked for, and the answer that is known already comes twice.\<close>

definition services_name :: "string list" where
  "services_name = [''_services'', ''_dns-sd'', ''_udp'']"

definition known_twice :: "u8 list" where
  "known_twice = (let known = record_bytes services_name MDNS_TYPE_PTR (local_name [''_car'', ''_udp'']) in
     packet_head 0 1 2 @ question_bytes services_name MDNS_TYPE_PTR @ known @ known)"

section \<open>Sparing freed memory\<close>

text \<open>\<open>spares p s Q\<close>: the program does not touch freed memory, and when it ends it does so with \<open>Q\<close>.\<close>

definition spares :: "('s, 'a) prog \<Rightarrow> 's \<Rightarrow> ('a \<Rightarrow> 's \<Rightarrow> bool) \<Rightarrow> bool" where
  "spares p s Q \<longleftrightarrow> (case p s of Inl f \<Rightarrow> f \<noteq> Use_after_free | Inr (r, t) \<Rightarrow> Q r t)"

lemma spares_return [simp]: "spares (return r) s Q = Q r s"
  and spares_fail [simp]: "spares (fail e) s Q' = (e \<noteq> Use_after_free)"
  and spares_modify [simp]: "spares (modify h) s Q'' = Q'' () (h s)"
  by (simp_all add: spares_def prog_simps)

lemma spares_gets [simp]: "spares (gets g) s Q = Q (g s) s"
  by (simp add: spares_def prog_simps)

lemma spares_bind [simp]: "spares (bind p k) s Q = spares p s (\<lambda>r t. spares (k r) t Q)"
  by (auto simp: spares_def prog_simps split: sum.splits)

lemma spares_block [simp]:
  "spares (if_then b q) s Q = (if b then spares q s Q else Q () s)"
  "spares (block []) s Q = Q () s" "spares (block (q # qs)) s Q = spares q s (\<lambda>_ t. spares (block qs) t Q)"
  by (simp_all add: if_then_def block.simps)

lemma spares_mono: "spares p s Q \<Longrightarrow> (\<And>r t. Q r t \<Longrightarrow> R r t) \<Longrightarrow> spares p s R"
  by (auto simp: spares_def split: sum.splits)

lemma runs_to_spares: "runs_to p s Q \<Longrightarrow> spares p s Q"
  by (auto simp: spares_def runs_to_def split: sum.splits)

lemma quietly_spares: "quietly p r Q \<Longrightarrow> spares p r (\<lambda>x u. quiet r u \<and> Q x)"
  unfolding quietly_def by (rule runs_to_spares)

lemma spares_lift: "(\<And>x. f r = Inr x \<Longrightarrow> Q x r) \<Longrightarrow> f r \<noteq> Inl Use_after_free \<Longrightarrow> spares (lift f) r Q"
  by (auto simp: spares_def lift_def split: sum.splits)

text \<open>What the responder does with a packet keeps it well-formed, and its services registered.\<close>

definition minds :: "'a rsp_prog \<Rightarrow> mdns_responder \<Rightarrow> bool" where
  "minds p r \<longleftrightarrow> spares p r (\<lambda>_ u. wf_responder u \<and> item_at ` set (services u) = item_at ` set (services r))"

lemma minds_upholds: "upholds p r \<Longrightarrow> minds p r"
  unfolding upholds_def minds_def by (erule spares_mono [OF runs_to_spares]) (simp add: same_registry_def)

lemma minds_bind:
  "minds p r \<Longrightarrow> (\<And>x u. wf_responder u \<Longrightarrow> item_at ` set (services u) = item_at ` set (services r) \<Longrightarrow> minds (k x) u) \<Longrightarrow> minds (bind p k) r"
  unfolding minds_def spares_bind spares_block by (erule spares_mono) auto

lemma minds_block_Cons:
  "minds p r \<Longrightarrow> (\<And>u. wf_responder u \<Longrightarrow> item_at ` set (services u) = item_at ` set (services r) \<Longrightarrow> minds (block ps) u) \<Longrightarrow>
   minds (block (p # ps)) r"
  unfolding minds_def spares_bind spares_block by (erule spares_mono) auto

lemma minds_return [simp]: "minds (return x) r = wf_responder r"
  and minds_block_Nil [simp]: "minds (block []) r = wf_responder r"
  and minds_fail [simp]: "minds (fail e) r = (e \<noteq> Use_after_free)"
  by (simp_all add: minds_def)

lemma minds_bind_gets [simp]: "minds (bind (gets f) k) r = minds (k (f r)) r"
  by (simp add: minds_def)

lemma minds_if_then: "wf_responder r \<Longrightarrow> (b \<Longrightarrow> minds p r) \<Longrightarrow> minds (if_then b p) r"
  by (simp add: if_then_def)

lemma live_items_eq: "item_at ` set (services u) = item_at ` set (services r) \<Longrightarrow> live r a \<Longrightarrow> live u a"
  by (simp add: live_def)

lemma minds_quietly:
  assumes "quietly p r R" "wf_responder r" "\<And>x u. R x \<Longrightarrow> quiet r u \<Longrightarrow> wf_responder u \<Longrightarrow> minds (k x) u"
  shows "minds (bind p k) r"
proof -
  have "spares p r (\<lambda>x u. minds (k x) u \<and> services u = services r)"
    by (rule spares_mono [OF quietly_spares [OF assms(1)]]) (use assms(2,3) in \<open>simp add: quiet_wf quiet_same\<close>)
  then show ?thesis unfolding minds_def spares_bind by (rule spares_mono) (auto simp: minds_def)
qed

text \<open>Renaming.\<close>

lemma mangled_nonempty: "mdns_mangle_name ok name = Inr (Some new) \<Longrightarrow> new \<noteq> []"
  by (auto simp: mdns_mangle_name_def sprintf_into_def split: option.splits if_splits prod.splits)

lemma spares_mangle: "spares (mangle p) r (\<lambda>x u. quiet r u \<and> (\<forall>n. x = Some n \<longrightarrow> n \<noteq> []))"
proof (cases p)
  case (Some name)
  have "spares (lift (\<lambda>_. map_sum id (map_option bytes_of) (mdns_mangle_name ok (string_of name)))) u
      (\<lambda>x v. quiet r v \<and> (\<forall>n. x = Some n \<longrightarrow> n \<noteq> []))" if "quiet r u" for ok u
  proof (rule spares_lift)
    show "quiet r u \<and> (\<forall>n. x = Some n \<longrightarrow> n \<noteq> [])"
      if "map_sum id (map_option bytes_of) (mdns_mangle_name ok (string_of name)) = Inr x" for x
      using that mangled_nonempty \<open>quiet r u\<close> by (auto simp: bytes_of_def map_sum_def split: sum.splits)
    show "map_sum id (map_option bytes_of) (mdns_mangle_name ok (string_of name)) \<noteq> Inl Use_after_free"
      by (auto simp: mdns_mangle_name_def sprintf_into_def split: option.splits if_splits prod.splits)
  qed
  then show ?thesis
    using spares_mono [OF quietly_spares [OF quietly_malloc [of "\<lambda>_. True"]]] by (simp add: mangle_def Some)
qed (simp add: mangle_def)

lemma minds_mangle:
  assumes "wf_responder r" "\<And>x u. quiet r u \<Longrightarrow> wf_responder u \<Longrightarrow> \<forall>n. x = Some n \<longrightarrow> n \<noteq> [] \<Longrightarrow> minds (k x) u"
  shows "minds (bind (mangle p) k) r"
proof -
  have "spares (mangle p) r (\<lambda>x u. minds (k x) u \<and> services u = services r)"
    by (rule spares_mono [OF spares_mangle]) (use assms in \<open>auto simp: quiet_wf quiet_same\<close>)
  then show ?thesis unfolding minds_def spares_bind by (rule spares_mono) (auto simp: minds_def)
qed

lemma minds_remap:
  assumes "wf_responder r"
  shows "minds (mdns_remap_self_service_hostname (server_hostname r) new) r"
proof -
  have "quietly (remap_hostnames (server_hostname r) new (services r)) r (\<lambda>is'. map item_at is' = map item_at (services r))"
    using remap_hostnames_items [OF wf_responder_same(3) [OF assms]] .
  then have "minds (bind (remap_hostnames (server_hostname r) new (services r)) (\<lambda>ss'. modify (\<lambda>s. s\<lparr>services := ss'\<rparr>))) r"
  proof (rule minds_quietly [OF _ assms])
    fix ss' :: "mdns_srv_item list" and u
    assume eq: "map item_at ss' = map item_at (services r)" and u: "quiet r u" "wf_responder u"
    have "item_at ` set ss' = item_at ` set (services u)" using arg_cong [OF eq, of set] u by (simp add: quiet_same)
    then show "minds (modify (\<lambda>s. s\<lparr>services := ss'\<rparr>)) u" using wf_items_changed [OF u(2)] by (simp add: minds_def)
  qed
  then show ?thesis by (simp add: mdns_remap_self_service_hostname_def)
qed

lemma minds_names:
  "wf_responder r \<Longrightarrow> h \<noteq> [] \<Longrightarrow> minds (modify (\<lambda>s. s\<lparr>server_hostname := Some h\<rparr>)) r"
  "wf_responder r \<Longrightarrow> minds (modify (\<lambda>s. s\<lparr>server_instance := n\<rparr>)) r"
  by (cases h) (simp_all add: minds_def wf_responder_def wf_tx_def wf_answers_def wf_answer_def wf_pcb_def live_def)

lemma minds_rename_host: "wf_responder r \<Longrightarrow> minds rename_host r"
  unfolding rename_host_def minds_bind_gets
proof (rule minds_mangle, assumption)
  fix x :: "u8 list option" and u assume wf: "wf_responder r" and u: "quiet r u" "wf_responder u" "\<forall>n. x = Some n \<longrightarrow> n \<noteq> []"
  have "minds (mdns_remap_self_service_hostname (server_hostname r) h) u" for h
    using minds_remap [OF u(2)] u(1) by (simp add: quiet_same)
  then show "minds (case x of None \<Rightarrow> return () | Some h \<Rightarrow> block [mdns_remap_self_service_hostname (server_hostname r) h,
      modify (\<lambda>s. s\<lparr>server_hostname := Some h\<rparr>)]) u"
    using u by (auto split: option.split intro!: minds_block_Cons minds_names)
qed

lemma minds_rename_instance: "wf_responder r \<Longrightarrow> minds rename_instance r"
  unfolding rename_instance_def minds_bind_gets
  by (rule minds_mangle) (auto split: option.split intro!: minds_names)

lemma minds_update_service:
  assumes "wf_responder r" "live r a"
  shows "minds (update_service a f) r"
proof -
  let ?ss = "map (\<lambda>i. if item_at i = a then i\<lparr>srv := f (srv i)\<rparr> else i) (services r)"
  obtain i where "find (\<lambda>i. item_at i = a) (services r) = Some i"
    using assms(2) find_is_Some [of "\<lambda>i. item_at i = a" "services r"] by (auto simp: live_def)
  moreover have "item_at ` set ?ss = item_at ` set (services r)"
    unfolding set_map image_image by (rule image_cong) simp_all
  ultimately show ?thesis
    using wf_items_changed [OF assms(1)] by (simp add: minds_def update_service_def service_item_def)
qed

lemma minds_rename_service: "wf_responder r \<Longrightarrow> live r (item_at i) \<Longrightarrow> minds (rename_service i) r"
  unfolding rename_service_def
  by (rule minds_mangle) (auto simp: quiet_wf split: option.split intro: minds_update_service)

lemma minds_failed_probe: "wf_responder r \<Longrightarrow> minds (failed_probe ifc prot) r"
  unfolding failed_probe_def by (rule minds_upholds [OF upholds_set_pcb]) (use wf_responder_same(1) [of r ifc prot] in \<open>simp_all add: wf_pcb_def\<close>)

lemma minds_probe_service: "wf_responder r \<Longrightarrow> live r a \<Longrightarrow> minds (mdns_probe_all_pcbs [a] x y) r"
  by (rule minds_upholds [OF upholds_probe_all_pcbs]) simp_all

lemma minds_give_up_host: "wf_responder r \<Longrightarrow> minds (give_up_host ifc prot) r"
  unfolding give_up_host_def
  by (intro minds_block_Cons minds_failed_probe minds_rename_host minds_upholds [OF upholds_restart_all]) simp_all

lemma minds_give_up_service:
  assumes "wf_responder r" "live r (item_at i)"
  shows "minds (give_up_service ifc prot i) r"
  unfolding give_up_service_def
proof (rule minds_bind [OF minds_failed_probe [OF assms(1)]])
  fix u assume u: "wf_responder u" "item_at ` set (services u) = item_at ` set (services r)"
  have live: "live v (item_at i)" if "item_at ` set (services v) = item_at ` set (services u)" for v
    by (rule live_items_eq [OF _ assms(2)]) (simp add: that u(2))
  show "minds (bind (gets server_instance) (\<lambda>inst.
      if \<not> str_null_or_empty (srv_instance (srv i)) then block [rename_service i, mdns_probe_all_pcbs [item_at i] False False]
      else if \<not> str_null_or_empty inst then block [rename_instance, mdns_restart_all_pcbs_no_instance]
      else block [rename_host, mdns_restart_all_pcbs])) u"
    using u(1) live
    by (auto intro!: minds_block_Cons minds_rename_service minds_probe_service minds_rename_instance minds_rename_host
        minds_upholds [OF upholds_restart_all] minds_upholds [OF upholds_restart_no_instance])
qed

lemma minds_lost_service:
  assumes "wf_responder r" "live r (item_at i)"
  shows "minds (lost_service ifc prot i) r"
proof -
  have "speaks (mdns_pcb_send_bye ifc prot [item_at i] False) r"
    using assms by (intro speaks_pcb_send_bye) (simp_all add: wf_responder_same)
  then have "minds (mdns_pcb_send_bye ifc prot [item_at i] False) r"
    using assms(1) by (intro minds_upholds speaks_upholds)
  moreover have "minds (mdns_init_pcb_probe ifc prot [item_at i] False) u"
    if "wf_responder u" "item_at ` set (services u) = item_at ` set (services r)" for u
    using that live_items_eq [OF that(2) assms(2)] by (intro minds_upholds upholds_init_pcb_probe) simp_all
  ultimately have "minds (block [mdns_pcb_send_bye ifc prot [item_at i] False, mdns_init_pcb_probe ifc prot [item_at i] False]) r"
    by (auto intro!: minds_block_Cons)
  then show ?thesis using minds_give_up_service [OF assms] by (simp add: lost_service_def)
qed

lemma minds_set_queue:
  assumes "wf_responder r" "\<forall>p\<in>set (f (tx_queue r)). wf_tx r p"
  shows "minds (modify (\<lambda>s. s\<lparr>tx_queue := f (tx_queue s)\<rparr>)) r"
  using assms by (simp add: minds_def wf_responder_def wf_tx_def wf_pcb_def live_def wf_answers_def wf_answer_def)

lemma minds_remove_scheduled:
  assumes "wf_responder r"
  shows "minds (remove_scheduled ifc prot type i) r"
  unfolding remove_scheduled_def
proof (rule minds_set_queue [OF assms])
  have "wf_tx r (p\<lparr>tx_answers := mdns_dealloc_answer type x (tx_answers p)\<rparr>)" if "wf_tx r p" for p x
    using that by (simp add: wf_tx_def dealloc_answer_wf)
  then show "\<forall>p\<in>set (mdns_remove_scheduled_answer ifc prot type (map_option item_at i) (tx_queue r)). wf_tx r p"
    using wf_responder_same(2) [OF assms] by (auto simp: mdns_remove_scheduled_answer_def)
qed

text \<open>Two interfaces on one subnet.\<close>

lemma upholds_set_duplicate: "wf_responder r \<Longrightarrow> upholds (set_pcb ifc prot (\<lambda>b. b\<lparr>pcb_state := PCB_DUP\<rparr>)) r"
  by (rule upholds_set_pcb) (use wf_responder_same(1) [of r ifc prot] in \<open>simp_all add: wf_pcb_def\<close>)

lemma minds_deinit: "wf_responder r \<Longrightarrow> minds (mdns_pcb_deinit_local ifc prot) r"
  by (simp add: minds_def mdns_pcb_deinit_local_def mdns_pcb_deinit_def set_pcb_def wf_responder_def wf_tx_def wf_pcb_def
      live_def wf_answers_def wf_answer_def)

lemma minds_when_ready: "wf_responder r \<Longrightarrow> minds p r \<Longrightarrow> minds (when_ready ifc prot p) r"
  by (simp add: when_ready_def minds_if_then)

lemma minds_mark_duplicate: "wf_responder r \<Longrightarrow> minds (mark_duplicate ifc other prot) r"
  unfolding mark_duplicate_def clear_tx_def
  by (intro minds_when_ready minds_block_Cons minds_deinit minds_upholds [OF upholds_clear_queue]
      minds_upholds [OF upholds_set_duplicate] minds_upholds [OF upholds_announce_pcb]) simp_all

lemma minds_address_collision: "wf_responder r \<Longrightarrow> minds (address_collision N ifc ip ours others) r"
proof -
  assume wf: "wf_responder r"
  have "minds (mdns_dup_interface N ifc) r"
    using wf by (auto simp: mdns_dup_interface_def Let_def intro!: minds_block_Cons minds_mark_duplicate)
  then have "minds (bind (mdns_dup_interface N ifc) (\<lambda>_. return x)) r" for x :: int
    by (rule minds_bind) simp
  then show ?thesis using wf by (simp add: address_collision_def split: option.split)
qed

lemma minds_check_collision:
  "wf_responder r \<Longrightarrow> minds (mdns_check_a_collision N ip ifc) r"
  "wf_responder r \<Longrightarrow> minds (mdns_check_aaaa_collision N ip6 ifc) r"
  by (simp_all add: mdns_check_a_collision_def mdns_check_aaaa_collision_def minds_address_collision)

section \<open>Lookups and the reply\<close>

text \<open>Lookups follow no freed pointer.\<close>

lemma lookups_spare [simp]:
  "same_string a b \<noteq> Inl Use_after_free" "mdns_get_host_item r h \<noteq> Inl Use_after_free"
  by (auto simp: same_string_def mdns_get_host_item_def split: option.split sum.split bool.split)

lemma match_instance_spare [simp]: "mdns_service_match_instance r v inst sv pr h \<noteq> Inl Use_after_free"
  by (auto simp: mdns_service_match_instance_def and_also_def mdns_instance_name_match_def split: option.split sum.split)

lemma find_instance_spare [simp]: "find_instance r inst sv pr h ss \<noteq> Inl Use_after_free"
  by (induction ss) (auto split: sum.split)

lemma find_instance_in: "find_instance r inst sv pr h ss = Inr (Some i) \<Longrightarrow> i \<in> set ss"
  by (induction ss) (auto split: sum.splits if_splits)

lemma name_spare [simp]: "mdns_name_is_ours r nm \<noteq> Inl Use_after_free" "mdns_name_is_selfhosted r nm \<noteq> Inl Use_after_free"
  by (auto simp: mdns_name_is_ours_def mdns_name_is_selfhosted_def mdns_get_service_item_instance_def
      split: option.splits sum.splits)

lemma question_matches_spare [simp]: "mdns_question_matches r q type i \<noteq> Inl Use_after_free"
  by (auto simp: mdns_question_matches_def split: option.splits)

lemma remove_behind_spare [simp]: "remove_behind r type i qs \<noteq> Inl Use_after_free"
  by (induction qs) (auto simp: map_sum_def split: sum.splits bool.splits)

lemma remove_question_spare [simp]: "mdns_remove_parsed_question r qs type i \<noteq> Inl Use_after_free"
  by (auto simp: mdns_remove_parsed_question_def map_sum_def split: sum.splits bool.splits)

lemma has_subtype_spare [simp]: "has_subtype h ts \<noteq> Inl Use_after_free"
  by (induction ts) (auto split: sum.splits bool.splits)

lemma ptr_question_spare [simp]: "mdns_service_match_ptr_question r i q \<noteq> Inl Use_after_free"
  by (auto simp: mdns_service_match_ptr_question_def)

text \<open>A reply under construction refers to registered services only.\<close>

definition replies :: "(bool \<times> tx_packet) rsp_prog \<Rightarrow> mdns_responder \<Rightarrow> bool" where
  "replies p r \<longleftrightarrow> spares p r (\<lambda>x u. quiet r u \<and> wf_tx r (snd x))"

lemma replies_return [simp]: "replies (return x) r = wf_tx r (snd x)"
  by (simp add: replies_def)

lemma replies_step:
  assumes "spares p r (\<lambda>x u. quiet r u \<and> R x)" "\<And>x u. R x \<Longrightarrow> quiet r u \<Longrightarrow> replies (k x) u"
  shows "replies (bind p k) r"
  unfolding replies_def spares_bind
  by (rule spares_mono [OF assms(1)])
    (use assms(2) in \<open>fastforce simp: replies_def quiet_wf elim!: spares_mono intro: quiet_trans\<close>)

lemma replies_bind:
  assumes "replies p r" "\<And>ok p' u. wf_tx r p' \<Longrightarrow> quiet r u \<Longrightarrow> replies (k (ok, p')) u"
  shows "replies (bind p k) r"
  by (rule replies_step [OF assms(1) [unfolded replies_def]]) (use assms(2) in \<open>auto simp: split_paired_all\<close>)

lemma replies_lift:
  assumes "f r \<noteq> Inl Use_after_free" "\<And>x. f r = Inr x \<Longrightarrow> replies (k x) r"
  shows "replies (bind (lift f) k) r"
  using assms by (auto simp: replies_def lift_def spares_def bind_run split: sum.splits)

lemma replies_alloc_in: "wf_answer r a \<Longrightarrow> wf_tx r p \<Longrightarrow> replies (alloc_in extra a p) r"
  unfolding alloc_in_def
  by (auto intro!: replies_step [OF quietly_spares [OF quietly_alloc_answer]] simp: wf_tx_def quiet_wf split: prod.split)

lemma quiet_wf_answer: "quiet r u \<Longrightarrow> wf_answer u a = wf_answer r a"
  by (simp add: wf_answer_def quiet_wf)

lemma replies_alloc_all: "\<forall>a\<in>set as. wf_answer r (snd a) \<Longrightarrow> wf_tx r p \<Longrightarrow> replies (alloc_all as p) r"
proof (induction "as" arbitrary: p r)
  case (Cons a as)
  have "replies (if ok then alloc_all as p' else return (False, p')) u" if "wf_tx r p'" "quiet r u" for ok p' u
    using that Cons.prems(1) Cons.IH [of u p'] by (simp add: quiet_wf quiet_wf_answer)
  then show ?case
    unfolding alloc_all.simps using Cons.prems by (intro replies_bind [OF replies_alloc_in]) simp_all
qed simp

lemma replies_from_service: "live r (item_at i) \<Longrightarrow> wf_tx r p \<Longrightarrow> replies (mdns_create_answer_from_service p i q shared flu) r"
  unfolding mdns_create_answer_from_service_def
  by (rule replies_lift [OF lookups_spare(2)], rule replies_alloc_all) (auto simp: service_reply_def Let_def)

lemma replies_from_services:
  "\<forall>i\<in>set is. live r (item_at i) \<Longrightarrow> wf_tx r p \<Longrightarrow> replies (answer_from_services is q shared flu p) r"
proof (induction "is" arbitrary: p r)
  case (Cons i "is")
  have rest: "replies (if ok then answer_from_services is q shared flu p' else return (False, p')) u" if "quiet r u" "wf_tx r p'" for ok p' u
    using Cons that by (simp add: quiet_wf)
  show ?case
    unfolding answer_from_services.simps
    by (rule replies_lift [OF ptr_question_spare], rule replies_bind)
      (use Cons.prems rest replies_from_service in \<open>auto simp: quiet_wf\<close>)
qed simp

lemma append_hosts_wf:
  "wf_answers r d \<Longrightarrow> quietly (append_next_hosts flush bye hs d) r (\<lambda>x. wf_answers r (snd x))"
proof (induction hs arbitrary: d r)
  case (Cons h hs)
  have hosts: "quietly (alloc_answers (host_answers nxt flush bye) d) r (\<lambda>x. wf_answers r (snd x))" for nxt
    using Cons.prems by (intro quietly_alloc_answers) (simp_all add: host_answers_def)
  have "quietly (append_next_hosts flush bye hs d') u (\<lambda>x. wf_answers r (snd x))"
    if "quiet r u" "wf_answers r d'" for u d'
    using Cons.IH [of u d'] that by (simp add: quiet_wf)
  then show ?case
    unfolding append_next_hosts.simps Let_def case_prod_unfold by (intro quietly_bind [OF hosts]) simp
qed simp

lemma host_list_spare:
  assumes "wf_answers r d"
  shows "spares (mdns_append_host_list flush bye d) r (\<lambda>x u. quiet r u \<and> wf_answers r (snd x))"
proof -
  have rest: "spares (if \<not> ok then return (False, d') else bind (gets host_list) (\<lambda>hs. append_next_hosts flush bye hs d')) u
      (\<lambda>x u. quiet r u \<and> wf_answers r (snd x))" if "quiet r u" "wf_answers r d'" for ok d' u
    using spares_mono [OF quietly_spares [OF append_hosts_wf [of u d' flush bye "host_list u"]], of "\<lambda>x u. quiet r u \<and> wf_answers r (snd x)"]
      that by (auto simp: quiet_wf intro: quiet_trans)
  have "spares (alloc_answers (host_answers h flush bye) d) r (\<lambda>x u. quiet r u \<and> wf_answers r (snd x))" for h
    by (rule quietly_spares [OF quietly_alloc_answers]) (use assms in \<open>simp_all add: host_answers_def\<close>)
  then have "spares (if str_null_or_empty own then return (True, d)
      else bind (lift (\<lambda>s. mdns_get_host_item s own)) (\<lambda>h. alloc_answers (host_answers h flush bye) d)) r
      (\<lambda>x u. quiet r u \<and> wf_answers r (snd x))" for own
    using assms by (auto intro: spares_lift)
  then show ?thesis
    unfolding mdns_append_host_list_def spares_bind spares_gets
    by (rule spares_mono) (use rest in \<open>auto simp: split_paired_all\<close>)
qed

lemma live_service: "i \<in> set (services r) \<Longrightarrow> live r (item_at i)"
  by (simp add: live_def)

lemma replies_question: "wf_tx r p \<Longrightarrow> replies (answer_question shared flu q p) r"
proof -
  assume p: "wf_tx r p"
  have instance_of: "replies (bind (lift (\<lambda>s. mdns_get_service_item_instance s (pq_host q) (pq_service q) (pq_proto q) None))
      (\<lambda>x. case x of None \<Rightarrow> return (False, p) | Some i \<Rightarrow> mdns_create_answer_from_service p i q shared flu)) r"
    by (rule replies_lift)
      (use p in \<open>auto simp: mdns_get_service_item_instance_def split: option.split dest: find_instance_in
        intro!: replies_from_service live_service\<close>)
  have hosts: "replies (bind (mdns_append_host_list flu False (tx_answers p)) (\<lambda>(ok, d). return (ok, p\<lparr>tx_answers := d\<rparr>))) r"
    by (rule replies_step [OF host_list_spare]) (use p in \<open>auto simp: wf_tx_def quiet_wf split: prod.split\<close>)
  have own: "replies (mdns_create_answer_from_hostname p (pq_host q) flu) r"
    unfolding mdns_create_answer_from_hostname_def
    by (rule replies_lift [OF lookups_spare(2)], rule replies_alloc_all) (use p in \<open>auto simp: host_answers_def\<close>)
  have all: "replies (bind (gets services) (\<lambda>ss. answer_from_services ss q shared flu p)) r"
    using replies_from_services [OF _ p] by (simp add: replies_def live_service)
  show ?thesis
    unfolding answer_question_def using instance_of hosts own all p by (auto intro: replies_alloc_in)
qed

lemma replies_repeat: "wf_tx r p \<Longrightarrow> replies (repeat_question prt q p) r"
  unfolding repeat_question_def
  by (auto intro!: replies_step [OF quietly_spares [OF quietly_malloc [of "\<lambda>_. True"]]] simp: wf_tx_def quiet_wf)

lemma answer_questions_spare:
  "wf_tx r p \<Longrightarrow> spares (answer_questions q qs un sh p) r (\<lambda>x u. quiet r u \<and> (\<forall>p' y. x = Some (p', y) \<longrightarrow> wf_tx r p'))"
proof (induction qs arbitrary: r p un sh)
  case (Cons k qs)
  let ?Q = "\<lambda>x u. quiet r u \<and> (\<forall>p' y. x = Some (p', y) \<longrightarrow> wf_tx r p')"
  let ?sh = "question_shared (probe q) k"
  have rest: "spares (if \<not> ok then return None else answer_questions q qs (un \<or> pq_unicast k) ?sh p2) v ?Q"
    if "wf_tx r p2" "quiet r v" for ok p2 v
  proof -
    have "wf_tx v p2" using that by (simp add: quiet_wf)
    from Cons.IH [OF this] have "spares (answer_questions q qs (un \<or> pq_unicast k) ?sh p2) v ?Q"
      by (rule spares_mono) (use that(2) in \<open>auto simp: quiet_wf intro: quiet_trans\<close>)
    then show ?thesis using that(2) by simp
  qed
  have "spares (if \<not> ok then return None else bind (repeat_question (src_port q) k p1) (\<lambda>(ok, p2).
      if \<not> ok then return None else answer_questions q qs (un \<or> pq_unicast k) ?sh p2)) u ?Q"
    if "wf_tx r p1" "quiet r u" for ok p1 u
  proof -
    have "replies (repeat_question (src_port q) k p1) u" using that by (intro replies_repeat) (simp add: quiet_wf)
    then have "spares (repeat_question (src_port q) k p1) u (\<lambda>x v. wf_tx r (snd x) \<and> quiet r v)"
      unfolding replies_def by (rule spares_mono) (use that in \<open>auto simp: quiet_wf intro: quiet_trans\<close>)
    then have "spares (repeat_question (src_port q) k p1) u (\<lambda>x v. spares (case x of (ok, p2) \<Rightarrow>
        if \<not> ok then return None else answer_questions q qs (un \<or> pq_unicast k) ?sh p2) v ?Q)"
      by (rule spares_mono) (use rest in \<open>simp add: case_prod_unfold\<close>)
    then show ?thesis using that by simp
  qed
  then have "spares (answer_question ?sh (src_port q = MDNS_SERVICE_PORT) k p) r (\<lambda>x u. spares (case x of (ok, p1) \<Rightarrow>
      if \<not> ok then return None else bind (repeat_question (src_port q) k p1) (\<lambda>(ok, p2).
      if \<not> ok then return None else answer_questions q qs (un \<or> pq_unicast k) ?sh p2)) u ?Q)"
    using replies_question [OF Cons.prems, of ?sh "src_port q = MDNS_SERVICE_PORT" k] unfolding replies_def
    by (elim spares_mono) (auto simp: case_prod_unfold)
  then show ?case by (simp add: Let_def)
qed simp

lemma minds_reply: "wf_responder r \<Longrightarrow> minds (mdns_create_answer_from_parsed_packet q n) r"
proof -
  assume wf: "wf_responder r"
  have send: "minds (if shared then bind (schedule_tx p ms) (\<lambda>_. return k) else bind (dispatch_tx p) (\<lambda>_. return k')) u"
    if "wf_responder u" "wf_tx u p" for shared p ms u and k k' :: nat
    using that by (auto intro!: minds_bind [OF minds_upholds [OF upholds_schedule_tx]] minds_bind [OF minds_upholds [OF upholds_dispatch_tx]])
  have body: "minds (bind (answer_questions q (pp_questions q) False False p) (\<lambda>x. case x of None \<Rightarrow> return n
      | Some (p, unicst, shared) \<Rightarrow> (let p' = (if unicst \<or> src_port q \<noteq> MDNS_SERVICE_PORT then p\<lparr>tx_dst := pp_src q, tx_port := src_port q\<rparr> else p) in
          if shared then bind (schedule_tx p' (of_nat (25 + n * 25))) (\<lambda>_. return ((n + 1) mod 4))
          else bind (dispatch_tx p') (\<lambda>_. return n)))) u"
    if u: "wf_responder u" "wf_tx u p" for p u
  proof -
    have "spares (answer_questions q (pp_questions q) False False p) u (\<lambda>x v. minds (case x of None \<Rightarrow> return n
      | Some (p, unicst, shared) \<Rightarrow> (let p' = (if unicst \<or> src_port q \<noteq> MDNS_SERVICE_PORT then p\<lparr>tx_dst := pp_src q, tx_port := src_port q\<rparr> else p) in
          if shared then bind (schedule_tx p' (of_nat (25 + n * 25))) (\<lambda>_. return ((n + 1) mod 4))
          else bind (dispatch_tx p') (\<lambda>_. return n))) v \<and> services v = services u)"
      using answer_questions_spare [OF u(2), of q "pp_questions q" False False]
    proof (rule spares_mono)
      fix x :: "(tx_packet \<times> bool \<times> bool) option" and v assume x: "quiet u v \<and> (\<forall>p' y. x = Some (p', y) \<longrightarrow> wf_tx u p')"
      then have q: "quiet u v" by simp
      then have v: "wf_responder v" "services v = services u" using u by (simp_all add: quiet_wf quiet_same)
      have "wf_tx v (p'\<lparr>tx_dst := d, tx_port := prt\<rparr>) \<and> wf_tx v p'" if "x = Some (p', y)" for p' y d prt
        using x q that by (auto simp: quiet_wf wf_tx_def)
      then show "minds (case x of None \<Rightarrow> return n
        | Some (p, unicst, shared) \<Rightarrow> (let p' = (if unicst \<or> src_port q \<noteq> MDNS_SERVICE_PORT then p\<lparr>tx_dst := pp_src q, tx_port := src_port q\<rparr> else p) in
            if shared then bind (schedule_tx p' (of_nat (25 + n * 25))) (\<lambda>_. return ((n + 1) mod 4))
            else bind (dispatch_tx p') (\<lambda>_. return n))) v \<and> services v = services u"
        using v by (auto simp: Let_def split: option.split prod.split intro!: send [of v _ True, simplified] send [of v _ False, simplified])
    qed
    then show ?thesis unfolding minds_def spares_bind by (rule spares_mono) (auto simp: minds_def)
  qed
  show ?thesis
    unfolding mdns_create_answer_from_parsed_packet_def
    using wf by (auto intro!: minds_quietly [OF quietly_new_packet [of "\<lambda>x. \<forall>p. x = Some p \<longrightarrow> wf_tx r p"]] body
      simp: wf_tx_def quiet_wf split: option.split)
qed

section \<open>What a packet does to the searches\<close>

definition only_results :: "mdns_search \<Rightarrow> mdns_search \<Rightarrow> bool" where
  "only_results o' n \<longleftrightarrow> (\<exists>rs k. n = o'\<lparr>results := rs, num_results := k\<rparr>)"

lemma only_results_simps [simp]: "only_results o' o'" "only_results o' (o'\<lparr>results := rs\<rparr>)" "only_results o' (add_result r o')"
  unfolding only_results_def add_result_def
  by (rule exI [of _ "results o'"], rule exI [of _ "num_results o'"], simp, rule exI, rule exI [of _ "num_results o'"], simp, blast)

text \<open>A change of a search that follows no freed pointer and changes its results only.\<close>

definition tells :: "(mdns_search \<Rightarrow> (mdns_search \<times> 'a) rsp_prog) \<Rightarrow> bool" where
  "tells f \<longleftrightarrow> (\<forall>o' r. spares (f o') r (\<lambda>x u. quiet r u \<and> only_results o' (fst x)))"

definition tells_of :: "mdns_search \<Rightarrow> mdns_search rsp_prog \<Rightarrow> mdns_responder \<Rightarrow> bool" where
  "tells_of o' p r \<longleftrightarrow> spares p r (\<lambda>n u. quiet r u \<and> only_results o' n)"

lemma tells_of_return [simp]: "tells_of o' (return n) r = only_results o' n"
  by (simp add: tells_of_def)

lemma tells_of_bind:
  assumes "quietly p r R" "\<And>x u. R x \<Longrightarrow> quiet r u \<Longrightarrow> tells_of o' (k x) u"
  shows "tells_of o' (bind p k) r"
  unfolding tells_of_def spares_bind
  by (rule spares_mono [OF quietly_spares [OF assms(1)]])
    (use assms(2) in \<open>fastforce simp: tells_of_def elim!: spares_mono intro: quiet_trans\<close>)

lemmas tells_malloc = tells_of_bind [OF quietly_malloc [of "\<lambda>_. True"]]
lemmas tells_strdup = tells_of_bind [OF quietly_strdup [of "\<lambda>_. True"]]

lemma tells_add_ip: "tells_of o' (mdns_search_result_add_ip N o' h ip ifc prot t) r"
  unfolding mdns_search_result_add_ip_def Let_def
  by (auto split: option.split intro!: tells_malloc tells_strdup tells_of_bind [OF quietly_update_first]
      quietly_bind [OF quietly_add_ip])

lemma tells_add_txt: "tells_of o' (mdns_search_result_add_txt N o' items ifc prot t) r"
  unfolding mdns_search_result_add_txt_def
  by (auto split: option.split intro!: tells_malloc tells_of_bind [OF quietly_update_first])

lemma tells_fail [simp]: "tells_of o' (fail e) r = (e \<noteq> Use_after_free)"
  by (simp add: tells_of_def)

lemma tells_strdup_ptr: "(\<And>x u. quiet r u \<Longrightarrow> tells_of o' (k x) u) \<Longrightarrow> tells_of o' (bind (strdup_ptr p) k) r"
  by (cases p) (auto simp: strdup_ptr_def intro: tells_strdup, simp add: tells_of_def)

lemma tells_add_srv: "tells_of o' (mdns_search_result_add_srv N o' h prt ifc prot t) r"
  unfolding mdns_search_result_add_srv_def
  by (auto split: option.split intro!: tells_malloc tells_strdup tells_strdup_ptr tells_of_bind [OF quietly_update_first])

lemma tells_change: "(\<And>o' r. tells_of o' (f o') r) \<Longrightarrow> tells (\<lambda>o'. bind (f o') (\<lambda>n. return (n, ())))"
  by (simp add: tells_def tells_of_def)

lemma tells_add_ptr: "tells (\<lambda>o'. mdns_search_result_add_ptr N o' inst sv pr ifc prot t)"
proof -
  have "quietly (mdns_search_result_add_ptr N o' inst sv pr ifc prot t) r (\<lambda>x. only_results o' (fst x))" for o' r
    unfolding mdns_search_result_add_ptr_def by (auto split: option.split intro!: quiet_steps)
  from quietly_spares [OF this] show ?thesis by (simp add: tells_def)
qed

lemma tells_result_of: "tells (result_of N nm ifc prot t)"
  using tells_add_ptr unfolding tells_def result_of_def by (auto split: option.split)

lemma tells_set_host: "tells_of o' (set_host_of j h prt o') r"
  unfolding set_host_of_def by (auto intro!: tells_strdup)

lemma txt_create_spare [simp]: "mdns_result_txt_create hp data \<noteq> Inl Use_after_free"
proof -
  have "txt_loop hp data cap i k items \<noteq> Inl Use_after_free" for cap i k items
  proof (induction "length data - i" arbitrary: i k items rule: less_induct)
    case less
    have next_item: "txt_loop hp data cap i' k' items' \<noteq> Inl Use_after_free" if "i < length data" "i < i'" for i' k' items'
      by (rule less) (use that in linarith)
    show ?case
      unfolding txt_loop.simps [of hp data cap i] Let_def using next_item by simp
  qed
  then show ?thesis by (simp add: mdns_result_txt_create_def Let_def)
qed

lemma tells_txt: "(\<And>x. tells_of o' (k x) r) \<Longrightarrow> tells_of o' (bind (lift (\<lambda>_. mdns_result_txt_create hp data)) k) r"
  unfolding tells_of_def spares_bind by (rule spares_lift) simp_all

lemma tells_set_txt: "tells_of o' (set_txt_of U j data o') r"
  unfolding set_txt_of_def by (auto intro!: tells_txt split: option.split list.split)

lemma tells_add_txt_of: "tells_of o' (add_txt_of U ifc prot t data o') r"
  unfolding add_txt_of_def by (auto intro!: tells_txt tells_add_txt split: option.split list.split)

section \<open>What every turn of the parser keeps\<close>

definition heeds :: "netifs \<Rightarrow> search_sys \<Rightarrow> parsing \<Rightarrow> bool" where
  "heeds N s0 s \<longleftrightarrow> wf_responder (responder (sys s))
     \<and> item_at ` set (services (responder (sys s))) = item_at ` set (services (responder s0))
     \<and> search_once (sys s) = search_once s0 \<and> dom (objects (sys s)) = dom (objects s0)
     \<and> (\<forall>a. search_result s = Some a \<longrightarrow> a \<in> set (search_once s0))
     \<and> (\<forall>P async. (search_step N P async)\<^sup>*\<^sup>* s0 (sys s))"

definition good :: "netifs \<Rightarrow> search_sys \<Rightarrow> 'a parse_prog \<Rightarrow> ('a \<Rightarrow> bool) \<Rightarrow> bool" where
  "good N s0 p R \<longleftrightarrow> (\<forall>s. heeds N s0 s \<longrightarrow> spares p s (\<lambda>x t. heeds N s0 t \<and> R x))"

lemma goodD: "good N s0 p R \<Longrightarrow> heeds N s0 s \<Longrightarrow> spares p s (\<lambda>x t. heeds N s0 t \<and> R x)"
  by (simp add: good_def)

lemma good_return: "R x \<Longrightarrow> good N s0 (return x) R"
  and good_fail: "e \<noteq> Use_after_free \<Longrightarrow> good N s0 (fail e) R'"
  by (simp_all add: good_def)

lemma good_bind: "good N s0 p R \<Longrightarrow> (\<And>x. R x \<Longrightarrow> good N s0 (k x) R') \<Longrightarrow> good N s0 (bind p k) R'"
  unfolding good_def spares_bind by (blast intro: spares_mono)

lemma good_gets: "(\<And>s. heeds N s0 s \<Longrightarrow> good N s0 (k (g s)) R) \<Longrightarrow> good N s0 (bind (gets g) k) R"
  by (simp add: good_def)

lemma good_get_rsp: "(\<And>s. heeds N s0 s \<Longrightarrow> good N s0 (k (g (responder (sys s)))) R) \<Longrightarrow> good N s0 (bind (get_rsp g) k) R"
  by (simp add: get_rsp_def good_gets)

lemma good_get_pp: "(\<And>s. good N s0 (k (g s)) R) \<Longrightarrow> good N s0 (bind (get_pp g) k) R"
  by (simp add: get_pp_def good_gets)

lemma good_local:
  "(\<And>s. sys (f s) = sys s \<and> search_result (f s) = search_result s) \<Longrightarrow> good N s0 (modify f) (\<lambda>_. True)"
  by (simp add: good_def heeds_def)

lemma good_evaluate: "e \<noteq> Inl Use_after_free \<Longrightarrow> (\<And>x. e = Inr x \<Longrightarrow> R x) \<Longrightarrow> good N s0 (evaluate e) R"
  by (auto simp: evaluate_def intro: good_return good_fail split: sum.split)

lemma good_if: "(b \<Longrightarrow> good N s0 p R) \<Longrightarrow> (\<not> b \<Longrightarrow> good N s0 q R) \<Longrightarrow> good N s0 (if b then p else q) R"
  by simp

lemma good_block:
  "(b \<Longrightarrow> good N s0 p (\<lambda>_. True)) \<Longrightarrow> good N s0 (if_then b p) (\<lambda>_. True)"
  "good N s0 (block []) (\<lambda>_. True)"
  "good N s0 p (\<lambda>_. True) \<Longrightarrow> good N s0 (block ps) (\<lambda>_. True) \<Longrightarrow> good N s0 (block (p # ps)) (\<lambda>_. True)"
  by (auto simp: if_then_def block.simps intro: good_return good_bind)

lemma good_unless: "(\<not> b \<Longrightarrow> good N s0 p (\<lambda>_. True)) \<Longrightarrow> good N s0 (unless b p) (\<lambda>_. True)"
  by (simp add: unless_def good_return)

lemma good_mono: "good N s0 p R \<Longrightarrow> (\<And>x. R x \<Longrightarrow> Q x) \<Longrightarrow> good N s0 p Q"
  unfolding good_def by (blast intro: spares_mono)

lemma spares_on_sys: "spares (on_sys p) s Q = spares p (sys s) (\<lambda>x t. Q x (s\<lparr>sys := t\<rparr>))"
  by (auto simp: on_sys_def spares_def split: sum.split)

lemma spares_rsp: "spares (rsp p) s Q = spares p (responder s) (\<lambda>x u. Q x (s\<lparr>responder := u\<rparr>))"
  by (auto simp: rsp_def spares_def split: sum.split)

lemma responder_step: "search_step N P async s (s\<lparr>responder := r\<rparr>)"
proof -
  have "s\<lparr>responder := r\<rparr> = s\<lparr>responder := r, accepted := accepted s\<rparr>" by simp
  then show ?thesis using search_step.surroundings [of N P async s] by metis
qed

abbreviation same_items :: "mdns_responder \<Rightarrow> mdns_responder \<Rightarrow> bool" where
  "same_items r u \<equiv> item_at ` set (services u) = item_at ` set (services r)"

lemma heeds_step:
  assumes "heeds N s0 s" "wf_responder (responder t)" "same_items (responder s0) (responder t)"
    "search_once t = search_once (sys s)" "dom (objects t) = dom (objects (sys s))" "\<And>P async. search_step N P async (sys s) t"
  shows "heeds N s0 (s\<lparr>sys := t\<rparr>)"
proof -
  have "(search_step N P async)\<^sup>*\<^sup>* s0 t" for P async
  proof (rule rtranclp.rtrancl_into_rtrancl)
    show "(search_step N P async)\<^sup>*\<^sup>* s0 (sys s)" using assms(1) by (simp add: heeds_def)
    show "search_step N P async (sys s) t" by (rule assms(6))
  qed
  then show ?thesis using assms by (simp add: heeds_def)
qed

lemma heeds_responder:
  "heeds N s0 s \<Longrightarrow> wf_responder u \<Longrightarrow> same_items (responder s0) u \<Longrightarrow> heeds N s0 (s\<lparr>sys := (sys s)\<lparr>responder := u\<rparr>\<rparr>)"
  by (erule heeds_step) (simp_all add: responder_step)

lemma good_rsp:
  assumes "\<And>r. wf_responder r \<Longrightarrow> same_items (responder s0) r \<Longrightarrow> spares p r (\<lambda>x u. wf_responder u \<and> same_items r u \<and> R x)"
  shows "good N s0 (on_rsp p) R"
  unfolding good_def on_rsp_def spares_on_sys spares_rsp
proof (intro allI impI)
  fix s assume s: "heeds N s0 s"
  then have "spares p (responder (sys s)) (\<lambda>x u. wf_responder u \<and> same_items (responder (sys s)) u \<and> R x)"
    using assms by (simp add: heeds_def)
  then show "spares p (responder (sys s)) (\<lambda>x u. heeds N s0 (s\<lparr>sys := (sys s)\<lparr>responder := u\<rparr>\<rparr>) \<and> R x)"
    by (rule spares_mono) (use s heeds_responder [OF s] in \<open>simp add: heeds_def\<close>)
qed

lemma good_minds: "(\<And>r. wf_responder r \<Longrightarrow> same_items (responder s0) r \<Longrightarrow> minds p r) \<Longrightarrow> good N s0 (on_rsp p) (\<lambda>_. True)"
  by (rule good_rsp) (simp add: minds_def)

lemma good_quietly: "(\<And>r. quietly p r R) \<Longrightarrow> good N s0 (on_rsp p) R"
  by (rule good_rsp, rule spares_mono [OF quietly_spares]) (auto simp: quiet_wf quiet_same)

lemma good_malloc: "good N s0 (on_rsp malloc) (\<lambda>_. True)"
  by (rule good_quietly, rule quietly_malloc) simp_all

lemma good_strdup: "good N s0 (on_rsp (strdup t)) (\<lambda>_. True)"
  by (rule good_quietly, rule quietly_strdup) simp

lemma good_lift:
  "(\<And>r. f r \<noteq> Inl Use_after_free) \<Longrightarrow> (\<And>r x. same_items (responder s0) r \<Longrightarrow> f r = Inr x \<Longrightarrow> R x) \<Longrightarrow> good N s0 (on_rsp (lift f)) R"
  by (rule good_rsp, rule spares_lift) auto

lemma good_lookup: "(\<And>r. f r \<noteq> Inl Use_after_free) \<Longrightarrow> good N s0 (on_rsp (lift f)) (\<lambda>_. True)"
  by (rule good_lift) simp_all

text \<open>A search is written to with nothing but results.\<close>

lemma heeds_results:
  assumes s: "heeds N s0 s" and a: "a \<in> set (search_once s0)" "objects (sys s) a = Some o'" and n: "only_results o' n"
  shows "heeds N s0 (s\<lparr>sys := (sys s)\<lparr>objects := (objects (sys s))(a \<mapsto> n)\<rparr>\<rparr>)"
proof -
  obtain rs k where n: "n = o'\<lparr>results := rs, num_results := k\<rparr>" using n by (auto simp: only_results_def)
  have once: "search_once (sys s) = search_once s0" and dm: "dom (objects (sys s)) = dom (objects s0)"
    using s by (simp_all add: heeds_def)
  have "search_step N P async (sys s) ((sys s)\<lparr>objects := (objects (sys s))(a \<mapsto> n)\<rparr>)" for P async
    unfolding n by (rule search_step.received) (use a once in simp_all)
  moreover have "dom ((objects (sys s))(a \<mapsto> n)) = dom (objects (sys s))" using a(2) by auto
  ultimately show ?thesis by (intro heeds_step [OF s]) (use s in \<open>simp_all add: heeds_def\<close>)
qed

lemma good_with_search:
  assumes "a \<in> set (search_once s0)" "set (search_once s0) \<subseteq> dom (objects s0)" "tells f"
  shows "good N s0 (with_search a f) (\<lambda>_. True)"
  unfolding good_def
proof (intro allI impI)
  fix s assume s: "heeds N s0 s"
  have "a \<in> dom (objects (sys s))" using s assms by (auto simp: heeds_def)
  then obtain o' where o': "objects (sys s) a = Some o'" by blast
  have written: "heeds N s0 (s\<lparr>sys := (sys s)\<lparr>responder := u, objects := (objects (sys s))(a \<mapsto> n)\<rparr>\<rparr>)"
    if "quiet (responder (sys s)) u" "only_results o' n" for u n
  proof -
    have "heeds N s0 (s\<lparr>sys := (sys s)\<lparr>responder := u\<rparr>\<rparr>)"
      by (rule heeds_responder [OF s]) (use s that in \<open>auto simp: heeds_def quiet_wf quiet_same\<close>)
    from heeds_results [OF this assms(1) _ that(2)] o' show ?thesis by simp
  qed
  have run: "spares (f o') (responder (sys s)) (\<lambda>x u. quiet (responder (sys s)) u \<and> only_results o' (fst x))"
    using assms(3) by (simp add: tells_def)
  show "spares (with_search a f) s (\<lambda>x t. heeds N s0 t \<and> True)"
    unfolding with_search_def spares_on_sys
    by (simp add: search_object_def o' spares_rsp, rule spares_mono [OF run])
      (auto simp: update_search_def search_object_def o' written split: prod.split)
qed

lemma good_change_search:
  "a \<in> set (search_once s0) \<Longrightarrow> set (search_once s0) \<subseteq> dom (objects s0) \<Longrightarrow> (\<And>o' r. tells_of o' (f o') r) \<Longrightarrow>
   good N s0 (change_search a f) (\<lambda>_. True)"
  unfolding change_search_def by (intro good_with_search tells_change)

text \<open>A program that looks at the searches only.\<close>

definition looks :: "'a sys_prog \<Rightarrow> search_sys \<Rightarrow> ('a \<Rightarrow> bool) \<Rightarrow> bool" where
  "looks p t R \<longleftrightarrow> spares p t (\<lambda>x u. u = t \<and> R x)"

lemma looks_intros:
  "R x \<Longrightarrow> looks (return x) t R" "e \<noteq> Use_after_free \<Longrightarrow> looks (fail e) t R"
  by (simp_all add: looks_def)

lemma looks_bind: "looks p t Q \<Longrightarrow> (\<And>x. Q x \<Longrightarrow> looks (k x) t R) \<Longrightarrow> looks (bind p k) t R"
  unfolding looks_def spares_bind by (elim spares_mono) auto

lemma looks_compare: "looks (compare_with x p) t (\<lambda>_. True)" "looks (compare_service nm o') t (\<lambda>_. True)"
  by (auto simp: looks_def compare_with_def compare_service_def split: option.split)

lemma looks_takes: "looks (search_takes N nm type ifc prot o') t (\<lambda>_. True)"
  unfolding search_takes_def Let_def by (auto intro!: looks_intros looks_bind [OF looks_compare(2)] looks_compare)

lemma looks_object: "a \<in> dom (objects t) \<Longrightarrow> looks (search_object a) t (\<lambda>_. True)"
  by (auto simp: looks_def search_object_def)

lemma looks_find: "set as \<subseteq> dom (objects t) \<Longrightarrow> looks (mdns_search_find_from N as nm type ifc prot) t (\<lambda>r. \<forall>a. r = Some a \<longrightarrow> a \<in> set as)"
proof (induction "as")
  case (Cons a as)
  then have rest: "looks (mdns_search_find_from N as nm type ifc prot) t (\<lambda>r. \<forall>b. r = Some b \<longrightarrow> b \<in> set (a # as))"
    unfolding looks_def by (auto elim!: spares_mono)
  show ?case
    unfolding mdns_search_find_from.simps
    by (rule looks_bind [OF looks_object], use Cons.prems in simp, rule looks_bind [OF looks_takes])
      (use rest in \<open>auto intro: looks_intros\<close>)
qed (simp add: looks_intros)

lemma good_looks:
  assumes "\<And>t. dom (objects t) = dom (objects s0) \<Longrightarrow> search_once t = search_once s0 \<Longrightarrow> looks p t R"
  shows "good N s0 (on_sys p) R"
  unfolding good_def spares_on_sys
proof (intro allI impI)
  fix s assume s: "heeds N s0 s"
  then have "looks p (sys s) R" using assms by (simp add: heeds_def)
  then show "spares p (sys s) (\<lambda>x t. heeds N s0 (s\<lparr>sys := t\<rparr>) \<and> R x)"
    unfolding looks_def by (rule spares_mono) (use s in auto)
qed

section \<open>Questions and records are taken well\<close>

lemma parse_fqdn_spare [simp]: "mdns_parse_fqdn b i \<noteq> Inl Use_after_free"
proof -
  have "mdns_read_fqdn b i i name0 \<noteq> Inl Use_after_free"
  proof (cases "i \<le> length b")
    case True
    then show ?thesis using mdns_read_fqdn_safe [of name0 i i b] by (auto split: sum.splits)
  qed (simp add: mdns_read_fqdn.simps)
  then show ?thesis by (auto simp: mdns_parse_fqdn_def Let_def split: sum.split option.split)
qed

lemma reads_spare [simp]:
  "mdns_read_u16 b i \<noteq> Inl Use_after_free" "mdns_read_u32 b i \<noteq> Inl Use_after_free" "copy_bytes b i n \<noteq> Inl Use_after_free"
  by (simp_all add: mdns_read_u16_def mdns_read_u32_def copy_bytes_def)

lemma good_add_question: "good N s0 (add_question q) (\<lambda>_. True)"
  unfolding add_question_def set_questions_def by (intro good_get_pp good_local) simp

lemma good_strdup_check: "good N s0 (on_rsp (mdns_strdup_check t)) (\<lambda>_. True)"
  unfolding mdns_strdup_check_def by (rule good_quietly) (auto intro!: quietly_bind [OF quietly_strdup [of "\<lambda>_. True"]])

lemma good_discover: "good N s0 (discover_services u is) (\<lambda>_. True)"
  by (induction "is")
    (auto intro!: good_return good_bind [OF good_malloc] good_bind [OF good_strdup] good_bind [OF good_add_question])

lemma good_copy_question: "good N s0 (copy_question nm type u) (\<lambda>_. True)"
  unfolding copy_question_def
  by (auto intro!: good_return good_bind [OF good_malloc] good_bind [OF good_strdup_check] good_bind [OF good_add_question])

lemma good_take_question: "good N s0 (take_question nm type class) (\<lambda>_. True)"
  unfolding take_question_def Let_def
  by (auto intro!: good_return good_bind [OF good_local] good_get_rsp good_discover good_bind [OF good_lookup]
      good_bind [OF good_block(1)] good_local good_copy_question)

lemma good_parse_questions: "good N s0 (parse_questions b n off) (\<lambda>_. True)"
proof (induction n arbitrary: off)
  case (Suc n)
  show ?case
    unfolding parse_questions.simps
    by (auto split: prod.split option.split intro!: good_return Suc.IH good_bind [OF good_evaluate [where R = "\<lambda>_. True"]]
        good_bind [OF good_take_question])
qed (simp add: good_return)

text \<open>A service that is found is registered.\<close>

definition registered :: "search_sys \<Rightarrow> mdns_srv_item option \<Rightarrow> bool" where
  "registered s0 item \<longleftrightarrow> (\<forall>i. item = Some i \<longrightarrow> live (responder s0) (item_at i))"

lemma registered_live: "registered s0 (Some i) \<Longrightarrow> same_items (responder s0) r \<Longrightarrow> live r (item_at i)"
  by (simp add: registered_def live_def)

lemma registered_None [simp]: "registered s0 None"
  by (simp add: registered_def)

lemma good_drop_parsed: "good N s0 (drop_parsed type i) (\<lambda>_. True)"
  unfolding drop_parsed_def set_questions_def by (intro good_get_pp good_bind [OF good_lookup] good_local) simp_all

lemma good_no_reply: "good N s0 no_reply (\<lambda>_. True)"
  unfolding no_reply_def by (rule good_local) simp

lemma good_remove_scheduled: "good N s0 (on_rsp (remove_scheduled ifc prot type i)) (\<lambda>_. True)"
  by (intro good_minds minds_remove_scheduled)

lemma good_ours: "good N s0 (ours_or_fault nm) (\<lambda>_. True)"
  unfolding ours_or_fault_def by (auto intro!: good_return good_lookup)

lemma good_service_named: "good N s0 (service_named nm) (registered s0)"
proof -
  have "registered s0 (mdns_get_service_item r sv pr h)" if "same_items (responder s0) r" for r sv pr h
  proof -
    have "i \<in> set (services r)" if "mdns_get_service_item r sv pr h = Some i" for i
      using that by (auto simp: mdns_get_service_item_def find_Some_iff split: if_splits)
    then show ?thesis using that by (auto simp: registered_def live_def)
  qed
  then show ?thesis by (auto simp: service_named_def get_rsp_def good_def heeds_def)
qed

lemma good_found:
  assumes "set (search_once s0) \<subseteq> dom (objects s0)"
  shows "good N s0 (bind (on_sys (bind (gets search_once) (\<lambda>c. mdns_search_find_from N' c nm type ifc prot)))
    (\<lambda>a. bind (modify (\<lambda>s. s\<lparr>search_result := a\<rparr>)) (\<lambda>_. return x))) (\<lambda>y. y = x)"
proof (rule good_bind [where R = "\<lambda>a. \<forall>b. a = Some b \<longrightarrow> b \<in> set (search_once s0)"])
  show "good N s0 (on_sys (bind (gets search_once) (\<lambda>c. mdns_search_find_from N' c nm type ifc prot)))
      (\<lambda>a. \<forall>b. a = Some b \<longrightarrow> b \<in> set (search_once s0))"
  proof (rule good_looks)
    fix t :: search_sys assume "dom (objects t) = dom (objects s0)" "search_once t = search_once s0"
    then show "looks (bind (gets search_once) (\<lambda>c. mdns_search_find_from N' c nm type ifc prot)) t
        (\<lambda>a. \<forall>b. a = Some b \<longrightarrow> b \<in> set (search_once s0))"
      using looks_find [of "search_once t" t] assms by (simp add: looks_def spares_def prog_simps)
  qed
  show "good N s0 (bind (modify (\<lambda>s. s\<lparr>search_result := a\<rparr>)) (\<lambda>_. return x)) (\<lambda>y. y = x)"
    if "\<forall>b. a = Some b \<longrightarrow> b \<in> set (search_once s0)" for a
    using that by (simp add: good_def heeds_def)
qed

lemma good_whose_record:
  assumes "set (search_once s0) \<subseteq> dom (objects s0)"
  shows "good N s0 (whose_record U head r) (\<lambda>w. \<forall>item. w = Some (Ours item) \<longrightarrow> registered s0 item)"
  unfolding whose_record_def
  by (auto intro!: good_gets good_get_pp good_return good_bind [OF good_ours] good_bind [OF good_service_named]
      good_mono [OF good_found [OF assms]] split: prod.split)

lemma good_search_result:
  "(\<And>a. \<forall>x. a = Some x \<longrightarrow> x \<in> set (search_once s0) \<Longrightarrow> good N s0 (k a) R) \<Longrightarrow> good N s0 (bind (gets search_result) k) R"
  by (rule good_gets) (simp add: heeds_def)

lemma good_take_ptr:
  assumes "set (search_once s0) \<subseteq> dom (objects s0)" "\<forall>item. ow = Ours item \<longrightarrow> registered s0 item"
  shows "good N s0 (take_ptr U b r ow) (\<lambda>_. True)"
  unfolding take_ptr_def
  by (auto split: prod.split option.split record_owner.split
      intro!: good_return good_get_pp good_search_result good_bind [OF good_ours] good_bind [OF good_service_named]
        good_bind [OF good_evaluate [where R = "\<lambda>_. True"]] good_block good_drop_parsed good_remove_scheduled
        good_bind [OF good_with_search] assms tells_add_ptr)

lemma good_then: "good N s0 p (\<lambda>_. True) \<Longrightarrow> (\<And>x. good N s0 (k x) R) \<Longrightarrow> good N s0 (bind p k) R"
  by (erule good_bind) simp

lemma good_option:
  "(x = None \<Longrightarrow> good N s0 p R) \<Longrightarrow> (\<And>a. x = Some a \<Longrightarrow> good N s0 (q a) R) \<Longrightarrow>
   good N s0 (case x of None \<Rightarrow> p | Some a \<Rightarrow> q a) R"
  by (simp split: option.split)

lemma good_owner:
  "(\<And>item. ow = Ours item \<Longrightarrow> good N s0 (q item) R) \<Longrightarrow> good N s0 d R \<Longrightarrow>
   good N s0 (case ow of Discovery \<Rightarrow> d | Ours item \<Rightarrow> q item | Other \<Rightarrow> d) R"
  by (simp split: record_owner.split)

lemma good_own_srv:
  assumes "registered s0 item"
  shows "good N s0 (own_srv r aim selfhosted item prio weigh prt) (\<lambda>_. True)"
proof -
  have lost: "good N s0 (on_rsp (lost_service ifc prot i)) (\<lambda>_. True)" if "item = Some i" for ifc prot i
    using assms that by (intro good_minds minds_lost_service registered_live) simp_all
  show ?thesis
    unfolding own_srv_def Let_def
    by (auto split: prod.split option.split
        intro!: good_return good_get_pp good_get_rsp good_gets good_drop_parsed good_remove_scheduled good_block good_no_reply lost)
qed

lemma good_search_type:
  assumes "set (search_once s0) \<subseteq> dom (objects s0)" "\<forall>x. found = Some x \<longrightarrow> x \<in> set (search_once s0)"
  shows "good N s0 (search_type_of found) (\<lambda>_. True)"
  unfolding search_type_of_def
  by (auto split: option.split intro!: good_return good_looks looks_bind [OF looks_object] looks_intros)
    (use assms in auto)

lemma good_browsed:
  assumes "set (search_once s0) \<subseteq> dom (objects s0)" "\<forall>x. found = Some x \<longrightarrow> x \<in> set (search_once s0)"
  shows "good N s0 (browsed_result N' r found st) (\<lambda>_. True)"
  unfolding browsed_result_def
  by (auto split: option.split intro!: good_return good_get_pp good_with_search assms(1) tells_result_of)
    (use assms in auto)

lemma good_take_srv:
  assumes dom: "set (search_once s0) \<subseteq> dom (objects s0)" and own: "\<forall>item. ow = Ours item \<longrightarrow> registered s0 item"
  shows "good N s0 (take_srv U b r ow) (\<lambda>_. True)"
  unfolding take_srv_def
  by (rule good_search_result)
    (auto split: prod.split
      intro!: good_unless good_return good_get_pp good_bind [OF good_search_type [OF dom]] good_bind [OF good_browsed [OF dom]]
        good_bind [OF good_lookup] good_bind [OF good_evaluate [where R = "\<lambda>_. True"]]
        good_own_srv good_then [OF good_option] good_option good_owner good_change_search [OF _ dom] tells_set_host tells_add_srv own [rule_format])

lemma good_own_txt:
  assumes "registered s0 item"
  shows "good N s0 (own_txt U data r item) (\<lambda>_. True)"
proof -
  have probe: "good N s0 (on_rsp (mdns_init_pcb_probe ifc prot [item_at i] x)) (\<lambda>_. True)" if "item = Some i" for ifc prot i x
    by (intro good_minds minds_upholds upholds_init_pcb_probe) (use assms that in \<open>simp_all add: registered_live\<close>)
  show ?thesis
    unfolding own_txt_def Let_def
    by (auto split: prod.split option.split
        intro!: good_return good_get_pp good_get_rsp good_gets good_drop_parsed good_remove_scheduled good_block good_no_reply
          good_bind [OF good_lookup] probe)
qed

lemma good_take_txt:
  assumes dom: "set (search_once s0) \<subseteq> dom (objects s0)" and own: "\<forall>item. ow = Ours item \<longrightarrow> registered s0 item"
  shows "good N s0 (take_txt U b r ow) (\<lambda>_. True)"
  unfolding take_txt_def
  by (rule good_search_result)
    (auto split: prod.split
      intro!: good_unless good_return good_get_pp good_bind [OF good_search_type [OF dom]] good_bind [OF good_browsed [OF dom]]
        good_own_txt good_then [OF good_option] good_option good_owner good_change_search [OF _ dom] tells_set_txt tells_add_txt_of own [rule_format])

lemma good_feed:
  assumes dom: "set (search_once s0) \<subseteq> dom (objects s0)" and f: "\<And>o' r. tells_of o' (f o') r"
  shows "set as \<subseteq> set (search_once s0) \<Longrightarrow> good N s0 (feed_searches N' r ifc prot f as) (\<lambda>_. True)"
proof (induction "as")
  case Nil
  show ?case by (simp add: good_def heeds_def)
next
  case (Cons a as)
  have "good N s0 (on_sys (bind (search_object a) (search_takes N' (rr_name r) (rr_type r) ifc prot))) (\<lambda>_. True)"
    by (intro good_looks looks_bind [OF looks_object] looks_takes) (use Cons.prems dom in auto)
  moreover have "good N s0 (change_search a f) (\<lambda>_. True)"
    by (rule good_change_search [OF _ dom f]) (use Cons.prems in simp)
  ultimately show ?case using Cons by (auto intro!: good_bind [OF _ good_bind] good_block)
qed

lemma good_pair: "good N s0 (f (fst x) (snd x)) R \<Longrightarrow> good N s0 (case x of (a, b) \<Rightarrow> f a b) R"
  by (simp add: case_prod_unfold)

lemma good_own_address:
  assumes "\<And>r. wf_responder r \<Longrightarrow> minds check r"
  shows "good N s0 (own_address U r check) (\<lambda>_. True)"
proof -
  have verdict: "good N s0 (if rr_class r > 1 then return 1 else if rr_class r = 0 then return (-1) else on_rsp check) (\<lambda>_. True)"
    using assms by (auto intro: good_return good_minds)
  have react: "good N s0 (if col = 1 then block [no_reply, on_rsp (if running then if_then b (give_up_host ifc prot)
         else mdns_init_pcb_probe ifc prot [] True)]
       else if_then b' (on_rsp (remove_scheduled ifc prot type i))) (\<lambda>_. True)"
    for col :: int and running b b' ifc prot type i
    by (auto intro!: good_block good_no_reply good_remove_scheduled good_minds minds_if_then minds_give_up_host
        minds_upholds [OF upholds_init_pcb_probe])
  show ?thesis
    unfolding own_address_def Let_def
    by (intro good_get_pp good_if good_then [OF good_drop_parsed] good_then [OF good_lookup] name_spare good_unless
        good_then [OF verdict] good_get_rsp good_gets good_pair good_then [OF react] good_return) simp_all
qed

lemma good_take_address:
  assumes dom: "set (search_once s0) \<subseteq> dom (objects s0)" and check: "\<And>r. wf_responder r \<Longrightarrow> minds check r"
  shows "good N s0 (take_address U r ow ip check) (\<lambda>_. True)"
proof -
  have behind: "set (tl (dropWhile (\<lambda>x. x \<noteq> a) c)) \<subseteq> set c" for a :: nat and c
  proof -
    have "set (tl xs) \<subseteq> set xs" for xs :: "nat list" by (cases xs) auto
    then show ?thesis using set_dropWhileD [of _ "\<lambda>x. x \<noteq> a" c] by blast
  qed
  show ?thesis
    unfolding take_address_def
  proof (rule good_search_result)
    fix found :: "nat option" assume found: "\<forall>x. found = Some x \<longrightarrow> x \<in> set (search_once s0)"
    show "good N s0 (case found of
         Some a \<Rightarrow> bind (get_pp id) (\<lambda>q.
           let add = (\<lambda>o'. mdns_search_result_add_ip (netifs U) o' (mdns_name.host (rr_name r)) ip (pp_if q) (pp_proto q) (rr_ttl r)) in
           bind (change_search a add) (\<lambda>_. bind (gets (\<lambda>s. search_once (sys s))) (\<lambda>c.
           bind (feed_searches (netifs U) r (pp_if q) (pp_proto q) add (tl (dropWhile (\<lambda>x. x \<noteq> a) c))) (\<lambda>_. return True))))
       | None \<Rightarrow> (case ow of Ours item \<Rightarrow> own_address U r check | _ \<Rightarrow> return True)) (\<lambda>_. True)"
    proof (cases found)
      case None
      then show ?thesis using good_own_address [OF check] by (cases ow) (simp_all add: good_return)
    next
      case (Some a)
      have feed: "good N s0 (feed_searches N' r ifc prot f (tl (dropWhile (\<lambda>x. x \<noteq> a) (search_once (sys s))))) (\<lambda>_. True)"
        if "\<And>o' r. tells_of o' (f o') r" "heeds N s0 s" for f s N' ifc prot
        by (rule good_feed [OF dom that(1)]) (use that(2) behind in \<open>simp add: heeds_def\<close>)
      show ?thesis
        unfolding Some option.case Let_def
        by (intro good_get_pp good_then [OF good_change_search [OF _ dom]] good_gets good_then [OF feed] good_return tells_add_ip)
          (use found Some in simp_all)
    qed
  qed
qed

lemma good_take_record:
  assumes dom: "set (search_once s0) \<subseteq> dom (objects s0)"
  shows "good N s0 (take_record U head b r) (\<lambda>_. True)"
proof -
  have a: "good N s0 (take_a U b r ow) (\<lambda>_. True)" and aaaa: "good N s0 (take_aaaa U b r ow) (\<lambda>_. True)" for ow
    unfolding take_a_def take_aaaa_def
    by (auto intro!: good_bind [OF good_evaluate [where R = "\<lambda>_. True"]] good_get_pp good_take_address dom minds_check_collision)
  show ?thesis
    unfolding take_record_def
    by (auto intro!: good_if good_return good_bind [OF good_whose_record [OF dom]] good_option good_then [OF good_take_ptr [OF dom]]
        good_take_srv [OF dom] good_take_txt [OF dom] a aaaa)
qed

lemma next_record_spare: "next_record head b off i \<noteq> Inl Use_after_free"
  by (auto simp: next_record_def split: sum.split option.split)

lemma good_parse_records:
  assumes dom: "set (search_once s0) \<subseteq> dom (objects s0)"
  shows "good N s0 (parse_records U head b off i) (\<lambda>_. True)"
proof (induction U head b off i rule: parse_records.induct)
  case (1 U head b off i)
  show ?case
  proof (cases "off < length b")
    case True
    have rest: "good N s0 (bind (take_record U head b r) (\<lambda>ok. if ok then parse_records U head b (rr_at r + rr_len r) (i + 1)
        else return False)) (\<lambda>_. True)" if "next_record head b off i = Inr (Some r)" for r
      by (rule good_then [OF good_take_record [OF dom]]) (use 1 True that in \<open>auto intro: good_return\<close>)
    show ?thesis
      using True next_record_spare [of head b off i] rest
      by (auto simp: parse_records.simps [of U head b off] split: sum.split option.split intro: good_fail good_return)
  qed (simp add: parse_records.simps good_return)
qed

section \<open>A packet is taken well\<close>

lemma spares_search_object: "spares (search_object a) t Q = (case objects t a of None \<Rightarrow> False | Some o' \<Rightarrow> Q o' t)"
  by (simp add: search_object_def split: option.split)

lemma spares_update_search:
  "spares (update_search a f) t Q = (case objects t a of None \<Rightarrow> False | Some o' \<Rightarrow> Q () (t\<lparr>objects := (objects t)(a \<mapsto> f o')\<rparr>))"
  by (simp add: update_search_def spares_search_object split: option.split)

lemma spares_touch: "set as \<subseteq> dom (objects t) \<Longrightarrow> spares (touch as) t Q = Q () t"
  by (simp add: spares_def touch_run)

lemma finish_spares:
  assumes "a \<in> dom (objects t)" "set (search_once t) \<subseteq> dom (objects t)"
  shows "spares (mdns_search_finish a) t (\<lambda>_ u. responder u = responder t \<and> dom (objects u) = dom (objects t)
    \<and> set (search_once u) \<subseteq> dom (objects u))"
proof -
  obtain o' where o': "objects t a = Some o'" using assms(1) by blast
  have "set (takeWhile (\<lambda>b. b \<noteq> a) (search_once t)) \<subseteq> dom (objects t)"
    using assms(2) set_takeWhileD by fastforce
  then have "spares (queue_detach a) u (\<lambda>_ v. responder v = responder t \<and> objects v = objects u \<and> set (search_once v) \<subseteq> dom (objects t))"
    if "search_once u = search_once t" "dom (objects u) = dom (objects t)" "responder u = responder t" for u :: search_sys
    using that assms set_remove1_subset [of a "search_once t"]
    by (simp add: queue_detach_def spares_touch subset_trans)
  from this [of "t\<lparr>objects := (objects t)(a \<mapsto> o'\<lparr>search_state := SEARCH_OFF\<rparr>)\<rparr>"] o'
  show ?thesis
    unfolding mdns_search_finish_def
    by (simp add: spares_update_search insert_absorb domI) (erule spares_mono; auto simp: spares_search_object spares_update_search insert_absorb domI)
qed

lemma finish_full_spares:
  "set as \<subseteq> dom (objects t) \<Longrightarrow> set (search_once t) \<subseteq> dom (objects t) \<Longrightarrow>
   spares (finish_full as) t (\<lambda>_ u. responder u = responder t)"
proof (induction "as" arbitrary: t)
  case (Cons a as)
  have step: "spares (mdns_search_finish a) t (\<lambda>_ u. spares (finish_full as) u (\<lambda>_ v. responder v = responder t))"
  proof (rule spares_mono [OF finish_spares])
    fix u :: search_sys
    assume u: "responder u = responder t \<and> dom (objects u) = dom (objects t) \<and> set (search_once u) \<subseteq> dom (objects u)"
    have "spares (finish_full as) u (\<lambda>_ v. responder v = responder u)" by (rule Cons.IH) (use Cons.prems u in auto)
    then show "spares (finish_full as) u (\<lambda>_ v. responder v = responder t)" using u by simp
  qed (use Cons.prems in auto)
  then show ?case using Cons by (auto simp: spares_search_object split: option.split)
qed simp

text \<open>What a packet may do: the responder stays well-formed, the searches take steps.\<close>

definition taken_well :: "netifs \<Rightarrow> search_sys \<Rightarrow> search_sys \<Rightarrow> bool" where
  "taken_well N s t \<longleftrightarrow> wf_responder (responder t) \<and> item_at ` set (services (responder t)) = item_at ` set (services (responder s))
     \<and> (\<forall>P async. (search_step N P async)\<^sup>*\<^sup>* s t)"

definition ends_well :: "netifs \<Rightarrow> search_sys \<Rightarrow> 'a parse_prog \<Rightarrow> parsing \<Rightarrow> bool" where
  "ends_well N s0 p s \<longleftrightarrow> spares p s (\<lambda>_ t. taken_well N s0 (sys t))"

lemma heeds_taken_well: "heeds N s0 s \<Longrightarrow> taken_well N s0 (sys s)"
  by (simp add: heeds_def taken_well_def)

lemma ends_well_return: "taken_well N s0 (sys s) \<Longrightarrow> ends_well N s0 (return x) s"
  by (simp add: ends_well_def)

lemma ends_well_bind:
  "good N s0 p (\<lambda>_. True) \<Longrightarrow> heeds N s0 s \<Longrightarrow> (\<And>x t. heeds N s0 t \<Longrightarrow> ends_well N s0 (k x) t) \<Longrightarrow> ends_well N s0 (bind p k) s"
  unfolding ends_well_def spares_bind by (drule (1) goodD) (auto elim: spares_mono)

lemma taken_well_finish:
  assumes "heeds N s0 s" "set (search_once s0) \<subseteq> dom (objects s0)"
  shows "spares (on_sys mdns_search_finish_done) s (\<lambda>_ t. taken_well N s0 (sys t))"
proof -
  have dom: "set (search_once (sys s)) \<subseteq> dom (objects (sys s))" using assms by (simp add: heeds_def)
  from finish_full_spares [OF this this]
  have finished: "spares mdns_search_finish_done (sys s) (\<lambda>_ u. responder u = responder (sys s))"
    by (simp add: mdns_search_finish_done_def)
  show ?thesis
  proof (cases "mdns_search_finish_done (sys s)")
    case (Inl f)
    then show ?thesis using finished by (simp add: spares_on_sys) (simp add: spares_def)
  next
    case (Inr x)
    then obtain u where u: "mdns_search_finish_done (sys s) = Inr ((), u)" by (cases x) auto
    then have same: "responder u = responder (sys s)" using finished by (simp add: spares_def)
    have "(search_step N P async)\<^sup>*\<^sup>* s0 u" for P async
    proof (rule rtranclp.rtrancl_into_rtrancl)
      show "(search_step N P async)\<^sup>*\<^sup>* s0 (sys s)" using assms(1) by (simp add: heeds_def)
      show "search_step N P async (sys s) u" using u by (rule search_step.full)
    qed
    then show ?thesis using u same heeds_taken_well [OF assms(1)] by (simp add: spares_on_sys) (simp add: spares_def taken_well_def)
  qed
qed

lemma taken_well_reply:
  assumes "taken_well N s0 (sys s)"
  shows "ends_well N s0 (on_rsp (mdns_create_answer_from_parsed_packet q n)) s"
proof -
  have "minds (mdns_create_answer_from_parsed_packet q n) (responder (sys s))"
    using assms by (intro minds_reply) (simp add: taken_well_def)
  moreover have "(search_step N P async)\<^sup>*\<^sup>* s0 ((sys s)\<lparr>responder := u\<rparr>)" for u P async
  proof (rule rtranclp.rtrancl_into_rtrancl)
    show "(search_step N P async)\<^sup>*\<^sup>* s0 (sys s)" using assms by (simp add: taken_well_def)
  qed (rule responder_step)
  ultimately show ?thesis
    unfolding ends_well_def on_rsp_def spares_on_sys spares_rsp minds_def
    by (elim spares_mono) (use assms in \<open>simp add: taken_well_def\<close>)
qed

lemma heeds_start:
  "wf_responder (responder s) \<Longrightarrow> heeds N s (start_parsing rx head s)"
  by (simp add: heeds_def start_parsing_def)

lemma parse_body_well:
  assumes wf: "wf_responder (responder s0)" and dom: "set (search_once s0) \<subseteq> dom (objects s0)"
  shows "ends_well N s0 (parse_body U rx head n) (start_parsing rx head s0)"
proof -
  define reply :: "nat parse_prog" where
    "reply = bind (gets (\<lambda>s. \<not> do_not_reply s \<and> pcb_state (pcbs (responder (sys s)) (rx_if rx) (rx_proto rx)) > PCB_PROBE_3
                  \<and> (pp_questions (pp s) \<noteq> [] \<or> discovery s))) (\<lambda>reply.
           if \<not> reply then return n
           else bind (get_pp id) (\<lambda>q. on_rsp (mdns_create_answer_from_parsed_packet q n)))"
  have reply: "ends_well N s0 reply s" if "taken_well N s0 (sys s)" for s
    using taken_well_reply [OF that] that by (simp add: reply_def ends_well_def get_pp_def)
  have finish: "ends_well N s0 (bind (if_then auth (on_sys mdns_search_finish_done)) (\<lambda>_. reply)) s" if "heeds N s0 s" for auth s
  proof -
    have "spares (on_sys mdns_search_finish_done) s (\<lambda>_ t. spares reply t (\<lambda>_ u. taken_well N s0 (sys u)))"
      using taken_well_finish [OF that dom] by (rule spares_mono) (rule reply [unfolded ends_well_def])
    then show ?thesis using reply [OF heeds_taken_well [OF that]] by (simp add: ends_well_def)
  qed
  have records: "ends_well N s0 (bind (if b then return True
        else bind (parse_records U head (rx_data rx) off 0) (\<lambda>ok. if \<not> ok then return False
          else bind (gets authoritative) (\<lambda>auth. bind (if_then auth (on_sys mdns_search_finish_done)) (\<lambda>_. return True))))
      (\<lambda>ok. if \<not> ok then return n else reply)) s" if s: "heeds N s0 s" for b off s
  proof -
    have "spares (parse_records U head (rx_data rx) off 0) s (\<lambda>ok t. heeds N s0 t)"
      using goodD [OF good_parse_records [OF dom] s] by (rule spares_mono) simp
    then have "spares (parse_records U head (rx_data rx) off 0) s (\<lambda>ok t.
        if ok then ends_well N s0 (bind (if_then (authoritative t) (on_sys mdns_search_finish_done)) (\<lambda>_. reply)) t
        else taken_well N s0 (sys t))"
      by (rule spares_mono) (use finish heeds_taken_well in simp)
    then have "spares (parse_records U head (rx_data rx) off 0) s (\<lambda>ok t. spares (if \<not> ok then return False
          else bind (gets authoritative) (\<lambda>auth. bind (if_then auth (on_sys mdns_search_finish_done)) (\<lambda>_. return True))) t
        (\<lambda>ok u. spares (if \<not> ok then return n else reply) u (\<lambda>_ v. taken_well N s0 (sys v))))"
      by (rule spares_mono) (auto simp: ends_well_def split: if_splits)
    then show ?thesis using reply [OF heeds_taken_well [OF s]] by (simp add: ends_well_def)
  qed
  show ?thesis
    unfolding parse_body_def reply_def [symmetric]
  proof (rule ends_well_bind [OF good_parse_questions heeds_start [OF wf]])
    fix end' :: "nat option" and t assume t: "heeds N s0 t"
    then show "ends_well N s0 (case end' of None \<Rightarrow> return n
       | Some off \<Rightarrow>
         bind (gets (\<lambda>s. pp_questions (pp s) = [] \<and> \<not> discovery s)) (\<lambda>nothing.
         if hd_questions head \<noteq> 0 \<and> nothing \<and> hd_answers head = 0 then return n
         else bind (if hd_answers head = 0 \<and> hd_servers head = 0 \<and> hd_additional head = 0 then return True
                    else bind (parse_records U head (rx_data rx) off 0) (\<lambda>ok. if \<not> ok then return False
                      else bind (gets authoritative) (\<lambda>auth.
                        bind (if_then auth (on_sys mdns_search_finish_done)) (\<lambda>_. return True)))) (\<lambda>ok.
         if \<not> ok then return n else reply))) t"
      using records [OF t] heeds_taken_well [OF t]
      by (auto simp: ends_well_def spares_gets spares_bind [of "gets _"] simp del: spares_bind split: option.split)
  qed
qed

lemma taken_well_refl: "wf_responder (responder s) \<Longrightarrow> taken_well N s s"
  by (simp add: taken_well_def)

lemma taken_well_responder:
  "wf_responder u \<Longrightarrow> same_items (responder s) u \<Longrightarrow> taken_well N s (s\<lparr>responder := u\<rparr>)"
  unfolding taken_well_def by (auto intro!: r_into_rtranclp responder_step)

lemma taken_well_trans: "taken_well N s t \<Longrightarrow> taken_well N t u \<Longrightarrow> taken_well N s u"
  unfolding taken_well_def by (metis rtranclp_trans)

lemma read_header_spare: "read_header b \<noteq> Inl Use_after_free"
  by (simp add: read_header_def mdns_read_u16_def)

text \<open>
  C5. A received packet is safe for the memory of the responder, and refines the searches: whatever its bytes, on every
  outcome of the allocators, parsing it touches no freed item and no freed search, keeps the responder
  well-formed and its services registered, and what it does to the searches of the chain is a sequence of steps of
  \<open>search_step\<close>, so that every invariant of these steps holds after it.
\<close>

theorem packets_are_taken_well:
  assumes "wf_responder (responder s)" "set (search_once s) \<subseteq> dom (objects s)"
  shows "case mdns_parse_packet U rx n s of
      Inl f \<Rightarrow> f \<noteq> Use_after_free
    | Inr (k, t) \<Rightarrow> wf_responder (responder t)
        \<and> item_at ` set (services (responder t)) = item_at ` set (services (responder s))
        \<and> (search_step (netifs U) P async)\<^sup>*\<^sup>* s t"
proof -
  let ?N = "netifs U"
  let ?read = "\<lambda>u. case read_header (rx_data rx) of Inl f \<Rightarrow> Inl f
        | Inr head \<Rightarrow>
            if hd_flags head = MDNS_FLAGS_QR_AUTHORITATIVE \<and> rx_port rx \<noteq> MDNS_SERVICE_PORT then Inr (n, u)
            else if hd_questions head \<noteq> 0 \<and> hd_answers head = 0 \<and> str_null_or_empty (server_hostname (responder u))
            then Inr (n, u)
            else (case parse_body U rx head n (start_parsing rx head u) of Inl f \<Rightarrow> Inl f | Inr (n, t) \<Rightarrow> Inr (n, sys t))"
  have read: "spares ?read u (\<lambda>_ t. taken_well ?N u t)"
    if u: "wf_responder (responder u)" "set (search_once u) \<subseteq> dom (objects u)" for u
  proof (cases "read_header (rx_data rx)")
    case (Inr head)
    have "spares (parse_body U rx head n) (start_parsing rx head u) (\<lambda>_ t. taken_well ?N u (sys t))"
      using parse_body_well [OF u] by (simp add: ends_well_def)
    then show ?thesis
      using Inr taken_well_refl [OF u(1)]
      by (cases "parse_body U rx head n (start_parsing rx head u)") (auto simp: spares_def)
  next
    case (Inl f)
    then show ?thesis using read_header_spare [of "rx_data rx"] by (simp add: spares_def)
  qed
  have start: "spares (rsp malloc) s (\<lambda>_ u. wf_responder (responder u) \<and> set (search_once u) \<subseteq> dom (objects u) \<and> taken_well ?N s u)"
    unfolding spares_rsp
    by (rule spares_mono [OF quietly_spares [OF quietly_malloc [of "\<lambda>_. True"]]])
      (use assms in \<open>auto simp: quiet_wf quiet_same intro!: taken_well_responder\<close>)
  have "spares (rsp malloc) s (\<lambda>ok u. spares (if \<not> ok then return n else ?read) u (\<lambda>_ t. taken_well ?N s t))"
    using start
  proof (rule spares_mono)
    fix ok and u :: search_sys
    assume u: "wf_responder (responder u) \<and> set (search_once u) \<subseteq> dom (objects u) \<and> taken_well ?N s u"
    then have "spares ?read u (\<lambda>_ t. taken_well ?N s t)"
      by (intro spares_mono [OF read]) (auto intro: taken_well_trans)
    then show "spares (if \<not> ok then return n else ?read) u (\<lambda>_ t. taken_well ?N s t)" using u by simp
  qed
  then have "spares (mdns_parse_packet U rx n) s (\<lambda>_ t. taken_well ?N s t)"
    using taken_well_refl [OF assms(1)] by (simp add: mdns_parse_packet_def)
  then show ?thesis by (auto simp: spares_def taken_well_def split: sum.splits)
qed

lemma wf_searching: "wf_responder (responder searching)"
  using wf_car_responder
  by (simp add: searching_def running_system_def no_searches_def wf_responder_def wf_pcb_def idle_pcb_def wf_tx_def wf_answers_def
      wf_answer_def live_def)

theorem packets_are_taken_well_witness:
  "\<exists>k t. mdns_parse_packet car_surroundings (received (packet_head 0x8400 0 1 @ tv_answer)) 0 searching = Inr (k, t)
    \<and> map_option (map r_instance \<circ> results) (objects t 0) = Some [Some (bytes_of ''lounge'')]
    \<and> wf_responder (responder t) \<and> item_at ` set (services (responder t)) = {1}
    \<and> (search_step car_netifs unlimited False)\<^sup>*\<^sup>* searching t"
proof -
  let ?run = "mdns_parse_packet car_surroundings (received (packet_head 0x8400 0 1 @ tv_answer)) 0 searching"
  have "case ?run of Inl f \<Rightarrow> False | Inr (k, t) \<Rightarrow> map_option (map r_instance \<circ> results) (objects t 0) = Some [Some (bytes_of ''lounge'')]"
    by code_simp
  then obtain k t where run: "?run = Inr (k, t)"
    and got: "map_option (map r_instance \<circ> results) (objects t 0) = Some [Some (bytes_of ''lounge'')]"
    by (auto split: sum.splits)
  have "set (search_once searching) \<subseteq> dom (objects searching)" by (simp add: searching_def)
  from packets_are_taken_well [OF wf_searching this, where U = car_surroundings and rx = "received (packet_head 0x8400 0 1 @ tv_answer)"
      and n = 0 and P = unlimited and async = False] run
  have "wf_responder (responder t)" "item_at ` set (services (responder t)) = {1}"
    "(search_step car_netifs unlimited False)\<^sup>*\<^sup>* searching t"
    by (simp_all add: car_surroundings_def searching_def running_system_def no_searches_def car_responder_def car_service_def)
  then show ?thesis using run got by simp
qed

section \<open>Packets that are not taken well\<close>



end
