(* ===== verification/Spec2Isabelle.thy ===== *)
theory Spec2Isabelle
  imports Esp_Color Bt_Gatts App_Main Mdns_Parse
begin

text \<open>
  A model of the firmware of a WiFi and BLE toy car on an ESP32-C3: the program's own C sources
  under \<open>src/main\<close>, and the core of the mDNS responder it advertises itself with, the managed
  component \<open>src/managed_components/espressif__mdns\<close>.

  \<^bold>\<open>The program.\<close> \<open>main.c\<close> initialises the drivers and starts the permanent tasks. The car learns its
  WiFi credentials over BLE (\<open>bt_gatts.c\<close>), joins the network (\<open>my_wifi.c\<close>), announces its name
  over mDNS (\<open>mdns.c\<close>) and receives JSON messages over UCP (\<open>my_ucp.c\<close>). \<open>handle_message.c\<close>
  decodes a message and drives the motors (\<open>drv8833_pwm.c\<close>), the four LEDs (\<open>led_strip.c\<close>,
  \<open>led_strip_encoder.c\<close>), the loudspeaker (\<open>sound.c\<close>, \<open>my_play_mp3.c\<close>) and the visualisation of
  music (\<open>audio_convert.c\<close>). Scripts such as \<open>U4,D2\<close> are played by one task each for notes, motors
  and lights; a combined run starts all three and restarts them as long as it is active.

  \<^bold>\<open>How C becomes HOL.\<close> \<open>Prelude\<close> has the type of a piece of code: a function from a state to a
  value and a new state or to the \<open>fault\<close> that stops the chip (a null pointer, an access out of
  bounds, a use after free, an abort, an undefined overflow), with the combinators \<open>bind\<close>, \<open>block\<close>,
  \<open>if_then\<close>. Integers keep the width the source gives them: words where they wrap, \<open>int\<close> with an
  overflow check where C leaves overflow undefined. \<open>CFloat\<close> has the floating point the colour and
  sound code uses, with rounding as a parameter. \<open>Platform\<close> has the \<open>world\<close> of \<open>src/main\<close>: one record
  of the static variables of all files and of the trace of calls made. The calls themselves
  (FreeRTOS, ESP-IDF drivers, radio stacks, ESP-ADF, UCP, cJSON) are not part of the repository:
  an environment \<open>E\<close> answers each call as any function of the calls before it.

  \<^bold>\<open>Theories of src/main.\<close>
  \<^item> \<open>Utils\<close>: \<open>parse_cmd\<close> with its searches and buffer writes, and the \<open>script_loop\<close> locale, the loop
    that notes, motors and lights share, with the schedule a script stands for.
  \<^item> \<open>Drv8833\<close>: the two half bridges and the motor script task. Locale \<open>half_bridge\<close>, interpreted for
    motor A and motor B. The task plays exactly the schedule of its script.
  \<^item> \<open>Led_Encoder\<close>, \<open>Led_Strip\<close>, \<open>Led_Script\<close>, \<open>Run_Cmds\<close>: frames, the renderer task, blinking and
    chasing, the light script task, and the encoder whose pulses are the bits of the frame.
  \<^item> \<open>Gpio_Control\<close>: pins, wheel counters, the task that stops a motor at a distance.
  \<^item> \<open>Esp_Color\<close>: conversions between HSV and RGB in integers and in floating point.
  \<^item> \<open>Play_Mp3\<close>: choosing a file and feeding it to the decoder.
  \<^item> \<open>Synth\<close>, \<open>Sound\<close>: samples of the instruments, the envelope, the note and the MP3 task, and their
    mutex for the I2S channel. Locales \<open>stoppable_task\<close> and \<open>restartable_task\<close> (\<open>Platform\<close>) state how
    a task is stopped and restarted, and are interpreted for all four script tasks.
  \<^item> \<open>Audio_Convert\<close>: sound to light, with the patterns it shows.
  \<^item> \<open>Network\<close>, \<open>Bt_Gatts\<close>: WiFi, the start of UCP, and the GATT server with prepared writes.
  \<^item> \<open>Handle_Message\<close>: the JSON messages, with the lifetime of parsed objects.
  \<^item> \<open>App_Main\<close>: battery, application tasks, start-up.

  \<^bold>\<open>Theories of mdns.c.\<close>
  \<^item> \<open>Mdns_Packet\<close>: the 1460-byte packet and its cursor (\<open>_mdns_append_u8\<close> \<dots>).
  \<^item> \<open>Mdns_Name\<close>: reading and classifying names (\<open>_mdns_read_fqdn\<close>, \<open>_mdns_parse_fqdn\<close>), with an
    inductive relation \<open>spells\<close> of packets and labels that the reader refines.
  \<^item> \<open>Mdns_Fqdn\<close>: writing names with compression; what is written is read back.
  \<^item> \<open>Mdns_Records\<close>: the record writers and the name chosen after a collision.
  \<^item> \<open>Mdns_Collision\<close>: TXT data taken apart, and the decisions after a collision.
  \<^item> \<open>Mdns_Service\<close>: the registry of services and hosts, and whose a name is.
  \<^item> \<open>Mdns_Queue\<close>: the transmit queue between the timer task and the mDNS task. The two tasks are the
    inductive relation \<open>tx_step\<close>; \<open>tx_reachable\<close> is what their interleavings reach.
  \<^item> \<open>Mdns_Pcb\<close>: probing, announcing and transmitting on one interface, over the record
    \<open>mdns_responder\<close> with a heap that may refuse any allocation.
  \<^item> \<open>Mdns_Actions\<close>: the actions of the mDNS task on names and services.
  \<^item> \<open>Mdns_Dispatch\<close>: from a packet of the queue to the bytes on the wire
    (\<open>_mdns_dispatch_tx_packet\<close>), with the records a packet stands for as its specification.
  \<^item> \<open>Mdns_Hosts\<close>: delegated hosts. Locale \<open>name_table\<close>, interpreted on the list of hosts.
  \<^item> \<open>Mdns_Answer\<close>: the answer to the questions of a received packet.
  \<^item> \<open>Mdns_Search\<close>: searches, their results and packets, and their life between clients, timer and
    mDNS task: the inductive relation \<open>search_step\<close> over a store of the searches not freed.
  \<^item> \<open>Mdns_Ifaces\<close>: system events that enable, disable and announce an interface
    (\<open>perform_event_action\<close>), claims of an address and two interfaces on one subnet.
  \<^item> \<open>Mdns_Parse\<close>: a received packet (\<open>mdns_parse_packet\<close>), over the responder and the searches: its
    questions with the reply, its records with what they tell the searches and the names given up.

  \<^bold>\<open>What the lemmas show.\<close> The script tasks refine the schedule of their script; the message handler
  owns what it parses and starts each sound once; start-up creates what is used before it is used;
  locks and buffers are given back on every path; encoders, records, names, long writes and TXT
  items round trip; hue conversions, patterns and name buffers stay in bounds. For mDNS: the state
  machine of an interface keeps its invariant under all operations and failing allocations, takes
  a name nobody claims through three probes and three announcements, and comes to an end; the
  queue loses nothing until the clock wraps; an answer holds exactly what was asked for, and a
  packet that fits is written with a header that counts its records; a search without a limit of
  results is neither lost nor used after it was freed; events keep the interfaces consistent; and
  whatever bytes a received packet has, parsing it follows no freed pointer, keeps the responder
  well-formed and refines \<open>search_step\<close>. The errors proved are a script freed while it is played, a question left pointing into a freed service, a removed host that the
  next packet reads, a host passed over by a question, and the packet lost when the clock wraps;
  limited and deleted searches used after they were freed; a packet that makes the responder follow
  \<open>NULL\<close>, two that are read behind their end, and a claim that goes unnoticed behind an answer.

  \<^bold>\<open>Bounds and fuel.\<close> Loops without end (the renderer, the GPIO task, the application loops) take
  the number of their turns. Searches through a packet and reading a compressed name need no fuel:
  a pointer must lead to a smaller offset, which is the measure of the recursion. The encoder is
  called a number of times bounded by the symbols that remain. The queue's safety is stated up to
  the wrap of its clock, after which it fails.

  \<^bold>\<open>Not modelled.\<close> The state machine logs the packets it sends; their bytes are those of
  \<open>Mdns_Dispatch\<close>, which is not run inside it. Each action of the mDNS task is modelled, but not the
  switch that selects it. The calls of the mDNS API that copy their arguments and post an action,
  \<open>mdns_init\<close> and \<open>mdns_free\<close>, the handlers that post system events and the lwIP sockets are not
  modelled: they are glue to FreeRTOS and lwIP, which the repository does not hold. Log output is
  left out everywhere. nghttp2, esp-dsp and the loudness library \<open>libconvert.a\<close> are third-party
  code the program links and, but for the last, never calls.
\<close>

end
